(* ===== verification/Prelude.thy ===== *)
theory Prelude
  imports Complex_Main "HOL-Library.Word" "HOL-Library.Multiset"
begin

text \<open>
  The part of C++ and of its standard library that every component of the order book engine
  uses: machine integers, undefined behaviour as an error value, \<open>std::sort\<close> and
  \<open>std::map\<close>, and the lemma collections the component theories add to.

  \<^item> \<open>uint64_t\<close> and \<open>uint32_t\<close> are \<open>64 word\<close> and \<open>32 word\<close>; \<open>size_t\<close> values that
    index an array or count elements are \<open>nat\<close>, with \<open>SIZE_MAX\<close> the sentinel of the code.
  \<^item> An operation that can reach undefined behaviour (or lock up) returns \<open>cpp_error + 'a\<close>.
  \<^item> \<open>std::sort\<close> is \<open>sort_by\<close>, an insertion sort by the comparator. The standard leaves the
    order of equivalent elements open; \<open>sort_by\<close> keeps the input order there. The contract the
    clients use is the locale \<open>comparator\<close>, interpreted for ascending and descending keys.
  \<^item> \<open>std::map\<close> is an association list sorted by key (\<open>omap_put\<close>, \<open>omap_erase\<close>, \<open>map_of\<close>),
    so that iteration, \<open>begin\<close> and \<open>rbegin\<close> see the keys in order. Its contract is the locale
    \<open>ordered_map\<close>.
\<close>

named_theorems book_simps \<open>unfoldings and facts used to compute with the level arrays\<close>
named_theorems map_simps \<open>facts about the maps and tables of the components\<close>

type_synonym u64 = "64 word"
type_synonym u32 = "32 word"

definition SIZE_MAX :: nat where
  "SIZE_MAX = 2 ^ 64 - 1"

lemma u64_bound: "unat (v :: u64) < 2 ^ 64"
proof -
  have "unat v < 2 ^ LENGTH(64)" by (rule unsigned_less)
  then show ?thesis by simp
qed

lemma unat_add_u64: "unat a + unat b < 2 ^ 64 \<Longrightarrow> unat (a + b) = unat a + unat b" for a b :: u64
  by (simp add: unat_word_ariths)

lemma u64_less_Suc: "unat a + 1 < 2 ^ 64 \<Longrightarrow> a < a + 1" for a :: u64
  using unat_add_u64 [of a 1] by (simp add: word_less_nat_alt)

section \<open>Undefined behaviour and blocking as values\<close>

datatype cpp_error =
    UB_float_to_int     \<comment> \<open>conversion of a floating value outside the integer type's range\<close>
  | UB_signed_overflow  \<comment> \<open>signed integer overflow\<close>
  | UB_shift            \<comment> \<open>shift by at least the width of the type\<close>
  | UB_array_index      \<comment> \<open>array access out of bounds\<close>
  | UB_end_iterator     \<comment> \<open>dereference of a past-the-end iterator\<close>
  | UB_unordered_key    \<comment> \<open>NaN used as the key of an ordered container\<close>
  | UB_use_after_free   \<comment> \<open>access to or deletion of an object that was already deleted\<close>
  | UB_uninitialised    \<comment> \<open>use of a variable that was never written\<close>
  | Foreign_enumerator  \<comment> \<open>a value outside the listed enumerators, which the model does not follow\<close>
  | Std_terminate       \<comment> \<open>\<open>std::terminate\<close>: a joinable thread is destroyed, or an exception leaves a destructor\<close>
  | Self_deadlock       \<comment> \<open>a thread locks a mutex that it already holds\<close>
  | Endless_retry       \<comment> \<open>a retry loop that never ends\<close>

type_synonym 'a result = "cpp_error + 'a"

fun bindE :: "'a result \<Rightarrow> ('a \<Rightarrow> 'b result) \<Rightarrow> 'b result" where
  "bindE (Inl e) f = Inl e"
| "bindE (Inr x) f = f x"

lemma bindE_eq_Inl: "bindE r f = Inl e \<longleftrightarrow> r = Inl e \<or> (\<exists>x. r = Inr x \<and> f x = Inl e)"
  by (cases r) auto

lemma bindE_eq_Inr: "bindE r f = Inr y \<longleftrightarrow> (\<exists>x. r = Inr x \<and> f x = Inr y)"
  by (cases r) auto

section \<open>Threads\<close>

text \<open>
  A \<open>std::thread\<close> that runs a loop: in the loop, after its end, or joined. In the first two cases it is
  joinable, and the destruction of its object is \<open>Std_terminate\<close>. No value: there is no thread object.
\<close>

datatype io_thread = Looping | Left_loop | Joined

definition joinable :: "io_thread option \<Rightarrow> bool" where
  "joinable t \<longleftrightarrow> t = Some Looping \<or> t = Some Left_loop"

section \<open>std::sort\<close>

fun ins_by :: "('a \<Rightarrow> 'a \<Rightarrow> bool) \<Rightarrow> 'a \<Rightarrow> 'a list \<Rightarrow> 'a list" where
  "ins_by lt x [] = [x]"
| "ins_by lt x (y # ys) = (if lt y x then y # ins_by lt x ys else x # y # ys)"

definition sort_by :: "('a \<Rightarrow> 'a \<Rightarrow> bool) \<Rightarrow> 'a list \<Rightarrow> 'a list" where
  "sort_by lt xs = foldr (ins_by lt) xs []"

lemma mset_ins_by: "mset (ins_by lt x ys) = add_mset x (mset ys)"
  by (induction ys) auto

lemma mset_sort_by [simp]: "mset (sort_by lt xs) = mset xs"
  by (induction xs) (simp_all add: sort_by_def mset_ins_by)

lemma set_sort_by [simp]: "set (sort_by lt xs) = set xs"
  by (metis mset_sort_by set_mset_mset)

lemma length_sort_by [simp]: "length (sort_by lt xs) = length xs"
  by (metis mset_sort_by size_mset)

lemma distinct_sort_by [simp]: "distinct (sort_by lt xs) = distinct xs"
  by (metis mset_sort_by mset_eq_imp_distinct_iff)

lemma sort_by_eq_Nil [simp]: "sort_by lt xs = [] \<longleftrightarrow> xs = []"
  by (metis length_0_conv length_sort_by)

lemma ins_by_cong:
  "(\<And>y. y \<in> set ys \<Longrightarrow> lt y x = lt' y x) \<Longrightarrow> ins_by lt x ys = ins_by lt' x ys"
  by (induction ys) auto

lemma sort_by_cong:
  "(\<And>x y. x \<in> set xs \<Longrightarrow> y \<in> set xs \<Longrightarrow> lt x y = lt' x y) \<Longrightarrow> sort_by lt xs = sort_by lt' xs"
proof (induction xs)
  case (Cons x xs)
  have "ins_by lt x (sort_by lt xs) = ins_by lt' x (sort_by lt xs)"
    using Cons.prems by (intro ins_by_cong) simp
  with Cons show ?case by (simp add: sort_by_def)
qed (simp add: sort_by_def)

text \<open>The usual loop that keeps the best element seen so far.\<close>

definition pick :: "('a \<Rightarrow> 'a \<Rightarrow> bool) \<Rightarrow> 'a \<Rightarrow> 'a option \<Rightarrow> 'a option" where
  "pick lt x best = (case best of None \<Rightarrow> Some x | Some l \<Rightarrow> if lt x l then Some x else best)"

lemma fold_pick_None: "fold (pick lt) xs best = None \<longleftrightarrow> best = None \<and> xs = []"
  by (induction xs arbitrary: best) (auto simp: pick_def split: option.splits if_splits)

lemma fold_pick_in: "fold (pick lt) xs best = Some l \<Longrightarrow> best = Some l \<or> l \<in> set xs"
  by (induction xs arbitrary: best) (fastforce simp: pick_def split: option.splits if_splits)+

text \<open>What \<open>std::sort\<close> demands of its comparator, and what it then promises.\<close>

locale comparator =
  fixes lt :: "'a \<Rightarrow> 'a \<Rightarrow> bool"
  assumes asym: "lt a b \<Longrightarrow> \<not> lt b a"
    and neg_trans: "\<not> lt a b \<Longrightarrow> \<not> lt b c \<Longrightarrow> \<not> lt a c"
begin

lemma ins_sorted:
  "sorted_wrt (\<lambda>a b. \<not> lt b a) ys \<Longrightarrow> sorted_wrt (\<lambda>a b. \<not> lt b a) (ins_by lt x ys)"
proof (induction ys)
  case (Cons y ys)
  have s: "set (ins_by lt x ys) = insert x (set ys)"
    by (metis mset_ins_by set_mset_add_mset_insert set_mset_mset)
  show ?case
  proof (cases "lt y x")
    case True
    with Cons s asym show ?thesis by auto
  next
    case False
    with Cons.prems neg_trans show ?thesis by (auto dest: asym)
  qed
qed simp

lemma sorted_sort_by: "sorted_wrt (\<lambda>a b. \<not> lt b a) (sort_by lt xs)"
  by (induction xs) (simp_all add: sort_by_def ins_sorted)

lemma hd_sort_by: "x \<in> set xs \<Longrightarrow> \<not> lt x (hd (sort_by lt xs))"
proof -
  assume x: "x \<in> set xs"
  then obtain y ys where e: "sort_by lt xs = y # ys"
    by (metis empty_iff list.set(1) neq_Nil_conv set_sort_by)
  with x have "x = y \<or> x \<in> set ys"
    by (metis set_ConsD set_sort_by)
  with e sorted_sort_by [of xs] show ?thesis
    using asym by (metis list.sel(1) sorted_wrt.simps(2))
qed

lemma fold_pick_best:
  "fold (pick lt) xs best = Some l \<Longrightarrow> x \<in> set_option best \<union> set xs \<Longrightarrow> \<not> lt x l"
proof (induction xs arbitrary: best x)
  case Nil
  then show ?case using asym by auto
next
  case (Cons y ys)
  have f: "fold (pick lt) ys (pick lt y best) = Some l" using Cons.prems(1) by simp
  obtain m where m: "pick lt y best = Some m" "\<not> lt y m" "\<forall>z\<in>set_option best. \<not> lt z m"
  proof (cases best)
    case None
    then show thesis using that [of y] asym [of y y] by (auto simp: pick_def)
  next
    case (Some z)
    then show thesis using that [of y] that [of z] asym [of y y] asym [of z z] asym [of y z]
      by (cases "lt y z") (auto simp: pick_def)
  qed
  have "\<not> lt m l" using Cons.IH [OF f, of m] m(1) by simp
  with Cons.IH [OF f, of x] Cons.prems(2) m show ?case using neg_trans by auto
qed

end

interpretation asc: comparator "\<lambda>a b. key a < (key b :: 'k::linorder)" for key
  by unfold_locales auto

interpretation desc: comparator "\<lambda>a b. key b < (key a :: 'k::linorder)" for key
  by unfold_locales auto

section \<open>std::map\<close>

type_synonym ('k, 'v) omap = "('k \<times> 'v) list"

abbreviation omap_wf :: "('k::linorder, 'v) omap \<Rightarrow> bool" where
  "omap_wf m \<equiv> sorted_wrt (<) (map fst m)"

fun omap_put :: "'k::linorder \<Rightarrow> 'v \<Rightarrow> ('k, 'v) omap \<Rightarrow> ('k, 'v) omap" where
  "omap_put k v [] = [(k, v)]"
| "omap_put k v ((k', v') # m) =
     (if k < k' then (k, v) # (k', v') # m
      else if k = k' then (k, v) # m
      else (k', v') # omap_put k v m)"

definition omap_erase :: "'k \<Rightarrow> ('k, 'v) omap \<Rightarrow> ('k, 'v) omap" where
  "omap_erase k m = filter (\<lambda>(k', _). k' \<noteq> k) m"

lemma set_map_fst_put: "fst ` set (omap_put k v m) = insert k (fst ` set m)"
  by (induction k v m rule: omap_put.induct) (simp_all add: insert_commute)

lemma omap_wf_put [simp]: "omap_wf m \<Longrightarrow> omap_wf (omap_put k v m)"
proof (induction k v m rule: omap_put.induct)
  case (2 k v k' v' m)
  have "\<forall>j \<in> fst ` set (omap_put k v m). k' < j" if "k' < k"
    using 2 that by (auto simp: set_map_fst_put)
  with 2 show ?case by (auto simp: set_map_fst_put dest: less_trans)
qed simp

lemma omap_wf_erase [simp]: "omap_wf m \<Longrightarrow> omap_wf (omap_erase k m)"
  by (auto simp: omap_erase_def sorted_wrt_map intro: sorted_wrt_filter)

lemma map_of_put: "map_of (omap_put k v m) = (map_of m)(k \<mapsto> v)"
  by (induction m) (auto simp: fun_eq_iff)

lemma map_of_erase: "map_of (omap_erase k m) = (map_of m)(k := None)"
  by (induction m) (auto simp: omap_erase_def fun_eq_iff)

lemma omap_wf_distinct: "omap_wf m \<Longrightarrow> distinct (map fst m)"
  by (simp add: strict_sorted_iff)

lemma map_of_omap_eq: "omap_wf m \<Longrightarrow> map_of m k = Some v \<longleftrightarrow> (k, v) \<in> set m"
  by (simp add: omap_wf_distinct map_of_eq_Some_iff)

lemma omap_hd_least: "omap_wf m \<Longrightarrow> (k, v) \<in> set m \<Longrightarrow> fst (hd m) \<le> k"
  by (cases m) (auto simp: less_imp_le)

lemma omap_last_greatest: "omap_wf m \<Longrightarrow> (k, v) \<in> set m \<Longrightarrow> k \<le> fst (last m)"
  by (induction m) (auto simp: less_imp_le)

locale ordered_map =
  fixes empty :: 'm
    and put :: "'k::linorder \<Rightarrow> 'v \<Rightarrow> 'm \<Rightarrow> 'm"
    and erase :: "'k \<Rightarrow> 'm \<Rightarrow> 'm"
    and lookup :: "'m \<Rightarrow> 'k \<Rightarrow> 'v option"
    and items :: "'m \<Rightarrow> ('k \<times> 'v) list"
    and wf :: "'m \<Rightarrow> bool"
  assumes wf_empty: "wf empty"
    and wf_put: "wf m \<Longrightarrow> wf (put k v m)"
    and wf_erase: "wf m \<Longrightarrow> wf (erase k m)"
    and items_sorted: "wf m \<Longrightarrow> sorted_wrt (<) (map fst (items m))"
    and items_lookup: "wf m \<Longrightarrow> lookup m k = Some v \<longleftrightarrow> (k, v) \<in> set (items m)"
    and lookup_empty: "lookup empty k = None"
    and lookup_put: "wf m \<Longrightarrow> lookup (put k v m) j = (if j = k then Some v else lookup m j)"
    and lookup_erase: "wf m \<Longrightarrow> lookup (erase k m) j = (if j = k then None else lookup m j)"
begin

lemma put_put: "wf m \<Longrightarrow> lookup (put k v (put k w m)) j = lookup (put k v m) j"
  by (simp add: lookup_put wf_put)

lemma erase_put: "wf m \<Longrightarrow> lookup (erase k (put k v m)) j = lookup (erase k m) j"
  by (simp add: lookup_put lookup_erase wf_put)

lemma items_put: "wf m \<Longrightarrow>
    set (items (put k v m)) = insert (k, v) {(j, w). (j, w) \<in> set (items m) \<and> j \<noteq> k}"
  by (auto simp: wf_put lookup_put simp flip: items_lookup split: if_splits)

lemma items_erase: "wf m \<Longrightarrow>
    set (items (erase k m)) = {(j, w). (j, w) \<in> set (items m) \<and> j \<noteq> k}"
  by (auto simp: wf_erase lookup_erase simp flip: items_lookup split: if_splits)

end

interpretation omap: ordered_map "[]" omap_put omap_erase map_of id omap_wf
  by unfold_locales (simp_all add: map_of_put map_of_erase map_of_omap_eq)

end
