(* ===== verification/Binary64.thy ===== *)
theory Binary64
  imports Prelude "HOL-Library.Log_Nat"
begin

text \<open>
  The C++ \<open>double\<close>: IEEE 754 binary64 with round to nearest, ties to even. A finite value is a
  rational, and every arithmetic operation is the exact rational operation followed by the
  rounding \<open>rnd\<close> to 53 significant bits (with the subnormal range below \<open>2 ^ -1022\<close> and overflow
  to infinity at \<open>2 ^ 1024\<close>). The two zeros are one value, so a division by zero takes its sign
  from the numerator, and NaN carries no payload; nothing else of the format is abstracted.

  \<^item> \<open>rexp\<close>, \<open>ulp_exp\<close>, \<open>rne\<close>, \<open>rnd\<close>: the binade of a rational, the exponent of its last place,
    rounding to an integer and rounding to a binary64 value.
  \<^item> \<open>dadd\<close>, \<open>dsub\<close>, \<open>dmul\<close>, \<open>ddiv\<close>, \<open>dlt\<close>, \<open>dle\<close>, \<open>deq\<close>: the operators; \<open>dmin\<close>, \<open>dmax\<close>:
    \<open>std::min\<close> and \<open>std::max\<close>.
  \<^item> \<open>double_of_nat\<close>, \<open>double_of_int\<close>, \<open>u64_of_double\<close>: the integer conversions. The last one is
    undefined outside the range of \<open>uint64_t\<close>.
  \<^item> The locale \<open>rounding\<close> holds what clients rely on (rounding is monotone, fixes representable
    values, and doubling is exact) and the consequences they use: midpoints stay between their
    ends, and a ratio \<open>(a - b) / (a + b)\<close> stays within the unit interval.
\<close>

section \<open>Rounding\<close>

definition rexp :: "rat \<Rightarrow> int" where
  "rexp x = (let (a, b) = quotient_of x; k = bitlen a - bitlen b
             in if 2 powi k \<le> x then k else k - 1)"

definition rne :: "rat \<Rightarrow> int" where
  "rne y = (let f = \<lfloor>y\<rfloor>; d = y - of_int f
            in if d < 1 / 2 then f
               else if 1 / 2 < d then f + 1
               else if even f then f else f + 1)"

definition ulp_exp :: "rat \<Rightarrow> int" where
  "ulp_exp x = max (rexp \<bar>x\<bar> - 52) (- 1074)"

definition rnd :: "rat \<Rightarrow> rat" where
  "rnd x = (if x = 0 then 0
            else of_int (rne (x / 2 powi ulp_exp x)) * 2 powi ulp_exp x)"

lemma pow2_pos [simp]: "(0::rat) < 2 powi e"
  by simp

lemma pow2_ne0 [simp]: "(2::rat) powi e \<noteq> 0"
  by simp

lemma pow2_less_iff [simp]: "(2::rat) powi m < 2 powi n \<longleftrightarrow> m < n"
proof
  assume l: "(2::rat) powi m < 2 powi n"
  show "m < n"
  proof (rule ccontr)
    assume "\<not> m < n"
    then have "(2::rat) powi n \<le> 2 powi m" by (intro power_int_increasing) auto
    with l show False by simp
  qed
qed (auto intro: power_int_strict_increasing)

lemma pow2_le_iff [simp]: "(2::rat) powi m \<le> 2 powi n \<longleftrightarrow> m \<le> n"
  by (meson linorder_not_less pow2_less_iff)

lemma rexp_bounds:
  assumes "0 < x"
  shows "2 powi rexp x \<le> x" and "x < 2 powi (rexp x + 1)"
proof -
  obtain a b where q: "quotient_of x = (a, b)" by fastforce
  have b: "0 < b" using quotient_of_denom_pos [OF q] .
  have x: "x = of_int a / of_int b" using quotient_of_div [OF q] .
  with assms b have a: "0 < a"
    by (simp add: zero_less_divide_iff)
  let ?k = "bitlen a - bitlen b"
  have P: "(2::int) ^ nat (bitlen c - 1) \<le> c \<and> c < 2 ^ nat (bitlen c)
           \<and> 0 \<le> bitlen c - 1" if "0 < c" for c
    using bitlen_bounds [OF that] bitlen_eq_zero_iff [of c] bitlen_nonneg [of c] that by linarith
  have R: "2 powi (bitlen c - 1) \<le> (of_int c :: rat) \<and> (of_int c :: rat) < 2 powi bitlen c"
    if "0 < c" for c
  proof -
    have "(of_int (2 ^ nat (bitlen c - 1)) :: rat) \<le> of_int c"
      and "(of_int c :: rat) < of_int (2 ^ nat (bitlen c))"
      using P [OF that] by (simp_all only: of_int_le_iff of_int_less_iff)
    with P [OF that] show ?thesis by (simp add: power_int_nonneg_exp)
  qed
  note Ra = R [OF a] and Rb = R [OF b]
  have b0: "(0::rat) < of_int b" using b by simp
  have lo: "2 powi (?k - 1) < x"
  proof -
    have "2 powi (?k - 1) * of_int b < (2::rat) powi (?k - 1) * 2 powi bitlen b"
      using Rb by simp
    also have "\<dots> = 2 powi (bitlen a - 1)" by (simp flip: power_int_add)
    also have "\<dots> \<le> of_int a" using Ra by simp
    finally show ?thesis using b0 by (simp add: x pos_less_divide_eq)
  qed
  have hi: "x < 2 powi (?k + 1)"
  proof -
    have "(of_int a :: rat) < 2 powi bitlen a" using Ra by simp
    also have "\<dots> = 2 powi (?k + 1) * 2 powi (bitlen b - 1)" by (simp flip: power_int_add)
    also have "\<dots> \<le> 2 powi (?k + 1) * of_int b" using Rb by simp
    finally show ?thesis using b0 by (simp add: x pos_divide_less_eq)
  qed
  show "2 powi rexp x \<le> x" and "x < 2 powi (rexp x + 1)"
    using lo hi by (auto simp: rexp_def q Let_def)
qed

lemma rexp_unique:
  assumes "2 powi e \<le> x" and "x < 2 powi (e + 1)"
  shows "rexp x = e"
proof -
  have x: "0 < x" using assms(1) pow2_pos [of e] by linarith
  have "(2::rat) powi e < 2 powi (rexp x + 1)" and "(2::rat) powi rexp x < 2 powi (e + 1)"
    using rexp_bounds [OF x] assms by linarith+
  then show ?thesis by (simp only: pow2_less_iff)
qed

lemma rexp_mono: "0 < x \<Longrightarrow> x \<le> y \<Longrightarrow> rexp x \<le> rexp y"
proof -
  assume x: "0 < x" and xy: "x \<le> y"
  have "(2::rat) powi rexp x < 2 powi (rexp y + 1)"
    using rexp_bounds [of x] rexp_bounds [of y] x xy by linarith
  then show ?thesis by (simp only: pow2_less_iff)
qed

subsection \<open>Round to nearest, ties to even\<close>

lemma rne_of_int [simp]: "rne (of_int n) = n"
  by (simp add: rne_def)

lemma rne_near: "\<bar>of_int (rne y) - y\<bar> \<le> 1 / 2"
proof -
  have "of_int \<lfloor>y\<rfloor> \<le> y" and "y < of_int \<lfloor>y\<rfloor> + 1" by linarith+
  then show ?thesis by (auto simp: rne_def Let_def)
qed

lemma rne_floor: "\<lfloor>y\<rfloor> \<le> rne y" "rne y \<le> \<lfloor>y\<rfloor> + 1"
  by (auto simp: rne_def Let_def)

lemma rne_mono:
  assumes "x \<le> y"
  shows "rne x \<le> rne y"
proof (cases "\<lfloor>x\<rfloor> = \<lfloor>y\<rfloor>")
  case True
  with assms show ?thesis by (auto simp: rne_def Let_def)
next
  case False
  with assms floor_mono [OF assms] have "\<lfloor>x\<rfloor> + 1 \<le> \<lfloor>y\<rfloor>" by linarith
  then show ?thesis using rne_floor [of x] rne_floor [of y] by linarith
qed

lemma rne_minus: "rne (- y) = - rne y"
proof (cases "y = of_int \<lfloor>y\<rfloor>")
  case True
  then show ?thesis by (metis of_int_minus rne_of_int)
next
  case False
  have "of_int \<lfloor>y\<rfloor> \<le> y" and "y < of_int \<lfloor>y\<rfloor> + 1" by linarith+
  with False have fl: "\<lfloor>- y\<rfloor> = - \<lfloor>y\<rfloor> - 1"
    by (intro floor_unique) (auto simp: less_le)
  show ?thesis by (auto simp: rne_def Let_def fl field_simps)
qed

subsection \<open>Rounding to binary64\<close>

lemma rnd_0 [simp]: "rnd 0 = 0"
  by (simp add: rnd_def)

lemma ulp_exp_minus [simp]: "ulp_exp (- x) = ulp_exp x"
  by (simp add: ulp_exp_def)

lemma ulp_exp_ge: "- 1074 \<le> ulp_exp x"
  by (simp add: ulp_exp_def)

lemma rnd_minus [simp]: "rnd (- x) = - rnd x"
  by (simp add: rnd_def rne_minus)

lemma rnd_le_grid:
  assumes "x \<le> of_int n * 2 powi ulp_exp x"
  shows "rnd x \<le> of_int n * 2 powi ulp_exp x"
proof (cases "x = 0")
  case False
  from assms have "x / 2 powi ulp_exp x \<le> of_int n" by (simp add: pos_divide_le_eq)
  then have "rne (x / 2 powi ulp_exp x) \<le> n" using rne_mono rne_of_int by metis
  then show ?thesis using False by (simp add: rnd_def)
qed (use assms in simp)

lemma rnd_ge_grid:
  assumes "of_int n * 2 powi ulp_exp x \<le> x"
  shows "of_int n * 2 powi ulp_exp x \<le> rnd x"
  using rnd_le_grid [of "- x" "- n"] assms by simp

lemma rnd_eq_grid: "x = of_int n * 2 powi ulp_exp x \<Longrightarrow> rnd x = x"
  by (metis order.antisym order.refl rnd_ge_grid rnd_le_grid)

lemma pow2_grid:
  assumes "e \<le> f"
  shows "(2::rat) powi f = of_int (2 ^ nat (f - e)) * 2 powi e"
proof -
  have "(2::rat) powi f = 2 powi (f - e) * 2 powi e" by (simp flip: power_int_add)
  with assms show ?thesis by (simp add: power_int_nonneg_exp)
qed

lemma rnd_nonneg: "0 \<le> x \<Longrightarrow> 0 \<le> rnd x"
  using rnd_ge_grid [of 0 x] by simp

lemma rnd_mono_pos:
  assumes x: "0 < x" and xy: "x \<le> y"
  shows "rnd x \<le> rnd y"
proof -
  have le: "ulp_exp x \<le> ulp_exp y"
    using rexp_mono [OF x xy] x xy by (simp add: ulp_exp_def)
  show ?thesis
  proof (cases "ulp_exp x = ulp_exp y")
    case True
    have "rne (x / 2 powi ulp_exp y) \<le> rne (y / 2 powi ulp_exp y)"
      using xy by (intro rne_mono) (simp add: divide_right_mono)
    with x xy show ?thesis by (simp add: rnd_def True)
  next
    case False
    with le have f: "ulp_exp y = rexp y - 52" and rr: "rexp x < rexp y"
      using x xy by (auto simp: ulp_exp_def max_def split: if_splits)
    have ge: "ulp_exp x \<le> rexp y" using le f by simp
    note G = pow2_grid [OF ge]
    have "x \<le> 2 powi rexp y"
      using rexp_bounds(2) [OF x] rr pow2_le_iff [of "rexp x + 1" "rexp y"] by linarith
    then have 1: "rnd x \<le> 2 powi rexp y"
      unfolding G by (rule rnd_le_grid)
    have G': "(2::rat) powi rexp y = of_int (2 ^ nat 52) * 2 powi ulp_exp y"
      using pow2_grid [of "ulp_exp y" "rexp y"] f by simp
    have "2 powi rexp y \<le> y" using rexp_bounds(1) [of y] x xy by simp
    then have 2: "2 powi rexp y \<le> rnd y"
      unfolding G' by (rule rnd_ge_grid)
    from 1 2 show ?thesis by linarith
  qed
qed

theorem rnd_mono:
  assumes "x \<le> y"
  shows "rnd x \<le> rnd y"
proof -
  consider "0 < x" | "y < 0" | "x \<le> 0" "0 \<le> y" by linarith
  then show ?thesis
  proof cases
    case 1
    then show ?thesis using assms by (rule rnd_mono_pos)
  next
    case 2
    then show ?thesis using rnd_mono_pos [of "- y" "- x"] assms by simp
  next
    case 3
    then show ?thesis using rnd_nonneg [of y] rnd_nonneg [of "- x"] by simp
  qed
qed

lemma rnd_rep_strict:
  assumes "\<bar>m\<bar> < 2 ^ 53" and "- 1074 \<le> e"
  shows "rnd (of_int m * 2 powi e) = of_int m * 2 powi e"
proof (cases "m = 0")
  case False
  let ?x = "of_int m * 2 powi e :: rat"
  have ax: "\<bar>?x\<bar> = of_int \<bar>m\<bar> * 2 powi e" by (simp add: abs_mult)
  have "(of_int \<bar>m\<bar> :: rat) < of_int (2 ^ 53)" using assms(1) by (simp only: of_int_less_iff)
  then have "\<bar>?x\<bar> < 2 powi 53 * 2 powi e" unfolding ax by simp
  then have "\<bar>?x\<bar> < 2 powi (53 + e)" by (simp add: power_int_add)
  moreover have "2 powi rexp \<bar>?x\<bar> \<le> \<bar>?x\<bar>" using False by (intro rexp_bounds) simp
  ultimately have "(2::rat) powi rexp \<bar>?x\<bar> < 2 powi (53 + e)" by linarith
  then have "ulp_exp ?x \<le> e" using assms(2) by (simp add: ulp_exp_def)
  then have "?x = of_int (m * 2 ^ nat (e - ulp_exp ?x)) * 2 powi ulp_exp ?x"
    using pow2_grid [of "ulp_exp ?x" e] by simp
  then show ?thesis by (rule rnd_eq_grid)
qed simp

lemma rnd_rep:
  assumes "\<bar>m\<bar> \<le> 2 ^ 53" and "- 1074 \<le> e"
  shows "rnd (of_int m * 2 powi e) = of_int m * 2 powi e"
proof (cases "\<bar>m\<bar> = 2 ^ 53")
  case True
  then consider "m = 2 ^ 53" | "m = - (2 ^ 53)" by linarith
  then show ?thesis
    using rnd_rep_strict [of 1 "53 + e"] assms(2) by cases (simp_all add: power_int_add)
qed (use assms in \<open>simp add: rnd_rep_strict\<close>)

lemma rnd_int: "\<bar>n\<bar> \<le> 2 ^ 53 \<Longrightarrow> rnd (of_int n) = of_int n"
  using rnd_rep [of n 0] by simp

lemma rnd_nat: "n \<le> 2 ^ 53 \<Longrightarrow> rnd (of_nat n) = of_nat n"
  using rnd_int [of "int n"] by simp

lemma rnd_of_nat_nonneg: "0 \<le> rnd (of_nat n)"
  by (simp add: rnd_nonneg)

lemma rnd_form:
  obtains m where "rnd x = of_int m * 2 powi ulp_exp x" and "\<bar>m\<bar> \<le> 2 ^ 53"
proof (cases "x = 0")
  case True
  then show thesis using that [of 0] by simp
next
  case False
  let ?e = "ulp_exp x"
  have "\<bar>x\<bar> < 2 powi (rexp \<bar>x\<bar> + 1)" using False by (intro rexp_bounds) simp
  also have "\<dots> \<le> 2 powi (53 + ?e)" by (simp add: ulp_exp_def)
  also have "\<dots> = of_int (2 ^ 53) * 2 powi ?e" by (simp add: power_int_add)
  finally have ub: "\<bar>x\<bar> \<le> of_int (2 ^ 53) * 2 powi ?e" by simp
  have "rnd x \<le> of_int (2 ^ 53) * 2 powi ?e" using ub by (intro rnd_le_grid) simp
  moreover have "of_int (- (2 ^ 53)) * 2 powi ?e \<le> rnd x" using ub by (intro rnd_ge_grid) simp
  moreover have r: "rnd x = of_int (rne (x / 2 powi ?e)) * 2 powi ?e"
    using False by (simp add: rnd_def)
  ultimately have "(of_int (rne (x / 2 powi ?e)) :: rat) \<le> of_int (2 ^ 53)"
    and "(of_int (- (2 ^ 53)) :: rat) \<le> of_int (rne (x / 2 powi ?e))"
    by (simp_all only: mult_le_cancel_right_pos pow2_pos)
  then have "rne (x / 2 powi ?e) \<le> 2 ^ 53" and "- (2 ^ 53) \<le> rne (x / 2 powi ?e)"
    by (simp_all only: of_int_le_iff)
  then have "\<bar>rne (x / 2 powi ?e)\<bar> \<le> 2 ^ 53" by linarith
  with r show thesis by (rule that)
qed

lemma rnd_idem [simp]: "rnd (rnd x) = rnd x"
  by (metis rnd_form rnd_rep ulp_exp_ge)

lemma rnd_double: "rnd x = x \<Longrightarrow> rnd (2 * x) = 2 * x"
proof -
  assume x: "rnd x = x"
  obtain m where m: "rnd x = of_int m * 2 powi ulp_exp x" "\<bar>m\<bar> \<le> 2 ^ 53" by (rule rnd_form)
  have "rnd (of_int m * 2 powi (ulp_exp x + 1)) = of_int m * 2 powi (ulp_exp x + 1)"
    using m ulp_exp_ge [of x] by (intro rnd_rep) auto
  moreover have "2 * x = of_int m * 2 powi (ulp_exp x + 1)"
    using x m by (simp add: power_int_add mult.commute)
  ultimately show ?thesis by simp
qed

lemma rnd_err: "\<bar>rnd x - x\<bar> \<le> 2 powi ulp_exp x / 2"
proof (cases "x = 0")
  case False
  let ?e = "ulp_exp x"
  have "rnd x - x = (of_int (rne (x / 2 powi ?e)) - x / 2 powi ?e) * 2 powi ?e"
    using False by (simp add: rnd_def field_simps)
  then have "\<bar>rnd x - x\<bar> = \<bar>of_int (rne (x / 2 powi ?e)) - x / 2 powi ?e\<bar> * 2 powi ?e"
    by (simp add: abs_mult)
  also have "\<dots> \<le> 1 / 2 * 2 powi ?e" by (intro mult_right_mono rne_near) simp
  finally show ?thesis by simp
qed simp

lemma rnd_rel_err:
  assumes "2 powi (- 1022) \<le> \<bar>x\<bar>"
  shows "\<bar>rnd x - x\<bar> \<le> \<bar>x\<bar> / 2 ^ 53"
proof -
  have x: "0 < \<bar>x\<bar>" using assms pow2_pos [of "- 1022"] by linarith
  note B = rexp_bounds [OF x]
  have "(2::rat) powi (- 1022) < 2 powi (rexp \<bar>x\<bar> + 1)" using B assms by linarith
  then have "- 1022 < rexp \<bar>x\<bar> + 1" by (simp only: pow2_less_iff)
  then have u: "ulp_exp x = rexp \<bar>x\<bar> - 52" by (simp add: ulp_exp_def)
  have "2 powi ulp_exp x / 2 = (2::rat) powi rexp \<bar>x\<bar> / 2 ^ 53"
    by (simp add: u power_int_diff)
  also have "\<dots> \<le> \<bar>x\<bar> / 2 ^ 53" using B by (simp add: divide_right_mono)
  finally show ?thesis using rnd_err [of x] by linarith
qed

lemma rnd_eqI:
  assumes "2 ^ 52 * 2 powi e \<le> x" and "x < 2 ^ 53 * 2 powi e" and "- 1074 \<le> e"
    and "\<bar>x - of_int m * 2 powi e\<bar> < 2 powi e / 2"
  shows "rnd x = of_int m * 2 powi e"
proof -
  have "(0::rat) < 2 ^ 52 * 2 powi e" by simp
  then have x: "0 < x" using assms(1) by linarith
  have "rexp x = 52 + e"
    using assms(1,2) by (intro rexp_unique) (simp_all add: power_int_add)
  then have u: "ulp_exp x = e" using x assms(3) by (simp add: ulp_exp_def)
  have "\<bar>x / 2 powi e - of_int m\<bar> < 1 / 2"
  proof -
    have "x / 2 powi e - of_int m = (x - of_int m * 2 powi e) / 2 powi e" by (simp add: field_simps)
    then show ?thesis using assms(4) by (simp add: abs_divide pos_divide_less_eq)
  qed
  moreover have "\<bar>of_int (rne (x / 2 powi e)) - x / 2 powi e\<bar> \<le> 1 / 2" by (rule rne_near)
  ultimately have "\<bar>of_int (rne (x / 2 powi e)) - (of_int m :: rat)\<bar> < 1" by linarith
  then have "rne (x / 2 powi e) = m" by linarith
  with x u show ?thesis by (simp add: rnd_def)
qed

section \<open>The contract of rounding\<close>

locale rounding =
  fixes r :: "rat \<Rightarrow> rat"
  assumes r_mono: "x \<le> y \<Longrightarrow> r x \<le> r y"
    and r_idem: "r (r x) = r x"
    and r_neg: "r (- x) = - r x"
    and r_dbl: "r x = x \<Longrightarrow> r (2 * x) = 2 * x"
    and r_one: "r 1 = 1"
begin

lemma r_zero: "r 0 = 0"
  using r_neg [of 0] by simp

lemma r_le: "x \<le> y \<Longrightarrow> r y = y \<Longrightarrow> r x \<le> y"
  using r_mono [of x y] by simp

lemma r_ge: "y \<le> x \<Longrightarrow> r y = y \<Longrightarrow> y \<le> r x"
  using r_mono [of y x] by simp

lemma r_nonneg: "0 \<le> x \<Longrightarrow> 0 \<le> r x"
  using r_ge [of 0 x] r_zero by simp

lemma r_mid:
  assumes a: "r a = a" and b: "r b = b" and "a \<le> b"
  shows "a \<le> r (r (a + b) / 2)" and "r (r (a + b) / 2) \<le> b"
proof -
  have "2 * a \<le> r (a + b)" using r_dbl [OF a] assms(3) by (intro r_ge) auto
  then show "a \<le> r (r (a + b) / 2)" using a by (intro r_ge) auto
  have "r (a + b) \<le> 2 * b" using r_dbl [OF b] assms(3) by (intro r_le) auto
  then show "r (r (a + b) / 2) \<le> b" using b by (intro r_le) auto
qed

lemma r_ratio_exact:
  assumes "0 \<le> a" and "0 \<le> b"
  shows "\<bar>r (a - b) / r (a + b)\<bar> \<le> 1"
proof -
  have 1: "r (a - b) \<le> r (a + b)" and 2: "- r (a + b) \<le> r (a - b)"
    using assms r_mono [of "a - b" "a + b"] r_mono [of "- (a + b)" "a - b"] r_neg [of "a + b"]
    by simp_all
  have "0 \<le> r (a + b)" using assms by (intro r_nonneg) simp
  with 1 2 show ?thesis by (auto simp: abs_le_iff divide_le_eq le_divide_eq)
qed

lemma r_ratio:
  assumes "0 \<le> a" and "0 \<le> b"
  shows "\<bar>r (r (a - b) / r (a + b))\<bar> \<le> 1"
proof -
  have "r (a - b) / r (a + b) \<le> 1" and "- 1 \<le> r (a - b) / r (a + b)"
    using r_ratio_exact [OF assms] by linarith+
  then have "r (r (a - b) / r (a + b)) \<le> 1" and "- 1 \<le> r (r (a - b) / r (a + b))"
    using r_one r_neg [of 1] by (auto intro: r_le r_ge)
  then show ?thesis by linarith
qed

end

interpretation b64: rounding rnd
  using rnd_int [of 1] by unfold_locales (simp_all add: rnd_mono rnd_double)

section \<open>The type double\<close>

datatype double = Fin rat | PInf | NInf | NaN

definition fl :: "rat \<Rightarrow> double" where
  "fl x = (let r = rnd x
           in if 2 ^ 1024 \<le> r then PInf else if r \<le> - (2 ^ 1024) then NInf else Fin r)"

definition valid :: "double \<Rightarrow> bool" where
  "valid d = (case d of Fin x \<Rightarrow> rnd x = x \<and> \<bar>x\<bar> < 2 ^ 1024 | _ \<Rightarrow> True)"

fun is_fin :: "double \<Rightarrow> bool" where
  "is_fin (Fin x) = True"
| "is_fin _ = False"

fun dneg :: "double \<Rightarrow> double" where
  "dneg (Fin x) = Fin (- x)"
| "dneg PInf = NInf"
| "dneg NInf = PInf"
| "dneg NaN = NaN"

fun dadd :: "double \<Rightarrow> double \<Rightarrow> double" where
  "dadd (Fin x) (Fin y) = fl (x + y)"
| "dadd NaN _ = NaN"
| "dadd _ NaN = NaN"
| "dadd PInf NInf = NaN"
| "dadd NInf PInf = NaN"
| "dadd PInf _ = PInf"
| "dadd _ PInf = PInf"
| "dadd NInf _ = NInf"
| "dadd _ NInf = NInf"

definition dsub :: "double \<Rightarrow> double \<Rightarrow> double" where
  "dsub a b = dadd a (dneg b)"

fun dsgn :: "double \<Rightarrow> int" where
  "dsgn (Fin x) = (if 0 < x then 1 else if x < 0 then - 1 else 0)"
| "dsgn PInf = 1"
| "dsgn NInf = - 1"
| "dsgn NaN = 0"

definition inf_of :: "int \<Rightarrow> double" where
  "inf_of s = (if 0 < s then PInf else if s < 0 then NInf else NaN)"

fun dmul :: "double \<Rightarrow> double \<Rightarrow> double" where
  "dmul (Fin x) (Fin y) = fl (x * y)"
| "dmul NaN _ = NaN"
| "dmul _ NaN = NaN"
| "dmul a b = inf_of (dsgn a * dsgn b)"

fun ddiv :: "double \<Rightarrow> double \<Rightarrow> double" where
  "ddiv (Fin x) (Fin y) = (if y = 0 then inf_of (dsgn (Fin x)) else fl (x / y))"
| "ddiv NaN _ = NaN"
| "ddiv _ NaN = NaN"
| "ddiv (Fin x) _ = Fin 0"
| "ddiv a (Fin y) = inf_of (dsgn a * (if y < 0 then - 1 else 1))"
| "ddiv _ _ = NaN"

fun dlt :: "double \<Rightarrow> double \<Rightarrow> bool" where
  "dlt (Fin x) (Fin y) = (x < y)"
| "dlt (Fin x) PInf = True"
| "dlt NInf (Fin y) = True"
| "dlt NInf PInf = True"
| "dlt _ _ = False"

definition deq :: "double \<Rightarrow> double \<Rightarrow> bool" where
  "deq a b \<longleftrightarrow> a = b \<and> a \<noteq> NaN"

definition dle :: "double \<Rightarrow> double \<Rightarrow> bool" where
  "dle a b \<longleftrightarrow> dlt a b \<or> deq a b"

definition dmin :: "double \<Rightarrow> double \<Rightarrow> double" where
  "dmin a b = (if dlt b a then b else a)"

definition dmax :: "double \<Rightarrow> double \<Rightarrow> double" where
  "dmax a b = (if dlt a b then b else a)"

definition double_of_nat :: "nat \<Rightarrow> double" where
  "double_of_nat n = fl (of_nat n)"

definition double_of_int :: "int \<Rightarrow> double" where
  "double_of_int i = fl (of_int i)"

definition trunc :: "rat \<Rightarrow> int" where
  "trunc x = (if 0 \<le> x then \<lfloor>x\<rfloor> else \<lceil>x\<rceil>)"

fun u64_of_double :: "double \<Rightarrow> u64 result" where
  "u64_of_double (Fin x) =
     (if 0 \<le> trunc x \<and> trunc x < 2 ^ 64 then Inr (word_of_int (trunc x)) else Inl UB_float_to_int)"
| "u64_of_double _ = Inl UB_float_to_int"

text \<open>
  A total order for ordered containers: it agrees with \<open>operator<\<close> on everything but NaN, which no
  ordered container accepts as a key.
\<close>

instantiation double :: linorder
begin

fun less_eq_double :: "double \<Rightarrow> double \<Rightarrow> bool" where
  "less_eq_double (Fin x) (Fin y) = (x \<le> y)"
| "less_eq_double NInf _ = True"
| "less_eq_double _ NaN = True"
| "less_eq_double (Fin x) PInf = True"
| "less_eq_double PInf PInf = True"
| "less_eq_double _ _ = False"

definition less_double :: "double \<Rightarrow> double \<Rightarrow> bool" where
  "less_double a b \<longleftrightarrow> a \<le> b \<and> \<not> b \<le> a"

instance
proof
  fix x y z :: double
  show "(x < y) = (x \<le> y \<and> \<not> y \<le> x)" by (rule less_double_def)
  show "x \<le> x" by (cases x) auto
  show "x \<le> y \<Longrightarrow> y \<le> z \<Longrightarrow> x \<le> z" by (cases x; cases y; cases z) auto
  show "x \<le> y \<Longrightarrow> y \<le> x \<Longrightarrow> x = y" by (cases x; cases y) auto
  show "x \<le> y \<or> y \<le> x" by (cases x; cases y) auto
qed

end

lemma dlt_iff_less: "a \<noteq> NaN \<Longrightarrow> b \<noteq> NaN \<Longrightarrow> dlt a b \<longleftrightarrow> a < b"
  by (cases a; cases b) (auto simp: less_double_def)

lemma dle_iff_less_eq: "a \<noteq> NaN \<Longrightarrow> b \<noteq> NaN \<Longrightarrow> dle a b \<longleftrightarrow> a \<le> b"
  by (cases a; cases b) (auto simp: dle_def deq_def)

lemma less_Fin [simp]: "Fin x < Fin y \<longleftrightarrow> x < y"
  by (auto simp: less_double_def)

lemma valid_fl [simp]: "valid (fl x)"
  by (auto simp: valid_def fl_def Let_def)

lemma fl_Fin:
  assumes "valid (Fin a)" and "valid (Fin b)" and "a \<le> x" and "x \<le> b"
  shows "fl x = Fin (rnd x)"
proof -
  have "a \<le> rnd x" and "rnd x \<le> b"
    using assms by (auto simp: valid_def intro: b64.r_ge b64.r_le)
  moreover have "- (2 ^ 1024) < a" and "b < 2 ^ 1024"
    using assms(1,2) by (auto simp: valid_def abs_less_iff)
  ultimately show ?thesis by (simp add: fl_def Let_def)
qed

lemma valid_Fin_int: "\<bar>n\<bar> \<le> 2 ^ 53 \<Longrightarrow> valid (Fin (of_int n))"
proof -
  assume n: "\<bar>n\<bar> \<le> 2 ^ 53"
  have "\<bar>of_int n :: rat\<bar> \<le> of_int (2 ^ 53)"
    using n by (simp only: of_int_le_iff flip: of_int_abs)
  also have "\<dots> < (2::rat) ^ 1024" by simp
  finally show ?thesis using rnd_int [OF n] by (simp add: valid_def)
qed

lemma fl_rep: "valid (Fin x) \<Longrightarrow> fl x = Fin x"
  using fl_Fin [of x x x] by (simp add: valid_def)

lemma rnd_pow2: "- 1074 \<le> e \<Longrightarrow> rnd (2 powi e) = 2 powi e"
  using rnd_rep [of 1 e] by simp

lemma fl_bounded: "\<bar>x\<bar> \<le> 2 ^ 1000 \<Longrightarrow> fl x = Fin (rnd x)"
proof -
  have "rnd (2 ^ 1000) = 2 ^ 1000" using rnd_pow2 [of 1000] by (simp only: power_int_numeral)
  then have "valid (Fin (2 ^ 1000))" and "valid (Fin (- (2 ^ 1000)))"
    by (simp_all add: valid_def)
  note V = this
  assume "\<bar>x\<bar> \<le> 2 ^ 1000"
  then have "- (2 ^ 1000) \<le> x" and "x \<le> 2 ^ 1000" by linarith+
  then show "fl x = Fin (rnd x)" by (rule fl_Fin [OF V(2,1)])
qed

lemma double_of_nat_small: "n \<le> 2 ^ 53 \<Longrightarrow> double_of_nat n = Fin (of_nat n)"
  using valid_Fin_int [of "int n"] by (simp add: double_of_nat_def fl_rep)

lemma double_of_nat_Fin: "n < 2 ^ 64 \<Longrightarrow> double_of_nat n = Fin (rnd (of_nat n))"
proof -
  assume "n < 2 ^ 64"
  then have "(of_nat n :: rat) < of_nat (2 ^ 64)" by (simp only: of_nat_less_iff)
  also have "\<dots> \<le> (2::rat) ^ 1000" by simp
  finally show ?thesis unfolding double_of_nat_def by (intro fl_bounded) simp
qed

lemma rnd_of_nat_le: "n < 2 ^ 64 \<Longrightarrow> rnd (of_nat n) \<le> 2 ^ 64"
proof -
  assume "n < 2 ^ 64"
  then have "(of_nat n :: rat) \<le> of_nat (2 ^ 64)" by (simp only: of_nat_le_iff)
  moreover have "rnd (2 ^ 64) = 2 ^ 64" using rnd_pow2 [of 64] by (simp only: power_int_numeral)
  ultimately show ?thesis by (intro b64.r_le) simp_all
qed

lemma trunc_between:
  assumes "of_int a \<le> x" and "x < of_int b + 1" and "0 \<le> a"
  shows "a \<le> trunc x \<and> trunc x \<le> b"
proof -
  have "(0::rat) \<le> x" using assms(1,3) by (metis of_int_0_le_iff order_trans)
  with assms show ?thesis by (simp add: trunc_def le_floor_iff floor_le_iff)
qed

text \<open>Gradual underflow: the difference of two different doubles does not round to 0.\<close>

lemma rnd_multiple:
  assumes "rnd x = x"
  obtains k where "x = of_int k * 2 powi (- 1074)"
proof -
  obtain m where m: "rnd x = of_int m * 2 powi ulp_exp x" by (rule rnd_form)
  have e: "0 \<le> ulp_exp x + 1074" using ulp_exp_ge [of x] by simp
  have s: "(ulp_exp x + 1074) + - 1074 = ulp_exp x" by simp
  have "(2::rat) powi ((ulp_exp x + 1074) + - 1074) = 2 powi (ulp_exp x + 1074) * 2 powi (- 1074)"
    by (rule power_int_add) simp
  then have "2 powi ulp_exp x = (2 powi (ulp_exp x + 1074) * 2 powi (- 1074) :: rat)"
    by (simp only: s)
  also have "(2::rat) powi (ulp_exp x + 1074) = of_int (2 ^ nat (ulp_exp x + 1074))"
    using e by (simp add: power_int_def)
  finally have "x = of_int (m * 2 ^ nat (ulp_exp x + 1074)) * 2 powi (- 1074)"
    using m assms by (simp only: of_int_mult mult.assoc)
  then show thesis by (rule that)
qed

lemma rnd_diff_pos:
  assumes "rnd x = x" and "rnd y = y" and "y < x"
  shows "0 < rnd (x - y)"
proof -
  obtain j k where j: "x = of_int j * 2 powi (- 1074)" and k: "y = of_int k * 2 powi (- 1074)"
    using rnd_multiple assms(1,2) by metis
  have "(of_int k * 2 powi (- 1074) :: rat) < of_int j * 2 powi (- 1074)" using assms(3) j k by simp
  then have "k < j" by (simp only: mult_less_cancel_right_pos pow2_pos of_int_less_iff)
  then have "(of_int 1 :: rat) \<le> of_int (j - k)" by (simp only: of_int_le_iff)
  then have "1 * 2 powi (- 1074) \<le> (of_int (j - k) * 2 powi (- 1074) :: rat)"
    by (intro mult_right_mono) (simp_all add: less_imp_le)
  then have "2 powi (- 1074) \<le> x - y" by (simp add: j k left_diff_distrib)
  then have "2 powi (- 1074) \<le> rnd (x - y)" by (rule b64.r_ge) (rule rnd_pow2, simp)
  then show ?thesis using pow2_pos [of "- 1074"] by linarith
qed

lemma dsub_pos:
  assumes "valid a" and "valid b" and "dlt b a"
  shows "dlt (Fin 0) (dsub a b)"
proof (cases a; cases b)
  fix x y assume ab: "a = Fin x" "b = Fin y"
  then have "0 < rnd (x - y)" using assms by (intro rnd_diff_pos) (simp_all add: valid_def)
  moreover have "\<not> rnd (x - y) \<le> - (2 ^ 1024)"
  proof
    assume "rnd (x - y) \<le> - (2 ^ 1024)"
    then have "rnd (x - y) \<le> 0" by (rule order_trans) simp
    with \<open>0 < rnd (x - y)\<close> show False by simp
  qed
  ultimately show ?thesis by (simp add: ab dsub_def fl_def Let_def)
qed (use assms in \<open>auto simp: dsub_def\<close>)

text \<open>The ratio of a difference to a sum, as the imbalance queries compute it.\<close>

lemma imbalance_ratio:
  assumes "v + w \<noteq> 0" and "v + w < 2 ^ 64"
  obtains x where "ddiv (double_of_int (int v - int w)) (double_of_nat (v + w)) = Fin x"
    "\<bar>x\<bar> \<le> 1" "w \<le> v \<Longrightarrow> 0 \<le> x" "v \<le> w \<Longrightarrow> x \<le> 0"
proof
  let ?y = "rnd (of_nat v - of_nat w) / rnd (of_nat v + of_nat w)"
  have "(of_nat (v + w) :: rat) < of_nat (2 ^ 64)" using assms(2) by (simp only: of_nat_less_iff)
  then have q: "of_nat v + of_nat w < (2 ^ 64 :: rat)" by simp
  have B: "(2::rat) ^ 64 \<le> 2 ^ 1000" by (rule power_increasing) simp_all
  have "\<bar>of_nat v - of_nat w\<bar> \<le> (2::rat) ^ 64" using q by (simp add: abs_le_iff)
  then have f1: "double_of_int (int v - int w) = Fin (rnd (of_nat v - of_nat w))"
    using B fl_bounded [of "of_nat v - of_nat w"] by (simp add: double_of_int_def)
  have f2: "double_of_nat (v + w) = Fin (rnd (of_nat v + of_nat w))"
    using double_of_nat_Fin [OF assms(2)] by simp
  have "(of_nat 1 :: rat) \<le> of_nat (v + w)" using assms(1) by (simp only: of_nat_le_iff)
  then have one: "1 \<le> rnd (of_nat v + of_nat w)"
    using rnd_int [of 1] by (intro b64.r_ge) simp_all
  have y: "\<bar>?y\<bar> \<le> 1" by (rule b64.r_ratio_exact) simp_all
  then have "\<bar>?y\<bar> \<le> 2 ^ 1000" by (rule order_trans) simp
  then show "ddiv (double_of_int (int v - int w)) (double_of_nat (v + w)) = Fin (rnd ?y)"
    using one by (simp add: f1 f2 fl_bounded)
  show "\<bar>rnd ?y\<bar> \<le> 1" by (rule b64.r_ratio) simp_all
  show "0 \<le> rnd ?y" if "w \<le> v" using that one by (intro rnd_nonneg divide_nonneg_pos) simp_all
  show "rnd ?y \<le> 0" if "v \<le> w"
    using that one rnd_nonneg [of "of_nat w - of_nat v"] rnd_minus [of "of_nat w - of_nat v"]
    by (intro b64.r_le divide_nonpos_pos) simp_all
qed

end
