(* ===== verification/Types.thy ===== *)
theory Types
  imports Binary64
begin

text \<open>
  The data of \<open>include/core/types.hpp\<close>: exchange and side enumerations, the price level and
  snapshot structs, and the fixed-point conversions that stand between the \<open>double\<close> prices of
  the interfaces and the 64-bit integers of the order book.
\<close>

section \<open>Enumerations\<close>

datatype Exchange = UNKNOWN | BINANCE | COINBASE | KRAKEN

fun exchange_code :: "Exchange \<Rightarrow> nat" where
  "exchange_code UNKNOWN = 0"
| "exchange_code BINANCE = 1"
| "exchange_code COINBASE = 2"
| "exchange_code KRAKEN = 3"

lemma exchange_code_inj: "exchange_code a = exchange_code b \<longleftrightarrow> a = b"
  by (cases a; cases b) simp_all

text \<open>Enumerators compare by their underlying value, as the keys of \<open>std::map\<close> do.\<close>

instantiation Exchange :: linorder
begin

definition less_eq_Exchange :: "Exchange \<Rightarrow> Exchange \<Rightarrow> bool" where
  "less_eq_Exchange a b \<longleftrightarrow> exchange_code a \<le> exchange_code b"

definition less_Exchange :: "Exchange \<Rightarrow> Exchange \<Rightarrow> bool" where
  "less_Exchange a b \<longleftrightarrow> exchange_code a < exchange_code b"

instance
  by standard (auto simp: less_eq_Exchange_def less_Exchange_def exchange_code_inj)

end

datatype Side = BID | ASK

fun exchange_to_string :: "Exchange \<Rightarrow> string" where
  "exchange_to_string BINANCE = ''BINANCE''"
| "exchange_to_string COINBASE = ''COINBASE''"
| "exchange_to_string KRAKEN = ''KRAKEN''"
| "exchange_to_string UNKNOWN = ''UNKNOWN''"

section \<open>Structs\<close>

record PriceLevel =
  pl_price :: u64
  pl_quantity :: u64
  pl_order_count :: u32
  pl_timestamp :: u64

definition PriceLevel_default :: PriceLevel where
  "PriceLevel_default = \<lparr>pl_price = 0, pl_quantity = 0, pl_order_count = 0, pl_timestamp = 0\<rparr>"

record PriceLevelSnapshot =
  ps_price :: double
  ps_quantity :: double
  ps_order_count :: u32

record OrderBookSnapshot =
  sn_symbol :: string
  sn_exchange :: Exchange
  sn_timestamp :: u64
  sn_sequence_number :: u64
  sn_bids :: "PriceLevelSnapshot list"
  sn_asks :: "PriceLevelSnapshot list"

definition OrderBookSnapshot_default :: OrderBookSnapshot where
  "OrderBookSnapshot_default =
     \<lparr>sn_symbol = '''', sn_exchange = UNKNOWN, sn_timestamp = 0, sn_sequence_number = 0,
      sn_bids = [], sn_asks = []\<rparr>"

record NormalizedOrderBookUpdate =
  up_exchange :: Exchange
  up_symbol :: string
  up_timestamp :: u64
  up_update_id :: u64
  up_bids :: "PriceLevelSnapshot list"
  up_asks :: "PriceLevelSnapshot list"

definition NormalizedOrderBookUpdate_default :: NormalizedOrderBookUpdate where
  "NormalizedOrderBookUpdate_default =
     \<lparr>up_exchange = UNKNOWN, up_symbol = '''', up_timestamp = 0, up_update_id = 0,
      up_bids = [], up_asks = []\<rparr>"

record Trade =
  tr_exchange :: Exchange
  tr_symbol :: string
  tr_timestamp :: u64
  tr_trade_id :: string
  tr_price :: double
  tr_quantity :: double
  tr_is_buyer_maker :: bool

record ExchangeLevel =
  el_price :: u64
  el_quantity :: u64
  el_exchange :: Exchange
  el_timestamp :: u64

record OrderBookStatistics =
  st_spread :: double
  st_mid_price :: double
  st_book_imbalance :: double
  st_total_bid_volume :: u64
  st_total_ask_volume :: u64
  st_bid_depth :: u32
  st_ask_depth :: u32
  st_timestamp :: u64

definition OrderBookStatistics_default :: OrderBookStatistics where
  "OrderBookStatistics_default =
     \<lparr>st_spread = Fin 0, st_mid_price = Fin 0, st_book_imbalance = Fin 0,
      st_total_bid_volume = 0, st_total_ask_volume = 0, st_bid_depth = 0, st_ask_depth = 0,
      st_timestamp = 0\<rparr>"

section \<open>Fixed-point prices\<close>

definition PRICE_SCALE :: u64 where
  "PRICE_SCALE = 100000000"

definition double_to_fixed :: "double \<Rightarrow> u64 result" where
  "double_to_fixed value = u64_of_double (dmul value (double_of_nat (unat PRICE_SCALE)))"

definition fixed_to_double :: "u64 \<Rightarrow> double" where
  "fixed_to_double value = ddiv (double_of_nat (unat value)) (double_of_nat (unat PRICE_SCALE))"

lemma scale_double: "double_of_nat (unat PRICE_SCALE) = Fin 100000000"
  by (simp add: PRICE_SCALE_def double_of_nat_small)

lemma fixed_to_double_Fin:
  "fixed_to_double v = Fin (rnd (rnd (of_nat (unat v)) / 100000000))"
proof -
  have "double_of_nat (unat v) = Fin (rnd (of_nat (unat v)))"
    using u64_bound [of v] by (rule double_of_nat_Fin)
  moreover have "\<bar>rnd (of_nat (unat v)) / 100000000\<bar> \<le> 2 ^ 1000"
  proof -
    have "rnd (of_nat (unat v)) \<le> 2 ^ 64" by (rule rnd_of_nat_le [OF u64_bound])
    moreover have "0 \<le> rnd (of_nat (unat v))" by (rule rnd_of_nat_nonneg)
    ultimately have "\<bar>rnd (of_nat (unat v)) / 100000000\<bar> \<le> 2 ^ 64" by simp
    also have "\<dots> \<le> (2::rat) ^ 1000" by simp
    finally show ?thesis .
  qed
  ultimately show ?thesis by (simp add: fixed_to_double_def scale_double fl_bounded)
qed

lemma fixed_to_double_valid [simp]: "valid (fixed_to_double v)"
proof -
  have "fl (rnd (of_nat (unat v)) / 100000000) = fixed_to_double v"
    using double_of_nat_Fin [OF u64_bound [of v]] by (simp add: fixed_to_double_def scale_double)
  then show ?thesis by (metis valid_fl)
qed

lemma fixed_to_double_mono: "v \<le> w \<Longrightarrow> fixed_to_double v \<le> fixed_to_double w"
proof -
  assume "v \<le> w"
  then have "rnd (of_nat (unat v)) \<le> rnd (of_nat (unat w))"
    by (intro rnd_mono) (simp only: word_le_nat_alt of_nat_le_iff)
  then show ?thesis by (simp add: fixed_to_double_Fin rnd_mono divide_right_mono)
qed

lemma fixed_to_double_small:
  "unat v \<le> 2 ^ 53 \<Longrightarrow> fixed_to_double v = Fin (rnd (of_nat (unat v) / 100000000))"
  by (simp only: fixed_to_double_Fin rnd_nat)

lemma double_to_fixed_nat:
  "k * 100000000 \<le> 2 ^ 53 \<Longrightarrow> double_to_fixed (Fin (of_nat k)) = Inr (of_nat (k * 100000000))"
proof -
  assume k: "k * 100000000 \<le> 2 ^ 53"
  have "fl (of_nat k * 100000000) = Fin (of_nat k * 100000000)"
    using double_of_nat_small [OF k] by (simp add: double_of_nat_def)
  moreover have "trunc (of_nat k * 100000000) = int (k * 100000000)"
    by (simp add: trunc_def floor_eq_iff)
  ultimately show ?thesis
    using k by (simp add: double_to_fixed_def scale_double)
qed

text \<open>
  The fixed-point round trip: a price of at most \<open>2 ^ 52 - 1\<close> units (45 million at 8 decimals)
  that is written out as a \<open>double\<close> and read back lands on the same integer or on the one just
  below it. The truncating cast of \<open>double_to_fixed\<close> can lose one unit, and never more.
\<close>

theorem fixed_roundtrip:
  assumes "unat v < 2 ^ 52"
  shows "\<exists>w. double_to_fixed (fixed_to_double v) = Inr w \<and> (w = v \<or> w + 1 = v)"
proof (cases "v = 0")
  case True
  then show ?thesis
    by (simp add: double_to_fixed_def fixed_to_double_Fin scale_double fl_rep valid_def trunc_def)
next
  case False
  define n where "n = unat v"
  have n: "1 \<le> n" "n < 2 ^ 52" using assms False by (simp_all add: n_def unat_gt_0 Suc_le_eq)
  have nq: "(1::rat) \<le> of_nat n" "(of_nat n :: rat) < 2 ^ 52"
  proof -
    show "(1::rat) \<le> of_nat n" using n(1) by simp
    have "(of_nat n :: rat) < of_nat (2 ^ 52)" using n(2) by (simp only: of_nat_less_iff)
    then show "(of_nat n :: rat) < 2 ^ 52" by simp
  qed
  define x where "x = (of_nat n / 100000000 :: rat)"
  define y where "y = rnd x * 100000000"
  have f: "fixed_to_double v = Fin (rnd x)"
    using fixed_to_double_small [of v] assms by (simp add: x_def n_def)
  have "\<bar>rnd x - x\<bar> \<le> \<bar>x\<bar> / 2 ^ 53"
  proof (rule rnd_rel_err)
    have "(2::rat) powi (- 1022) \<le> 2 powi (- 30)" by (simp only: pow2_le_iff)
    also have "\<dots> \<le> x" using nq by (simp add: x_def field_simps)
    finally show "(2::rat) powi (- 1022) \<le> \<bar>x\<bar>" by linarith
  qed
  then have "\<bar>y - of_nat n\<bar> \<le> of_nat n / 2 ^ 53"
    using nq by (simp add: y_def x_def abs_le_iff field_simps)
  also have "\<dots> \<le> 1 / 2" using nq by simp
  finally have y: "of_nat n - 1 \<le> y" "y \<le> of_nat n + 1 / 2" by linarith+
  have r1: "rnd (of_nat n - 1) = of_nat n - 1"
    using rnd_int [of "int n - 1"] n by simp
  have r2: "rnd (of_nat n + 1 / 2) = of_nat n + 1 / 2"
    using rnd_rep [of "2 * int n + 1" "- 1"] n by (simp add: power_int_minus field_simps)
  have lo: "of_nat n - 1 \<le> rnd y" using b64.r_ge [OF y(1) r1] .
  have hi: "rnd y < of_nat n + 1" using b64.r_le [OF y(2) r2] by linarith
  have "int n - 1 \<le> trunc (rnd y) \<and> trunc (rnd y) \<le> int n"
    using lo hi n by (intro trunc_between) auto
  then consider "trunc (rnd y) = int n - 1" | "trunc (rnd y) = int n" by linarith
  moreover have "fl y = Fin (rnd y)"
  proof (rule fl_bounded)
    have "\<bar>y\<bar> \<le> 2 ^ 53" using y nq by (simp add: abs_le_iff)
    also have "\<dots> \<le> (2::rat) ^ 1000" by simp
    finally show "\<bar>y\<bar> \<le> 2 ^ 1000" .
  qed
  moreover have "word_of_int (int n) = v" by (simp add: n_def)
  ultimately show ?thesis
    using n by cases (auto simp: double_to_fixed_def f scale_double y_def [symmetric] wi_hom_sub [symmetric])
qed

text \<open>Instance: a price of 0.29 with 8 decimals.\<close>

theorem fixed_roundtrip_witness:
  "unat (29000000 :: u64) < 2 ^ 52 \<and>
   (\<exists>w. double_to_fixed (fixed_to_double 29000000) = Inr w \<and> (w = 29000000 \<or> w + 1 = 29000000))"
  using fixed_roundtrip [of 29000000] by simp

lemma rnd_029: "rnd (29 / 100) = 5224175567749775 / 2 ^ 54"
  using rnd_eqI [of "- 54" "29 / 100" 5224175567749775]
  by (simp add: power_int_minus abs_less_iff)

lemma rnd_029_scaled: "rnd (5224175567749775 / 2 ^ 54 * 100000000) = 7784628223999999 / 2 ^ 28"
  using rnd_eqI [of "- 28" "5224175567749775 / 2 ^ 54 * 100000000" 7784628223999999]
  by (simp add: power_int_minus abs_less_iff)

text \<open>
  The unit is lost in practice: the \<open>double\<close> nearest to 0.29 is what \<open>fixed_to_double\<close> gives
  for 29000000 units, and \<open>double_to_fixed\<close> turns it into 28999999 units.
\<close>

theorem price_029_loses_unit:
  "double_to_fixed (fl (29 / 100)) = Inr 28999999 \<and> fixed_to_double 29000000 = fl (29 / 100)"
proof
  have x: "fl (29 / 100) = Fin (rnd (29 / 100))" by (rule fl_bounded) simp
  have y: "fl (5224175567749775 / 2 ^ 54 * 100000000)
           = Fin (rnd (5224175567749775 / 2 ^ 54 * 100000000))"
    by (rule fl_bounded) simp
  have t: "trunc (7784628223999999 / 2 ^ 28) = 28999999"
    by (simp add: trunc_def floor_eq_iff)
  show "double_to_fixed (fl (29 / 100)) = Inr 28999999"
    by (simp only: double_to_fixed_def x scale_double dmul.simps y rnd_029 rnd_029_scaled
        u64_of_double.simps t) simp
  show "fixed_to_double 29000000 = fl (29 / 100)"
    using fixed_to_double_small [of 29000000] x by simp
qed

end
