(* ===== verification/Price_Index_Map.thy ===== *)
theory Price_Index_Map
  imports Types
begin

unbundle bit_operations_syntax

text \<open>
  The class \<open>PriceIndexMap\<close> of \<open>include/core/order_book.hpp\<close>: a hash table of 4096 entries with
  linear probing that maps a fixed-point price to the index of its level. Price 0 marks an empty
  entry, index \<open>SIZE_MAX\<close> an entry without a level.

  \<^item> \<open>pim_find\<close>, \<open>pim_insert\<close>, \<open>pim_remove\<close>, \<open>pim_clear\<close> are the four operations; each loop runs
    on the number of attempts that are left, so it is structural.
  \<^item> \<open>pim_probe\<close> is the scan the three loops share: the first entry that is empty or holds the
    price. The lemmas \<open>pim_find_probe\<close>, \<open>pim_insert_probe\<close>, \<open>pim_remove_probe\<close> reduce them to it.
  \<^item> \<open>pim_inv\<close> says that every stored price is found by its own probe sequence. Lookup after
    insertion holds under it. Removal writes an empty entry, not a tombstone, and keeps the
    invariant only if no other price was stored past that entry (\<open>pim_removable\<close>).
  \<^item> The locale \<open>price_index\<close> is the contract the order book relies on.
\<close>

section \<open>The table and its operations\<close>

record Entry =
  en_price :: u64
  en_index :: nat

definition Entry_default :: Entry where
  "Entry_default = \<lparr>en_price = 0, en_index = SIZE_MAX\<rparr>"

type_synonym table = "nat \<Rightarrow> Entry"

definition TABLE_SIZE :: nat where
  "TABLE_SIZE = 4096"

definition price_hash :: "u64 \<Rightarrow> nat" where
  "price_hash price = unat ((price * 0x9E3779B97F4A7C15) AND (of_nat TABLE_SIZE - 1))"

definition next_slot :: "nat \<Rightarrow> nat" where
  "next_slot idx = (idx + 1) AND (TABLE_SIZE - 1)"

primrec pim_find_loop :: "nat \<Rightarrow> table \<Rightarrow> u64 \<Rightarrow> nat \<Rightarrow> nat option" where
  "pim_find_loop 0 t price idx = None"
| "pim_find_loop (Suc n) t price idx =
     (if en_price (t idx) = price
      then (if en_index (t idx) \<noteq> SIZE_MAX then Some (en_index (t idx)) else None)
      else if en_price (t idx) = 0 then None
      else pim_find_loop n t price (next_slot idx))"

definition pim_find :: "table \<Rightarrow> u64 \<Rightarrow> nat option" where
  "pim_find t price = pim_find_loop TABLE_SIZE t price (price_hash price)"

primrec pim_insert_loop :: "nat \<Rightarrow> table \<Rightarrow> u64 \<Rightarrow> nat \<Rightarrow> nat \<Rightarrow> bool \<times> table" where
  "pim_insert_loop 0 t price index idx = (False, t)"
| "pim_insert_loop (Suc n) t price index idx =
     (if en_price (t idx) = 0 \<or> en_price (t idx) = price
      then (True, t(idx := \<lparr>en_price = price, en_index = index\<rparr>))
      else pim_insert_loop n t price index (next_slot idx))"

definition pim_insert :: "table \<Rightarrow> u64 \<Rightarrow> nat \<Rightarrow> bool \<times> table" where
  "pim_insert t price index = pim_insert_loop TABLE_SIZE t price index (price_hash price)"

primrec pim_remove_loop :: "nat \<Rightarrow> table \<Rightarrow> u64 \<Rightarrow> nat \<Rightarrow> bool \<times> table" where
  "pim_remove_loop 0 t price idx = (False, t)"
| "pim_remove_loop (Suc n) t price idx =
     (if en_price (t idx) = price
      then (True, t(idx := \<lparr>en_price = 0, en_index = SIZE_MAX\<rparr>))
      else if en_price (t idx) = 0 then (False, t)
      else pim_remove_loop n t price (next_slot idx))"

definition pim_remove :: "table \<Rightarrow> u64 \<Rightarrow> bool \<times> table" where
  "pim_remove t price = pim_remove_loop TABLE_SIZE t price (price_hash price)"

definition pim_clear :: "table \<Rightarrow> table" where
  "pim_clear t = (\<lambda>i. if i < TABLE_SIZE then \<lparr>en_price = 0, en_index = SIZE_MAX\<rparr> else t i)"

definition PriceIndexMap_new :: table where
  "PriceIndexMap_new = pim_clear (\<lambda>_. Entry_default)"

lemma PriceIndexMap_new_eq: "PriceIndexMap_new = (\<lambda>_. Entry_default)"
  by (auto simp: PriceIndexMap_new_def pim_clear_def Entry_default_def)

section \<open>Hashing and probing\<close>

lemma mask_TABLE_SIZE: "TABLE_SIZE - 1 = mask 12"
  by (simp add: TABLE_SIZE_def mask_eq_exp_minus_1)

lemma next_slot_eq: "next_slot idx = (idx + 1) mod TABLE_SIZE"
  unfolding next_slot_def mask_TABLE_SIZE
  by (simp add: TABLE_SIZE_def take_bit_eq_mod flip: take_bit_eq_mask)

lemma price_hash_eq: "price_hash p = unat (p * 0x9E3779B97F4A7C15) mod TABLE_SIZE"
proof -
  have "(of_nat TABLE_SIZE - 1 :: u64) = mask 12"
    by (simp add: TABLE_SIZE_def mask_eq_exp_minus_1)
  then have "price_hash p = unat (take_bit 12 (p * 0x9E3779B97F4A7C15))"
    by (simp add: price_hash_def take_bit_eq_mask)
  also have "\<dots> = take_bit 12 (unat (p * 0x9E3779B97F4A7C15))"
    by (simp only: unsigned_take_bit_eq)
  finally show ?thesis by (simp add: TABLE_SIZE_def take_bit_eq_mod)
qed

lemma price_hash_less [simp]: "price_hash p < TABLE_SIZE"
  by (simp add: price_hash_eq TABLE_SIZE_def)

lemma TABLE_SIZE_pos [simp]: "0 < TABLE_SIZE"
  by (simp add: TABLE_SIZE_def)

primrec probe_loop :: "nat \<Rightarrow> table \<Rightarrow> u64 \<Rightarrow> nat \<Rightarrow> nat option" where
  "probe_loop 0 t price idx = None"
| "probe_loop (Suc n) t price idx =
     (if en_price (t idx) = price \<or> en_price (t idx) = 0 then Some idx
      else probe_loop n t price (next_slot idx))"

definition pim_probe :: "table \<Rightarrow> u64 \<Rightarrow> nat option" where
  "pim_probe t price = probe_loop TABLE_SIZE t price (price_hash price)"

lemma find_loop_probe: "pim_find_loop n t p i =
    (case probe_loop n t p i of None \<Rightarrow> None
     | Some s \<Rightarrow> if en_price (t s) = p \<and> en_index (t s) \<noteq> SIZE_MAX then Some (en_index (t s)) else None)"
  by (induction n arbitrary: i) auto

lemma insert_loop_probe: "pim_insert_loop n t p j i =
    (case probe_loop n t p i of None \<Rightarrow> (False, t)
     | Some s \<Rightarrow> (True, t(s := \<lparr>en_price = p, en_index = j\<rparr>)))"
  by (induction n arbitrary: i) auto

lemma remove_loop_probe: "pim_remove_loop n t p i =
    (case probe_loop n t p i of None \<Rightarrow> (False, t)
     | Some s \<Rightarrow> if en_price (t s) = p then (True, t(s := Entry_default)) else (False, t))"
  by (induction n arbitrary: i) (auto simp: Entry_default_def)

lemmas pim_find_probe = pim_find_def [unfolded find_loop_probe, folded pim_probe_def]
lemmas pim_insert_probe = pim_insert_def [unfolded insert_loop_probe, folded pim_probe_def]
lemmas pim_remove_probe = pim_remove_def [unfolded remove_loop_probe, folded pim_probe_def]

text \<open>The \<open>k\<close>-th slot of a probe sequence, and where a probe stops.\<close>

definition slot :: "u64 \<Rightarrow> nat \<Rightarrow> nat" where
  "slot p k = (price_hash p + k) mod TABLE_SIZE"

definition stops :: "table \<Rightarrow> u64 \<Rightarrow> nat \<Rightarrow> bool" where
  "stops t p s \<longleftrightarrow> en_price (t s) = p \<or> en_price (t s) = 0"

lemma slot_0 [simp]: "slot p 0 = price_hash p"
  by (simp add: slot_def)

lemma slot_Suc: "next_slot (slot p k) = slot p (Suc k)"
  by (simp add: slot_def next_slot_eq mod_Suc_eq)

lemma slot_less [simp]: "slot p k < TABLE_SIZE"
  by (simp add: slot_def)

lemma probe_loop_Some:
  "probe_loop n t p (slot p k) = Some s \<longleftrightarrow>
     (\<exists>j<n. s = slot p (k + j) \<and> stops t p s \<and> (\<forall>i<j. \<not> stops t p (slot p (k + i))))"
proof (induction n arbitrary: k)
  case (Suc n)
  show ?case
  proof (cases "stops t p (slot p k)")
    case True
    then have first: "j = 0" if "\<forall>i<j. \<not> stops t p (slot p (k + i))" for j
      using that by (metis add.right_neutral gr0I)
    have "probe_loop (Suc n) t p (slot p k) = Some (slot p k)"
      using True by (simp add: stops_def)
    with True show ?thesis
      by (auto dest!: first intro: exI [of _ 0])
  next
    case False
    have "(\<exists>j<n. s = slot p (Suc k + j) \<and> stops t p s \<and> (\<forall>i<j. \<not> stops t p (slot p (Suc k + i))))
      \<longleftrightarrow> (\<exists>j<Suc n. s = slot p (k + j) \<and> stops t p s \<and> (\<forall>i<j. \<not> stops t p (slot p (k + i))))"
      (is "?L \<longleftrightarrow> ?R")
    proof
      assume ?L
      then obtain j where j: "j < n" "s = slot p (k + Suc j)" "stops t p s"
        "\<forall>i<j. \<not> stops t p (slot p (k + Suc i))" by auto
      with False have "\<forall>i<Suc j. \<not> stops t p (slot p (k + i))"
        by (metis add.right_neutral less_Suc_eq_0_disj)
      with j show ?R by (intro exI [of _ "Suc j"]) auto
    next
      assume ?R
      then obtain j where j: "j < Suc n" "s = slot p (k + j)" "stops t p s"
        "\<forall>i<j. \<not> stops t p (slot p (k + i))" by auto
      with False obtain j' where "j = Suc j'" by (metis add.right_neutral not0_implies_Suc)
      with j show ?L by (intro exI [of _ j']) auto
    qed
    moreover have "probe_loop (Suc n) t p (slot p k) = probe_loop n t p (slot p (Suc k))"
      using False by (simp add: stops_def slot_Suc)
    ultimately show ?thesis using Suc.IH [of "Suc k"] by simp
  qed
qed simp

lemma pim_probe_Some: "pim_probe t p = Some s \<longleftrightarrow>
    (\<exists>j<TABLE_SIZE. s = slot p j \<and> stops t p s \<and> (\<forall>i<j. \<not> stops t p (slot p i)))"
  using probe_loop_Some [of TABLE_SIZE t p 0 s] by (simp add: pim_probe_def)

lemma pim_probe_less: "pim_probe t p = Some s \<Longrightarrow> s < TABLE_SIZE"
  by (auto simp: pim_probe_Some)

lemma pim_probe_stops: "pim_probe t p = Some s \<Longrightarrow> en_price (t s) = p \<or> en_price (t s) = 0"
  by (auto simp: pim_probe_Some stops_def)

lemma pim_probe_I:
  assumes "j < TABLE_SIZE" and "stops t p (slot p j)" and "\<And>i. i < j \<Longrightarrow> \<not> stops t p (slot p i)"
  shows "pim_probe t p = Some (slot p j)"
  using assms by (auto simp: pim_probe_Some)

section \<open>Probe distance\<close>

definition pdist :: "u64 \<Rightarrow> nat \<Rightarrow> nat" where
  "pdist p s = (s + TABLE_SIZE - price_hash p) mod TABLE_SIZE"

lemma pdist_less [simp]: "pdist p s < TABLE_SIZE"
  by (simp add: pdist_def)

lemma slot_pdist: "s < TABLE_SIZE \<Longrightarrow> slot p (pdist p s) = s"
proof -
  assume s: "s < TABLE_SIZE"
  have "price_hash p \<le> s + TABLE_SIZE" using price_hash_less [of p] by linarith
  then show ?thesis using s by (simp add: slot_def pdist_def mod_add_right_eq)
qed

lemma slot_inj: "i < TABLE_SIZE \<Longrightarrow> j < TABLE_SIZE \<Longrightarrow> slot p i = slot p j \<Longrightarrow> i = j"
proof -
  have *: "i = j" if "i \<le> j" "j < TABLE_SIZE" "slot p i = slot p j" for i j
  proof -
    have "(price_hash p + j) mod TABLE_SIZE = (price_hash p + i) mod TABLE_SIZE"
      using that by (simp add: slot_def)
    then have "TABLE_SIZE dvd (price_hash p + j) - (price_hash p + i)"
      using that by (intro mod_eq_dvd_iff_nat [THEN iffD1]) auto
    then have "TABLE_SIZE dvd j - i" by simp
    with that show ?thesis using dvd_imp_le [of TABLE_SIZE "j - i"] by linarith
  qed
  show "i < TABLE_SIZE \<Longrightarrow> j < TABLE_SIZE \<Longrightarrow> slot p i = slot p j \<Longrightarrow> i = j"
    using * [of i j] * [of j i] by (metis nat_le_linear)
qed

lemma pdist_slot: "k < TABLE_SIZE \<Longrightarrow> pdist p (slot p k) = k"
  by (intro slot_inj [of _ k p]) (simp_all add: slot_pdist)

lemma pim_probe_pdist: "pim_probe t p = Some s \<longleftrightarrow>
    s < TABLE_SIZE \<and> stops t p s \<and> (\<forall>r<TABLE_SIZE. pdist p r < pdist p s \<longrightarrow> \<not> stops t p r)"
proof
  assume "pim_probe t p = Some s"
  then show "s < TABLE_SIZE \<and> stops t p s \<and> (\<forall>r<TABLE_SIZE. pdist p r < pdist p s \<longrightarrow> \<not> stops t p r)"
    by (auto simp: pim_probe_Some pdist_slot) (metis slot_pdist)
next
  assume A: "s < TABLE_SIZE \<and> stops t p s \<and> (\<forall>r<TABLE_SIZE. pdist p r < pdist p s \<longrightarrow> \<not> stops t p r)"
  have "\<not> stops t p (slot p i)" if "i < pdist p s" for i
    using A that pdist_slot [of i p] pdist_less [of p s] by (metis slot_less less_trans)
  with A show "pim_probe t p = Some s"
    using pim_probe_I [of "pdist p s" t p] by (simp add: slot_pdist)
qed

section \<open>The probing invariant\<close>

definition stored :: "table \<Rightarrow> nat \<Rightarrow> bool" where
  "stored t s \<longleftrightarrow> s < TABLE_SIZE \<and> en_price (t s) \<noteq> 0"

definition pim_inv :: "table \<Rightarrow> bool" where
  "pim_inv t \<longleftrightarrow> (\<forall>s<TABLE_SIZE. en_price (t s) \<noteq> 0 \<longrightarrow>
      pim_probe t (en_price (t s)) = Some s \<and> en_index (t s) \<noteq> SIZE_MAX)"

text \<open>Some entry is empty, or already holds the price: what an insertion needs.\<close>

definition pim_room :: "table \<Rightarrow> u64 \<Rightarrow> bool" where
  "pim_room t p \<longleftrightarrow> (\<exists>s<TABLE_SIZE. en_price (t s) = 0 \<or> en_price (t s) = p)"

text \<open>No stored price has its probe sequence run over the entry of \<open>p\<close>.\<close>

definition pim_removable :: "table \<Rightarrow> u64 \<Rightarrow> bool" where
  "pim_removable t p \<longleftrightarrow> (case pim_probe t p of None \<Rightarrow> True | Some s \<Rightarrow>
      (\<forall>r<TABLE_SIZE. en_price (t r) \<noteq> 0 \<and> r \<noteq> s \<longrightarrow> pdist (en_price (t r)) r < pdist (en_price (t r)) s))"

lemma pim_room_probe:
  assumes "pim_room t p"
  obtains s where "pim_probe t p = Some s"
proof -
  from assms obtain s where s: "s < TABLE_SIZE" "stops t p s"
    by (auto simp: pim_room_def stops_def)
  define P where "P k \<longleftrightarrow> k < TABLE_SIZE \<and> stops t p (slot p k)" for k
  have "P (pdist p s)" using s by (simp add: P_def slot_pdist)
  then have "P (LEAST k. P k)" and "\<And>i. i < (LEAST k. P k) \<Longrightarrow> \<not> P i"
    by (auto intro: LeastI dest: not_less_Least)
  then have "pim_probe t p = Some (slot p (LEAST k. P k))"
    by (intro pim_probe_I) (auto simp: P_def)
  then show thesis by (rule that)
qed

lemma pim_find_iff:
  assumes "pim_inv t" and "p \<noteq> 0"
  shows "pim_find t p = Some i \<longleftrightarrow> (\<exists>s<TABLE_SIZE. t s = \<lparr>en_price = p, en_index = i\<rparr>)"
proof
  assume "pim_find t p = Some i"
  then obtain s where "pim_probe t p = Some s" "en_price (t s) = p" "en_index (t s) = i"
    by (auto simp: pim_find_probe split: option.splits if_splits)
  then show "\<exists>s<TABLE_SIZE. t s = \<lparr>en_price = p, en_index = i\<rparr>"
    by (auto dest: pim_probe_less intro!: exI [of _ s])
next
  assume "\<exists>s<TABLE_SIZE. t s = \<lparr>en_price = p, en_index = i\<rparr>"
  with assms show "pim_find t p = Some i"
    by (auto simp: pim_inv_def pim_find_probe)
qed

lemma probe_upd_other:
  assumes "pim_probe t p = Some s" and "q \<noteq> p" and "q \<noteq> 0" and "p \<noteq> 0"
    and "pim_probe t q = Some r" and "en_price (t r) = q"
  shows "pim_probe (t(s := \<lparr>en_price = p, en_index = i\<rparr>)) q = Some r"
  using assms pim_probe_stops [OF assms(1)] unfolding pim_probe_pdist
  by (auto simp: stops_def)

lemma probe_upd_same:
  assumes "pim_probe t p = Some s"
  shows "pim_probe (t(s := \<lparr>en_price = p, en_index = i\<rparr>)) p = Some s"
  using assms unfolding pim_probe_pdist by (auto simp: stops_def)

lemma pim_inv_new: "pim_inv PriceIndexMap_new"
  by (simp add: pim_inv_def PriceIndexMap_new_eq Entry_default_def)

lemma pim_inv_insert:
  assumes inv: "pim_inv t" and "p \<noteq> 0" and "i \<noteq> SIZE_MAX"
  shows "pim_inv (snd (pim_insert t p i))"
proof (cases "pim_probe t p")
  case None
  with inv show ?thesis by (simp add: pim_insert_probe)
next
  case (Some s)
  let ?t = "t(s := \<lparr>en_price = p, en_index = i\<rparr>)"
  have "pim_probe ?t (en_price (?t r)) = Some r \<and> en_index (?t r) \<noteq> SIZE_MAX"
    if r: "r < TABLE_SIZE" "en_price (?t r) \<noteq> 0" for r
  proof (cases "r = s")
    case True
    with Some assms show ?thesis by (simp add: probe_upd_same)
  next
    case False
    with r inv have p: "pim_probe t (en_price (t r)) = Some r" and x: "en_index (t r) \<noteq> SIZE_MAX"
      by (auto simp: pim_inv_def)
    with Some False have "en_price (t r) \<noteq> p" by auto
    with p x Some assms False r show ?thesis by (auto intro: probe_upd_other)
  qed
  with Some show ?thesis by (simp add: pim_insert_probe pim_inv_def)
qed

lemma pim_find_insert:
  assumes "pim_inv t" and "p \<noteq> 0" and "q \<noteq> 0" and "i \<noteq> SIZE_MAX" and "pim_room t p"
  shows "pim_find (snd (pim_insert t p i)) q = (if q = p then Some i else pim_find t q)"
proof -
  obtain s where s: "pim_probe t p = Some s" using pim_room_probe [OF assms(5)] .
  let ?t = "t(s := \<lparr>en_price = p, en_index = i\<rparr>)"
  have t: "snd (pim_insert t p i) = ?t" using s by (simp add: pim_insert_probe)
  have inv: "pim_inv ?t" using pim_inv_insert [OF assms(1,2,4)] t by simp
  have "pim_find ?t p = Some i" using s assms(4) probe_upd_same [OF s] by (simp add: pim_find_probe)
  moreover have "pim_find ?t q = Some j \<longleftrightarrow> pim_find t q = Some j" if "q \<noteq> p" for j
    using that pim_probe_stops [OF s] pim_probe_less [OF s] assms(3)
    by (auto simp: pim_find_iff [OF inv assms(3)] pim_find_iff [OF assms(1,3)])
      (metis Entry.select_convs(1))+
  then have "q \<noteq> p \<Longrightarrow> pim_find ?t q = pim_find t q" by (metis option.exhaust)
  ultimately show ?thesis by (simp add: t)
qed

lemma pim_insert_room: "pim_room t p \<Longrightarrow> fst (pim_insert t p i)"
  by (metis fst_conv option.simps(5) pim_insert_probe pim_room_probe)

section \<open>Removal\<close>

lemma pdist_inj: "r < TABLE_SIZE \<Longrightarrow> s < TABLE_SIZE \<Longrightarrow> pdist q r = pdist q s \<Longrightarrow> r = s"
  by (metis slot_pdist)

lemma probe_erase_other:
  assumes "pim_inv t" and "s < TABLE_SIZE" and "r < TABLE_SIZE" and "r \<noteq> s"
    and "en_price (t r) = q" and "q \<noteq> 0"
  shows "pim_probe (t(s := Entry_default)) q = Some r \<longleftrightarrow> pdist q r < pdist q s"
proof -
  have p: "pim_probe t q = Some r" using assms by (auto simp: pim_inv_def)
  have ne: "pdist q r \<noteq> pdist q s" using pdist_inj assms(2-4) by blast
  show ?thesis
    using p ne assms(2,4) unfolding pim_probe_pdist
    by (auto simp: stops_def Entry_default_def)
qed

lemma pim_remove_stored:
  "pim_probe t p = Some s \<Longrightarrow> en_price (t s) = p \<Longrightarrow> pim_remove t p = (True, t(s := Entry_default))"
  by (simp add: pim_remove_probe)

lemma pim_inv_erase_iff:
  assumes "pim_inv t" and "s < TABLE_SIZE"
  shows "pim_inv (t(s := Entry_default)) \<longleftrightarrow>
    (\<forall>r<TABLE_SIZE. en_price (t r) \<noteq> 0 \<and> r \<noteq> s \<longrightarrow> pdist (en_price (t r)) r < pdist (en_price (t r)) s)"
    (is "?inv \<longleftrightarrow> ?far")
proof -
  have "?inv \<longleftrightarrow> (\<forall>r<TABLE_SIZE. en_price (t r) \<noteq> 0 \<and> r \<noteq> s \<longrightarrow>
      pim_probe (t(s := Entry_default)) (en_price (t r)) = Some r \<and> en_index (t r) \<noteq> SIZE_MAX)"
    by (auto simp: pim_inv_def Entry_default_def)
  also have "\<dots> \<longleftrightarrow> ?far"
    using probe_erase_other [OF assms] assms(1) by (auto simp: pim_inv_def)
  finally show ?thesis .
qed

text \<open>
  Removal of a stored price keeps the probing invariant exactly when no other stored price
  was probed past the freed entry. The code frees the entry instead of leaving a tombstone, so
  the condition is needed.
\<close>

theorem pim_remove_inv_iff:
  assumes "pim_inv t" and "p \<noteq> 0" and "pim_find t p = Some i"
  shows "pim_inv (snd (pim_remove t p)) \<longleftrightarrow> pim_removable t p"
proof -
  obtain s where s: "pim_probe t p = Some s" "en_price (t s) = p"
    using assms(3) by (auto simp: pim_find_probe split: option.splits if_splits)
  have "snd (pim_remove t p) = t(s := Entry_default)" using pim_remove_stored [OF s] by simp
  with pim_inv_erase_iff [OF assms(1) pim_probe_less [OF s(1)]] s(1) show ?thesis
    by (simp add: pim_removable_def)
qed

lemma pim_inv_remove: "pim_inv t \<Longrightarrow> p \<noteq> 0 \<Longrightarrow> pim_removable t p \<Longrightarrow> pim_inv (snd (pim_remove t p))"
proof (cases "pim_probe t p")
  case (Some s)
  assume A: "pim_inv t" "p \<noteq> 0" "pim_removable t p"
  show ?thesis
  proof (cases "en_price (t s) = p")
    case True
    with A Some show ?thesis
      using pim_inv_erase_iff [OF A(1) pim_probe_less [OF Some]]
      by (simp add: pim_remove_stored pim_removable_def)
  qed (use A Some in \<open>simp add: pim_remove_probe\<close>)
qed (simp add: pim_remove_probe)

lemma pim_find_remove:
  assumes "pim_inv t" and "p \<noteq> 0" and "q \<noteq> 0" and "pim_removable t p"
  shows "pim_find (snd (pim_remove t p)) q = (if q = p then None else pim_find t q)"
proof -
  have inv: "pim_inv (snd (pim_remove t p))" using pim_inv_remove assms by blast
  have "pim_find (snd (pim_remove t p)) q = Some j \<longleftrightarrow> q \<noteq> p \<and> pim_find t q = Some j" for j
  proof (cases "\<exists>s. pim_probe t p = Some s \<and> en_price (t s) = p")
    case True
    then obtain s where s: "pim_probe t p = Some s" "en_price (t s) = p" by blast
    have u: "r = s" if "r < TABLE_SIZE" "en_price (t r) = p" for r
      using assms(1,2) that s(1) by (auto simp: pim_inv_def)
    have t: "snd (pim_remove t p) = t(s := Entry_default)" using pim_remove_stored [OF s] by simp
    have e: "r \<noteq> s \<and> t r = \<lparr>en_price = q, en_index = j\<rparr>"
      if "(t(s := Entry_default)) r = \<lparr>en_price = q, en_index = j\<rparr>" for r
      using that assms(3) by (cases "r = s") (auto simp: Entry_default_def)
    have "(\<exists>r<TABLE_SIZE. (t(s := Entry_default)) r = \<lparr>en_price = q, en_index = j\<rparr>)
      \<longleftrightarrow> q \<noteq> p \<and> (\<exists>r<TABLE_SIZE. t r = \<lparr>en_price = q, en_index = j\<rparr>)" (is "?L \<longleftrightarrow> ?R")
    proof
      assume ?L
      then obtain r where "r < TABLE_SIZE" "r \<noteq> s" "t r = \<lparr>en_price = q, en_index = j\<rparr>"
        using e by blast
      then show ?R using u by force
    next
      assume ?R
      then obtain r where r: "r < TABLE_SIZE" "t r = \<lparr>en_price = q, en_index = j\<rparr>" "q \<noteq> p" by blast
      with s(2) have "r \<noteq> s" by auto
      with r show ?L by auto
    qed
    then show ?thesis
      by (simp only: t pim_find_iff [OF inv [unfolded t] assms(3)] pim_find_iff [OF assms(1,3)])
  next
    case False
    then have "snd (pim_remove t p) = t" and "pim_find t p = None"
      by (auto simp: pim_remove_probe pim_find_probe split: option.splits)
    then show ?thesis by auto
  qed
  then show ?thesis by (metis option.exhaust)
qed

section \<open>The contract of the price index\<close>

locale price_index =
  fixes find :: "'t \<Rightarrow> 'p \<Rightarrow> nat option"
    and insert :: "'t \<Rightarrow> 'p \<Rightarrow> nat \<Rightarrow> bool \<times> 't"
    and remove :: "'t \<Rightarrow> 'p \<Rightarrow> bool \<times> 't"
    and inv :: "'t \<Rightarrow> bool"
    and key :: "'p \<Rightarrow> bool"
    and room :: "'t \<Rightarrow> 'p \<Rightarrow> bool"
    and removable :: "'t \<Rightarrow> 'p \<Rightarrow> bool"
  assumes insert_inv: "inv t \<Longrightarrow> key p \<Longrightarrow> i \<noteq> SIZE_MAX \<Longrightarrow> inv (snd (insert t p i))"
    and insert_ok: "room t p \<Longrightarrow> fst (insert t p i)"
    and find_insert: "inv t \<Longrightarrow> key p \<Longrightarrow> key q \<Longrightarrow> i \<noteq> SIZE_MAX \<Longrightarrow> room t p \<Longrightarrow>
        find (snd (insert t p i)) q = (if q = p then Some i else find t q)"
    and remove_inv: "inv t \<Longrightarrow> key p \<Longrightarrow> removable t p \<Longrightarrow> inv (snd (remove t p))"
    and find_remove: "inv t \<Longrightarrow> key p \<Longrightarrow> key q \<Longrightarrow> removable t p \<Longrightarrow>
        find (snd (remove t p)) q = (if q = p then None else find t q)"
begin

text \<open>Storing a price and freeing it again leaves every lookup as it was.\<close>

lemma find_insert_remove:
  assumes "inv t" and "key p" and "key q" and "i \<noteq> SIZE_MAX" and "room t p"
    and "removable (snd (insert t p i)) p" and "find t p = None"
  shows "find (snd (remove (snd (insert t p i)) p)) q = find t q"
  using assms by (simp add: insert_inv find_insert find_remove)

text \<open>Overwriting keeps the last index only.\<close>

lemma find_insert_insert:
  assumes "inv t" and "key p" and "key q" and "i \<noteq> SIZE_MAX" and "j \<noteq> SIZE_MAX" and "room t p"
    and "room (snd (insert t p i)) p"
  shows "find (snd (insert (snd (insert t p i)) p j)) q = find (snd (insert t p j)) q"
  using assms by (simp add: insert_inv find_insert)

end

interpretation pim: price_index pim_find pim_insert pim_remove pim_inv "\<lambda>p. p \<noteq> 0" pim_room pim_removable
  by unfold_locales (auto intro: pim_inv_insert pim_insert_room pim_inv_remove
      simp: pim_find_insert pim_find_remove)

section \<open>What removal loses\<close>

lemma pim_new_probe: "pim_probe PriceIndexMap_new p = Some (price_hash p)"
  by (auto simp: PriceIndexMap_new_eq pim_probe_Some stops_def Entry_default_def
      intro!: exI [of _ 0])

lemma slot_1_neq: "slot p 1 \<noteq> price_hash p"
  using slot_inj [of 0 1 p] by (auto simp: TABLE_SIZE_def)

text \<open>Two prices of the same hash, stored one after the other; then the first one is freed.\<close>

definition pair_table :: "u64 \<Rightarrow> nat \<Rightarrow> u64 \<Rightarrow> nat \<Rightarrow> table" where
  "pair_table p i q j = (snd (pim_insert PriceIndexMap_new p i))(slot q 1 := \<lparr>en_price = q, en_index = j\<rparr>)"

lemma pair_table:
  assumes "p \<noteq> 0" and "q \<noteq> 0" and "p \<noteq> q" and "price_hash p = price_hash q"
  shows "pim_probe (snd (pim_insert PriceIndexMap_new p i)) q = Some (slot q 1)"
    and "snd (pim_insert PriceIndexMap_new p i) (slot q 1) = Entry_default"
    and "snd (pim_insert (snd (pim_insert PriceIndexMap_new p i)) q j) = pair_table p i q j"
    and "pair_table p i q j (price_hash q) = \<lparr>en_price = p, en_index = i\<rparr>"
    and "pair_table p i q j (slot q 1) = \<lparr>en_price = q, en_index = j\<rparr>"
    and "pim_probe (pair_table p i q j) p = Some (price_hash q)"
    and "pim_probe (pair_table p i q j) q = Some (slot q 1)"
    and "pim_remove (pair_table p i q j) p = (True, (pair_table p i q j)(price_hash q := Entry_default))"
    and "pim_probe ((pair_table p i q j)(price_hash q := Entry_default)) q = Some (price_hash q)"
proof -
  let ?t1 = "snd (pim_insert PriceIndexMap_new p i)" and ?t2 = "pair_table p i q j"
  have t1: "?t1 = PriceIndexMap_new(price_hash q := \<lparr>en_price = p, en_index = i\<rparr>)"
    by (simp add: pim_insert_probe pim_new_probe assms)
  show p1: "pim_probe ?t1 q = Some (slot q 1)"
    unfolding t1 using assms slot_1_neq [of q]
    by (intro pim_probe_I) (auto simp: stops_def PriceIndexMap_new_eq Entry_default_def TABLE_SIZE_def)
  then show "snd (pim_insert ?t1 q j) = ?t2"
    by (subst pim_insert_probe) (simp add: pair_table_def)
  show "?t1 (slot q 1) = Entry_default"
    unfolding t1 using slot_1_neq [of q] by (simp add: PriceIndexMap_new_eq)
  show at: "?t2 (price_hash q) = \<lparr>en_price = p, en_index = i\<rparr>"
    using slot_1_neq [of q] by (auto simp: pair_table_def t1)
  then show pp: "pim_probe ?t2 p = Some (price_hash q)"
    using pim_probe_I [of 0 ?t2 p] assms(4) by (simp add: stops_def)
  show "pim_probe ?t2 q = Some (slot q 1)"
    unfolding pair_table_def by (rule probe_upd_same [OF p1])
  show "pim_remove ?t2 p = (True, ?t2(price_hash q := Entry_default))"
    using pp at by (simp add: pim_remove_stored)
  show "pim_probe (?t2(price_hash q := Entry_default)) q = Some (price_hash q)"
    using pim_probe_I [of 0 "?t2(price_hash q := Entry_default)" q] by (simp add: stops_def Entry_default_def)
qed (simp add: pair_table_def)

text \<open>
  Two prices of the same hash: store both, remove the first, and the second one is no longer
  found although it is still in the table.
\<close>

theorem pim_remove_loses:
  assumes "p \<noteq> 0" and "q \<noteq> 0" and "p \<noteq> q" and "price_hash p = price_hash q"
    and "i \<noteq> SIZE_MAX" and "j \<noteq> SIZE_MAX"
  shows "let t = snd (pim_insert (snd (pim_insert PriceIndexMap_new p i)) q j)
         in pim_find t q = Some j \<and> fst (pim_remove t p) \<and> pim_find (snd (pim_remove t p)) q = None"
proof -
  note t = pair_table [OF assms(1-4), unfolded One_nat_def]
  have "en_price Entry_default \<noteq> q" using assms(2) by (simp add: Entry_default_def)
  then show ?thesis unfolding t(3) Let_def using assms(6) by (simp add: t pim_find_probe)
qed

text \<open>
  Instance: prices 100.00 and 100.64. Cent prices are multiples of \<open>10 ^ 6\<close> units, hence of
  64, so they share 64 of the 4096 home entries.
\<close>

theorem pim_remove_loses_witness:
  "(10000000000 :: u64) \<noteq> 0 \<and> (10064000000 :: u64) \<noteq> 0 \<and> (10000000000 :: u64) \<noteq> 10064000000
   \<and> price_hash 10000000000 = price_hash 10064000000 \<and> (0::nat) \<noteq> SIZE_MAX \<and> (1::nat) \<noteq> SIZE_MAX
   \<and> pim_find (snd (pim_remove (snd (pim_insert (snd (pim_insert PriceIndexMap_new 10000000000 0))
        10064000000 1)) 10000000000)) 10064000000 = None"
proof -
  have h: "price_hash 10000000000 = price_hash 10064000000"
    by (simp add: price_hash_eq TABLE_SIZE_def)
  show ?thesis
    using pim_remove_loses [OF _ _ _ h, of 0 1] h by (simp add: SIZE_MAX_def Let_def)
qed

text \<open>Instance: the table that holds 100.00 only.\<close>

theorem pim_remove_inv_iff_witness:
  "\<exists>t. pim_inv t \<and> (10000000000 :: u64) \<noteq> 0 \<and> pim_find t 10000000000 = Some 0
     \<and> (pim_inv (snd (pim_remove t 10000000000)) \<longleftrightarrow> pim_removable t 10000000000)"
proof -
  let ?t = "snd (pim_insert PriceIndexMap_new 10000000000 0)"
  have r: "pim_room PriceIndexMap_new 10000000000"
    by (auto simp: pim_room_def PriceIndexMap_new_eq Entry_default_def intro: exI [of _ 0])
  have i: "pim_inv ?t" by (rule pim_inv_insert) (simp_all add: pim_inv_new SIZE_MAX_def)
  have f: "pim_find ?t 10000000000 = Some 0"
    using pim_find_insert [OF pim_inv_new _ _ _ r, of 10000000000 0] by (simp add: SIZE_MAX_def)
  from pim_remove_inv_iff [OF i _ f] i f show ?thesis by (intro exI [of _ ?t]) simp
qed

end
