(* ===== verification/Ring_Buffer.thy ===== *)
theory Ring_Buffer
  imports Prelude
begin

unbundle bit_operations_syntax

text \<open>
  The class \<open>RingBuffer<T, CAPACITY>\<close> of \<open>include/utils/ring_buffer.hpp\<close>, one operation at a
  time: \<open>push\<close>, \<open>pop\<close>, \<open>peek\<close>, \<open>empty\<close>, \<open>full\<close>, \<open>size\<close>, \<open>clear\<close>. The template argument
  \<open>CAPACITY\<close> is the first argument \<open>cap\<close>; \<open>head\<close> is where the producer writes next, \<open>tail\<close> where
  the consumer reads next, and the array is a function on indices.

  The locale \<open>bounded_fifo\<close> is the contract of a bounded first-in first-out queue; the
  interpretation \<open>rb\<close> shows that the ring buffer keeps it with room for \<open>CAPACITY - 1\<close> elements.
\<close>

record 'a RingBuffer =
  rb_head :: nat
  rb_tail :: nat
  rb_buffer :: "nat \<Rightarrow> 'a"

definition RingBuffer_new :: "'a \<Rightarrow> 'a RingBuffer" where
  "RingBuffer_new dflt = \<lparr>rb_head = 0, rb_tail = 0, rb_buffer = (\<lambda>_. dflt)\<rparr>"

definition rb_push :: "nat \<Rightarrow> 'a \<Rightarrow> 'a RingBuffer \<Rightarrow> bool \<times> 'a RingBuffer" where
  "rb_push cap value b =
     (let head = rb_head b; next_head = (head + 1) AND (cap - 1)
      in if next_head = rb_tail b then (False, b)
         else (True, b\<lparr>rb_buffer := (rb_buffer b)(head := value), rb_head := next_head\<rparr>))"

definition rb_pop :: "nat \<Rightarrow> 'a RingBuffer \<Rightarrow> 'a option \<times> 'a RingBuffer" where
  "rb_pop cap b =
     (let tail = rb_tail b
      in if tail = rb_head b then (None, b)
         else (Some (rb_buffer b tail), b\<lparr>rb_tail := (tail + 1) AND (cap - 1)\<rparr>))"

definition rb_peek :: "'a RingBuffer \<Rightarrow> 'a option" where
  "rb_peek b = (let tail = rb_tail b
                in if tail = rb_head b then None else Some (rb_buffer b tail))"

definition rb_empty :: "'a RingBuffer \<Rightarrow> bool" where
  "rb_empty b \<longleftrightarrow> rb_tail b = rb_head b"

definition rb_full :: "nat \<Rightarrow> 'a RingBuffer \<Rightarrow> bool" where
  "rb_full cap b \<longleftrightarrow> (let next_head = (rb_head b + 1) AND (cap - 1) in next_head = rb_tail b)"

text \<open>\<open>size\<close> subtracts two \<open>size_t\<close> values, which wraps when the head is behind the tail.\<close>

definition rb_size :: "nat \<Rightarrow> 'a RingBuffer \<Rightarrow> nat" where
  "rb_size cap b = unat ((of_nat (rb_head b) - of_nat (rb_tail b) :: u64) AND of_nat (cap - 1))"

definition rb_clear :: "'a RingBuffer \<Rightarrow> 'a RingBuffer" where
  "rb_clear b = b\<lparr>rb_head := 0, rb_tail := 0\<rparr>"

section \<open>Abstraction to a list\<close>

definition rb_inv :: "nat \<Rightarrow> 'a RingBuffer \<Rightarrow> bool" where
  "rb_inv cap b \<longleftrightarrow> (\<exists>k<64. cap = 2 ^ k) \<and> rb_head b < cap \<and> rb_tail b < cap"

definition rb_count :: "nat \<Rightarrow> 'a RingBuffer \<Rightarrow> nat" where
  "rb_count cap b = (rb_head b + cap - rb_tail b) mod cap"

definition rb_list :: "nat \<Rightarrow> 'a RingBuffer \<Rightarrow> 'a list" where
  "rb_list cap b = map (\<lambda>i. rb_buffer b ((rb_tail b + i) mod cap)) [0..<rb_count cap b]"

lemma and_mask_pow2: "n AND (2 ^ k - Suc 0) = n mod 2 ^ k" for n :: nat
  by (metis One_nat_def mask_eq_exp_minus_1 take_bit_eq_mask take_bit_eq_mod)

lemma rb_inv_mask: "rb_inv cap b \<Longrightarrow> n AND (cap - Suc 0) = n mod cap"
  by (auto simp: rb_inv_def and_mask_pow2)

lemma rb_push_step: "rb_inv cap b \<Longrightarrow> rb_push cap v b =
    (if (rb_head b + 1) mod cap = rb_tail b then (False, b)
     else (True, b\<lparr>rb_buffer := (rb_buffer b)(rb_head b := v), rb_head := (rb_head b + 1) mod cap\<rparr>))"
  by (simp add: rb_push_def Let_def rb_inv_mask)

lemma rb_pop_step: "rb_inv cap b \<Longrightarrow> rb_pop cap b =
    (if rb_tail b = rb_head b then (None, b)
     else (Some (rb_buffer b (rb_tail b)), b\<lparr>rb_tail := (rb_tail b + 1) mod cap\<rparr>))"
  by (simp add: rb_pop_def Let_def rb_inv_mask)

lemma rb_full_step: "rb_inv cap b \<Longrightarrow> rb_full cap b \<longleftrightarrow> (rb_head b + 1) mod cap = rb_tail b"
  by (simp add: rb_full_def Let_def rb_inv_mask)

lemma wrap_distance:
  assumes "t < c" and "n < c"
  shows "((t + n) mod c + c - t) mod c = (n::nat)"
proof (cases "t + n < c")
  case False
  with assms have "(t + n) mod c = t + n - c" by (simp add: mod_if)
  with False assms show ?thesis by simp
qed (use assms in simp)

lemma rb_count_less: "rb_inv cap b \<Longrightarrow> rb_count cap b < cap"
  by (auto simp: rb_inv_def rb_count_def)

lemma rb_head_count: "rb_inv cap b \<Longrightarrow> (rb_tail b + rb_count cap b) mod cap = rb_head b"
proof -
  assume i: "rb_inv cap b"
  then have l: "rb_tail b \<le> rb_head b + cap" "rb_head b < cap" by (auto simp: rb_inv_def)
  have "(rb_tail b + rb_count cap b) mod cap = (rb_tail b + (rb_head b + cap - rb_tail b)) mod cap"
    by (simp add: rb_count_def mod_add_right_eq)
  with l show ?thesis by simp
qed

lemma rb_head_Suc: "rb_inv cap b \<Longrightarrow> Suc (rb_head b) mod cap = Suc (rb_tail b + rb_count cap b) mod cap"
  using rb_head_count [of cap b] by (metis mod_Suc_eq)

lemma rb_count_eqI:
  "rb_tail b < cap \<Longrightarrow> n < cap \<Longrightarrow> rb_head b = (rb_tail b + n) mod cap \<Longrightarrow> rb_count cap b = n"
  by (simp add: rb_count_def wrap_distance)

lemma rb_length [simp]: "length (rb_list cap b) = rb_count cap b"
  by (simp add: rb_list_def)

lemma rb_full_iff: "rb_inv cap b \<Longrightarrow> rb_full cap b \<longleftrightarrow> rb_count cap b = cap - 1"
proof -
  assume i: "rb_inv cap b"
  let ?n = "rb_count cap b"
  have c: "0 < cap" "rb_tail b < cap" using i by (auto simp: rb_inv_def)
  have n: "?n < cap" using i by (rule rb_count_less)
  have h: "(rb_head b + 1) mod cap = (rb_tail b + Suc ?n) mod cap"
    using rb_head_Suc [OF i] by simp
  have "(rb_tail b + Suc ?n) mod cap = rb_tail b \<longleftrightarrow> Suc ?n = cap"
  proof
    assume e: "(rb_tail b + Suc ?n) mod cap = rb_tail b"
    show "Suc ?n = cap"
    proof (rule ccontr)
      assume "Suc ?n \<noteq> cap"
      with n have s: "Suc ?n < cap" by simp
      have "(rb_tail b + cap - rb_tail b) mod cap = Suc ?n"
        using wrap_distance [OF c(2) s] e by simp
      then show False by simp
    qed
  qed (use c in simp)
  with i h n show ?thesis by (auto simp: rb_full_step)
qed

lemma rb_empty_iff: "rb_inv cap b \<Longrightarrow> rb_empty b \<longleftrightarrow> rb_count cap b = 0"
  using rb_head_count [of cap b] rb_count_eqI [of b cap 0]
  by (auto simp: rb_empty_def rb_inv_def)

lemma rb_push_inv: "rb_inv cap b \<Longrightarrow> rb_inv cap (snd (rb_push cap v b))"
  by (simp add: rb_push_step) (auto simp: rb_inv_def)

lemma rb_pop_inv: "rb_inv cap b \<Longrightarrow> rb_inv cap (snd (rb_pop cap b))"
  by (simp add: rb_pop_step) (auto simp: rb_inv_def)

lemma rb_push_full: "rb_full cap b \<Longrightarrow> rb_push cap v b = (False, b)"
  by (simp add: rb_push_def rb_full_def Let_def)

lemma rb_push_list:
  assumes i: "rb_inv cap b" and nf: "\<not> rb_full cap b"
  shows "fst (rb_push cap v b)" and "rb_list cap (snd (rb_push cap v b)) = rb_list cap b @ [v]"
proof -
  let ?n = "rb_count cap b" and ?b = "snd (rb_push cap v b)"
  have c: "0 < cap" "rb_tail b < cap" using i by (auto simp: rb_inv_def)
  have n: "Suc ?n < cap" using rb_count_less [OF i] nf i by (auto simp: rb_full_iff)
  have b: "rb_push cap v b
    = (True, b\<lparr>rb_buffer := (rb_buffer b)(rb_head b := v), rb_head := (rb_head b + 1) mod cap\<rparr>)"
    using nf i by (simp add: rb_push_step rb_full_step)
  then show "fst (rb_push cap v b)" by simp
  have cnt: "rb_count cap ?b = Suc ?n"
    using n c rb_head_Suc [OF i] b by (intro rb_count_eqI) auto
  have old: "(rb_tail b + j) mod cap \<noteq> rb_head b" if "j < ?n" for j
    using wrap_distance [OF c(2), of j] wrap_distance [OF c(2), of ?n] rb_head_count [OF i] that n
    by fastforce
  have "rb_list cap ?b = map (\<lambda>j. rb_buffer ?b ((rb_tail b + j) mod cap)) [0..<Suc ?n]"
    unfolding rb_list_def cnt using b by simp
  also have "\<dots> = map (\<lambda>j. rb_buffer b ((rb_tail b + j) mod cap)) [0..<?n] @ [v]"
    using old rb_head_count [OF i] b by simp
  finally show "rb_list cap ?b = rb_list cap b @ [v]" by (simp add: rb_list_def)
qed

lemma rb_pop_empty: "rb_inv cap b \<Longrightarrow> rb_count cap b = 0 \<Longrightarrow> rb_pop cap b = (None, b) \<and> rb_list cap b = []"
  using rb_empty_iff [of cap b] by (simp add: rb_list_def rb_pop_step rb_empty_def)

lemma rb_pop_list:
  assumes i: "rb_inv cap b" and n: "rb_count cap b = Suc m"
  shows "fst (rb_pop cap b) = Some (hd (rb_list cap b))"
    and "rb_list cap (snd (rb_pop cap b)) = tl (rb_list cap b)"
proof -
  let ?b = "snd (rb_pop cap b)"
  have c: "0 < cap" "rb_tail b < cap" using i by (auto simp: rb_inv_def)
  have ne: "rb_tail b \<noteq> rb_head b" using n rb_empty_iff [OF i] by (simp add: rb_empty_def)
  have l: "rb_list cap b = rb_buffer b (rb_tail b) # map (\<lambda>j. rb_buffer b ((rb_tail b + j) mod cap)) [Suc 0..<Suc m]"
    using c by (simp add: rb_list_def n upt_conv_Cons del: upt_Suc)
  then show "fst (rb_pop cap b) = Some (hd (rb_list cap b))"
    using ne i by (simp add: rb_pop_step)
  have b: "?b = b\<lparr>rb_tail := (rb_tail b + 1) mod cap\<rparr>"
    using ne i by (simp add: rb_pop_step)
  have cnt: "rb_count cap ?b = m"
    using b c n rb_count_less [OF i] rb_head_count [OF i]
    by (intro rb_count_eqI) (auto simp: mod_add_left_eq mod_Suc_eq)
  have "tl (rb_list cap b) = map (\<lambda>j. rb_buffer b ((rb_tail b + Suc j) mod cap)) [0..<m]"
    by (simp add: l map_Suc_upt [symmetric] del: upt_Suc)
  also have "\<dots> = rb_list cap ?b"
    unfolding rb_list_def cnt by (simp add: b mod_simps)
  finally show "rb_list cap ?b = tl (rb_list cap b)" ..
qed

lemma rb_size_count: "rb_inv cap b \<Longrightarrow> rb_size cap b = rb_count cap b"
proof -
  assume i: "rb_inv cap b"
  then obtain k where k: "k < 64" "cap = 2 ^ k" by (auto simp: rb_inv_def)
  let ?d = "of_nat (rb_head b) - of_nat (rb_tail b) :: u64"
  have t: "rb_tail b \<le> rb_head b + cap" using i by (simp add: rb_inv_def)
  have "of_nat (cap - 1) = (mask k :: u64)" using k by (simp add: mask_eq_exp_minus_1 of_nat_diff)
  then have "rb_size cap b = take_bit k (unat ?d)"
    by (simp only: rb_size_def unsigned_take_bit_eq flip: take_bit_eq_mask)
  then have "int (rb_size cap b) = uint ?d mod 2 ^ k"
    by (simp add: take_bit_eq_mod of_nat_mod)
  also have "\<dots> = (int (rb_head b) - int (rb_tail b)) mod 2 ^ 64 mod 2 ^ k"
    by (simp add: uint_word_ariths unsigned_of_nat take_bit_eq_mod of_nat_mod mod_simps)
  also have "\<dots> = (int (rb_head b) - int (rb_tail b)) mod 2 ^ k"
    using k by (intro mod_mod_cancel le_imp_power_dvd) simp
  also have "\<dots> = int (rb_count cap b)"
  proof -
    have "int (rb_count cap b) = (int (rb_head b) + int cap - int (rb_tail b)) mod int cap"
      using t by (simp add: rb_count_def of_nat_mod of_nat_diff)
    also have "\<dots> = (int (rb_head b) - int (rb_tail b) + int cap) mod int cap"
      by (simp only: diff_add_eq)
    also have "\<dots> = (int (rb_head b) - int (rb_tail b)) mod int cap" by (rule mod_add_self2)
    finally show ?thesis using k(2) by simp
  qed
  finally show ?thesis by simp
qed

section \<open>The contract of a bounded queue\<close>

datatype 'a fifo_op = Push 'a | Pop
datatype 'a fifo_out = Pushed bool | Popped "'a option"

fun fifo_run :: "('a \<Rightarrow> 'q \<Rightarrow> bool \<times> 'q) \<Rightarrow> ('q \<Rightarrow> 'a option \<times> 'q) \<Rightarrow>
    'a fifo_op list \<Rightarrow> 'q \<Rightarrow> 'a fifo_out list \<times> 'q" where
  "fifo_run push pop [] q = ([], q)"
| "fifo_run push pop (Push x # ops) q =
     (let (ok, q') = push x q; (out, r) = fifo_run push pop ops q' in (Pushed ok # out, r))"
| "fifo_run push pop (Pop # ops) q =
     (let (x, q') = pop q; (out, r) = fifo_run push pop ops q' in (Popped x # out, r))"

text \<open>The abstract queue: a list that takes no more than \<open>limit\<close> elements.\<close>

definition list_push :: "nat \<Rightarrow> 'a \<Rightarrow> 'a list \<Rightarrow> bool \<times> 'a list" where
  "list_push limit x xs = (if length xs < limit then (True, xs @ [x]) else (False, xs))"

definition list_pop :: "'a list \<Rightarrow> 'a option \<times> 'a list" where
  "list_pop xs = (case xs of [] \<Rightarrow> (None, []) | x # ys \<Rightarrow> (Some x, ys))"

locale bounded_fifo =
  fixes push :: "'a \<Rightarrow> 'q \<Rightarrow> bool \<times> 'q"
    and pop :: "'q \<Rightarrow> 'a option \<times> 'q"
    and contents :: "'q \<Rightarrow> 'a list"
    and inv :: "'q \<Rightarrow> bool"
    and limit :: nat
  assumes push_inv: "inv q \<Longrightarrow> inv (snd (push x q))"
    and pop_inv: "inv q \<Longrightarrow> inv (snd (pop q))"
    and push_spec: "inv q \<Longrightarrow>
        list_push limit x (contents q) = (fst (push x q), contents (snd (push x q)))"
    and pop_spec: "inv q \<Longrightarrow> list_pop (contents q) = (fst (pop q), contents (snd (pop q)))"
begin

lemma run_inv: "inv q \<Longrightarrow> inv (snd (fifo_run push pop ops q))"
proof (induction ops arbitrary: q)
  case (Cons op ops)
  then show ?case by (cases op) (simp_all add: case_prod_beta Let_def push_inv pop_inv)
qed simp

lemma run_refines:
  "inv q \<Longrightarrow> fifo_run (list_push limit) list_pop ops (contents q)
     = (fst (fifo_run push pop ops q), contents (snd (fifo_run push pop ops q)))"
proof (induction ops arbitrary: q)
  case (Cons op ops)
  show ?case
  proof (cases op)
    case (Push x)
    with Cons.IH [OF push_inv [OF Cons.prems, of x]] push_spec [OF Cons.prems, of x]
    show ?thesis by (simp add: case_prod_beta Let_def)
  next
    case Pop
    with Cons.IH [OF pop_inv [OF Cons.prems]] pop_spec [OF Cons.prems]
    show ?thesis by (simp add: case_prod_beta Let_def)
  qed
qed simp

end

interpretation rb: bounded_fifo "rb_push cap" "rb_pop cap" "rb_list cap" "rb_inv cap" "cap - 1" for cap
proof
  fix q :: "'a RingBuffer" and x
  assume i: "rb_inv cap q"
  show "rb_inv cap (snd (rb_push cap x q))" using i by (rule rb_push_inv)
  show "rb_inv cap (snd (rb_pop cap q))" using i by (rule rb_pop_inv)
  show "list_push (cap - 1) x (rb_list cap q)
      = (fst (rb_push cap x q), rb_list cap (snd (rb_push cap x q)))"
    using i rb_push_list [OF i, of x] rb_push_full [of cap q x] rb_full_iff [OF i] rb_count_less [OF i]
    by (cases "rb_full cap q") (auto simp: list_push_def)
  show "list_pop (rb_list cap q) = (fst (rb_pop cap q), rb_list cap (snd (rb_pop cap q)))"
  proof (cases "rb_count cap q")
    case 0
    with rb_pop_empty [OF i] show ?thesis by (simp add: list_pop_def)
  next
    case (Suc m)
    then obtain y ys where "rb_list cap q = y # ys"
      by (metis Suc_length_conv rb_length)
    with rb_pop_list [OF i Suc] show ?thesis by (simp add: list_pop_def)
  qed
qed

text \<open>
  C10. Any sequence of pushes and pops on a ring buffer whose capacity is a power of two gives, call
  by call, the answers of a first-in first-out list bounded by \<open>CAPACITY - 1\<close> elements, and
  \<open>size\<close>, \<open>empty\<close> and \<open>full\<close> report the length of that list.
\<close>

theorem ring_buffer_refines_fifo:
  fixes ops :: "'a fifo_op list"
  assumes "k < 64" and "cap = 2 ^ k"
  shows "let (out, b) = fifo_run (rb_push cap) (rb_pop cap) ops (RingBuffer_new d);
             (spec, xs) = fifo_run (list_push (cap - 1)) list_pop ops []
         in out = spec \<and> rb_size cap b = length xs \<and> rb_empty b = (xs = [])
            \<and> rb_full cap b = (length xs = cap - 1) \<and> rb_peek b = fst (list_pop xs)"
proof -
  let ?run = "fifo_run (rb_push cap) (rb_pop cap) ops (RingBuffer_new d)"
  have i0: "rb_inv cap (RingBuffer_new d)" and e0: "rb_list cap (RingBuffer_new d) = []"
    using assms by (auto simp: rb_inv_def RingBuffer_new_def rb_list_def rb_count_def)
  have i: "rb_inv cap (snd ?run)" using rb.run_inv [OF i0] .
  have r: "fifo_run (list_push (cap - 1)) list_pop ops [] = (fst ?run, rb_list cap (snd ?run))"
    using rb.run_refines [OF i0, of ops] e0 by simp
  have "rb_peek (snd ?run) = fst (rb_pop cap (snd ?run))"
    by (simp add: rb_peek_def rb_pop_def Let_def)
  also have "\<dots> = fst (list_pop (rb_list cap (snd ?run)))"
    using rb.pop_spec [OF i] by simp
  finally show ?thesis
    using r rb_size_count [OF i] rb_empty_iff [OF i] rb_full_iff [OF i]
    by (simp add: case_prod_beta flip: length_0_conv)
qed

text \<open>Witness of C10: a buffer of capacity 4 is pushed full, refuses the next push and pops in order.\<close>

theorem ring_buffer_refines_fifo_witness:
  "(2::nat) < 64 \<and> (4::nat) = 2 ^ 2 \<and>
   fst (fifo_run (rb_push 4) (rb_pop 4) [Push 1, Push 2, Push 3, Push 4, Pop, Pop] (RingBuffer_new (0::nat)))
   = [Pushed True, Pushed True, Pushed True, Pushed False, Popped (Some 1), Popped (Some 2)]"
  using ring_buffer_refines_fifo
    [of 2 4 "[Push 1, Push 2, Push 3, Push 4, Pop, Pop]" "0::nat"]
  by (simp add: list_push_def list_pop_def case_prod_beta)

end
