(* ===== verification/Seq_Lock.thy ===== *)
theory Seq_Lock
  imports Prelude
begin

unbundle bit_operations_syntax

text \<open>
  The class \<open>SeqLock\<close> of \<open>include/utils/seq_lock.hpp\<close> with its guards, and its protocol: writers
  that bump the sequence before and after their stores, and a reader that loads cells between
  \<open>begin\<close> and \<open>retry\<close>.

  \<^item> \<open>write_lock\<close>, \<open>write_unlock\<close>, \<open>read_begin\<close>, \<open>read_retry\<close>, \<open>rg_begin\<close>, \<open>rg_retry\<close> are the
    operations on the sequence word; \<open>read_begin\<close> is one turn of its spin loop, \<open>None\<close> meaning that
    the loop goes on.
  \<^item> \<open>sl_step\<close> interleaves the atomic accesses of any set of writers with those of one reader. The
    state carries ghost components for the proofs: the number of bumps so far, and for the reader
    that number and the data at the moment its \<open>begin\<close> returned. The model is sequentially
    consistent; the memory orders of the code are not modelled.
  \<^item> With one writer a validated read is a consistent snapshot (\<open>seqlock_consistent_read\<close>); the
    class does not exclude a second writer, and with two of them a validated read can be torn
    (\<open>seqlock_two_writers_torn\<close>).
\<close>

section \<open>Operations\<close>

type_synonym SeqLock = u64

definition SeqLock_new :: SeqLock where
  "SeqLock_new = 0"

definition write_lock :: "SeqLock \<Rightarrow> SeqLock" where
  "write_lock sequence = sequence + 1"

definition write_unlock :: "SeqLock \<Rightarrow> SeqLock" where
  "write_unlock sequence = sequence + 1"

definition read_begin :: "SeqLock \<Rightarrow> u64 option" where
  "read_begin sequence = (if sequence AND 1 \<noteq> 0 then None else Some sequence)"

definition read_retry :: "SeqLock \<Rightarrow> u64 \<Rightarrow> bool" where
  "read_retry sequence seq \<longleftrightarrow> sequence \<noteq> seq"

record ReadGuard =
  rg_seq :: u64
  rg_valid :: bool

definition ReadGuard_new :: ReadGuard where
  "ReadGuard_new = \<lparr>rg_seq = 0, rg_valid = False\<rparr>"

definition rg_begin :: "SeqLock \<Rightarrow> ReadGuard \<Rightarrow> ReadGuard option" where
  "rg_begin sequence g =
     (case read_begin sequence of None \<Rightarrow> None
      | Some seq \<Rightarrow> Some (g\<lparr>rg_seq := seq, rg_valid := False\<rparr>))"

definition rg_retry :: "SeqLock \<Rightarrow> ReadGuard \<Rightarrow> bool \<times> ReadGuard" where
  "rg_retry sequence g =
     (if read_retry sequence (rg_seq g) then (True, g) else (False, g\<lparr>rg_valid := True\<rparr>))"

text \<open>A write section on an otherwise idle lock: constructor and destructor of \<open>WriteGuard\<close>.\<close>

definition write_section :: "SeqLock \<Rightarrow> SeqLock" where
  "write_section sequence = write_unlock (write_lock sequence)"

lemma and_1_u64: "(w AND 1 = 0) = even w" for w :: u64
  by (metis and_one_eq even_iff_mod_2_eq_zero odd_iff_mod_2_eq_one one_neq_zero)

lemma even_u64_of_nat: "even (of_nat n :: u64) \<longleftrightarrow> even n"
  by simp

section \<open>The protocol\<close>

datatype 'v reader =
    RIdle
  | RReading ReadGuard "nat \<rightharpoonup> 'v" nat "nat \<Rightarrow> 'v"
  | RDone ReadGuard "nat \<rightharpoonup> 'v" nat nat "nat \<Rightarrow> 'v"

record 'v sl_state =
  sl_sequence :: SeqLock
  sl_bumps :: nat
  sl_active :: "nat set"
  sl_data :: "nat \<Rightarrow> 'v"
  sl_reader :: "'v reader"

definition sl_init :: "(nat \<Rightarrow> 'v) \<Rightarrow> 'v sl_state" where
  "sl_init d = \<lparr>sl_sequence = SeqLock_new, sl_bumps = 0, sl_active = {}, sl_data = d, sl_reader = RIdle\<rparr>"

inductive sl_step :: "nat set \<Rightarrow> 'v sl_state \<Rightarrow> 'v sl_state \<Rightarrow> bool" for W where
  w_lock: "w \<in> W \<Longrightarrow> w \<notin> sl_active s \<Longrightarrow>
    sl_step W s (s\<lparr>sl_sequence := write_lock (sl_sequence s), sl_bumps := Suc (sl_bumps s),
                   sl_active := insert w (sl_active s)\<rparr>)"
| w_store: "w \<in> sl_active s \<Longrightarrow>
    sl_step W s (s\<lparr>sl_data := (sl_data s)(c := v)\<rparr>)"
| w_unlock: "w \<in> sl_active s \<Longrightarrow>
    sl_step W s (s\<lparr>sl_sequence := write_unlock (sl_sequence s), sl_bumps := Suc (sl_bumps s),
                   sl_active := sl_active s - {w}\<rparr>)"
| r_begin: "sl_reader s = RIdle \<Longrightarrow> rg_begin (sl_sequence s) ReadGuard_new = Some g \<Longrightarrow>
    sl_step W s (s\<lparr>sl_reader := RReading g Map.empty (sl_bumps s) (sl_data s)\<rparr>)"
| r_load: "sl_reader s = RReading g cap n d \<Longrightarrow>
    sl_step W s (s\<lparr>sl_reader := RReading g (cap(c \<mapsto> sl_data s c)) n d\<rparr>)"
| r_retry: "sl_reader s = RReading g cap n d \<Longrightarrow> rg_retry (sl_sequence s) g = (True, g') \<Longrightarrow>
    sl_step W s (s\<lparr>sl_reader := RIdle\<rparr>)"
| r_done: "sl_reader s = RReading g cap n d \<Longrightarrow> rg_retry (sl_sequence s) g = (False, g') \<Longrightarrow>
    sl_step W s (s\<lparr>sl_reader := RDone g' cap n (sl_bumps s) d\<rparr>)"

inductive sl_reachable :: "nat set \<Rightarrow> (nat \<Rightarrow> 'v) \<Rightarrow> 'v sl_state \<Rightarrow> bool" for W d where
  init: "sl_reachable W d (sl_init d)"
| step: "sl_reachable W d s \<Longrightarrow> sl_step W s s' \<Longrightarrow> sl_reachable W d s'"

section \<open>One writer\<close>

fun reader_ok :: "'v sl_state \<Rightarrow> 'v reader \<Rightarrow> bool" where
  "reader_ok s RIdle = True"
| "reader_ok s (RReading g cap n d) =
     (rg_seq g = of_nat n \<and> even n \<and> n \<le> sl_bumps s \<and>
      (sl_bumps s = n \<longrightarrow> sl_data s = d \<and> (\<forall>c v. cap c = Some v \<longrightarrow> v = d c)))"
| "reader_ok s (RDone g cap n m d) =
     (rg_valid g \<and> (of_nat n :: u64) = of_nat m \<and> n \<le> m \<and>
      (m = n \<longrightarrow> (\<forall>c v. cap c = Some v \<longrightarrow> v = d c)))"

definition sl_inv :: "nat \<Rightarrow> 'v sl_state \<Rightarrow> bool" where
  "sl_inv w s \<longleftrightarrow> sl_sequence s = of_nat (sl_bumps s) \<and> sl_active s \<subseteq> {w} \<and>
     (even (sl_bumps s) \<longleftrightarrow> sl_active s = {}) \<and> reader_ok s (sl_reader s)"

lemma read_begin_even: "read_begin q = Some r \<longleftrightarrow> even q \<and> r = q"
  by (auto simp: read_begin_def and_1_u64)

lemma rg_begin_Some: "rg_begin q g = Some g' \<longleftrightarrow> even q \<and> g' = g\<lparr>rg_seq := q, rg_valid := False\<rparr>"
  by (auto simp: rg_begin_def read_begin_def and_1_u64)

lemma rg_retry_False: "rg_retry q g = (False, g') \<longleftrightarrow> q = rg_seq g \<and> g' = g\<lparr>rg_valid := True\<rparr>"
  by (auto simp: rg_retry_def read_retry_def)

lemma sl_step_inv:
  assumes "sl_step {w} s s'" and "sl_inv w s"
  shows "sl_inv w s'"
  using assms
proof (cases rule: sl_step.cases)
  case (w_lock v)
  with assms(2) show ?thesis
    by (cases "sl_reader s") (auto simp: sl_inv_def write_lock_def)
next
  case (w_store v c x)
  with assms(2) show ?thesis
    by (cases "sl_reader s") (auto simp: sl_inv_def)
next
  case (w_unlock v)
  with assms(2) show ?thesis
    by (cases "sl_reader s") (auto simp: sl_inv_def write_unlock_def)
next
  case (r_begin g)
  with assms(2) show ?thesis
    by (auto simp: sl_inv_def rg_begin_Some even_u64_of_nat)
next
  case (r_done g cap n d g')
  with assms(2) show ?thesis
    by (auto simp: sl_inv_def rg_retry_False)
qed (auto simp: sl_inv_def)

lemma sl_reachable_inv: "sl_reachable {w} d s \<Longrightarrow> sl_inv w s"
proof (induction rule: sl_reachable.induct)
  case init
  show ?case by (simp add: sl_inv_def sl_init_def SeqLock_new_def)
next
  case (step s s')
  then show ?case by (blast intro: sl_step_inv)
qed

lemma of_nat_u64_eq_imp:
  assumes "(of_nat n :: u64) = of_nat m" and "n \<le> m" and "m - n < 2 ^ 64"
  shows "m = n"
proof -
  have "n mod 2 ^ 64 = m mod 2 ^ 64"
    using assms(1) by (simp add: word_of_nat_eq_iff take_bit_eq_mod)
  then have "2 ^ 64 dvd m - n" using assms(2) mod_eq_dvd_iff_nat [of n m "2 ^ 64"] by simp
  with assms(3) show ?thesis using assms(2) dvd_imp_le [of "2 ^ 64" "m - n"] by linarith
qed

text \<open>
  C11. With a single writer, a read that \<open>retry\<close> accepts saw one instant: every cell it loaded has
  the value it had when \<open>begin\<close> returned, provided the sequence moved fewer than \<open>2 ^ 64\<close> times
  in between (the counter has 64 bits).
\<close>

theorem seqlock_consistent_read:
  assumes "sl_reachable {w} d0 s" and "sl_reader s = RDone g cap n m d" and "m - n < 2 ^ 64"
  shows "rg_valid g \<and> (\<forall>c \<in> dom cap. cap c = Some (d c))"
proof -
  have "sl_inv w s" using assms(1) by (rule sl_reachable_inv)
  then have ok: "reader_ok s (RDone g cap n m d)" using assms(2) by (simp add: sl_inv_def)
  then have "m = n" using assms(3) by (intro of_nat_u64_eq_imp) auto
  with ok show ?thesis by auto
qed

section \<open>Runs of the protocol\<close>

datatype 'v sl_act = Lock nat | Store nat nat 'v | Unlock nat | Begin | Load nat | Check

text \<open>One scheduled action, where it is enabled: an executable form of \<open>sl_step\<close>.\<close>

fun sl_exec :: "nat set \<Rightarrow> 'v sl_act \<Rightarrow> 'v sl_state \<Rightarrow> 'v sl_state option" where
  "sl_exec W (Lock w) s =
     (if w \<in> W \<and> w \<notin> sl_active s
      then Some (s\<lparr>sl_sequence := write_lock (sl_sequence s), sl_bumps := Suc (sl_bumps s),
                   sl_active := insert w (sl_active s)\<rparr>) else None)"
| "sl_exec W (Store w c v) s =
     (if w \<in> sl_active s then Some (s\<lparr>sl_data := (sl_data s)(c := v)\<rparr>) else None)"
| "sl_exec W (Unlock w) s =
     (if w \<in> sl_active s
      then Some (s\<lparr>sl_sequence := write_unlock (sl_sequence s), sl_bumps := Suc (sl_bumps s),
                   sl_active := sl_active s - {w}\<rparr>) else None)"
| "sl_exec W Begin s =
     (case (sl_reader s, rg_begin (sl_sequence s) ReadGuard_new) of
        (RIdle, Some g) \<Rightarrow> Some (s\<lparr>sl_reader := RReading g Map.empty (sl_bumps s) (sl_data s)\<rparr>)
      | _ \<Rightarrow> None)"
| "sl_exec W (Load c) s =
     (case sl_reader s of
        RReading g cap n d \<Rightarrow> Some (s\<lparr>sl_reader := RReading g (cap(c \<mapsto> sl_data s c)) n d\<rparr>)
      | _ \<Rightarrow> None)"
| "sl_exec W Check s =
     (case sl_reader s of
        RReading g cap n d \<Rightarrow>
          (case rg_retry (sl_sequence s) g of
             (True, g') \<Rightarrow> Some (s\<lparr>sl_reader := RIdle\<rparr>)
           | (False, g') \<Rightarrow> Some (s\<lparr>sl_reader := RDone g' cap n (sl_bumps s) d\<rparr>))
      | _ \<Rightarrow> None)"

fun sl_run :: "nat set \<Rightarrow> 'v sl_act list \<Rightarrow> 'v sl_state \<Rightarrow> 'v sl_state option" where
  "sl_run W [] s = Some s"
| "sl_run W (a # as) s = (case sl_exec W a s of None \<Rightarrow> None | Some s' \<Rightarrow> sl_run W as s')"

lemma sl_exec_step: "sl_exec W a s = Some s' \<Longrightarrow> sl_step W s s'"
  by (cases a)
    (auto intro: sl_step.intros split: if_splits reader.splits option.splits prod.splits bool.splits)

lemma sl_run_reachable:
  "sl_reachable W d s \<Longrightarrow> sl_run W as s = Some s' \<Longrightarrow> sl_reachable W d s'"
  by (induction as arbitrary: s)
    (auto split: option.splits intro: sl_reachable.step dest: sl_exec_step)

lemmas sl_eval = sl_init_def SeqLock_new_def write_lock_def write_unlock_def rg_begin_def
  read_begin_def rg_retry_def read_retry_def ReadGuard_new_def

text \<open>Witness of C11: the reader meets a writer once, retries, and reads two cells of the new data.\<close>

theorem seqlock_consistent_read_witness:
  "\<exists>s g cap n m d. sl_reachable {0} (\<lambda>_. 0::nat) s \<and> sl_reader s = RDone g cap n m d \<and> m - n < 2 ^ 64
     \<and> cap 0 = Some 7 \<and> rg_valid g \<and> (\<forall>c \<in> dom cap. cap c = Some (d c))"
proof -
  let ?as = "[Begin, Load 0, Lock 0, Store 0 0 7, Store 0 1 7, Unlock 0, Check,
              Begin, Load 0, Load 1, Check] :: nat sl_act list"
  obtain s where s: "sl_run {0} ?as (sl_init (\<lambda>_. 0)) = Some s" by (simp add: sl_eval)
  have r: "sl_reachable {0} (\<lambda>_. 0) s" using sl_run_reachable [OF sl_reachable.init s] .
  obtain g cap d where "sl_reader s = RDone g cap 2 2 d" "cap 0 = Some 7"
    using s by (auto simp: sl_eval)
  with seqlock_consistent_read [OF r, of g cap 2 2 d] r show ?thesis by fastforce
qed

text \<open>
  Nothing stops a second writer: with two of them the sequence is even while both are writing,
  the reader's \<open>begin\<close> and \<open>retry\<close> both succeed, and the accepted pair of cells mixes the values
  before and after a write, although the writers keep the two cells equal.
\<close>

theorem seqlock_two_writers_torn:
  "\<exists>s g cap n m d. sl_reachable {0, 1} (\<lambda>_. 0::nat) s \<and> sl_reader s = RDone g cap n m d
     \<and> rg_valid g \<and> m = n \<and> cap 0 = Some 0 \<and> cap 1 = Some 7"
proof -
  let ?as = "[Lock 0, Lock 1, Begin, Load 0, Store 0 0 7, Store 0 1 7, Load 1, Check] :: nat sl_act list"
  obtain s where s: "sl_run {0, 1} ?as (sl_init (\<lambda>_. 0)) = Some s" by (simp add: sl_eval)
  have r: "sl_reachable {0, 1} (\<lambda>_. 0) s" using sl_run_reachable [OF sl_reachable.init s] .
  obtain g cap d where "sl_reader s = RDone g cap 2 2 d" "rg_valid g" "cap 0 = Some 0" "cap 1 = Some 7"
    using s by (auto simp: sl_eval)
  with r show ?thesis by blast
qed

end
