(* ===== verification/Order_Book_Updates.thy ===== *)
theory Order_Book_Updates
  imports Order_Book
begin

text \<open>
  What the updates of \<open>OrderBook\<close> do to the level arrays, the price indices and the cached best
  levels.
\<close>

section \<open>Free levels and best levels\<close>

lemma find_free_slot_from_Some:
  "find_free_slot_from i ls = (if \<exists>l\<in>set ls. pl_price l = 0
     then i + (LEAST k. k < length ls \<and> pl_price (ls ! k) = 0) else SIZE_MAX)"
proof (induction ls arbitrary: i)
  case (Cons l ls)
  show ?case
  proof (cases "pl_price l = 0")
    case True
    then have "(LEAST k. k < length (l # ls) \<and> pl_price ((l # ls) ! k) = 0) = 0"
      by (intro Least_equality) auto
    with True show ?thesis by simp
  next
    case False
    have "(LEAST k. k < length (l # ls) \<and> pl_price ((l # ls) ! k) = 0)
        = Suc (LEAST k. k < length ls \<and> pl_price (ls ! k) = 0)" if "\<exists>l\<in>set ls. pl_price l = 0"
    proof -
      from that obtain k where "k < length ls" "pl_price (ls ! k) = 0" by (auto simp: in_set_conv_nth)
      then show ?thesis using False by (subst Least_Suc [of _ "Suc k"]) auto
    qed
    with False Cons.IH [of "Suc i"] show ?thesis by auto
  qed
qed simp

lemma find_free_slot_free:
  assumes "find_free_slot ls \<noteq> SIZE_MAX"
  shows "find_free_slot ls < length ls" and "pl_price (ls ! find_free_slot ls) = 0"
proof -
  have e: "\<exists>l\<in>set ls. pl_price l = 0"
    using assms by (auto simp: find_free_slot_def find_free_slot_from_Some split: if_splits)
  then have "\<exists>k. k < length ls \<and> pl_price (ls ! k) = 0" by (auto simp: in_set_conv_nth)
  from LeastI_ex [OF this] e
  show "find_free_slot ls < length ls" and "pl_price (ls ! find_free_slot ls) = 0"
    by (simp_all add: find_free_slot_def find_free_slot_from_Some)
qed

lemma find_free_slot_full:
  assumes "length ls < SIZE_MAX"
  shows "find_free_slot ls = SIZE_MAX \<longleftrightarrow> (\<forall>l\<in>set ls. pl_price l \<noteq> 0)"
proof
  assume "find_free_slot ls = SIZE_MAX"
  show "\<forall>l\<in>set ls. pl_price l \<noteq> 0"
  proof (rule ccontr)
    assume "\<not> ?thesis"
    then have e: "\<exists>l\<in>set ls. pl_price l = 0" by blast
    then have "\<exists>k. k < length ls \<and> pl_price (ls ! k) = 0" by (auto simp: in_set_conv_nth)
    from LeastI_ex [OF this] e have "find_free_slot ls < length ls"
      by (simp add: find_free_slot_def find_free_slot_from_Some)
    with \<open>find_free_slot ls = SIZE_MAX\<close> assms show False by simp
  qed
qed (simp add: find_free_slot_def find_free_slot_from_Some)

text \<open>The order in which a side ranks its prices.\<close>

fun better :: "Side \<Rightarrow> u64 \<Rightarrow> u64 \<Rightarrow> bool" where
  "better BID a b \<longleftrightarrow> a > b"
| "better ASK a b \<longleftrightarrow> a < b"

lemma better_linear: "\<not> better side a b \<Longrightarrow> a \<noteq> b \<Longrightarrow> better side b a"
  by (cases side) auto

lemma better_trans: "\<not> better side a b \<Longrightarrow> \<not> better side b c \<Longrightarrow> \<not> better side a c"
  by (cases side) auto

lemma better_asym: "better side a b \<Longrightarrow> \<not> better side b a"
  by (cases side) auto

definition is_best :: "Side \<Rightarrow> PriceLevel list \<Rightarrow> u64 \<Rightarrow> bool" where
  "is_best side ls p \<longleftrightarrow> (\<forall>l\<in>set ls. pl_price l \<noteq> 0 \<longrightarrow> \<not> better side (pl_price l) p)"

lemma is_best_Cons: "is_best side (l # ls) p \<longleftrightarrow>
    (pl_price l = 0 \<or> \<not> better side (pl_price l) p) \<and> is_best side ls p"
  by (auto simp: is_best_def)

lemma best_loop_Cons: "best_loop side i (l # ls) bp bi =
    (if pl_price l \<noteq> 0 \<and> (bp = 0 \<or> better side (pl_price l) bp)
     then best_loop side (Suc i) ls (pl_price l) i else best_loop side (Suc i) ls bp bi)"
  by (cases side) (auto simp: Let_def word_gt_0)

lemma best_loop_spec:
  fixes side ls i bp bi
  defines "j \<equiv> best_loop side i ls bp bi"
  shows "(j = bi \<and> (if bp = 0 then \<forall>l\<in>set ls. pl_price l = 0 else is_best side ls bp))
    \<or> (\<exists>k<length ls. j = i + k \<and> pl_price (ls ! k) \<noteq> 0 \<and> (bp = 0 \<or> better side (pl_price (ls ! k)) bp)
         \<and> is_best side ls (pl_price (ls ! k)))"
  unfolding j_def
proof (induction ls arbitrary: i bp bi)
  case Nil
  then show ?case by (simp add: is_best_def)
next
  case (Cons l ls)
  show ?case
  proof (cases "pl_price l \<noteq> 0 \<and> (bp = 0 \<or> better side (pl_price l) bp)")
    case True
    then have e: "best_loop side i (l # ls) bp bi = best_loop side (Suc i) ls (pl_price l) i"
      by (simp only: best_loop_Cons) simp
    from Cons.IH [of "Suc i" "pl_price l" i] True
    consider "best_loop side (Suc i) ls (pl_price l) i = i" "is_best side ls (pl_price l)"
      | k where "k < length ls" "best_loop side (Suc i) ls (pl_price l) i = Suc i + k"
        "pl_price (ls ! k) \<noteq> 0" "better side (pl_price (ls ! k)) (pl_price l)"
        "is_best side ls (pl_price (ls ! k))" by auto
    then show ?thesis
    proof cases
      case 1
      with True e show ?thesis
        by (intro disjI2 exI [of _ 0]) (auto simp: is_best_Cons dest: better_asym)
    next
      case (2 k)
      moreover have "bp = 0 \<or> better side (pl_price (ls ! k)) bp"
        using True 2 by (metis better_asym better_linear better_trans)
      ultimately show ?thesis using e
        by (intro disjI2 exI [of _ "Suc k"]) (auto simp: is_best_Cons dest: better_asym)
    qed
  next
    case False
    then have e: "best_loop side i (l # ls) bp bi = best_loop side (Suc i) ls bp bi"
      by (simp only: best_loop_Cons if_False)
    from Cons.IH [of "Suc i" bp bi]
    consider "best_loop side (Suc i) ls bp bi = bi"
        "if bp = 0 then \<forall>l\<in>set ls. pl_price l = 0 else is_best side ls bp"
      | k where "k < length ls" "best_loop side (Suc i) ls bp bi = Suc i + k"
        "pl_price (ls ! k) \<noteq> 0" "bp = 0 \<or> better side (pl_price (ls ! k)) bp"
        "is_best side ls (pl_price (ls ! k))" by blast
    then show ?thesis
    proof cases
      case 1
      with False e show ?thesis by (auto simp: is_best_Cons)
    next
      case (2 k)
      moreover have "pl_price l = 0 \<or> \<not> better side (pl_price l) (pl_price (ls ! k))"
        using False 2(4) by (metis better_asym better_linear better_trans)
      ultimately show ?thesis using e
        by (intro disjI2 exI [of _ "Suc k"]) (auto simp: is_best_Cons)
    qed
  qed
qed

lemma best_level_idx_cases:
  obtains (none) "best_level_idx side ls = SIZE_MAX" "\<forall>l\<in>set ls. pl_price l = 0"
  | (some) "best_level_idx side ls < length ls" "pl_price (ls ! best_level_idx side ls) \<noteq> 0"
      "is_best side ls (pl_price (ls ! best_level_idx side ls))"
  using best_loop_spec [of side 0 ls 0 SIZE_MAX] by (auto simp: best_level_idx_def)

lemma best_level_idx_none:
  assumes "length ls < SIZE_MAX"
  shows "best_level_idx side ls = SIZE_MAX \<longleftrightarrow> (\<forall>l\<in>set ls. pl_price l = 0)"
  using assms by (cases rule: best_level_idx_cases [of side ls]) auto

section \<open>The level array and its index\<close>

text \<open>
  The entries of the index and the occupied levels are in bijection: every entry points to a level
  of its price, no two entries point to the same level, every occupied level has an entry. This
  does not say that a lookup finds the entry; that is \<open>pim_inv\<close>.
\<close>

definition side_coh :: "PriceLevel list \<Rightarrow> table \<Rightarrow> bool" where
  "side_coh ls t \<longleftrightarrow>
     (\<forall>s. stored t s \<longrightarrow> en_index (t s) < length ls \<and> pl_price (ls ! en_index (t s)) = en_price (t s)) \<and>
     (\<forall>s r. stored t s \<longrightarrow> stored t r \<longrightarrow> en_index (t s) = en_index (t r) \<longrightarrow> s = r) \<and>
     (\<forall>i<length ls. pl_price (ls ! i) \<noteq> 0 \<longrightarrow> (\<exists>s. stored t s \<and> en_index (t s) = i))"

lemma side_cohD:
  assumes "side_coh ls t"
  shows "stored t s \<Longrightarrow> en_index (t s) < length ls"
    and "stored t s \<Longrightarrow> pl_price (ls ! en_index (t s)) = en_price (t s)"
    and "stored t s \<Longrightarrow> stored t r \<Longrightarrow> en_index (t s) = en_index (t r) \<Longrightarrow> s = r"
    and "i < length ls \<Longrightarrow> pl_price (ls ! i) \<noteq> 0 \<Longrightarrow> \<exists>s. stored t s \<and> en_index (t s) = i"
  using assms by (simp_all add: side_coh_def)

text \<open>An index over fewer levels than the table has entries never runs full.\<close>

lemma side_coh_room:
  assumes coh: "side_coh ls t" and "length ls < TABLE_SIZE"
  shows "pim_room t p"
proof (rule ccontr)
  assume "\<not> pim_room t p"
  then have all: "stored t s" if "s < TABLE_SIZE" for s
    using that by (auto simp: pim_room_def stored_def)
  have "inj_on (\<lambda>s. en_index (t s)) {..<TABLE_SIZE}"
    using side_cohD(3) [OF coh] all by (auto intro!: inj_onI)
  moreover have "(\<lambda>s. en_index (t s)) ` {..<TABLE_SIZE} \<subseteq> {..<length ls}"
    using side_cohD(1) [OF coh] all by auto
  ultimately have "TABLE_SIZE \<le> length ls"
    using card_inj_on_le [of _ "{..<TABLE_SIZE}" "{..<length ls}"] by simp
  with assms(2) show False by simp
qed

lemma entry_eq_iff: "e = \<lparr>en_price = p, en_index = i\<rparr> \<longleftrightarrow> en_price e = p \<and> en_index e = i"
  for e :: Entry
  by (cases e) simp

lemma side_coh_find:
  assumes "side_coh ls t" and "length ls < SIZE_MAX" and "p \<noteq> 0"
  shows "pim_find t p = Some i \<longleftrightarrow> (\<exists>s. pim_probe t p = Some s \<and> t s = \<lparr>en_price = p, en_index = i\<rparr>)"
    and "pim_find t p = None \<longleftrightarrow> (\<forall>s. pim_probe t p = Some s \<longrightarrow> en_price (t s) = 0)"
proof -
  have n: "en_index (t s) \<noteq> SIZE_MAX" if "pim_probe t p = Some s" "en_price (t s) = p" for s
    using side_cohD(1) [OF assms(1), of s] that assms(2,3) pim_probe_less [OF that(1)]
    by (auto simp: stored_def)
  show "pim_find t p = Some i \<longleftrightarrow> (\<exists>s. pim_probe t p = Some s \<and> t s = \<lparr>en_price = p, en_index = i\<rparr>)"
    using n by (cases "pim_probe t p")
      (auto simp: pim_find_probe entry_eq_iff split: if_splits)
  show "pim_find t p = None \<longleftrightarrow> (\<forall>s. pim_probe t p = Some s \<longrightarrow> en_price (t s) = 0)"
    using n assms(3) pim_probe_stops [of t p]
    by (cases "pim_probe t p") (auto simp: pim_find_probe split: if_splits)
qed

lemma side_coh_store:
  assumes "side_coh ls t" and "stored t s" and "pl_price l = en_price (t s)"
  shows "side_coh (ls[en_index (t s) := l]) t"
proof -
  have "en_index (t s) < length ls" and "pl_price (ls ! en_index (t s)) = en_price (t s)"
    using side_cohD [OF assms(1)] assms(2) by auto
  then have "pl_price (ls[en_index (t s) := l] ! i) = pl_price (ls ! i)" for i
    using assms(3) by (cases "i = en_index (t s)") simp_all
  with assms(1) show ?thesis by (simp add: side_coh_def)
qed

lemma side_coh_alloc:
  assumes "side_coh ls t" and "s < TABLE_SIZE" and "en_price (t s) = 0"
    and "i < length ls" and "pl_price (ls ! i) = 0" and "pl_price l = p" and "p \<noteq> 0"
  shows "side_coh (ls[i := l]) (t(s := \<lparr>en_price = p, en_index = i\<rparr>))"
proof -
  let ?t = "t(s := \<lparr>en_price = p, en_index = i\<rparr>)"
  have st: "stored ?t r \<longleftrightarrow> r = s \<or> stored t r" for r
    using assms(2,7) by (auto simp: stored_def)
  have ne: "r \<noteq> s" "en_index (t r) \<noteq> i" if "stored t r" for r
    using side_cohD(2) [OF assms(1) that] that assms(3,5) by (auto simp: stored_def)
  show ?thesis
    unfolding side_coh_def st
    using side_cohD [OF assms(1)] assms ne by (auto simp: nth_list_update) metis+
qed

lemma side_coh_erase:
  assumes "side_coh ls t" and "stored t s" and "pl_price l = 0"
  shows "side_coh (ls[en_index (t s) := l]) (t(s := Entry_default))"
proof -
  let ?t = "t(s := Entry_default)"
  have st: "stored ?t r \<longleftrightarrow> r \<noteq> s \<and> stored t r" for r
    by (auto simp: stored_def Entry_default_def)
  show ?thesis
    unfolding side_coh_def st
    using side_cohD [OF assms(1)] assms(2,3) by (auto simp: nth_list_update) metis+
qed

text \<open>Both ways of getting a level leave an entry for it that the probe finds.\<close>

lemma side_alloc_Some:
  assumes coh: "side_coh ls t" and n: "length ls < TABLE_SIZE" and p: "p \<noteq> 0"
    and alloc: "side_alloc p ls t = Some (i, t1)"
  obtains s where "i < length ls" "pim_probe t1 p = Some s" "t1 s = \<lparr>en_price = p, en_index = i\<rparr>"
    "stored t1 s" "\<And>l. pl_price l = p \<Longrightarrow> side_coh (ls[i := l]) t1"
    "pim_find t p = Some i \<and> t1 = t \<or> pim_find t p = None \<and> pl_price (ls ! i) = 0 \<and> en_price (t s) = 0
       \<and> i = find_free_slot ls \<and> t1 = t(s := \<lparr>en_price = p, en_index = i\<rparr>)"
proof (cases "pim_find t p")
  case (Some j)
  from n have n': "length ls < SIZE_MAX" by (simp add: TABLE_SIZE_def SIZE_MAX_def)
  from Some alloc have e: "i = j" "t1 = t" by (simp_all add: side_alloc_def)
  from Some obtain s where s: "pim_probe t p = Some s" "t s = \<lparr>en_price = p, en_index = i\<rparr>"
    using side_coh_find(1) [OF coh n' p] e by auto
  then have st: "stored t s" using p pim_probe_less by (auto simp: stored_def)
  show thesis
    using that [of s] s st e Some side_cohD(1) [OF coh st] side_coh_store [OF coh st] by simp
next
  case None
  from n have n': "length ls < SIZE_MAX" by (simp add: TABLE_SIZE_def SIZE_MAX_def)
  obtain s where s: "pim_probe t p = Some s" using pim_room_probe [OF side_coh_room [OF coh n]] .
  with None have z: "en_price (t s) = 0" using side_coh_find(2) [OF coh n' p] by blast
  have i: "i = find_free_slot ls" "i < length ls" "pl_price (ls ! i) = 0"
    and t1: "t1 = t(s := \<lparr>en_price = p, en_index = i\<rparr>)"
    using None alloc s find_free_slot_free [of ls]
    by (auto simp: side_alloc_def Let_def pim_insert_probe split: if_splits)
  have "stored t1 s" using pim_probe_less [OF s] p by (simp add: stored_def t1)
  moreover have "side_coh (ls[i := l]) t1" if "pl_price l = p" for l
    unfolding t1 using that p by (rule side_coh_alloc [OF coh pim_probe_less [OF s] z i(2,3)])
  moreover have "pim_probe t1 p = Some s" unfolding t1 by (rule probe_upd_same [OF s])
  ultimately show thesis using that [of s] i z None t1 by simp
qed

lemma side_alloc_None:
  assumes "length ls < SIZE_MAX"
  shows "side_alloc p ls t = None \<longleftrightarrow> pim_find t p = None \<and> (\<forall>l\<in>set ls. pl_price l \<noteq> 0)"
  using find_free_slot_full [OF assms] by (auto simp: side_alloc_def Let_def split: option.splits)

lemma side_update_coh:
  assumes coh: "side_coh ls t" and n: "length ls < TABLE_SIZE" and p: "p \<noteq> 0"
  obtains (full) "side_update p q c ts ls t = Inr None" "pim_find t p = None" "\<forall>l\<in>set ls. pl_price l \<noteq> 0"
  | (ok) ls' t' where "side_update p q c ts ls t = Inr (Some (ls', t'))" "side_coh ls' t'"
      "length ls' = length ls"
proof (cases "side_alloc p ls t")
  case None
  then show thesis using full side_alloc_None [of ls p t] n
    by (auto simp: side_update_def TABLE_SIZE_def SIZE_MAX_def)
next
  case (Some x)
  then obtain i t1 where a: "side_alloc p ls t = Some (i, t1)" by (cases x) auto
  from side_alloc_Some [OF coh n p a] obtain s where s: "i < length ls" "pim_probe t1 p = Some s"
    "t1 s = \<lparr>en_price = p, en_index = i\<rparr>" "stored t1 s"
    and c: "\<And>l. pl_price l = p \<Longrightarrow> side_coh (ls[i := l]) t1" by metis
  define l where "l = \<lparr>pl_price = p, pl_quantity = q, pl_order_count = c, pl_timestamp = ts\<rparr>"
  have "side_coh (ls[i := l\<lparr>pl_price := 0\<rparr>]) (t1(s := Entry_default))"
    using side_coh_erase [OF c [of l] s(4), of "l\<lparr>pl_price := 0\<rparr>"] s(3) by (simp add: l_def)
  moreover have "snd (pim_remove t1 p) = t1(s := Entry_default)"
    using s by (simp add: pim_remove_stored)
  moreover have "side_coh (ls[i := l]) t1" by (rule c) (simp add: l_def)
  moreover have "side_update p q c ts ls t = Inr (Some
      (if q = 0 then (ls[i := l\<lparr>pl_price := 0\<rparr>], snd (pim_remove t1 p)) else (ls[i := l], t1)))"
    using a s(1) by (simp add: side_update_def l_def Let_def)
  ultimately show thesis by (cases "q = 0") (auto intro: ok)
qed

lemma side_update_quantities:
  assumes "side_update p q c ts ls t = Inr (Some (ls', t'))"
    and "\<forall>l\<in>set ls. pl_price l \<noteq> 0 \<longrightarrow> pl_quantity l \<noteq> 0"
  shows "\<forall>l\<in>set ls'. pl_price l \<noteq> 0 \<longrightarrow> pl_quantity l \<noteq> 0"
  using assms by (auto simp: side_update_def Let_def split: option.splits if_splits
      dest!: set_update_subset_insert [THEN subsetD])

section \<open>The invariant of the book\<close>

definition book_inv :: "OrderBook \<Rightarrow> bool" where
  "book_inv b \<longleftrightarrow> length (ob_asks b) = length (ob_bids b) \<and> length (ob_bids b) < TABLE_SIZE \<and>
     even (ob_seq_lock b) \<and>
     (\<forall>side. side_coh (levels_of side b) (price_map_of side b) \<and>
        (\<forall>l\<in>set (levels_of side b). pl_price l \<noteq> 0 \<longrightarrow> pl_quantity l \<noteq> 0) \<and>
        best_idx_of side b = best_level_idx side (levels_of side b))"

lemma all_sides: "(\<forall>side. P side) \<longleftrightarrow> P BID \<and> P ASK"
  by (metis Side.exhaust)

lemma book_inv_length: "book_inv b \<Longrightarrow> length (levels_of side b) < TABLE_SIZE"
  by (cases side) (auto simp: book_inv_def)

lemma best_level_idx_free: "\<forall>l\<in>set ls. pl_price l = 0 \<Longrightarrow> best_level_idx side ls = SIZE_MAX"
  by (rule best_level_idx_cases [of side ls]) auto

lemma side_coh_empty:
  "\<forall>s<TABLE_SIZE. en_price (t s) = 0 \<Longrightarrow> \<forall>l\<in>set ls. pl_price l = 0 \<Longrightarrow> side_coh ls t"
  by (auto simp: side_coh_def stored_def)

lemma book_inv_new: "n < TABLE_SIZE \<Longrightarrow> book_inv (OrderBook_new n)"
  by (auto simp: book_inv_def OrderBook_new_def all_sides SeqLock_new_def PriceLevel_default_def
      PriceIndexMap_new_eq Entry_default_def best_level_idx_free intro!: side_coh_empty)

lemma book_inv_clear: "book_inv b \<Longrightarrow> book_inv (ob_clear b)"
  by (auto simp: book_inv_def ob_clear_def all_sides Let_def pim_clear_def write_lock_def
      write_unlock_def best_level_idx_free intro!: side_coh_empty)

lemma set_side_simps [book_simps]:
  "levels_of side (set_side side' ls t b) = (if side = side' then ls else levels_of side b)"
  "price_map_of side (set_side side' ls t b) = (if side = side' then t else price_map_of side b)"
  "best_idx_of side (set_side side' ls t b) = best_idx_of side b"
  "ob_seq_lock (set_side side' ls t b) = ob_seq_lock b"
  "ob_sequence_number (set_side side' ls t b) = ob_sequence_number b"
  "ob_recent_trades (set_side side' ls t b) = ob_recent_trades b"
  by (cases side; cases side'; simp)+

lemma update_best_level_simps [book_simps]:
  "levels_of side (update_best_level side' b) = levels_of side b"
  "price_map_of side (update_best_level side' b) = price_map_of side b"
  "best_idx_of side (update_best_level side' b) =
     (if side = side' then best_level_idx side (levels_of side b) else best_idx_of side b)"
  "ob_seq_lock (update_best_level side' b) = ob_seq_lock b"
  "ob_sequence_number (update_best_level side' b) = ob_sequence_number b"
  "ob_recent_trades (update_best_level side' b) = ob_recent_trades b"
  by (cases side; cases side'; simp)+

lemma seq_update_simps [book_simps]:
  "levels_of side (b\<lparr>ob_seq_lock := x\<rparr>) = levels_of side b"
  "price_map_of side (b\<lparr>ob_seq_lock := x\<rparr>) = price_map_of side b"
  "best_idx_of side (b\<lparr>ob_seq_lock := x\<rparr>) = best_idx_of side b"
  "levels_of side (b\<lparr>ob_sequence_number := y\<rparr>) = levels_of side b"
  "price_map_of side (b\<lparr>ob_sequence_number := y\<rparr>) = price_map_of side b"
  "best_idx_of side (b\<lparr>ob_sequence_number := y\<rparr>) = best_idx_of side b"
  by (cases side; simp)+

text \<open>One update, seen from the two sides.\<close>

lemma apply_level_cases:
  assumes "book_inv b" and "p \<noteq> 0"
  obtains (full) b' where "apply_level side p q c ts b = Inr (False, b')"
      "pim_find (price_map_of side b) p = None" "\<forall>l\<in>set (levels_of side b). pl_price l \<noteq> 0"
      "b' = b\<lparr>ob_seq_lock := ob_seq_lock b + 2\<rparr>"
  | (ok) b' ls t where "apply_level side p q c ts b = Inr (True, b')"
      "side_update p q c ts (levels_of side b) (price_map_of side b) = Inr (Some (ls, t))"
      "side_coh ls t" "length ls = length (levels_of side b)"
      "\<And>x. levels_of x b' = (if x = side then ls else levels_of x b)"
      "\<And>x. price_map_of x b' = (if x = side then t else price_map_of x b)"
      "\<And>x. best_idx_of x b' = (if x = side then best_level_idx x ls else best_idx_of x b)"
      "ob_seq_lock b' = ob_seq_lock b + 2"
      "ob_sequence_number b' = ob_sequence_number b + 1"
      "ob_recent_trades b' = ob_recent_trades b"
proof -
  have coh: "side_coh (levels_of side b) (price_map_of side b)"
    using assms(1) by (simp add: book_inv_def)
  show thesis
  proof (cases rule: side_update_coh [OF coh book_inv_length [OF assms(1)] assms(2), of q c ts,
        case_names full ok])
    case full
    then show thesis
      by (intro that(1)) (simp_all add: apply_level_def book_simps write_lock_def write_unlock_def)
  next
    case (ok ls t)
    let ?b = "update_best_level side (set_side side ls t (b\<lparr>ob_seq_lock := ob_seq_lock b + 1\<rparr>))"
    let ?b' = "?b\<lparr>ob_sequence_number := ob_sequence_number b + 1, ob_seq_lock := ob_seq_lock b + 2\<rparr>"
    have "apply_level side p q c ts b = Inr (True, ?b')"
      using ok by (simp add: apply_level_def book_simps write_lock_def write_unlock_def Let_def)
    then show thesis
      using that(2) [of ?b'] ok by (simp add: book_simps)
  qed
qed

lemma apply_level_inv:
  assumes "book_inv b" and "p \<noteq> 0"
  obtains r b' where "apply_level side p q c ts b = Inr (r, b')" "book_inv b'"
proof (cases rule: apply_level_cases [OF assms, of side q c ts, case_names full ok])
  case (full b')
  then have "book_inv b'" using assms(1) by (simp add: book_inv_def book_simps)
  with full(1) show thesis by (rule that)
next
  case (ok b' ls t)
  have len: "length (levels_of x b') = length (levels_of x b)" for x using ok by simp
  have "length (ob_bids b') = length (ob_bids b)" "length (ob_asks b') = length (ob_asks b)"
    using len [of BID] len [of ASK] by simp_all
  moreover have "side_coh (levels_of x b') (price_map_of x b') \<and>
      (\<forall>l\<in>set (levels_of x b'). pl_price l \<noteq> 0 \<longrightarrow> pl_quantity l \<noteq> 0) \<and>
      best_idx_of x b' = best_level_idx x (levels_of x b')" for x
    using ok assms(1) side_update_quantities [OF ok(2)] by (auto simp: book_inv_def)
  ultimately have "book_inv b'" using assms(1) ok(8) by (simp add: book_inv_def)
  with ok(1) show thesis by (rule that)
qed

section \<open>Runs of updates\<close>

datatype book_op = Update Side double double u32 u64 | Clear

fun book_exec :: "book_op \<Rightarrow> OrderBook \<Rightarrow> (bool \<times> OrderBook) result" where
  "book_exec (Update side price quantity order_count timestamp) b =
     update_level side price quantity order_count timestamp b"
| "book_exec Clear b = Inr (True, ob_clear b)"

fun book_run :: "book_op list \<Rightarrow> OrderBook \<Rightarrow> (bool list \<times> OrderBook) result" where
  "book_run [] b = Inr ([], b)"
| "book_run (op # ops) b =
     bindE (book_exec op b) (\<lambda>(r, b1). bindE (book_run ops b1) (\<lambda>(rs, b2). Inr (r # rs, b2)))"

text \<open>
  The fixed-point price and quantity of an update, if both conversions are defined and the price
  is at least one unit.
\<close>

fun op_fixed :: "book_op \<Rightarrow> (u64 \<times> u64) option" where
  "op_fixed (Update side price quantity order_count timestamp) =
     (case (double_to_fixed price, double_to_fixed quantity) of
        (Inr p, Inr q) \<Rightarrow> if p = 0 then None else Some (p, q) | _ \<Rightarrow> None)"
| "op_fixed Clear = None"

definition op_ok :: "book_op \<Rightarrow> bool" where
  "op_ok op \<longleftrightarrow> op = Clear \<or> op_fixed op \<noteq> None"

lemma op_fixed_Update:
  "op_fixed (Update side price quantity c ts) = Some (p, q) \<longleftrightarrow>
     double_to_fixed price = Inr p \<and> double_to_fixed quantity = Inr q \<and> p \<noteq> 0"
  by (auto split: sum.splits)

lemma op_ok_cases:
  assumes "op_ok op"
  obtains "op = Clear" | side price quantity c ts p q where "op = Update side price quantity c ts"
    "op_fixed op = Some (p, q)" "double_to_fixed price = Inr p" "double_to_fixed quantity = Inr q" "p \<noteq> 0"
  using assms by (cases op; cases "op_fixed op") (auto simp: op_ok_def op_fixed_Update simp del: op_fixed.simps(1))

lemma book_exec_inv:
  assumes "book_inv b" and "op_ok op"
  obtains r b' where "book_exec op b = Inr (r, b')" "book_inv b'"
    "length (ob_bids b') = length (ob_bids b)"
  using assms(2)
proof (cases rule: op_ok_cases)
  case 1
  then show thesis using that assms(1) book_inv_clear
    by (auto simp: ob_clear_def Let_def)
next
  case (2 side price quantity c ts p q)
  from apply_level_inv [OF assms(1) 2(5)] obtain r b' where
    r: "apply_level side p q c ts b = Inr (r, b')" "book_inv b'" .
  moreover have "length (ob_bids b') = length (ob_bids b)"
  proof (cases rule: apply_level_cases [OF assms(1) 2(5), of side q c ts, case_names full ok])
    case (ok b1 ls t)
    have "length (levels_of BID b1) = length (levels_of BID b)" using ok(4) ok(5) [of BID] by simp
    then show ?thesis using r ok(1) by simp
  qed (use r in auto)
  moreover have "book_exec op b = Inr (r, b')" using 2 r by (simp add: update_level_def)
  ultimately show thesis using that by blast
qed

lemma book_run_inv:
  assumes "book_inv b" and "list_all op_ok ops"
  shows "\<exists>rs b'. book_run ops b = Inr (rs, b') \<and> length rs = length ops \<and> book_inv b'
           \<and> length (ob_bids b') = length (ob_bids b)"
  using assms
proof (induction ops arbitrary: b)
  case (Cons op ops)
  then obtain r b1 where "book_exec op b = Inr (r, b1)" "book_inv b1"
    "length (ob_bids b1) = length (ob_bids b)" by (auto elim: book_exec_inv)
  with Cons show ?case by fastforce
qed simp

text \<open>The books that updates and clears can reach from an empty book.\<close>

inductive book_reachable :: "nat \<Rightarrow> OrderBook \<Rightarrow> bool" for n where
  br_new: "book_reachable n (OrderBook_new n)"
| br_exec: "book_reachable n b \<Longrightarrow> op_ok op \<Longrightarrow> book_exec op b = Inr (r, b') \<Longrightarrow> book_reachable n b'"

lemma book_reachable_inv:
  assumes "book_reachable n b" and "n < TABLE_SIZE"
  shows "book_inv b \<and> length (ob_bids b) = n"
  using assms
proof (induction rule: book_reachable.induct)
  case br_new
  then show ?case using book_inv_new [of n] by (simp add: OrderBook_new_def)
next
  case (br_exec b op r b')
  then have b: "book_inv b" "length (ob_bids b) = n" by simp_all
  obtain r1 b1 where "book_exec op b = Inr (r1, b1)" "book_inv b1" "length (ob_bids b1) = length (ob_bids b)"
    by (rule book_exec_inv [OF b(1) br_exec.hyps(2)])
  with br_exec.hyps(3) b show ?case by simp
qed

lemma book_run_reachable:
  assumes "book_reachable n b" and "list_all op_ok ops" and "book_run ops b = Inr (rs, b')"
  shows "book_reachable n b'"
  using assms
proof (induction ops arbitrary: b rs)
  case (Cons op ops)
  from Cons.prems(3) obtain r b1 rs1 where "book_exec op b = Inr (r, b1)" "book_run ops b1 = Inr (rs1, b')"
    by (auto simp: bindE_eq_Inr)
  moreover have "book_reachable n b1"
    using Cons.prems(1,2) calculation(1) by (auto intro: br_exec)
  ultimately show ?case using Cons.IH Cons.prems(2) by auto
qed simp

section \<open>Refinement: a side is a map from prices to levels\<close>

definition side_abs :: "PriceLevel list \<Rightarrow> u64 \<rightharpoonup> PriceLevel" where
  "side_abs ls p = (if p = 0 then None else find (\<lambda>l. pl_price l = p) ls)"

definition side_inv :: "PriceLevel list \<Rightarrow> table \<Rightarrow> bool" where
  "side_inv ls t \<longleftrightarrow> side_coh ls t \<and> pim_inv t \<and> length ls < TABLE_SIZE"

definition spec_update :: "nat \<Rightarrow> u64 \<Rightarrow> u64 \<Rightarrow> u32 \<Rightarrow> u64 \<Rightarrow> (u64 \<rightharpoonup> PriceLevel) \<Rightarrow>
    bool \<times> (u64 \<rightharpoonup> PriceLevel)" where
  "spec_update cap p q c ts m =
     (if m p = None \<and> card (dom m) = cap then (False, m)
      else (True, m(p := if q = 0 then None
              else Some \<lparr>pl_price = p, pl_quantity = q, pl_order_count = c, pl_timestamp = ts\<rparr>)))"

text \<open>With the probing invariant the index is exact.\<close>

lemma side_inv_find:
  assumes "side_inv ls t" and "p \<noteq> 0"
  shows "pim_find t p = Some i \<longleftrightarrow> i < length ls \<and> pl_price (ls ! i) = p"
proof -
  have coh: "side_coh ls t" and inv: "pim_inv t" using assms by (auto simp: side_inv_def)
  show ?thesis
  proof
    assume "pim_find t p = Some i"
    then obtain s where "stored t s" "en_price (t s) = p" "en_index (t s) = i"
      using assms(2) by (auto simp: pim_find_iff [OF inv assms(2)] stored_def)
    then show "i < length ls \<and> pl_price (ls ! i) = p" using side_cohD(1,2) [OF coh] by auto
  next
    assume "i < length ls \<and> pl_price (ls ! i) = p"
    then obtain s where "stored t s" "en_index (t s) = i" "en_price (t s) = p"
      using side_cohD(2,4) [OF coh] assms(2) by metis
    then show "pim_find t p = Some i"
      by (auto simp: pim_find_iff [OF inv assms(2)] stored_def entry_eq_iff)
  qed
qed

lemma find_SomeD: "find P xs = Some x \<Longrightarrow> P x \<and> x \<in> set xs"
  by (metis find_Some_iff nth_mem)

lemma side_abs_find:
  assumes "side_inv ls t" and "p \<noteq> 0"
  shows "side_abs ls p = map_option ((!) ls) (pim_find t p)"
proof (cases "pim_find t p")
  case None
  then have "\<forall>i<length ls. pl_price (ls ! i) \<noteq> p" using side_inv_find [OF assms] by auto
  then show ?thesis using None assms(2) by (auto simp: side_abs_def find_None_iff in_set_conv_nth)
next
  case (Some i)
  then have i: "i < length ls" "pl_price (ls ! i) = p" using side_inv_find [OF assms] by auto
  have "j = i" if "j < length ls" "pl_price (ls ! j) = p" for j
    using side_inv_find [OF assms, of j] that Some by simp
  then have u: "l = ls ! i" if "l \<in> set ls" "pl_price l = p" for l
    using that by (metis in_set_conv_nth)
  have "find (\<lambda>l. pl_price l = p) ls = Some (ls ! i)"
  proof (cases "find (\<lambda>l. pl_price l = p) ls")
    case None
    then have "pl_price (ls ! i) \<noteq> p" using i(1) by (simp add: find_None_iff)
    with i(2) show ?thesis by simp
  next
    case (Some l)
    then show ?thesis using u [of l] find_SomeD [OF Some] by simp
  qed
  with Some assms(2) show ?thesis by (simp add: side_abs_def)
qed

lemma side_abs_0 [simp]: "side_abs ls 0 = None"
  by (simp add: side_abs_def)

lemma side_abs_None: "side_abs ls p = None \<longleftrightarrow> p = 0 \<or> (\<forall>l\<in>set ls. pl_price l \<noteq> p)"
  by (auto simp: side_abs_def find_None_iff)

lemma side_abs_full:
  assumes "side_inv ls t"
  shows "card (dom (side_abs ls)) = length ls \<longleftrightarrow> (\<forall>l\<in>set ls. pl_price l \<noteq> 0)"
proof -
  let ?O = "{i. i < length ls \<and> pl_price (ls ! i) \<noteq> 0}"
  have "dom (side_abs ls) = (\<lambda>i. pl_price (ls ! i)) ` ?O"
  proof (intro set_eqI)
    fix p
    have "p \<in> dom (side_abs ls) \<longleftrightarrow> p \<noteq> 0 \<and> (\<exists>i<length ls. pl_price (ls ! i) = p)"
      by (simp only: domIff side_abs_None) (metis in_set_conv_nth)
    then show "p \<in> dom (side_abs ls) \<longleftrightarrow> p \<in> (\<lambda>i. pl_price (ls ! i)) ` ?O" by blast
  qed
  moreover have "inj_on (\<lambda>i. pl_price (ls ! i)) ?O"
    using side_inv_find [OF assms] by (intro inj_onI) (metis (mono_tags) mem_Collect_eq option.inject)
  ultimately have c: "card (dom (side_abs ls)) = card ?O" by (simp add: card_image)
  have "card ?O = length ls \<longleftrightarrow> ?O = {..<length ls}"
  proof
    assume "card ?O = length ls"
    then show "?O = {..<length ls}" by (intro card_subset_eq) auto
  qed simp
  also have "\<dots> \<longleftrightarrow> (\<forall>i<length ls. pl_price (ls ! i) \<noteq> 0)" by auto
  also have "\<dots> \<longleftrightarrow> (\<forall>l\<in>set ls. pl_price l \<noteq> 0)" by (simp add: all_set_conv_all_nth)
  finally show ?thesis using c by simp
qed

text \<open>An entry that was just stored in an empty slot can be freed again.\<close>

lemma removable_fresh:
  assumes "pim_inv t" and "pim_probe t p = Some s" and "en_price (t s) = 0"
  shows "pim_removable (t(s := \<lparr>en_price = p, en_index = i\<rparr>)) p"
proof -
  have "pdist (en_price (t r)) r < pdist (en_price (t r)) s"
    if r: "r < TABLE_SIZE" "en_price (t r) \<noteq> 0" "r \<noteq> s" for r
  proof -
    have "pim_probe t (en_price (t r)) = Some r" using assms(1) r by (simp add: pim_inv_def)
    moreover have "stops t (en_price (t r)) s" using assms(3) by (simp add: stops_def)
    ultimately have "\<not> pdist (en_price (t r)) s < pdist (en_price (t r)) r"
      using pim_probe_less [OF assms(2)] unfolding pim_probe_pdist by blast
    moreover have "pdist (en_price (t r)) s \<noteq> pdist (en_price (t r)) r"
      using pdist_inj r pim_probe_less [OF assms(2)] by blast
    ultimately show ?thesis by linarith
  qed
  then show ?thesis by (simp add: pim_removable_def probe_upd_same [OF assms(2)])
qed

lemma side_inv_alloc:
  assumes "side_inv ls t" and "p \<noteq> 0" and "side_alloc p ls t = Some (i, t1)"
  shows "pim_inv t1" and "\<And>x. x \<noteq> 0 \<Longrightarrow> pim_find t1 x = (if x = p then Some i else pim_find t x)"
    and "pim_find t p = None \<Longrightarrow> pim_removable t1 p"
proof -
  have coh: "side_coh ls t" and inv: "pim_inv t" and n: "length ls < TABLE_SIZE"
    using assms(1) by (auto simp: side_inv_def)
  have N: "length ls < SIZE_MAX" using n by (simp add: TABLE_SIZE_def SIZE_MAX_def)
  consider (found) "pim_find t p = Some i" "t1 = t"
    | (fresh) "pim_find t p = None" "i \<noteq> SIZE_MAX" "t1 = snd (pim_insert t p i)"
    using assms(3) by (auto simp: side_alloc_def Let_def split: option.splits if_splits)
  then have "pim_inv t1 \<and> (\<forall>x. x \<noteq> 0 \<longrightarrow> pim_find t1 x = (if x = p then Some i else pim_find t x))
      \<and> (pim_find t p = None \<longrightarrow> pim_removable t1 p)"
  proof cases
    case found
    with inv show ?thesis by simp
  next
    case fresh
    obtain s where s: "pim_probe t p = Some s" using pim_room_probe [OF side_coh_room [OF coh n]] .
    have "en_price (t s) = 0" using fresh(1) s side_coh_find(2) [OF coh N assms(2)] by blast
    then have "pim_removable t1 p"
      using removable_fresh [OF inv s] s fresh(3) by (simp add: pim_insert_probe)
    with fresh assms(2) inv side_coh_room [OF coh n, of p] show ?thesis
      by (simp add: pim.insert_inv pim.find_insert)
  qed
  then show "pim_inv t1" and "\<And>x. x \<noteq> 0 \<Longrightarrow> pim_find t1 x = (if x = p then Some i else pim_find t x)"
    and "pim_find t p = None \<Longrightarrow> pim_removable t1 p" by blast+
qed

text \<open>One update of a side refines the map update.\<close>

lemma side_inv_step:
  assumes inv: "side_inv ls t" and p: "p \<noteq> 0"
    and rem: "q = 0 \<Longrightarrow> pim_find t p \<noteq> None \<Longrightarrow> pim_removable t p"
  obtains (full) "side_update p q c ts ls t = Inr None"
      "spec_update (length ls) p q c ts (side_abs ls) = (False, side_abs ls)"
  | (ok) ls' t' where "side_update p q c ts ls t = Inr (Some (ls', t'))" "side_inv ls' t'"
      "length ls' = length ls"
      "spec_update (length ls) p q c ts (side_abs ls) = (True, side_abs ls')"
proof -
  have coh: "side_coh ls t" and n: "length ls < TABLE_SIZE" and "pim_inv t"
    using inv by (auto simp: side_inv_def)
  have N: "length ls < SIZE_MAX" using n by (simp add: TABLE_SIZE_def SIZE_MAX_def)
  have abs_None: "side_abs ls p = None \<longleftrightarrow> pim_find t p = None"
    by (simp add: side_abs_find [OF inv p])
  show thesis
  proof (cases "side_alloc p ls t")
    case None
    then have "side_update p q c ts ls t = Inr None" by (simp add: side_update_def)
    moreover have "side_abs ls p = None \<and> card (dom (side_abs ls)) = length ls"
      using None side_alloc_None [OF N] side_abs_full [OF inv] abs_None by simp
    ultimately show thesis by (intro full) (simp_all add: spec_update_def)
  next
    case (Some x)
    then obtain i t1 where a: "side_alloc p ls t = Some (i, t1)" by (cases x) auto
    note t1 = side_inv_alloc [OF inv p a]
    obtain s where i: "i < length ls" "pim_find t p = Some i \<or> pl_price (ls ! i) = 0"
      and c: "\<And>l. pl_price l = p \<Longrightarrow> side_coh (ls[i := l]) t1"
      by (rule side_alloc_Some [OF coh n p a]) blast
    have rem1: "pim_removable t1 p" if "q = 0"
      using rem [OF that] t1(3) a by (cases "pim_find t p") (auto simp: side_alloc_def)
    define l where "l = \<lparr>pl_price = p, pl_quantity = q, pl_order_count = c, pl_timestamp = ts\<rparr>"
    define ls' where "ls' = ls[i := if q = 0 then l\<lparr>pl_price := 0\<rparr> else l]"
    define t' where "t' = (if q = 0 then snd (pim_remove t1 p) else t1)"
    have e: "side_update p q c ts ls t = Inr (Some (ls', t'))"
      using a i(1) by (simp add: side_update_def l_def ls'_def t'_def Let_def)
    have "side_coh ls' t'"
      using side_update_coh [OF coh n p, of q c ts] e by fastforce
    moreover have "pim_inv t'" using t1(1) rem1 p by (simp add: t'_def pim.remove_inv)
    ultimately have inv': "side_inv ls' t'" using n by (simp add: side_inv_def ls'_def)
    have f': "pim_find t' x = (if x = p then if q = 0 then None else Some i else pim_find t x)"
      if "x \<noteq> 0" for x
      using t1(1,2) rem1 p that by (simp add: t'_def pim.find_remove)
    have keep: "ls' ! j = ls ! j" if "pim_find t x = Some j" "x \<noteq> p" "x \<noteq> 0" for x j
    proof -
      have "pl_price (ls ! j) = x" using that side_inv_find [OF inv] by blast
      moreover have "pl_price (ls ! i) \<in> {0, p}" using i(2) side_inv_find [OF inv p] by auto
      ultimately have "j \<noteq> i" using that(2,3) by auto
      then show ?thesis by (simp add: ls'_def)
    qed
    have "side_abs ls' x = ((side_abs ls)(p := if q = 0 then None else Some l)) x" for x
    proof (cases "x = 0")
      case False
      have "map_option ((!) ls') (pim_find t x) = map_option ((!) ls) (pim_find t x)" if "x \<noteq> p"
        using keep [OF _ that False] by (cases "pim_find t x") simp_all
      moreover have "ls' ! i = l" if "q \<noteq> 0" using i(1) that by (simp add: ls'_def)
      ultimately show ?thesis
        unfolding fun_upd_apply side_abs_find [OF inv' False] side_abs_find [OF inv False] f' [OF False]
        by simp
    qed (use p in simp)
    then have "side_abs ls' = (side_abs ls)(p := if q = 0 then None else Some l)" ..
    moreover have "\<not> (side_abs ls p = None \<and> card (dom (side_abs ls)) = length ls)"
      using side_alloc_None [OF N, of p t] a abs_None side_abs_full [OF inv] by auto
    ultimately have "spec_update (length ls) p q c ts (side_abs ls) = (True, side_abs ls')"
      by (auto simp: spec_update_def l_def)
    with e inv' show thesis by (intro ok) (simp_all add: ls'_def)
  qed
qed

section \<open>Prices without collisions\<close>

text \<open>Every entry is in the home slot of its price, and the prices come from the set \<open>P\<close>.\<close>

definition side_home :: "u64 set \<Rightarrow> table \<Rightarrow> bool" where
  "side_home P t \<longleftrightarrow> (\<forall>s. stored t s \<longrightarrow> en_price (t s) \<in> P \<and> price_hash (en_price (t s)) = s)"

lemma side_home_removable: "side_home P t \<Longrightarrow> pim_removable t p"
proof -
  assume home: "side_home P t"
  have "pdist (en_price (t r)) r < pdist (en_price (t r)) s"
    if "pim_probe t p = Some s" "r < TABLE_SIZE" "en_price (t r) \<noteq> 0" "r \<noteq> s" for r s
  proof -
    have "price_hash (en_price (t r)) = r" using home that by (auto simp: side_home_def stored_def)
    then have "pdist (en_price (t r)) r = 0" using pdist_slot [of 0 "en_price (t r)"] by simp
    moreover have "pdist (en_price (t r)) s \<noteq> pdist (en_price (t r)) r"
      using pdist_inj that pim_probe_less by blast
    ultimately show ?thesis by linarith
  qed
  then show ?thesis by (auto simp: pim_removable_def split: option.splits)
qed

lemma side_home_probe:
  assumes "side_home P t" and "inj_on price_hash P" and "p \<in> P"
  shows "pim_probe t p = Some (price_hash p)"
proof -
  have "stops t p (price_hash p)"
  proof (cases "en_price (t (price_hash p)) = 0")
    case False
    then have "en_price (t (price_hash p)) \<in> P"
      "price_hash (en_price (t (price_hash p))) = price_hash p"
      using assms(1) by (auto simp: side_home_def stored_def)
    then show ?thesis using assms(2,3) by (auto simp: stops_def dest: inj_onD)
  qed (simp add: stops_def)
  then show ?thesis using pim_probe_I [of 0 t p] by simp
qed

lemma side_home_update:
  assumes "side_home P t" and "inj_on price_hash P" and "p \<in> P" and "p \<noteq> 0"
    and "side_update p q c ts ls t = Inr (Some (ls', t'))"
  shows "side_home P t'"
proof -
  have ins: "side_home P (snd (pim_insert t p i))" for i
    using assms(1,3) by (auto simp: pim_insert_probe side_home_probe [OF assms(1-3)] side_home_def stored_def)
  have rem: "side_home P (snd (pim_remove u p))" if "side_home P u" for u
    using that by (auto simp: pim_remove_probe side_home_def stored_def Entry_default_def
        split: option.splits)
  show ?thesis
    using assms(1,5) ins rem by (auto simp: side_update_def side_alloc_def Let_def
        split: option.splits if_splits)
qed

fun spec_exec :: "nat \<Rightarrow> book_op \<Rightarrow> (Side \<Rightarrow> u64 \<rightharpoonup> PriceLevel) \<Rightarrow> bool \<times> (Side \<Rightarrow> u64 \<rightharpoonup> PriceLevel)" where
  "spec_exec cap (Update side price quantity c ts) S =
     (case op_fixed (Update side price quantity c ts) of
        Some (p, q) \<Rightarrow> let (r, m) = spec_update cap p q c ts (S side) in (r, S(side := m))
      | None \<Rightarrow> (False, S))"
| "spec_exec cap Clear S = (True, \<lambda>_. Map.empty)"

fun spec_run :: "nat \<Rightarrow> book_op list \<Rightarrow> (Side \<Rightarrow> u64 \<rightharpoonup> PriceLevel) \<Rightarrow> bool list \<times> (Side \<Rightarrow> u64 \<rightharpoonup> PriceLevel)" where
  "spec_run cap [] S = ([], S)"
| "spec_run cap (op # ops) S =
     (let (r, S1) = spec_exec cap op S; (rs, S2) = spec_run cap ops S1 in (r # rs, S2))"

definition book_abs :: "OrderBook \<Rightarrow> Side \<Rightarrow> u64 \<rightharpoonup> PriceLevel" where
  "book_abs b side = side_abs (levels_of side b)"

definition book_home :: "u64 set \<Rightarrow> OrderBook \<Rightarrow> bool" where
  "book_home P b \<longleftrightarrow> book_inv b \<and> (\<forall>side. pim_inv (price_map_of side b) \<and> side_home P (price_map_of side b))"

lemma side_abs_free: "\<forall>l\<in>set ls. pl_price l = 0 \<Longrightarrow> side_abs ls = Map.empty"
  by (auto simp: fun_eq_iff side_abs_None)

lemma pim_inv_empty: "\<forall>s<TABLE_SIZE. en_price (t s) = 0 \<Longrightarrow> pim_inv t"
  by (simp add: pim_inv_def)

lemma side_home_empty: "\<forall>s<TABLE_SIZE. en_price (t s) = 0 \<Longrightarrow> side_home P t"
  by (auto simp: side_home_def stored_def)

lemma book_home_new: "n < TABLE_SIZE \<Longrightarrow> book_home P (OrderBook_new n)"
  using book_inv_new [of n]
  by (auto simp: book_home_def all_sides OrderBook_new_def PriceIndexMap_new_eq
      Entry_default_def intro!: pim_inv_empty side_home_empty)

lemma book_home_clear: "book_home P b \<Longrightarrow> book_home P (ob_clear b)"
  using book_inv_clear [of b]
  by (auto simp: book_home_def all_sides ob_clear_def Let_def pim_clear_def
      intro!: pim_inv_empty side_home_empty)

lemma book_abs_clear: "book_abs (ob_clear b) = (\<lambda>_. Map.empty)"
proof
  show "book_abs (ob_clear b) side = Map.empty" for side
    by (cases side) (auto simp: book_abs_def ob_clear_def Let_def intro!: side_abs_free)
qed

lemma book_abs_new: "book_abs (OrderBook_new n) = (\<lambda>_. Map.empty)"
proof
  show "book_abs (OrderBook_new n) side = Map.empty" for side
    by (cases side) (auto simp: book_abs_def OrderBook_new_def PriceLevel_default_def intro!: side_abs_free)
qed

lemma apply_level_refines:
  assumes home: "book_home P b" and inj: "inj_on price_hash P" and p: "p \<in> P" "p \<noteq> 0"
  shows "\<exists>r b'. apply_level side p q c ts b = Inr (r, b') \<and> book_home P b'
    \<and> length (ob_bids b') = length (ob_bids b)
    \<and> spec_update (length (ob_bids b)) p q c ts (book_abs b side) = (r, book_abs b' side)
    \<and> (\<forall>x. x \<noteq> side \<longrightarrow> book_abs b' x = book_abs b x)"
proof -
  let ?ls = "levels_of side b" and ?t = "price_map_of side b"
  have inv: "book_inv b" and sinv: "side_inv ?ls ?t" and h: "side_home P ?t"
    using home book_inv_length by (auto simp: book_home_def side_inv_def book_inv_def)
  have len: "length ?ls = length (ob_bids b)" using inv by (cases side) (auto simp: book_inv_def)
  obtain r b' where rb: "apply_level side p q c ts b = Inr (r, b')" "book_inv b'"
    by (rule apply_level_inv [OF inv p(2)])
  note step = side_inv_step [OF sinv p(2) side_home_removable [OF h], of q c ts]
  show ?thesis
  proof (cases rule: apply_level_cases [OF inv p(2), of side q c ts, case_names full ok])
    case (full b1)
    have "side_update p q c ts ?ls ?t = Inr None"
      using full(2,3) side_alloc_None [of ?ls p ?t] book_inv_length [OF inv, of side]
      by (simp add: side_update_def TABLE_SIZE_def SIZE_MAX_def)
    then have "spec_update (length ?ls) p q c ts (side_abs ?ls) = (False, side_abs ?ls)"
      by (cases rule: step) auto
    moreover have "b' = b1" "\<not> r" using rb full by auto
    moreover have "book_abs b1 = book_abs b" by (simp add: fun_eq_iff book_abs_def full(4) book_simps)
    ultimately show ?thesis
      using rb home len full(4) by (auto simp: book_home_def book_abs_def book_simps)
  next
    case (ok b1 ls t)
    have b: "b' = b1" "r" using rb ok(1) by auto
    have s: "side_inv ls t" "spec_update (length ?ls) p q c ts (side_abs ?ls) = (True, side_abs ls)"
      using ok(2) by (cases rule: step; simp)+
    have "book_home P b1"
      using home rb(2) b s(1) ok(6) side_home_update [OF h inj p ok(2)]
      by (auto simp: book_home_def side_inv_def)
    moreover have "length (levels_of BID b1) = length (levels_of BID b)" using ok(4) ok(5) [of BID] by simp
    then have "length (ob_bids b1) = length (ob_bids b)" by simp
    ultimately show ?thesis using rb b s(2) ok(5) len by (auto simp: book_abs_def)
  qed
qed

lemma book_exec_refines:
  assumes home: "book_home P b" and inj: "inj_on price_hash P" and ok: "op_ok op"
    and P: "\<And>p q. op_fixed op = Some (p, q) \<Longrightarrow> p \<in> P"
  shows "\<exists>r b'. book_exec op b = Inr (r, b') \<and> book_home P b' \<and> length (ob_bids b') = length (ob_bids b)
    \<and> spec_exec (length (ob_bids b)) op (book_abs b) = (r, book_abs b')"
  using ok
proof (cases rule: op_ok_cases)
  case 1
  have "length (ob_bids (ob_clear b)) = length (ob_bids b)" by (simp add: ob_clear_def Let_def)
  with 1 home book_home_clear [of P b] show ?thesis by (auto simp: book_abs_clear)
next
  case (2 side price quantity c ts p q)
  obtain r b' where r: "apply_level side p q c ts b = Inr (r, b')" "book_home P b'"
    "length (ob_bids b') = length (ob_bids b)"
    "spec_update (length (ob_bids b)) p q c ts (book_abs b side) = (r, book_abs b' side)"
    "\<forall>x. x \<noteq> side \<longrightarrow> book_abs b' x = book_abs b x"
    using apply_level_refines [OF home inj P [OF 2(2)] 2(5)] by metis
  have "book_exec op b = Inr (r, b')" using 2 r(1) by (simp add: update_level_def)
  moreover have "(book_abs b)(side := book_abs b' side) = book_abs b'" using r(5) by auto
  then have "spec_exec (length (ob_bids b)) op (book_abs b) = (r, book_abs b')"
    using 2 r(4) by (simp del: op_fixed.simps)
  ultimately show ?thesis using r by blast
qed

definition op_prices :: "book_op list \<Rightarrow> u64 set" where
  "op_prices ops = set (map fst (List.map_filter op_fixed ops))"

lemma op_prices_Cons: "op_prices (op # ops) =
    (case op_fixed op of None \<Rightarrow> {} | Some (p, q) \<Rightarrow> {p}) \<union> op_prices ops"
  by (auto simp: op_prices_def map_filter_simps split: option.splits)

lemma book_run_refines:
  assumes "book_home P b" and "inj_on price_hash P" and "list_all op_ok ops" and "op_prices ops \<subseteq> P"
  shows "\<exists>rs b'. book_run ops b = Inr (rs, b') \<and> book_home P b' \<and>
     spec_run (length (ob_bids b)) ops (book_abs b) = (rs, book_abs b')"
  using assms
proof (induction ops arbitrary: b)
  case (Cons op ops)
  have "\<And>p q. op_fixed op = Some (p, q) \<Longrightarrow> p \<in> P"
    using Cons.prems(4) by (auto simp: op_prices_Cons)
  then obtain r b1 where b1: "book_exec op b = Inr (r, b1)" "book_home P b1"
    "length (ob_bids b1) = length (ob_bids b)"
    "spec_exec (length (ob_bids b)) op (book_abs b) = (r, book_abs b1)"
    using book_exec_refines [OF Cons.prems(1,2), of op] Cons.prems(3) by auto
  moreover have "op_prices ops \<subseteq> P" using Cons.prems(4) by (simp add: op_prices_Cons)
  ultimately obtain rs b' where "book_run ops b1 = Inr (rs, b')" "book_home P b'"
    "spec_run (length (ob_bids b1)) ops (book_abs b1) = (rs, book_abs b')"
    using Cons.IH [of b1] Cons.prems by auto
  with b1 show ?case by simp
qed simp

section \<open>Properties\<close>

text \<open>
  C2. Any sequence of updates with a price of at least one unit and of clears, from an empty
  book of fewer than 4096 levels: no access leaves the level arrays, every call returns, and at the
  end the invariant of the book holds. In particular the price index never runs full, whatever the
  collisions, and the cached best level of each side is the one a scan finds.
\<close>

theorem order_book_safe:
  assumes "n < TABLE_SIZE" and "list_all op_ok ops"
  shows "\<exists>rs b. book_run ops (OrderBook_new n) = Inr (rs, b) \<and> length rs = length ops
           \<and> length (ob_bids b) = n \<and> book_inv b"
proof -
  have "length (ob_bids (OrderBook_new n)) = n" by (simp add: OrderBook_new_def)
  then show ?thesis using book_run_inv [OF book_inv_new [OF assms(1)] assms(2)] by auto
qed

text \<open>
  C1. As long as the prices in use have different home slots in the price index, the book
  implements two finite maps from prices to levels: an update with a positive quantity sets the
  level of its price, one with quantity 0 deletes it, an update of a new price is refused exactly
  when the side is full, and \<open>clear\<close> empties both maps.
\<close>

theorem order_book_refines_maps:
  assumes "n < TABLE_SIZE" and "list_all op_ok ops" and "inj_on price_hash (op_prices ops)"
  shows "\<exists>rs b. book_run ops (OrderBook_new n) = Inr (rs, b) \<and>
           spec_run n ops (\<lambda>_. Map.empty) = (rs, book_abs b)"
proof -
  have "length (ob_bids (OrderBook_new n)) = n" by (simp add: OrderBook_new_def)
  then show ?thesis
    using book_run_refines [OF book_home_new [OF assms(1)] assms(3,2) order_refl] book_abs_new [of n]
    by force
qed

lemma double_to_fixed_whole:
  "double_to_fixed (Fin 1) = Inr 100000000" "double_to_fixed (Fin 2) = Inr 200000000"
  "double_to_fixed (Fin 100) = Inr 10000000000" "double_to_fixed (Fin 101) = Inr 10100000000"
  "double_to_fixed (Fin 0) = Inr 0"
  using double_to_fixed_nat [of 1] double_to_fixed_nat [of 2] double_to_fixed_nat [of 100]
    double_to_fixed_nat [of 101] double_to_fixed_nat [of 0] by simp_all

text \<open>Witness of C2.\<close>

theorem order_book_safe_witness:
  "let ops = [Update BID (Fin 100) (Fin 1) 1 7, Update BID (Fin 100) (Fin 0) 1 8, Clear]
   in 3 < TABLE_SIZE \<and> list_all op_ok ops \<and>
     (\<exists>rs b. book_run ops (OrderBook_new 3) = Inr (rs, b) \<and> length rs = length ops
           \<and> length (ob_bids b) = 3 \<and> book_inv b)"
proof -
  let ?ops = "[Update BID (Fin 100) (Fin 1) 1 7, Update BID (Fin 100) (Fin 0) 1 8, Clear]"
  have "3 < TABLE_SIZE" by (simp add: TABLE_SIZE_def)
  moreover have "list_all op_ok ?ops" by (simp add: op_ok_def double_to_fixed_whole)
  ultimately show ?thesis using order_book_safe [of 3 ?ops] by (simp only: Let_def)
qed

text \<open>Witness of C1.\<close>

theorem order_book_refines_maps_witness:
  "let ops = [Update BID (Fin 100) (Fin 1) 1 7, Update ASK (Fin 101) (Fin 2) 1 8, Update BID (Fin 100) (Fin 0) 1 9]
   in 3 < TABLE_SIZE \<and> list_all op_ok ops \<and> inj_on price_hash (op_prices ops) \<and>
     (\<exists>rs b. book_run ops (OrderBook_new 3) = Inr (rs, b) \<and>
           spec_run 3 ops (\<lambda>_. Map.empty) = (rs, book_abs b))"
proof -
  let ?ops = "[Update BID (Fin 100) (Fin 1) 1 7, Update ASK (Fin 101) (Fin 2) 1 8, Update BID (Fin 100) (Fin 0) 1 9]"
  have n: "3 < TABLE_SIZE" by (simp add: TABLE_SIZE_def)
  have o: "list_all op_ok ?ops" by (simp add: op_ok_def double_to_fixed_whole)
  have i: "inj_on price_hash (op_prices ?ops)"
  proof -
    have "price_hash 10000000000 \<noteq> price_hash 10100000000"
      by (simp add: price_hash_eq TABLE_SIZE_def)
    moreover have "op_prices ?ops = {10000000000, 10100000000}"
      by (auto simp: op_prices_def map_filter_simps double_to_fixed_whole)
    ultimately show ?thesis by (auto simp: inj_on_def)
  qed
  from n o i order_book_refines_maps [OF n o i] show ?thesis by (simp only: Let_def)
qed

section \<open>What a freed index entry does to the book\<close>

lemma free_slot_first: "find_free_slot (l # ls) = (if pl_price l = 0 then 0 else find_free_slot_from 1 ls)"
  by (simp add: find_free_slot_def)

lemma free_slot_second: "pl_price l \<noteq> 0 \<Longrightarrow> pl_price k = 0 \<Longrightarrow> find_free_slot (l # k # ls) = 1"
  by (simp add: find_free_slot_def)

text \<open>Store two prices of the same hash, delete the first one, then delete the second one.\<close>

lemma ghost_side:
  fixes c :: u32 and ts :: u64
  assumes pq: "p \<noteq> 0" "q \<noteq> 0" "p \<noteq> q" "price_hash p = price_hash q" and x: "x \<noteq> 0" "y \<noteq> 0"
    and ls: "ls = e # e # es" "pl_price e = 0"
  defines "lv \<equiv> \<lambda>a v. \<lparr>pl_price = a, pl_quantity = v, pl_order_count = c, pl_timestamp = ts\<rparr>"
  shows "side_update p x c ts ls PriceIndexMap_new
          = Inr (Some (lv p x # e # es, snd (pim_insert PriceIndexMap_new p 0)))"
    and "side_update q y c ts (lv p x # e # es) (snd (pim_insert PriceIndexMap_new p 0))
          = Inr (Some (lv p x # lv q y # es, pair_table p 0 q 1))"
    and "side_update p 0 c ts (lv p x # lv q y # es) (pair_table p 0 q 1)
          = Inr (Some (lv 0 0 # lv q y # es, (pair_table p 0 q 1)(price_hash q := Entry_default)))"
    and "\<exists>t. side_update q 0 c ts (lv 0 0 # lv q y # es) ((pair_table p 0 q 1)(price_hash q := Entry_default))
          = Inr (Some (lv 0 0 # lv q y # es, t))"
proof -
  note t = pair_table [OF pq, unfolded One_nat_def]
  have m: "(0::nat) \<noteq> SIZE_MAX" "(1::nat) \<noteq> SIZE_MAX" by (simp_all add: SIZE_MAX_def)
  have d: "en_price Entry_default = 0" "en_index Entry_default = SIZE_MAX" by (simp_all add: Entry_default_def)
  have "pim_find PriceIndexMap_new p = None"
    unfolding pim_find_probe pim_new_probe by (simp add: PriceIndexMap_new_eq d)
  with m x ls show "side_update p x c ts ls PriceIndexMap_new
          = Inr (Some (lv p x # e # es, snd (pim_insert PriceIndexMap_new p 0)))"
    by (simp add: side_update_def side_alloc_def free_slot_first lv_def)
  have "pim_find (snd (pim_insert PriceIndexMap_new p 0)) q = None"
    using pq(2) by (simp add: pim_find_probe t d)
  with m x pq ls show "side_update q y c ts (lv p x # e # es) (snd (pim_insert PriceIndexMap_new p 0))
          = Inr (Some (lv p x # lv q y # es, pair_table p 0 q 1))"
    by (simp add: side_update_def side_alloc_def free_slot_second lv_def t)
  have "pim_find (pair_table p 0 q 1) p = Some 0" using m by (simp add: pim_find_probe t)
  with m pq show "side_update p 0 c ts (lv p x # lv q y # es) (pair_table p 0 q 1)
          = Inr (Some (lv 0 0 # lv q y # es, (pair_table p 0 q 1)(price_hash q := Entry_default)))"
    by (simp add: side_update_def side_alloc_def lv_def t)
  have "pim_find ((pair_table p 0 q 1)(price_hash q := Entry_default)) q = None"
    using pq(2) by (simp add: pim_find_probe t d)
  with m show "\<exists>t. side_update q 0 c ts (lv 0 0 # lv q y # es)
      ((pair_table p 0 q 1)(price_hash q := Entry_default)) = Inr (Some (lv 0 0 # lv q y # es, t))"
    by (simp add: side_update_def side_alloc_def free_slot_first lv_def)
qed

lemma apply_level_side:
  assumes "side_update p q c ts (levels_of side b) (price_map_of side b) = Inr (Some (ls, t))"
  obtains b' where "apply_level side p q c ts b = Inr (True, b')" "levels_of side b' = ls"
    "price_map_of side b' = t" "best_idx_of side b' = best_level_idx side ls"
  using assms by (simp add: apply_level_def book_simps Let_def)

text \<open>
  C39. Two bids whose prices share a home slot (100 and 116, or any two whole prices 16 apart):
  after both are added and the first one is deleted, the deletion of the second one reports success
  and leaves it in the book, where it is the best bid.
\<close>

theorem removed_level_stays:
  assumes "p \<noteq> 0" and "q \<noteq> 0" and "p \<noteq> q" and "price_hash p = price_hash q"
    and "x \<noteq> 0" and "y \<noteq> 0" and "2 \<le> n"
  shows "\<exists>b1 b2 b3 b4. apply_level BID p x c ts (OrderBook_new n) = Inr (True, b1) \<and>
           apply_level BID q y c ts b1 = Inr (True, b2) \<and> apply_level BID p 0 c ts b2 = Inr (True, b3) \<and>
           apply_level BID q 0 c ts b3 = Inr (True, b4) \<and>
           ob_best_bid_idx b4 = 1 \<and> pl_price (ob_bids b4 ! 1) = q \<and> pl_quantity (ob_bids b4 ! 1) = y"
proof -
  let ?lv = "\<lambda>a v. \<lparr>pl_price = a, pl_quantity = v, pl_order_count = c, pl_timestamp = ts\<rparr>"
  from assms(7) obtain m where n: "n = Suc (Suc m)" by (metis Suc_le_D numeral_2_eq_2 Suc_le_mono)
  define es where "es = replicate m PriceLevel_default"
  have ls: "replicate n PriceLevel_default = PriceLevel_default # PriceLevel_default # es"
    "pl_price PriceLevel_default = 0"
    by (simp_all add: n es_def PriceLevel_default_def)
  note g = ghost_side [OF assms(1-6) ls, of c ts]
  have "levels_of BID (OrderBook_new n) = replicate n PriceLevel_default"
    "price_map_of BID (OrderBook_new n) = PriceIndexMap_new" by (simp_all add: OrderBook_new_def)
  then obtain b1 where b1: "apply_level BID p x c ts (OrderBook_new n) = Inr (True, b1)"
    "levels_of BID b1 = ?lv p x # PriceLevel_default # es"
    "price_map_of BID b1 = snd (pim_insert PriceIndexMap_new p 0)"
    using apply_level_side [of p x c ts BID "OrderBook_new n"] g(1) by metis
  obtain b2 where b2: "apply_level BID q y c ts b1 = Inr (True, b2)"
    "levels_of BID b2 = ?lv p x # ?lv q y # es" "price_map_of BID b2 = pair_table p 0 q 1"
    using apply_level_side [of q y c ts BID b1] b1 g(2) by metis
  obtain b3 where b3: "apply_level BID p 0 c ts b2 = Inr (True, b3)"
    "levels_of BID b3 = ?lv 0 0 # ?lv q y # es"
    "price_map_of BID b3 = (pair_table p 0 q 1)(price_hash q := Entry_default)"
    using apply_level_side [of p 0 c ts BID b2] b2 g(3) by metis
  obtain b4 where b4: "apply_level BID q 0 c ts b3 = Inr (True, b4)"
    "levels_of BID b4 = ?lv 0 0 # ?lv q y # es"
    "best_idx_of BID b4 = best_level_idx BID (?lv 0 0 # ?lv q y # es)"
    using apply_level_side [of q 0 c ts BID b3] b3 g(4) by metis
  have "best_loop BID i (replicate m PriceLevel_default) q 1 = 1" for i
    by (induction m arbitrary: i) (simp_all add: PriceLevel_default_def)
  then have "best_level_idx BID (?lv 0 0 # ?lv q y # es) = 1"
    using assms(2) by (simp add: best_level_idx_def es_def word_gt_0)
  with b1(1) b2(1) b3(1) b4 show ?thesis by auto
qed

text \<open>Witness of C39: 100 and 116, one unit of quantity each.\<close>

theorem removed_level_stays_witness:
  "price_hash 10000000000 = price_hash 11600000000 \<and>
   (\<exists>b1 b2 b3 b4. apply_level BID 10000000000 100000000 1 7 (OrderBook_new 1000) = Inr (True, b1) \<and>
      apply_level BID 11600000000 100000000 1 7 b1 = Inr (True, b2) \<and>
      apply_level BID 10000000000 0 1 7 b2 = Inr (True, b3) \<and>
      apply_level BID 11600000000 0 1 7 b3 = Inr (True, b4) \<and>
      ob_best_bid_idx b4 = 1 \<and> pl_price (ob_bids b4 ! 1) = 11600000000 \<and>
      pl_quantity (ob_bids b4 ! 1) = 100000000)"
proof -
  have h: "price_hash 10000000000 = price_hash 11600000000"
    by (simp add: price_hash_eq TABLE_SIZE_def)
  show ?thesis
    using removed_level_stays [OF _ _ _ h, of 100000000 100000000 1000 1 7] h by simp
qed

text \<open>
  A price below one unit is stored as 0, which both the level array and the index take
  for a free place. Two such updates around the update of a real bid erase that bid: the book is
  empty afterwards although all three calls succeed and none deletes a level.
\<close>

theorem zero_price_drops_level:
  assumes "p \<noteq> 0" and "price_hash p \<noteq> 0" and "x \<noteq> 0" and "y \<noteq> 0" and "1 \<le> n"
  shows "\<exists>b1 b2 b3. apply_level BID 0 x c ts (OrderBook_new n) = Inr (True, b1) \<and>
           apply_level BID p y c ts b1 = Inr (True, b2) \<and> apply_level BID 0 x c ts b2 = Inr (True, b3) \<and>
           ob_best_bid_idx b2 = 0 \<and> pl_price (ob_bids b2 ! 0) = p \<and>
           ob_best_bid_idx b3 = SIZE_MAX \<and> (\<forall>l\<in>set (ob_bids b3). pl_price l = 0)"
proof -
  let ?lv = "\<lambda>a v. \<lparr>pl_price = a, pl_quantity = v, pl_order_count = c, pl_timestamp = ts\<rparr>"
  from assms(5) obtain m where n: "n = Suc m" by (metis Suc_le_D One_nat_def)
  define es where "es = replicate m PriceLevel_default"
  define t1 where "t1 = PriceIndexMap_new(0 := \<lparr>en_price = 0, en_index = 0\<rparr>)"
  define t2 where "t2 = t1(price_hash p := \<lparr>en_price = p, en_index = 0\<rparr>)"
  have d: "en_price Entry_default = 0" "en_index Entry_default = SIZE_MAX" by (simp_all add: Entry_default_def)
  have m: "(0::nat) \<noteq> SIZE_MAX" by (simp add: SIZE_MAX_def)
  have h: "price_hash 0 = 0" by (simp add: price_hash_eq)
  have new: "levels_of BID (OrderBook_new n) = PriceLevel_default # es"
    "price_map_of BID (OrderBook_new n) = PriceIndexMap_new" "pl_price PriceLevel_default = 0"
    by (simp_all add: OrderBook_new_def n es_def PriceLevel_default_def)
  have probe: "pim_probe t1 p = Some (price_hash p)" "pim_probe t2 0 = Some 0"
    using pim_probe_I [of 0 t1 p] pim_probe_I [of 0 t2 0] assms h
    by (simp_all add: stops_def t1_def t2_def PriceIndexMap_new_eq d)
  have "pim_find PriceIndexMap_new 0 = None"
    unfolding pim_find_probe pim_new_probe by (simp add: PriceIndexMap_new_eq d)
  moreover have "snd (pim_insert PriceIndexMap_new 0 0) = t1"
    unfolding pim_insert_probe pim_new_probe by (simp add: t1_def h)
  ultimately have "side_update 0 x c ts (PriceLevel_default # es) PriceIndexMap_new = Inr (Some (?lv 0 x # es, t1))"
    using new(3) m assms(3) by (simp add: side_update_def side_alloc_def free_slot_first)
  then obtain b1 where b1: "apply_level BID 0 x c ts (OrderBook_new n) = Inr (True, b1)"
    "levels_of BID b1 = ?lv 0 x # es" "price_map_of BID b1 = t1"
    using apply_level_side [of 0 x c ts BID "OrderBook_new n"] new by metis
  have "pim_find t1 p = None" "snd (pim_insert t1 p 0) = t2"
    using assms(1,2) by (simp_all add: pim_find_probe pim_insert_probe probe t2_def)
      (simp add: t1_def PriceIndexMap_new_eq d)
  then have "side_update p y c ts (?lv 0 x # es) t1 = Inr (Some (?lv p y # es, t2))"
    using m assms(4) by (simp add: side_update_def side_alloc_def free_slot_first)
  then obtain b2 where b2: "apply_level BID p y c ts b1 = Inr (True, b2)"
    "levels_of BID b2 = ?lv p y # es" "price_map_of BID b2 = t2" "best_idx_of BID b2 = best_level_idx BID (?lv p y # es)"
    using apply_level_side [of p y c ts BID b1] b1 by metis
  have "t2 0 = \<lparr>en_price = 0, en_index = 0\<rparr>" using assms(2) by (simp add: t2_def t1_def)
  then have "pim_find t2 0 = Some 0" using m by (simp add: pim_find_probe probe)
  then have "side_update 0 x c ts (?lv p y # es) t2 = Inr (Some (?lv 0 x # es, t2))"
    using assms(3) by (simp add: side_update_def side_alloc_def)
  then obtain b3 where b3: "apply_level BID 0 x c ts b2 = Inr (True, b3)"
    "levels_of BID b3 = ?lv 0 x # es" "best_idx_of BID b3 = best_level_idx BID (?lv 0 x # es)"
    using apply_level_side [of 0 x c ts BID b2] b2 by metis
  have free: "\<forall>l\<in>set (?lv 0 x # es). pl_price l = 0" using new(3) by (simp add: es_def)
  have "best_loop BID i (replicate m PriceLevel_default) p 0 = 0" for i
    by (induction m arbitrary: i) (simp_all add: PriceLevel_default_def)
  then have "best_level_idx BID (?lv p y # es) = 0"
    using assms(1) by (simp add: best_level_idx_def es_def word_gt_0)
  with b1 b2 b3 free best_level_idx_free [OF free] show ?thesis by auto
qed

text \<open>Instance: a bid at 100.\<close>

theorem zero_price_drops_level_witness:
  "price_hash 10000000000 \<noteq> 0 \<and>
   (\<exists>b1 b2 b3. apply_level BID 0 100000000 1 7 (OrderBook_new 1000) = Inr (True, b1) \<and>
      apply_level BID 10000000000 100000000 1 7 b1 = Inr (True, b2) \<and>
      apply_level BID 0 100000000 1 7 b2 = Inr (True, b3) \<and>
      ob_best_bid_idx b2 = 0 \<and> pl_price (ob_bids b2 ! 0) = 10000000000 \<and>
      ob_best_bid_idx b3 = SIZE_MAX \<and> (\<forall>l\<in>set (ob_bids b3). pl_price l = 0))"
proof -
  have h: "price_hash 10000000000 \<noteq> 0" by (simp add: price_hash_eq TABLE_SIZE_def)
  show ?thesis
    using zero_price_drops_level [OF _ h, of 100000000 100000000 1000 1 7] h by simp
qed

end
