(* ===== verification/Order_Book_Queries.thy ===== *)
theory Order_Book_Queries
  imports Order_Book_Updates
begin

text \<open>
  What the queries of \<open>OrderBook\<close> return on a book that satisfies its invariant: the best levels,
  spread and mid price, the sorted snapshot, the volume imbalance and the statistics. The numbers
  are IEEE doubles with their rounding.
\<close>

section \<open>Best levels\<close>

definition occupied :: "PriceLevel list \<Rightarrow> PriceLevel list" where
  "occupied ls = filter (\<lambda>l. pl_price l \<noteq> 0) ls"

lemma set_occupied: "set (occupied ls) = {l \<in> set ls. pl_price l \<noteq> 0}"
  by (auto simp: occupied_def)

lemma occupied_Nil: "occupied ls = [] \<longleftrightarrow> (\<forall>l\<in>set ls. pl_price l = 0)"
  by (auto simp: occupied_def filter_empty_conv)

lemma is_best_BID: "is_best BID ls p \<longleftrightarrow> (\<forall>l\<in>set (occupied ls). pl_price l \<le> p)"
  by (auto simp: is_best_def not_less set_occupied)

lemma is_best_ASK: "is_best ASK ls p \<longleftrightarrow> (\<forall>l\<in>set (occupied ls). p \<le> pl_price l)"
  by (auto simp: is_best_def not_less set_occupied)

lemma book_best_cases:
  assumes "book_inv b"
  obtains (none) "best_idx_of side b = SIZE_MAX" "occupied (levels_of side b) = []"
  | (some) l where "best_idx_of side b < length (levels_of side b)" "best_idx_of side b \<noteq> SIZE_MAX"
      "l = levels_of side b ! best_idx_of side b" "l \<in> set (occupied (levels_of side b))"
      "is_best side (levels_of side b) (pl_price l)"
proof -
  have e: "best_idx_of side b = best_level_idx side (levels_of side b)"
    using assms by (simp add: book_inv_def)
  have n: "length (levels_of side b) < SIZE_MAX"
    using book_inv_length [OF assms, of side] by (simp add: TABLE_SIZE_def SIZE_MAX_def)
  show thesis
  proof (cases rule: best_level_idx_cases [of side "levels_of side b", case_names none some])
    case none
    with e show thesis by (intro that(1)) (simp_all add: occupied_Nil)
  next
    case some
    with e n show thesis by (intro that(2)) (simp_all add: set_occupied)
  qed
qed

lemma reachable_sides:
  assumes "book_reachable n b" and "n < TABLE_SIZE"
  shows "book_inv b" and "length (ob_bids b) = n" and "length (ob_asks b) = n"
  using book_reachable_inv [OF assms] by (auto simp: book_inv_def)

lemma best_bid_Max:
  assumes "book_inv b" and "occupied (ob_bids b) \<noteq> []"
  shows "ob_best_bid_idx b < length (ob_bids b)" and "ob_best_bid_idx b \<noteq> SIZE_MAX"
    and "ob_bids b ! ob_best_bid_idx b \<in> set (occupied (ob_bids b))"
    and "pl_price (ob_bids b ! ob_best_bid_idx b) = Max (pl_price ` set (occupied (ob_bids b)))"
proof -
  consider "occupied (levels_of BID b) = []"
    | l where "best_idx_of BID b < length (levels_of BID b)" "best_idx_of BID b \<noteq> SIZE_MAX"
      "l = levels_of BID b ! best_idx_of BID b" "l \<in> set (occupied (levels_of BID b))"
      "is_best BID (levels_of BID b) (pl_price l)"
    by (rule book_best_cases [OF assms(1), of BID]) auto
  then have "ob_best_bid_idx b < length (ob_bids b) \<and> ob_best_bid_idx b \<noteq> SIZE_MAX
    \<and> ob_bids b ! ob_best_bid_idx b \<in> set (occupied (ob_bids b))
    \<and> pl_price (ob_bids b ! ob_best_bid_idx b) = Max (pl_price ` set (occupied (ob_bids b)))"
    using assms(2) by cases (auto simp: is_best_BID intro!: Max_eqI [symmetric] imageI)
  then show "ob_best_bid_idx b < length (ob_bids b)" and "ob_best_bid_idx b \<noteq> SIZE_MAX"
    and "ob_bids b ! ob_best_bid_idx b \<in> set (occupied (ob_bids b))"
    and "pl_price (ob_bids b ! ob_best_bid_idx b) = Max (pl_price ` set (occupied (ob_bids b)))"
    by blast+
qed

lemma best_ask_Min:
  assumes "book_inv b" and "occupied (ob_asks b) \<noteq> []"
  shows "ob_best_ask_idx b < length (ob_asks b)" and "ob_best_ask_idx b \<noteq> SIZE_MAX"
    and "ob_asks b ! ob_best_ask_idx b \<in> set (occupied (ob_asks b))"
    and "pl_price (ob_asks b ! ob_best_ask_idx b) = Min (pl_price ` set (occupied (ob_asks b)))"
proof -
  consider "occupied (levels_of ASK b) = []"
    | l where "best_idx_of ASK b < length (levels_of ASK b)" "best_idx_of ASK b \<noteq> SIZE_MAX"
      "l = levels_of ASK b ! best_idx_of ASK b" "l \<in> set (occupied (levels_of ASK b))"
      "is_best ASK (levels_of ASK b) (pl_price l)"
    by (rule book_best_cases [OF assms(1), of ASK]) auto
  then have "ob_best_ask_idx b < length (ob_asks b) \<and> ob_best_ask_idx b \<noteq> SIZE_MAX
    \<and> ob_asks b ! ob_best_ask_idx b \<in> set (occupied (ob_asks b))
    \<and> pl_price (ob_asks b ! ob_best_ask_idx b) = Min (pl_price ` set (occupied (ob_asks b)))"
    using assms(2) by cases (auto simp: is_best_ASK intro!: Min_eqI [symmetric] imageI)
  then show "ob_best_ask_idx b < length (ob_asks b)" and "ob_best_ask_idx b \<noteq> SIZE_MAX"
    and "ob_asks b ! ob_best_ask_idx b \<in> set (occupied (ob_asks b))"
    and "pl_price (ob_asks b ! ob_best_ask_idx b) = Min (pl_price ` set (occupied (ob_asks b)))"
    by blast+
qed

lemma best_idx_empty:
  assumes "book_inv b" and "occupied (levels_of side b) = []"
  shows "best_idx_of side b = SIZE_MAX"
  using assms(2) by (cases rule: book_best_cases [OF assms(1), of side]) auto

lemma best_levels:
  assumes "n < TABLE_SIZE" and "book_reachable n b"
  shows "(if occupied (ob_bids b) = [] then ob_best_bid_idx b = SIZE_MAX
          else ob_best_bid_idx b < n \<and>
            pl_price (ob_bids b ! ob_best_bid_idx b) = Max (pl_price ` set (occupied (ob_bids b)))) \<and>
         (if occupied (ob_asks b) = [] then ob_best_ask_idx b = SIZE_MAX
          else ob_best_ask_idx b < n \<and>
            pl_price (ob_asks b ! ob_best_ask_idx b) = Min (pl_price ` set (occupied (ob_asks b))))"
    (is "?bid \<and> ?ask")
proof
  note r = reachable_sides [OF assms(2,1)]
  show ?bid using best_bid_Max [OF r(1)] best_idx_empty [OF r(1), of BID] r by auto
  show ?ask using best_ask_Min [OF r(1)] best_idx_empty [OF r(1), of ASK] r by auto
qed

text \<open>
  C3. In every reachable book the cached best bid is the occupied bid of the highest price and
  the cached best ask the occupied ask of the lowest price; the cache says \<open>SIZE_MAX\<close> exactly when
  the side is empty.
\<close>

theorem best_levels_correct:
  assumes "n < TABLE_SIZE" and "book_reachable n b"
  shows "(if occupied (ob_bids b) = [] then ob_best_bid_idx b = SIZE_MAX
          else ob_best_bid_idx b < n \<and>
            pl_price (ob_bids b ! ob_best_bid_idx b) = Max (pl_price ` set (occupied (ob_bids b)))) \<and>
         (if occupied (ob_asks b) = [] then ob_best_ask_idx b = SIZE_MAX
          else ob_best_ask_idx b < n \<and>
            pl_price (ob_asks b ! ob_best_ask_idx b) = Min (pl_price ` set (occupied (ob_asks b))))"
  by (rule best_levels [OF assms])

text \<open>A book with a bid at 100 and an ask at 101.\<close>

lemma occupied_prices: "pl_price ` set (occupied ls) = dom (side_abs ls)"
proof (intro set_eqI)
  fix p
  have "p \<in> dom (side_abs ls) \<longleftrightarrow> p \<noteq> 0 \<and> (\<exists>l\<in>set ls. pl_price l = p)"
    by (simp only: domIff side_abs_None) blast
  then show "p \<in> pl_price ` set (occupied ls) \<longleftrightarrow> p \<in> dom (side_abs ls)" by (auto simp: set_occupied)
qed

lemma two_sided_book:
  obtains b where "book_reachable 1000 b" "pl_price ` set (occupied (ob_bids b)) = {10000000000}"
    "pl_price ` set (occupied (ob_asks b)) = {10100000000}"
proof -
  let ?ops = "[Update BID (Fin 100) (Fin 1) 1 7, Update ASK (Fin 101) (Fin 2) 1 8]"
  have n: "(1000::nat) < TABLE_SIZE" by (simp add: TABLE_SIZE_def)
  have o: "list_all op_ok ?ops" by (simp add: op_ok_def double_to_fixed_whole)
  have "price_hash 10000000000 \<noteq> price_hash 10100000000" by (simp add: price_hash_eq TABLE_SIZE_def)
  then have i: "inj_on price_hash {10000000000, 10100000000}" by (auto simp: inj_on_def)
  have "op_prices ?ops \<subseteq> {10000000000, 10100000000}"
    by (auto simp: op_prices_def map_filter_simps double_to_fixed_whole)
  from book_run_refines [OF book_home_new [OF n] i o this] obtain rs b where
    b: "book_run ?ops (OrderBook_new 1000) = Inr (rs, b)"
    "spec_run (length (ob_bids (OrderBook_new 1000))) ?ops (book_abs (OrderBook_new 1000)) = (rs, book_abs b)"
    by metis
  have "length (ob_bids (OrderBook_new 1000)) = 1000" by (simp add: OrderBook_new_def)
  with b(2) have e: "book_abs b = ((\<lambda>_. Map.empty)
      (BID := [10000000000 \<mapsto> \<lparr>pl_price = 10000000000, pl_quantity = 100000000, pl_order_count = 1, pl_timestamp = 7\<rparr>],
       ASK := [10100000000 \<mapsto> \<lparr>pl_price = 10100000000, pl_quantity = 200000000, pl_order_count = 1, pl_timestamp = 8\<rparr>]))"
    by (simp add: book_abs_new spec_update_def double_to_fixed_whole)
  have "dom (book_abs b BID) = {10000000000}" "dom (book_abs b ASK) = {10100000000}"
    unfolding e by simp_all
  then show thesis
    using that [OF book_run_reachable [OF br_new o b(1)]] by (simp add: occupied_prices book_abs_def)
qed

text \<open>Witness of C3.\<close>

theorem best_levels_correct_witness:
  "(1000::nat) < TABLE_SIZE \<and> (\<exists>b. book_reachable 1000 b \<and> ob_best_bid_idx b < 1000 \<and>
     pl_price (ob_bids b ! ob_best_bid_idx b) = 10000000000 \<and> pl_price (ob_asks b ! ob_best_ask_idx b) = 10100000000)"
proof -
  have n: "(1000::nat) < TABLE_SIZE" by (simp add: TABLE_SIZE_def)
  obtain b where b: "book_reachable 1000 b" "pl_price ` set (occupied (ob_bids b)) = {10000000000}"
    "pl_price ` set (occupied (ob_asks b)) = {10100000000}" by (rule two_sided_book)
  then have "occupied (ob_bids b) \<noteq> []" "occupied (ob_asks b) \<noteq> []" by auto
  with n b best_levels_correct [OF n b(1)] show ?thesis by auto
qed

section \<open>Spread and mid price\<close>

lemma fixed_to_double_cases:
  obtains x where "fixed_to_double v = Fin x" "rnd x = x" "0 \<le> x" "x \<le> 2 ^ 64"
proof
  have r: "rnd (2 ^ 64) = 2 ^ 64" using rnd_pow2 [of 64] by (simp only: power_int_numeral)
  have "rnd (of_nat (unat v)) \<le> 2 ^ 64" by (rule rnd_of_nat_le [OF u64_bound])
  moreover have "0 \<le> rnd (of_nat (unat v))" by (rule rnd_of_nat_nonneg)
  ultimately have q: "0 \<le> rnd (of_nat (unat v)) / 100000000" "rnd (of_nat (unat v)) / 100000000 \<le> 2 ^ 64"
    by simp_all
  show "fixed_to_double v = Fin (rnd (rnd (of_nat (unat v)) / 100000000))" by (rule fixed_to_double_Fin)
  show "0 \<le> rnd (rnd (of_nat (unat v)) / 100000000)" by (rule rnd_nonneg [OF q(1)])
  show "rnd (rnd (of_nat (unat v)) / 100000000) \<le> 2 ^ 64" by (rule b64.r_le [OF q(2) r])
qed simp

lemma double_mid:
  assumes "v \<le> w"
  shows "fixed_to_double v \<le> ddiv (dadd (fixed_to_double v) (fixed_to_double w)) (Fin 2)"
    and "ddiv (dadd (fixed_to_double v) (fixed_to_double w)) (Fin 2) \<le> fixed_to_double w"
    and "Fin 0 \<le> dsub (fixed_to_double w) (fixed_to_double v)"
proof -
  obtain x where x: "fixed_to_double v = Fin x" "rnd x = x" "0 \<le> x" "x \<le> 2 ^ 64"
    by (rule fixed_to_double_cases)
  obtain y where y: "fixed_to_double w = Fin y" "rnd y = y" "0 \<le> y" "y \<le> 2 ^ 64"
    by (rule fixed_to_double_cases)
  have xy: "x \<le> y" using fixed_to_double_mono [OF assms] x y by simp
  have m: "x \<le> rnd (rnd (x + y) / 2)" "rnd (rnd (x + y) / 2) \<le> y"
    using b64.r_mid [OF x(2) y(2) xy] by auto
  have B: "(2::rat) ^ 65 \<le> 2 ^ 1000" by (rule power_increasing) simp_all
  have "\<bar>x + y\<bar> \<le> 2 ^ 65" using x y by (simp add: abs_le_iff)
  then have f1: "fl (x + y) = Fin (rnd (x + y))" using B by (intro fl_bounded) linarith
  have r65: "rnd (2 ^ 65) = 2 ^ 65" using rnd_pow2 [of 65] by (simp only: power_int_numeral)
  have "rnd (x + y) \<le> 2 ^ 65" using x y by (intro b64.r_le [OF _ r65]) simp
  moreover have "0 \<le> rnd (x + y)" using x y by (intro rnd_nonneg) simp
  ultimately have "\<bar>rnd (x + y) / 2\<bar> \<le> 2 ^ 65" by (simp add: abs_le_iff)
  then have f2: "fl (rnd (x + y) / 2) = Fin (rnd (rnd (x + y) / 2))" using B by (intro fl_bounded) linarith
  have "\<bar>y - x\<bar> \<le> 2 ^ 65" using x y by (simp add: abs_le_iff)
  then have f3: "fl (y - x) = Fin (rnd (y - x))" using B by (intro fl_bounded) linarith
  show "fixed_to_double v \<le> ddiv (dadd (fixed_to_double v) (fixed_to_double w)) (Fin 2)"
    and "ddiv (dadd (fixed_to_double v) (fixed_to_double w)) (Fin 2) \<le> fixed_to_double w"
    using m by (simp_all add: x y f1 f2)
  show "Fin 0 \<le> dsub (fixed_to_double w) (fixed_to_double v)"
    using f3 xy by (simp add: x y dsub_def rnd_nonneg)
qed

text \<open>
  In every reachable book whose best bid is not above its best ask, the computed mid price,
  with all its roundings, lies between the reported best bid and the reported best ask, and the
  spread is not negative. With an empty side both are 0.
\<close>

theorem mid_price_between:
  assumes "n < TABLE_SIZE" and "book_reachable n b"
    and "occupied (ob_bids b) \<noteq> []" and "occupied (ob_asks b) \<noteq> []"
    and "Max (pl_price ` set (occupied (ob_bids b))) \<le> Min (pl_price ` set (occupied (ob_asks b)))"
  shows "let bid = fixed_to_double (Max (pl_price ` set (occupied (ob_bids b))));
             ask = fixed_to_double (Min (pl_price ` set (occupied (ob_asks b))))
         in bid \<le> get_mid_price b \<and> get_mid_price b \<le> ask \<and> get_spread b = dsub ask bid \<and> Fin 0 \<le> get_spread b"
proof -
  note inv = reachable_sides(1) [OF assms(2,1)]
  note bid = best_bid_Max [OF inv assms(3)] and ask = best_ask_Min [OF inv assms(4)]
  show ?thesis
    using double_mid [OF assms(5)] bid(2) ask(2)
    by (simp add: Let_def get_mid_price_def get_spread_def bid(4) ask(4))
qed

text \<open>A concrete instance.\<close>

theorem mid_price_between_witness:
  "(1000::nat) < TABLE_SIZE \<and> (\<exists>b. book_reachable 1000 b \<and> occupied (ob_bids b) \<noteq> [] \<and> occupied (ob_asks b) \<noteq> []
     \<and> Max (pl_price ` set (occupied (ob_bids b))) \<le> Min (pl_price ` set (occupied (ob_asks b)))
     \<and> fixed_to_double 10000000000 \<le> get_mid_price b \<and> get_mid_price b \<le> fixed_to_double 10100000000)"
proof -
  have n: "(1000::nat) < TABLE_SIZE" by (simp add: TABLE_SIZE_def)
  obtain b where b: "book_reachable 1000 b" "pl_price ` set (occupied (ob_bids b)) = {10000000000}"
    "pl_price ` set (occupied (ob_asks b)) = {10100000000}" by (rule two_sided_book)
  then have o: "occupied (ob_bids b) \<noteq> []" "occupied (ob_asks b) \<noteq> []" by auto
  have "Max (pl_price ` set (occupied (ob_bids b))) \<le> Min (pl_price ` set (occupied (ob_asks b)))"
    by (simp only: b(2,3)) simp
  with n b(1) o mid_price_between [OF n b(1) o this] show ?thesis
    unfolding Let_def by (intro conjI exI [of _ b]) (simp_all only: b(2,3), simp_all)
qed

section \<open>Snapshots\<close>

lemma collect_prices_nth:
  "(p, i) \<in> set (collect_prices ls) \<Longrightarrow> i < length ls \<and> p = pl_price (ls ! i) \<and> p \<noteq> 0"
  by (auto simp: collect_prices_def)

lemma collect_prices_occupied: "map (\<lambda>(_, i). ls ! i) (collect_prices ls) = occupied ls"
proof -
  have "map (\<lambda>(_, i). ls ! i) (collect_prices ls)
      = map ((!) ls) (filter (\<lambda>i. pl_price (ls ! i) \<noteq> 0) [0..<length ls])"
    by (simp add: collect_prices_def filter_map o_def word_gt_0 case_prod_beta)
  also have "\<dots> = filter (\<lambda>l. pl_price l \<noteq> 0) (map ((!) ls) [0..<length ls])"
    by (simp add: filter_map o_def)
  finally show ?thesis by (simp add: map_nth occupied_def)
qed

lemma snapshot_levels:
  fixes ls and lt :: "u64 \<times> nat \<Rightarrow> u64 \<times> nat \<Rightarrow> bool"
  defines "full \<equiv> map (\<lambda>(_, i). level_snapshot (ls ! i)) (sort_by lt (collect_prices ls))"
  shows "mset full = image_mset level_snapshot (mset (occupied ls))"
proof -
  have "mset full = image_mset (\<lambda>(_, i). level_snapshot (ls ! i)) (mset (collect_prices ls))"
    by (simp add: full_def)
  also have "\<dots> = image_mset level_snapshot (mset (map (\<lambda>(_, i). ls ! i) (collect_prices ls)))"
    by (simp add: image_mset.compositionality o_def) (simp add: case_prod_unfold)
  finally show ?thesis by (simp only: collect_prices_occupied)
qed

lemma snapshot_sorted:
  assumes "sorted_wrt R (sort_by lt (collect_prices ls))"
    and "\<And>p q. R p q \<Longrightarrow> S (fst p) (fst q)"
  shows "sorted_wrt (\<lambda>a b. \<exists>v w. S v w \<and> ps_price a = fixed_to_double v \<and> ps_price b = fixed_to_double w)
    (map (\<lambda>(_, i). level_snapshot (ls ! i)) (sort_by lt (collect_prices ls)))"
  unfolding sorted_wrt_map using assms(1)
proof (rule sorted_wrt_mono_rel [rotated])
  fix x y assume "x \<in> set (sort_by lt (collect_prices ls))" "y \<in> set (sort_by lt (collect_prices ls))" "R x y"
  then have "S (pl_price (ls ! snd x)) (pl_price (ls ! snd y))"
    using collect_prices_nth [of "fst x" "snd x" ls] collect_prices_nth [of "fst y" "snd y" ls] assms(2)
    by (metis prod.collapse set_sort_by)
  then show "\<exists>v w. S v w \<and> ps_price (case x of (_, i) \<Rightarrow> level_snapshot (ls ! i)) = fixed_to_double v
      \<and> ps_price (case y of (_, i) \<Rightarrow> level_snapshot (ls ! i)) = fixed_to_double w"
    by (auto simp: level_snapshot_def case_prod_beta)
qed

text \<open>
  C4. The snapshot of a reachable book returns. Its bids are the first \<open>depth\<close> levels of the
  occupied bids in the order of falling price, its asks the first \<open>depth\<close> levels of the occupied asks
  in the order of rising price, and its sequence number is the book's.
\<close>

theorem snapshot_sorted_top:
  assumes "n < TABLE_SIZE" and "book_reachable n b"
  shows "\<exists>s bids asks. get_snapshot depth now b = Some s \<and>
     sn_bids s = take depth bids \<and> mset bids = image_mset level_snapshot (mset (occupied (ob_bids b))) \<and>
     sorted_wrt (\<lambda>x y. ps_price y \<le> ps_price x) bids \<and>
     sn_asks s = take depth asks \<and> mset asks = image_mset level_snapshot (mset (occupied (ob_asks b))) \<and>
     sorted_wrt (\<lambda>x y. ps_price x \<le> ps_price y) asks \<and>
     sn_sequence_number s = ob_sequence_number b \<and> sn_timestamp s = now"
proof -
  have inv: "book_inv b" by (rule reachable_sides(1) [OF assms(2,1)])
  then have even: "ob_seq_lock b AND 1 = 0" by (simp add: book_inv_def and_1_u64)
  let ?bids = "map (\<lambda>(_, i). level_snapshot (ob_bids b ! i))
      (sort_by (\<lambda>x y. fst y < fst x) (collect_prices (ob_bids b)))"
  let ?asks = "map (\<lambda>(_, i). level_snapshot (ob_asks b ! i))
      (sort_by (\<lambda>x y. fst x < fst y) (collect_prices (ob_asks b)))"
  obtain s where s: "get_snapshot depth now b = Some s" "sn_bids s = take depth ?bids"
    "sn_asks s = take depth ?asks" "sn_sequence_number s = ob_sequence_number b" "sn_timestamp s = now"
    using even by (simp add: get_snapshot_def rg_begin_def read_begin_def rg_retry_def read_retry_def
        snapshot_bids_def snapshot_asks_def take_map)
  have "sorted_wrt (\<lambda>x y. ps_price y \<le> ps_price x) ?bids"
    using snapshot_sorted [OF desc.sorted_sort_by [of fst], where S = "\<lambda>v w. w \<le> v"]
    by (rule sorted_wrt_mono_rel [rotated]) (auto simp: fixed_to_double_mono)
  moreover have "sorted_wrt (\<lambda>x y. ps_price x \<le> ps_price y) ?asks"
    using snapshot_sorted [OF asc.sorted_sort_by [of fst], where S = "\<lambda>v w. v \<le> w"]
    by (rule sorted_wrt_mono_rel [rotated]) (auto simp: fixed_to_double_mono)
  ultimately show ?thesis using s snapshot_levels by blast
qed

text \<open>Witness of C4: a book with a bid, asked for one level.\<close>

theorem snapshot_sorted_top_witness:
  "(1000::nat) < TABLE_SIZE \<and> (\<exists>b s. book_reachable 1000 b \<and> get_snapshot 1 7 b = Some s \<and> length (sn_bids s) = 1)"
proof -
  have n: "(1000::nat) < TABLE_SIZE" by (simp add: TABLE_SIZE_def)
  obtain b where b: "book_reachable 1000 b" "pl_price ` set (occupied (ob_bids b)) = {10000000000}"
    by (rule two_sided_book)
  then have "occupied (ob_bids b) \<noteq> []" by auto
  moreover obtain s bids where s: "get_snapshot 1 7 b = Some s" "sn_bids s = take 1 bids"
    "mset bids = image_mset level_snapshot (mset (occupied (ob_bids b)))"
    using snapshot_sorted_top [OF n b(1), of 1 7] by blast
  ultimately have "bids \<noteq> []" by auto
  then have "length (sn_bids s) = 1" using s(2) by (cases bids) auto
  with n b(1) s(1) show ?thesis by blast
qed

section \<open>Volumes\<close>

definition side_volume :: "PriceLevel list \<Rightarrow> nat" where
  "side_volume ls = (\<Sum>l\<leftarrow>occupied ls. unat (pl_quantity l))"

lemma side_volume_Cons: "side_volume (l # ls) =
    (if pl_price l = 0 then 0 else unat (pl_quantity l)) + side_volume ls"
  by (simp add: side_volume_def occupied_def)

lemma unat_total_volume:
  "unat acc + side_volume ls < 2 ^ 64 \<Longrightarrow> unat (total_volume ls acc) = unat acc + side_volume ls"
proof (induction ls arbitrary: acc)
  case (Cons l ls)
  show ?case
  proof (cases "pl_price l = 0")
    case True
    with Cons show ?thesis by (simp add: side_volume_Cons)
  next
    case False
    then have "unat (acc + pl_quantity l) = unat acc + unat (pl_quantity l)"
      using Cons.prems by (intro unat_add_u64) (simp add: side_volume_Cons)
    with False Cons.IH [of "acc + pl_quantity l"] Cons.prems show ?thesis
      by (simp add: side_volume_Cons word_gt_0)
  qed
qed (simp add: side_volume_def occupied_def)

lemma unat_count_depth:
  "unat acc + length (occupied ls) < 2 ^ 32 \<Longrightarrow> unat (count_depth ls acc) = unat acc + length (occupied ls)"
proof (induction ls arbitrary: acc)
  case (Cons l ls)
  have "unat (acc + 1) = unat acc + 1" if "unat acc + 1 < 2 ^ 32"
    using that by (simp add: unat_word_ariths)
  with Cons.IH [of acc] Cons.IH [of "acc + 1"] Cons.prems show ?case
    by (auto simp: occupied_def word_gt_0)
qed (simp add: occupied_def)

lemma sint_small: "unat v < 2 ^ 63 \<Longrightarrow> sint v = int (unat v)" for v :: u64
proof -
  define k where "k = unat v"
  assume "unat v < 2 ^ 63"
  then have "int k < int (2 ^ 63)" unfolding k_def by (simp only: of_nat_less_iff)
  then have "signed_take_bit 63 (int k) = int k" by (intro signed_take_bit_int_eq_self) simp_all
  moreover have "uint v = int k" unfolding k_def by (rule uint_nat)
  ultimately show ?thesis unfolding sint_uint k_def [symmetric] by simp
qed

lemma book_imbalance_Fin:
  assumes "side_volume (ob_bids b) + side_volume (ob_asks b) < 2 ^ 63"
  shows "\<exists>x. get_book_imbalance b = Inr (Fin x) \<and> \<bar>x\<bar> \<le> 1 \<and>
     (side_volume (ob_asks b) \<le> side_volume (ob_bids b) \<longrightarrow> 0 \<le> x) \<and>
     (side_volume (ob_bids b) \<le> side_volume (ob_asks b) \<longrightarrow> x \<le> 0)"
proof -
  define v w where "v = side_volume (ob_bids b)" and "w = side_volume (ob_asks b)"
  let ?v = "total_volume (ob_bids b) 0" and ?w = "total_volume (ob_asks b) 0"
  have vw: "v + w < 2 ^ 63" using assms by (simp add: v_def w_def)
  have u: "unat ?v = v" "unat ?w = w"
    using unat_total_volume [of 0 "ob_bids b"] unat_total_volume [of 0 "ob_asks b"] vw
    by (simp_all add: v_def w_def)
  have s: "sint ?v = int v" "sint ?w = int w"
    using sint_small [of ?v] sint_small [of ?w] u vw by simp_all
  have sum: "unat (?v + ?w) = v + w" using unat_add_u64 [of ?v ?w] u vw by simp
  show ?thesis
  proof (cases "v + w = 0")
    case True
    then have "?v + ?w = 0" using sum by (simp add: unat_eq_0)
    then have "get_book_imbalance b = Inr (Fin 0)" by (simp add: get_book_imbalance_def Let_def)
    then show ?thesis by simp
  next
    case False
    obtain x where x: "ddiv (double_of_int (int v - int w)) (double_of_nat (v + w)) = Fin x"
      "\<bar>x\<bar> \<le> 1" "w \<le> v \<Longrightarrow> 0 \<le> x" "v \<le> w \<Longrightarrow> x \<le> 0"
      using imbalance_ratio [of v w] False vw by auto
    have "int (v + w) < int (2 ^ 63)" using vw by (simp only: of_nat_less_iff)
    then have d: "\<not> (int v - int w < - (2 ^ 63) \<or> 2 ^ 63 \<le> int v - int w)" by simp
    have "?v + ?w \<noteq> 0" using sum False by (metis unat_0)
    then have "get_book_imbalance b = Inr (Fin x)"
      unfolding get_book_imbalance_def Let_def s sum x(1) if_not_P [OF d] by simp
    then show ?thesis using x by (auto simp: v_def w_def)
  qed
qed

text \<open>
  While the volume of both sides together stays below \<open>2 ^ 63\<close> units (92 billion coins), the
  book imbalance is defined, lies in \<open>[-1, 1]\<close> with all its roundings, and has the sign of the
  difference of the volumes; an empty book gives 0.
\<close>

theorem imbalance_bounded:
  assumes "side_volume (ob_bids b) + side_volume (ob_asks b) < 2 ^ 63"
  shows "\<exists>x. get_book_imbalance b = Inr (Fin x) \<and> \<bar>x\<bar> \<le> 1 \<and>
     (side_volume (ob_asks b) \<le> side_volume (ob_bids b) \<longrightarrow> 0 \<le> x) \<and>
     (side_volume (ob_bids b) \<le> side_volume (ob_asks b) \<longrightarrow> x \<le> 0)"
  using assms by (rule book_imbalance_Fin)

text \<open>Instance: a new book.\<close>

theorem imbalance_bounded_witness:
  "side_volume (ob_bids (OrderBook_new 2)) + side_volume (ob_asks (OrderBook_new 2)) < 2 ^ 63 \<and>
   (\<exists>x. get_book_imbalance (OrderBook_new 2) = Inr (Fin x) \<and> \<bar>x\<bar> \<le> 1)"
proof -
  have "side_volume (ob_bids (OrderBook_new 2)) + side_volume (ob_asks (OrderBook_new 2)) < 2 ^ 63"
    by (simp add: OrderBook_new_def side_volume_def occupied_def PriceLevel_default_def)
  with imbalance_bounded [OF this] show ?thesis by blast
qed

text \<open>
  In a reachable book with less than \<open>2 ^ 63\<close> units of volume the statistics report the number
  of occupied levels and the exact volume of each side, the spread and the mid price of the queries,
  and an imbalance in \<open>[-1, 1]\<close>.
\<close>

theorem statistics_correct:
  assumes "n < TABLE_SIZE" and "book_reachable n b"
    and "side_volume (ob_bids b) + side_volume (ob_asks b) < 2 ^ 63"
  shows "\<exists>st x. get_statistics now b = Inr st \<and>
     unat (st_bid_depth st) = length (occupied (ob_bids b)) \<and>
     unat (st_ask_depth st) = length (occupied (ob_asks b)) \<and>
     unat (st_total_bid_volume st) = side_volume (ob_bids b) \<and>
     unat (st_total_ask_volume st) = side_volume (ob_asks b) \<and>
     st_spread st = get_spread b \<and> st_mid_price st = get_mid_price b \<and>
     st_book_imbalance st = Fin x \<and> \<bar>x\<bar> \<le> 1"
proof -
  note r = reachable_sides [OF assms(2,1)]
  have "length (occupied (ob_bids b)) \<le> n" "length (occupied (ob_asks b)) \<le> n"
    using r(2,3) by (auto simp: occupied_def intro: order_trans [OF length_filter_le])
  then have "length (occupied (ob_bids b)) < 2 ^ 32" "length (occupied (ob_asks b)) < 2 ^ 32"
    using assms(1) by (simp_all add: TABLE_SIZE_def)
  moreover obtain x where "get_book_imbalance b = Inr (Fin x)" "\<bar>x\<bar> \<le> 1"
    using book_imbalance_Fin [OF assms(3)] by auto
  ultimately show ?thesis
    using unat_count_depth [of 0 "ob_bids b"] unat_count_depth [of 0 "ob_asks b"] assms(3)
      unat_total_volume [of 0 "ob_bids b"] unat_total_volume [of 0 "ob_asks b"]
    by (simp add: get_statistics_def)
qed

text \<open>Instance: a new book.\<close>

theorem statistics_correct_witness:
  "(1000::nat) < TABLE_SIZE \<and> book_reachable 1000 (OrderBook_new 1000) \<and>
   (\<exists>st. get_statistics 7 (OrderBook_new 1000) = Inr st \<and> unat (st_bid_depth st) = 0)"
proof -
  have n: "(1000::nat) < TABLE_SIZE" by (simp add: TABLE_SIZE_def)
  have o: "occupied (ob_bids (OrderBook_new 1000)) = []" "occupied (ob_asks (OrderBook_new 1000)) = []"
    by (simp_all add: occupied_Nil OrderBook_new_def PriceLevel_default_def)
  then have "side_volume (ob_bids (OrderBook_new 1000)) + side_volume (ob_asks (OrderBook_new 1000)) < 2 ^ 63"
    by (simp add: side_volume_def)
  from statistics_correct [OF n br_new this, of 7] n o show ?thesis by (auto intro: br_new)
qed

end
