(* ===== verification/Order_Book_Manager.thy ===== *)
theory Order_Book_Manager
  imports Order_Book_Queries "HOL-Library.Char_ord" "HOL-Library.List_Lexorder"
begin

text \<open>
  The class \<open>OrderBookManager\<close> of \<open>include/core/order_book_manager.hpp\<close>: order books by symbol.

  \<^item> The unordered map from symbols to books is an ordered one here; \<open>get_symbols\<close> promises no order
    and its property speaks of the set of symbols only.
  \<^item> Every level of an update reads the clock once: \<open>clock k\<close> is the reading of the \<open>k\<close>-th call.
  \<^item> The update callback is the user's code; \<open>process_update\<close> returns the calls it makes. A snapshot
    whose retry loop would spin is \<open>Endless_retry\<close>.
  \<^item> \<open>process_update_runs\<close> reduces an update to a run of \<open>OrderBook\<close> operations, so that the order
    book's theorems apply to the manager's books.
\<close>

record OrderBookManager =
  mg_order_books :: "(string, OrderBook) omap"
  mg_has_callback :: bool

definition OrderBookManager_new :: OrderBookManager where
  "OrderBookManager_new = \<lparr>mg_order_books = [], mg_has_callback = False\<rparr>"

definition DEFAULT_MAX_LEVELS :: nat where
  "DEFAULT_MAX_LEVELS = 1000"

definition create_order_book :: "string \<Rightarrow> nat \<Rightarrow> OrderBookManager \<Rightarrow> bool \<times> OrderBookManager" where
  "create_order_book symbol max_levels g =
     (if map_of (mg_order_books g) symbol \<noteq> None then (False, g)
      else (True, g\<lparr>mg_order_books := omap_put symbol (OrderBook_new DEFAULT_MAX_LEVELS) (mg_order_books g)\<rparr>))"

fun apply_side :: "Side \<Rightarrow> PriceLevelSnapshot list \<Rightarrow> (nat \<Rightarrow> u64) \<Rightarrow> nat \<Rightarrow> OrderBook \<Rightarrow> OrderBook result" where
  "apply_side side [] clock k book = Inr book"
| "apply_side side (l # ls) clock k book =
     bindE (update_level side (ps_price l) (ps_quantity l) (ps_order_count l) (clock k) book)
       (\<lambda>(_, book1). apply_side side ls clock (Suc k) book1)"

definition process_update :: "NormalizedOrderBookUpdate \<Rightarrow> (nat \<Rightarrow> u64) \<Rightarrow> OrderBookManager \<Rightarrow>
    (bool \<times> (string \<times> OrderBookSnapshot) list \<times> OrderBookManager) result" where
  "process_update update clock g =
     (case map_of (mg_order_books g) (up_symbol update) of
        None \<Rightarrow> Inr (False, [], g)
      | Some book \<Rightarrow>
          bindE (apply_side BID (up_bids update) clock 0 book) (\<lambda>book1.
          bindE (apply_side ASK (up_asks update) clock (length (up_bids update)) book1) (\<lambda>book2.
            let g2 = g\<lparr>mg_order_books := omap_put (up_symbol update) book2 (mg_order_books g)\<rparr> in
            if mg_has_callback g
            then (case Order_Book.get_snapshot 20 (clock (length (up_bids update) + length (up_asks update))) book2 of
                    None \<Rightarrow> Inl Endless_retry
                  | Some snapshot \<Rightarrow>
                      Inr (True, [(up_symbol update, snapshot\<lparr>sn_symbol := up_symbol update,
                             sn_exchange := up_exchange update\<rparr>)], g2))
            else Inr (True, [], g2))))"

definition mgr_get_snapshot :: "string \<Rightarrow> nat \<Rightarrow> u64 \<Rightarrow> OrderBookManager \<Rightarrow> OrderBookSnapshot option result" where
  "mgr_get_snapshot symbol depth now g =
     (case map_of (mg_order_books g) symbol of
        None \<Rightarrow> Inr None
      | Some book \<Rightarrow> (case Order_Book.get_snapshot depth now book of
            None \<Rightarrow> Inl Endless_retry
          | Some snapshot \<Rightarrow> Inr (Some (snapshot\<lparr>sn_symbol := symbol\<rparr>))))"

definition mgr_get_statistics :: "string \<Rightarrow> u64 \<Rightarrow> OrderBookManager \<Rightarrow> OrderBookStatistics option result" where
  "mgr_get_statistics symbol now g =
     (case map_of (mg_order_books g) symbol of
        None \<Rightarrow> Inr None
      | Some book \<Rightarrow> bindE (Order_Book.get_statistics now book) (\<lambda>st. Inr (Some st)))"

definition mgr_get_spread :: "string \<Rightarrow> OrderBookManager \<Rightarrow> double option" where
  "mgr_get_spread symbol g = map_option Order_Book.get_spread (map_of (mg_order_books g) symbol)"

definition mgr_get_mid_price :: "string \<Rightarrow> OrderBookManager \<Rightarrow> double option" where
  "mgr_get_mid_price symbol g = map_option Order_Book.get_mid_price (map_of (mg_order_books g) symbol)"

definition clear_order_book :: "string \<Rightarrow> OrderBookManager \<Rightarrow> bool \<times> OrderBookManager" where
  "clear_order_book symbol g =
     (case map_of (mg_order_books g) symbol of
        None \<Rightarrow> (False, g)
      | Some book \<Rightarrow> (True, g\<lparr>mg_order_books := omap_put symbol (ob_clear book) (mg_order_books g)\<rparr>))"

definition mgr_remove_order_book :: "string \<Rightarrow> OrderBookManager \<Rightarrow> bool \<times> OrderBookManager" where
  "mgr_remove_order_book symbol g =
     (if map_of (mg_order_books g) symbol = None then (False, g)
      else (True, g\<lparr>mg_order_books := omap_erase symbol (mg_order_books g)\<rparr>))"

definition get_symbols :: "OrderBookManager \<Rightarrow> string list" where
  "get_symbols g = map fst (mg_order_books g)"

definition set_update_callback :: "bool \<Rightarrow> OrderBookManager \<Rightarrow> OrderBookManager" where
  "set_update_callback callback g = g\<lparr>mg_has_callback := callback\<rparr>"

definition mgr_size :: "OrderBookManager \<Rightarrow> nat" where
  "mgr_size g = length (mg_order_books g)"

section \<open>Updates are runs of order book operations\<close>

fun side_ops :: "Side \<Rightarrow> PriceLevelSnapshot list \<Rightarrow> (nat \<Rightarrow> u64) \<Rightarrow> nat \<Rightarrow> book_op list" where
  "side_ops side [] clock k = []"
| "side_ops side (l # ls) clock k =
     Update side (ps_price l) (ps_quantity l) (ps_order_count l) (clock k) # side_ops side ls clock (Suc k)"

definition update_ops :: "NormalizedOrderBookUpdate \<Rightarrow> (nat \<Rightarrow> u64) \<Rightarrow> book_op list" where
  "update_ops u clock = side_ops BID (up_bids u) clock 0 @ side_ops ASK (up_asks u) clock (length (up_bids u))"

lemma book_run_append:
  "book_run (xs @ ys) b = bindE (book_run xs b) (\<lambda>(rs, b1). bindE (book_run ys b1) (\<lambda>(rs', b2). Inr (rs @ rs', b2)))"
proof (induction xs arbitrary: b)
  case Nil
  then show ?case by (cases "book_run ys b") auto
next
  case (Cons op xs)
  show ?case
  proof (cases "book_exec op b")
    case (Inr x)
    then obtain r b1 where x: "book_exec op b = Inr (r, b1)" by (cases x) auto
    show ?thesis
    proof (cases "book_run xs b1")
      case (Inr y)
      then obtain rs b2 where "book_run xs b1 = Inr (rs, b2)" by (cases y) auto
      with x Cons [of b1] show ?thesis by (cases "book_run ys b2") auto
    qed (use x Cons [of b1] in simp)
  qed simp
qed

lemma apply_side_run:
  "apply_side side ls clock k b = bindE (book_run (side_ops side ls clock k) b) (\<lambda>(_, b1). Inr b1)"
proof (induction ls arbitrary: k b)
  case (Cons l ls)
  show ?case
  proof (cases "update_level side (ps_price l) (ps_quantity l) (ps_order_count l) (clock k) b")
    case (Inr x)
    then obtain r b1 where x: "update_level side (ps_price l) (ps_quantity l) (ps_order_count l) (clock k) b = Inr (r, b1)"
      by (cases x) auto
    with Cons [of "Suc k" b1] show ?thesis
      by (cases "book_run (side_ops side ls clock (Suc k)) b1") (auto split: prod.splits)
  qed simp
qed simp

lemma apply_side_Inr: "apply_side side ls clock k b = Inr b1 \<longleftrightarrow>
    (\<exists>rs. book_run (side_ops side ls clock k) b = Inr (rs, b1))"
  unfolding apply_side_run by (cases "book_run (side_ops side ls clock k) b") auto

lemma process_update_runs: "(\<exists>rs. book_run (update_ops u clock) b = Inr (rs, b2)) \<longleftrightarrow>
    (\<exists>b1. apply_side BID (up_bids u) clock 0 b = Inr b1 \<and>
       apply_side ASK (up_asks u) clock (length (up_bids u)) b1 = Inr b2)"
  unfolding update_ops_def book_run_append apply_side_Inr by (simp add: bindE_eq_Inr) blast

section \<open>Reachable managers\<close>

inductive mgr_reachable :: "OrderBookManager \<Rightarrow> bool" where
  mg_new: "mgr_reachable OrderBookManager_new"
| mg_create: "mgr_reachable g \<Longrightarrow> mgr_reachable (snd (create_order_book s n g))"
| mg_process: "mgr_reachable g \<Longrightarrow> list_all op_ok (update_ops u clock) \<Longrightarrow>
    process_update u clock g = Inr (r, calls, g') \<Longrightarrow> mgr_reachable g'"
| mg_clear: "mgr_reachable g \<Longrightarrow> mgr_reachable (snd (clear_order_book s g))"
| mg_remove: "mgr_reachable g \<Longrightarrow> mgr_reachable (snd (mgr_remove_order_book s g))"
| mg_callback: "mgr_reachable g \<Longrightarrow> mgr_reachable (set_update_callback c g)"

definition mgr_inv :: "OrderBookManager \<Rightarrow> bool" where
  "mgr_inv g \<longleftrightarrow> omap_wf (mg_order_books g) \<and> (\<forall>s b. map_of (mg_order_books g) s = Some b \<longrightarrow> book_reachable DEFAULT_MAX_LEVELS b)"

lemma DEFAULT_less [simp]: "DEFAULT_MAX_LEVELS < TABLE_SIZE"
  by (simp add: DEFAULT_MAX_LEVELS_def TABLE_SIZE_def)

lemma process_update_cases:
  assumes "process_update u clock g = Inr (r, calls, g')"
  obtains (unknown) "map_of (mg_order_books g) (up_symbol u) = None" "\<not> r" "calls = []" "g' = g"
  | (known) b rs b' where "map_of (mg_order_books g) (up_symbol u) = Some b" "r"
      "book_run (update_ops u clock) b = Inr (rs, b')"
      "g' = g\<lparr>mg_order_books := omap_put (up_symbol u) b' (mg_order_books g)\<rparr>"
proof (cases "map_of (mg_order_books g) (up_symbol u)")
  case None
  then have "(r, calls, g') = (False, [], g)" using assms by (simp add: process_update_def)
  then show thesis using None by (intro unknown) simp_all
next
  case (Some b)
  obtain b1 b2 where s: "apply_side BID (up_bids u) clock 0 b = Inr b1"
    "apply_side ASK (up_asks u) clock (length (up_bids u)) b1 = Inr b2"
    using assms unfolding process_update_def Some option.case bindE_eq_Inr by blast
  have "r \<and> g' = g\<lparr>mg_order_books := omap_put (up_symbol u) b2 (mg_order_books g)\<rparr>"
    using assms unfolding process_update_def Some option.case s bindE.simps Let_def
    by (simp split: if_splits option.splits)
  with s have "apply_side BID (up_bids u) clock 0 b = Inr b1"
    "apply_side ASK (up_asks u) clock (length (up_bids u)) b1 = Inr b2" "r"
    "g' = g\<lparr>mg_order_books := omap_put (up_symbol u) b2 (mg_order_books g)\<rparr>" by simp_all
  then show thesis using known [OF Some] process_update_runs by blast
qed

lemma mgr_reachable_inv: "mgr_reachable g \<Longrightarrow> mgr_inv g"
proof (induction rule: mgr_reachable.induct)
  case (mg_process g u clock r calls g')
  from mg_process.hyps(3) show ?case
  proof (cases rule: process_update_cases)
    case (known b rs b')
    have "book_reachable DEFAULT_MAX_LEVELS b" using known(1) mg_process.IH by (simp add: mgr_inv_def)
    then have "book_reachable DEFAULT_MAX_LEVELS b'"
      by (rule book_run_reachable [OF _ mg_process.hyps(2) known(3)])
    with known mg_process.IH show ?thesis by (auto simp: mgr_inv_def map_of_put)
  qed (use mg_process.IH in simp)
next
  case (mg_clear g s)
  have "book_reachable DEFAULT_MAX_LEVELS (ob_clear b)" if "book_reachable DEFAULT_MAX_LEVELS b" for b
    using br_exec [OF that, of Clear] by (simp add: op_ok_def)
  with mg_clear.IH show ?case
    by (auto simp: mgr_inv_def clear_order_book_def map_of_put split: option.splits)
qed (auto simp: mgr_inv_def OrderBookManager_new_def create_order_book_def map_of_put map_of_erase
    mgr_remove_order_book_def set_update_callback_def intro: br_new)

lemma process_update_known:
  assumes "mgr_reachable g" and "list_all op_ok (update_ops u clock)" and "map_of (mg_order_books g) (up_symbol u) = Some b"
  shows "\<exists>rs b' calls g'. book_run (update_ops u clock) b = Inr (rs, b') \<and> book_reachable DEFAULT_MAX_LEVELS b' \<and>
      process_update u clock g = Inr (True, calls, g') \<and>
      map_of (mg_order_books g') = (map_of (mg_order_books g))(up_symbol u \<mapsto> b') \<and>
      (\<exists>s. get_snapshot 20 (clock (length (up_bids u) + length (up_asks u))) b' = Some s \<and>
         calls = (if mg_has_callback g
           then [(up_symbol u, s\<lparr>sn_symbol := up_symbol u, sn_exchange := up_exchange u\<rparr>)] else []))"
proof -
  have r: "book_reachable DEFAULT_MAX_LEVELS b"
    using mgr_reachable_inv [OF assms(1)] assms(3) by (simp add: mgr_inv_def)
  then have inv: "book_inv b" using book_reachable_inv by simp
  obtain rs b' where run: "book_run (update_ops u clock) b = Inr (rs, b')" "book_inv b'"
    using book_run_inv [OF inv assms(2)] by blast
  then obtain b1 where s: "apply_side BID (up_bids u) clock 0 b = Inr b1"
    "apply_side ASK (up_asks u) clock (length (up_bids u)) b1 = Inr b'"
    using process_update_runs by blast
  have "ob_seq_lock b' AND 1 = 0" using run(2) by (simp add: book_inv_def and_1_u64)
  then obtain sn where sn: "get_snapshot 20 (clock (length (up_bids u) + length (up_asks u))) b' = Some sn"
    by (simp add: get_snapshot_def rg_begin_def read_begin_def rg_retry_def read_retry_def)
  have "book_reachable DEFAULT_MAX_LEVELS b'" by (rule book_run_reachable [OF r assms(2) run(1)])
  then show ?thesis using assms(3) run(1) s sn
    by (simp add: process_update_def Let_def map_of_put)
qed

text \<open>
  C6. An update of a known symbol whose levels all convert to prices of at least one unit is
  processed: the call returns true, the symbol's book becomes the result of applying the bids and
  then the asks one after the other, no other book changes, and a callback, if installed, is called once with the
  symbol, the exchange and the snapshot of the new book. An update of an unknown symbol returns false
  and changes nothing.
\<close>

theorem process_update_correct:
  assumes "mgr_reachable g" and "list_all op_ok (update_ops u clock)"
  shows "case map_of (mg_order_books g) (up_symbol u) of
      None \<Rightarrow> process_update u clock g = Inr (False, [], g)
    | Some b \<Rightarrow> \<exists>rs b' calls g'. book_run (update_ops u clock) b = Inr (rs, b') \<and>
        process_update u clock g = Inr (True, calls, g') \<and>
        map_of (mg_order_books g') = (map_of (mg_order_books g))(up_symbol u \<mapsto> b') \<and>
        (\<exists>s. get_snapshot 20 (clock (length (up_bids u) + length (up_asks u))) b' = Some s \<and>
           calls = (if mg_has_callback g
             then [(up_symbol u, s\<lparr>sn_symbol := up_symbol u, sn_exchange := up_exchange u\<rparr>)] else []))"
  using process_update_known [OF assms] by (cases "map_of (mg_order_books g) (up_symbol u)") (auto simp: process_update_def)

text \<open>
  Every book of a reachable manager satisfies the invariant of the order book and has 1000
  levels per side, whatever limit \<open>create_order_book\<close> was given; so its queries return, and its
  snapshot does not spin.
\<close>

theorem manager_books_safe:
  assumes "mgr_reachable g" and "map_of (mg_order_books g) symbol = Some b"
  shows "book_inv b \<and> length (ob_bids b) = 1000 \<and> length (ob_asks b) = 1000 \<and>
     (\<exists>s. mgr_get_snapshot symbol depth now g = Inr (Some s) \<and> sn_symbol s = symbol)"
proof -
  have r: "book_reachable DEFAULT_MAX_LEVELS b"
    using mgr_reachable_inv [OF assms(1)] assms(2) by (simp add: mgr_inv_def)
  note inv = reachable_sides [OF r DEFAULT_less]
  have "ob_seq_lock b AND 1 = 0" using inv(1) by (simp add: book_inv_def and_1_u64)
  then have "\<exists>s. get_snapshot depth now b = Some s"
    by (simp add: get_snapshot_def rg_begin_def read_begin_def rg_retry_def read_retry_def)
  with inv assms(2) show ?thesis by (auto simp: mgr_get_snapshot_def DEFAULT_MAX_LEVELS_def)
qed

text \<open>Instance: a new book that was asked to have 5 levels.\<close>

theorem manager_books_safe_witness:
  "\<exists>g b. mgr_reachable g \<and> map_of (mg_order_books g) ''BTC'' = Some b \<and> length (ob_bids b) = 1000"
proof -
  let ?g = "snd (create_order_book ''BTC'' 5 OrderBookManager_new)"
  have r: "mgr_reachable ?g" by (rule mg_create [OF mg_new])
  obtain b where b: "map_of (mg_order_books ?g) ''BTC'' = Some b"
    by (simp add: create_order_book_def OrderBookManager_new_def)
  from manager_books_safe [OF r b] r b show ?thesis by blast
qed

text \<open>Witness of C6: one bid for a known symbol.\<close>

theorem process_update_correct_witness:
  "\<exists>g u. mgr_reachable g \<and> list_all op_ok (update_ops u (\<lambda>_. 7)) \<and> map_of (mg_order_books g) (up_symbol u) \<noteq> None \<and>
     (\<exists>calls g'. process_update u (\<lambda>_. 7) g = Inr (True, calls, g'))"
proof -
  let ?g = "snd (create_order_book ''BTC'' 5 OrderBookManager_new)"
  let ?u = "\<lparr>up_exchange = BINANCE, up_symbol = ''BTC'', up_timestamp = 7, up_update_id = 1,
     up_bids = [\<lparr>ps_price = Fin 100, ps_quantity = Fin 1, ps_order_count = 1\<rparr>], up_asks = []\<rparr>"
  have r: "mgr_reachable ?g" by (rule mg_create [OF mg_new])
  have o: "list_all op_ok (update_ops ?u (\<lambda>_. 7))"
    by (simp add: update_ops_def op_ok_def double_to_fixed_whole)
  have s: "map_of (mg_order_books ?g) (up_symbol ?u) \<noteq> None"
    by (simp add: create_order_book_def OrderBookManager_new_def)
  from process_update_correct [OF r o] s have "\<exists>calls g'. process_update ?u (\<lambda>_. 7) ?g = Inr (True, calls, g')"
    by (auto split: option.splits)
  with r o s show ?thesis by blast
qed

text \<open>
  The symbols a reachable manager lists are pairwise different and are exactly those whose
  book exists; their number is the manager's size.
\<close>

theorem get_symbols_correct:
  assumes "mgr_reachable g"
  shows "distinct (get_symbols g) \<and> set (get_symbols g) = dom (map_of (mg_order_books g)) \<and>
     length (get_symbols g) = mgr_size g"
proof -
  have "distinct (map fst (mg_order_books g))"
    using mgr_reachable_inv [OF assms] omap_wf_distinct by (auto simp: mgr_inv_def)
  then show ?thesis by (simp add: get_symbols_def mgr_size_def dom_map_of_conv_image_fst)
qed

text \<open>A concrete instance.\<close>

theorem get_symbols_correct_witness:
  "mgr_reachable OrderBookManager_new \<and> set (get_symbols OrderBookManager_new) = dom (map_of (mg_order_books OrderBookManager_new))"
  using get_symbols_correct [OF mg_new] mg_new by blast

end
