(* ===== verification/Level_Aggregator.thy ===== *)
theory Level_Aggregator
  imports Types
begin

text \<open>
  The class \<open>AggregatedOrderBook\<close> that \<open>include/core/order_book_manager.hpp\<close> defines inline, beside
  the class of the same name in \<open>aggregated_order_book.hpp\<close>: one vector of levels per side, kept
  sorted, with an exchange in every level.

  \<^item> \<open>la_update_level\<close> converts its arguments and changes one vector; \<open>la_apply\<close> is that change.
    \<open>std::find_if\<close> compares prices only, so it returns the first level of a price whatever its
    exchange.
  \<^item> \<open>la_get_snapshot\<close> groups the levels by price. The unordered map of the code is an ordered one
    here; the code sorts the groups afterwards.
\<close>

record LevelAggregator =
  la_bids :: "ExchangeLevel list"
  la_asks :: "ExchangeLevel list"

definition LevelAggregator_new :: LevelAggregator where
  "LevelAggregator_new = \<lparr>la_bids = [], la_asks = []\<rparr>"

fun find_price :: "u64 \<Rightarrow> ExchangeLevel list \<Rightarrow> nat option" where
  "find_price p [] = None"
| "find_price p (l # ls) = (if el_price l = p then Some 0 else map_option Suc (find_price p ls))"

fun side_lt :: "Side \<Rightarrow> ExchangeLevel \<Rightarrow> ExchangeLevel \<Rightarrow> bool" where
  "side_lt BID a b \<longleftrightarrow> el_price b < el_price a"
| "side_lt ASK a b \<longleftrightarrow> el_price a < el_price b"

definition owned :: "Exchange \<Rightarrow> u64 \<Rightarrow> ExchangeLevel list \<Rightarrow> nat option" where
  "owned ex price_fixed levels =
     (case find_price price_fixed levels of
        None \<Rightarrow> None | Some i \<Rightarrow> if el_exchange (levels ! i) = ex then Some i else None)"

definition la_apply :: "Exchange \<Rightarrow> Side \<Rightarrow> u64 \<Rightarrow> u64 \<Rightarrow> u64 \<Rightarrow> ExchangeLevel list \<Rightarrow> ExchangeLevel list" where
  "la_apply ex side price_fixed quantity_fixed timestamp levels =
     (let level = \<lparr>el_price = price_fixed, el_quantity = quantity_fixed, el_exchange = ex, el_timestamp = timestamp\<rparr>
      in if quantity_fixed = 0
         then (case owned ex price_fixed levels of
                 Some i \<Rightarrow> take i levels @ drop (Suc i) levels
               | None \<Rightarrow> levels)
         else (case owned ex price_fixed levels of
                 Some i \<Rightarrow> levels[i := (levels ! i)\<lparr>el_quantity := quantity_fixed, el_timestamp := timestamp\<rparr>]
               | None \<Rightarrow> sort_by (side_lt side) (levels @ [level])))"

definition la_update_level :: "Exchange \<Rightarrow> Side \<Rightarrow> double \<Rightarrow> double \<Rightarrow> u64 \<Rightarrow> LevelAggregator \<Rightarrow> LevelAggregator result" where
  "la_update_level ex side price quantity timestamp b =
     bindE (double_to_fixed price) (\<lambda>price_fixed.
     bindE (double_to_fixed quantity) (\<lambda>quantity_fixed.
       Inr (case side of
              BID \<Rightarrow> b\<lparr>la_bids := la_apply ex BID price_fixed quantity_fixed timestamp (la_bids b)\<rparr>
            | ASK \<Rightarrow> b\<lparr>la_asks := la_apply ex ASK price_fixed quantity_fixed timestamp (la_asks b)\<rparr>)))"

record AggregatedLevel =
  gl_price :: double
  gl_quantity :: double
  gl_exchange_levels :: "ExchangeLevel list"

record LevelSnapshot =
  ls_timestamp :: u64
  ls_bids :: "AggregatedLevel list"
  ls_asks :: "AggregatedLevel list"

fun group_levels :: "ExchangeLevel list \<Rightarrow> (u64, ExchangeLevel list) omap \<Rightarrow> (u64, ExchangeLevel list) omap" where
  "group_levels [] m = m"
| "group_levels (l # ls) m =
     group_levels ls (omap_put (el_price l)
       ((case map_of m (el_price l) of Some g \<Rightarrow> g | None \<Rightarrow> []) @ [l]) m)"

definition agg_level :: "u64 \<times> ExchangeLevel list \<Rightarrow> AggregatedLevel" where
  "agg_level = (\<lambda>(price, levels). \<lparr>gl_price = fixed_to_double price,
     gl_quantity = fold (\<lambda>l total. dadd total (fixed_to_double (el_quantity l))) levels (Fin 0),
     gl_exchange_levels = levels\<rparr>)"

definition la_get_snapshot :: "nat \<Rightarrow> u64 \<Rightarrow> LevelAggregator \<Rightarrow> LevelSnapshot" where
  "la_get_snapshot depth now b =
     \<lparr>ls_timestamp = now,
      ls_bids = take depth (sort_by (\<lambda>x y. dlt (gl_price y) (gl_price x)) (map agg_level (group_levels (la_bids b) []))),
      ls_asks = take depth (sort_by (\<lambda>x y. dlt (gl_price x) (gl_price y)) (map agg_level (group_levels (la_asks b) [])))\<rparr>"

definition la_get_best_bid :: "LevelAggregator \<Rightarrow> ExchangeLevel option" where
  "la_get_best_bid b = (case la_bids b of [] \<Rightarrow> None | l # _ \<Rightarrow> Some l)"

definition la_get_best_ask :: "LevelAggregator \<Rightarrow> ExchangeLevel option" where
  "la_get_best_ask b = (case la_asks b of [] \<Rightarrow> None | l # _ \<Rightarrow> Some l)"

definition get_weighted_mid_price :: "LevelAggregator \<Rightarrow> double" where
  "get_weighted_mid_price b =
     (case (la_get_best_bid b, la_get_best_ask b) of
        (Some bid, Some ask) \<Rightarrow>
          ddiv (dadd (fixed_to_double (el_price bid)) (fixed_to_double (el_price ask))) (Fin 2)
      | _ \<Rightarrow> Fin 0)"

definition la_clear :: "LevelAggregator \<Rightarrow> LevelAggregator" where
  "la_clear b = b\<lparr>la_bids := [], la_asks := []\<rparr>"

section \<open>Sorted vectors\<close>

lemma find_price_Some:
  "find_price p ls = Some i \<Longrightarrow> i < length ls \<and> el_price (ls ! i) = p \<and> (\<forall>j<i. el_price (ls ! j) \<noteq> p)"
proof (induction ls arbitrary: i)
  case (Cons l ls)
  show ?case
  proof (cases "el_price l = p")
    case False
    then obtain k where k: "i = Suc k" "find_price p ls = Some k" using Cons.prems by auto
    then show ?thesis using Cons.IH [of k] False by (auto simp: nth_Cons split: nat.splits)
  qed (use Cons.prems in simp)
qed simp

lemma find_price_None: "find_price p ls = None \<longleftrightarrow> (\<forall>l\<in>set ls. el_price l \<noteq> p)"
  by (induction ls) auto

lemma owned_Some: "owned ex p ls = Some i \<Longrightarrow> i < length ls \<and> el_price (ls ! i) = p \<and> el_exchange (ls ! i) = ex"
  by (auto simp: owned_def split: option.splits if_splits dest: find_price_Some)

definition side_sorted :: "Side \<Rightarrow> ExchangeLevel list \<Rightarrow> bool" where
  "side_sorted side ls \<longleftrightarrow> sorted_wrt (\<lambda>a b. \<not> side_lt side b a) ls"

interpretation side_cmp: comparator "side_lt side" for side
  by (unfold_locales; cases side; auto)

lemma side_lt_price: "el_price a = el_price a' \<Longrightarrow> el_price b = el_price b' \<Longrightarrow> side_lt side a b = side_lt side a' b'"
  by (cases side) auto

lemma side_sorted_apply: "side_sorted side ls \<Longrightarrow> side_sorted side (la_apply ex side p q ts ls)"
proof -
  assume s: "side_sorted side ls"
  have erase: "side_sorted side (take i ls @ drop (Suc i) ls)" for i
  proof -
    let ?R = "\<lambda>a b. \<not> side_lt side b a"
    have R: "sorted_wrt ?R ls" using s by (simp add: side_sorted_def)
    then have "sorted_wrt ?R (take i ls @ drop i ls)" by simp
    then have "\<forall>x\<in>set (take i ls). \<forall>y\<in>set (drop i ls). ?R x y"
      unfolding sorted_wrt_append by blast
    moreover have "set (drop (Suc i) ls) \<subseteq> set (drop i ls)" by (rule set_drop_subset_set_drop) simp
    ultimately show ?thesis
      using sorted_wrt_take [OF R, of i] sorted_wrt_drop [OF R, of "Suc i"]
      unfolding side_sorted_def sorted_wrt_append by blast
  qed
  have upd: "side_sorted side (ls[i := l])" if "i < length ls" "el_price l = el_price (ls ! i)" for i l
  proof -
    have "el_price (ls[i := l] ! j) = el_price (ls ! j)" for j using that by (cases "j = i") auto
    then have "side_lt side (ls[i := l] ! j) (ls[i := l] ! k) = side_lt side (ls ! j) (ls ! k)" for j k
      by (intro side_lt_price)
    with s show ?thesis unfolding side_sorted_def sorted_wrt_iff_nth_less by simp
  qed
  show ?thesis
    using s erase upd side_cmp.sorted_sort_by [of side]
    by (auto simp: la_apply_def Let_def side_sorted_def dest!: owned_Some split: option.splits)
qed

inductive la_reachable :: "LevelAggregator \<Rightarrow> bool" where
  la_new: "la_reachable LevelAggregator_new"
| la_upd: "la_reachable b \<Longrightarrow> la_update_level ex side p q ts b = Inr b' \<Longrightarrow> la_reachable b'"
| la_clr: "la_reachable b \<Longrightarrow> la_reachable (la_clear b)"

lemma la_reachable_sorted: "la_reachable b \<Longrightarrow> side_sorted BID (la_bids b) \<and> side_sorted ASK (la_asks b)"
proof (induction rule: la_reachable.induct)
  case (la_upd b ex side p q ts b')
  from la_upd.hyps(2) obtain v w where "b' = (case side of
      BID \<Rightarrow> b\<lparr>la_bids := la_apply ex BID v w ts (la_bids b)\<rparr> | ASK \<Rightarrow> b\<lparr>la_asks := la_apply ex ASK v w ts (la_asks b)\<rparr>)"
    by (auto simp: la_update_level_def bindE_eq_Inr)
  with la_upd.IH show ?case by (cases side) (auto simp: side_sorted_apply)
qed (simp_all add: side_sorted_def LevelAggregator_new_def la_clear_def)

text \<open>
  The vectors of a reachable aggregator stay sorted, so its best bid and best ask, the first
  elements, are levels of the highest bid price and of the lowest ask price of all exchanges.
\<close>

theorem aggregator_best_correct:
  assumes "la_reachable b"
  shows "(la_bids b \<noteq> [] \<longrightarrow> (\<exists>l\<in>set (la_bids b). la_get_best_bid b = Some l \<and> (\<forall>x\<in>set (la_bids b). el_price x \<le> el_price l))) \<and>
     (la_asks b \<noteq> [] \<longrightarrow> (\<exists>l\<in>set (la_asks b). la_get_best_ask b = Some l \<and> (\<forall>x\<in>set (la_asks b). el_price l \<le> el_price x)))"
  using la_reachable_sorted [OF assms]
  by (cases "la_bids b"; cases "la_asks b") (auto simp: side_sorted_def la_get_best_bid_def la_get_best_ask_def not_less)

text \<open>Instance: an aggregator with one bid.\<close>

theorem aggregator_best_correct_witness:
  "\<exists>b. la_reachable b \<and> la_bids b \<noteq> [] \<and> (\<exists>l\<in>set (la_bids b). la_get_best_bid b = Some l)"
proof -
  obtain b where b: "la_update_level BINANCE BID (Fin 100) (Fin 1) 7 LevelAggregator_new = Inr b" "la_bids b \<noteq> []"
    using double_to_fixed_nat [of 100] double_to_fixed_nat [of 1]
    by (auto simp: la_update_level_def LevelAggregator_new_def la_apply_def owned_def sort_by_def)
  have r: "la_reachable b" by (rule la_upd [OF la_new b(1)])
  from aggregator_best_correct [OF r] r b(2) show ?thesis by blast
qed

section \<open>Two exchanges at one price\<close>

text \<open>
  If the first level of a price belongs to one exchange, the levels that another exchange
  has at the same price are out of reach: its removal changes nothing, and each of its updates adds
  one more level of that price to the vector instead of replacing its old one.
\<close>

theorem aggregator_shared_price:
  assumes "find_price p ls = Some i" and "el_exchange (ls ! i) \<noteq> ex"
  shows "la_apply ex side p 0 ts ls = ls \<and>
     (q \<noteq> 0 \<longrightarrow> mset (la_apply ex side p q ts ls) =
        add_mset \<lparr>el_price = p, el_quantity = q, el_exchange = ex, el_timestamp = ts\<rparr> (mset ls))"
  using assms by (auto simp: la_apply_def owned_def Let_def)

text \<open>
  Instance: Binance and then Kraken quote 100; Kraken's quote cannot be removed.
\<close>

theorem aggregator_shared_price_witness:
  "let ls = [\<lparr>el_price = 10000000000, el_quantity = 5, el_exchange = BINANCE, el_timestamp = 1\<rparr>,
             \<lparr>el_price = 10000000000, el_quantity = 6, el_exchange = KRAKEN, el_timestamp = 2\<rparr>]
   in find_price 10000000000 ls = Some 0 \<and> el_exchange (ls ! 0) \<noteq> KRAKEN \<and>
      la_apply KRAKEN BID 10000000000 0 3 ls = ls"
  using aggregator_shared_price [of 10000000000
      "[\<lparr>el_price = 10000000000, el_quantity = 5, el_exchange = BINANCE, el_timestamp = 1\<rparr>,
        \<lparr>el_price = 10000000000, el_quantity = 6, el_exchange = KRAKEN, el_timestamp = 2\<rparr>]" 0 KRAKEN BID 3]
  by (simp add: Let_def)

section \<open>Snapshots\<close>

lemma group_levels_map:
  "omap_wf m \<Longrightarrow> omap_wf (group_levels ls m) \<and> map_of (group_levels ls m) p =
     (case (map_of m p, filter (\<lambda>l. el_price l = p) ls) of
        (None, []) \<Rightarrow> None | (None, g) \<Rightarrow> Some g | (Some h, g) \<Rightarrow> Some (h @ g))"
proof (induction ls arbitrary: m)
  case Nil
  then show ?case by (cases "map_of m p") auto
next
  case (Cons l ls)
  let ?m = "omap_put (el_price l) ((case map_of m (el_price l) of Some g \<Rightarrow> g | None \<Rightarrow> []) @ [l]) m"
  have "omap_wf ?m" using Cons.prems by simp
  note IH = Cons.IH [OF this]
  show ?case
    using IH by (cases "map_of m p"; cases "filter (\<lambda>l. el_price l = p) ls"; cases "el_price l = p")
      (auto simp: map_of_put)
qed

text \<open>
  The snapshot of an aggregator has one bid level per price that occurs among its bids (up
  to \<open>depth\<close>), in the order of falling price; each lists the levels of that price in the order of the
  vector, and no level is lost. The same holds for the asks in the order of rising price.
\<close>

theorem aggregator_snapshot_groups:
  "\<exists>bids asks. ls_bids (la_get_snapshot depth now b) = take depth bids \<and> ls_asks (la_get_snapshot depth now b) = take depth asks \<and>
     sorted_wrt (\<lambda>x y. gl_price y \<le> gl_price x) bids \<and> sorted_wrt (\<lambda>x y. gl_price x \<le> gl_price y) asks \<and>
     set bids = {agg_level (p, filter (\<lambda>l. el_price l = p) (la_bids b)) | p. p \<in> el_price ` set (la_bids b)} \<and>
     set asks = {agg_level (p, filter (\<lambda>l. el_price l = p) (la_asks b)) | p. p \<in> el_price ` set (la_asks b)} \<and>
     length bids = card (el_price ` set (la_bids b)) \<and> length asks = card (el_price ` set (la_asks b))"
proof -
  have nn: "gl_price (agg_level x) \<noteq> NaN" for x by (cases x) (simp add: agg_level_def fixed_to_double_Fin)
  have g: "set (map agg_level (group_levels ls [])) =
      {agg_level (p, filter (\<lambda>l. el_price l = p) ls) | p. p \<in> el_price ` set ls} \<and>
      length (group_levels ls []) = card (el_price ` set ls)" for ls
  proof -
    let ?g = "group_levels ls []"
    have wf: "omap_wf ?g" using group_levels_map [of "[]" ls] by simp
    have m: "map_of ?g p = Some h \<longleftrightarrow> h \<noteq> [] \<and> h = filter (\<lambda>l. el_price l = p) ls" for p h
      using group_levels_map [of "[]" ls p] by (auto split: list.splits)
    have s: "(p, h) \<in> set ?g \<longleftrightarrow> h = filter (\<lambda>l. el_price l = p) ls \<and> p \<in> el_price ` set ls" for p h
      unfolding map_of_omap_eq [OF wf, symmetric] m by (auto simp: filter_empty_conv)
    have sg: "set ?g = {(p, filter (\<lambda>l. el_price l = p) ls) | p. p \<in> el_price ` set ls}"
      using s by (intro set_eqI) (simp only: split_paired_all mem_Collect_eq prod.inject, blast)
    then have "fst ` set ?g = el_price ` set ls" by force
    then have "length ?g = card (el_price ` set ls)"
      using distinct_card [OF omap_wf_distinct [OF wf]] by simp
    moreover have "agg_level ` set ?g = {agg_level (p, filter (\<lambda>l. el_price l = p) ls) | p. p \<in> el_price ` set ls}"
      unfolding sg by blast
    ultimately show ?thesis by simp
  qed
  have cong: "sort_by (\<lambda>x y. dlt (gl_price x) (gl_price y)) (map agg_level xs) = sort_by (\<lambda>x y. gl_price x < gl_price y) (map agg_level xs)"
    "sort_by (\<lambda>x y. dlt (gl_price y) (gl_price x)) (map agg_level xs) = sort_by (\<lambda>x y. gl_price y < gl_price x) (map agg_level xs)" for xs
    by (rule sort_by_cong; auto simp: dlt_iff_less nn)+
  let ?bids = "sort_by (\<lambda>x y. gl_price y < gl_price x) (map agg_level (group_levels (la_bids b) []))"
    and ?asks = "sort_by (\<lambda>x y. gl_price x < gl_price y) (map agg_level (group_levels (la_asks b) []))"
  have "sorted_wrt (\<lambda>x y. gl_price y \<le> gl_price x) ?bids" "sorted_wrt (\<lambda>x y. gl_price x \<le> gl_price y) ?asks"
    using desc.sorted_sort_by [of gl_price] asc.sorted_sort_by [of gl_price] by (simp_all add: not_less)
  then show ?thesis
    using g [of "la_bids b"] g [of "la_asks b"]
    by (intro exI [of _ ?bids] exI [of _ ?asks]) (simp add: la_get_snapshot_def cong)
qed

end
