(* ===== verification/Aggregated_Order_Book.thy ===== *)
theory Aggregated_Order_Book
  imports Types
begin

text \<open>
  The cross-exchange book of \<open>include/core/aggregated_order_book.hpp\<close> and
  \<open>src/core/aggregated_order_book.cpp\<close>: per exchange two maps from price to level, merged views of
  them, the search for crossed quotes and the routing of an order.

  \<^item> A \<open>std::map\<close> keyed by \<open>double\<close> is undefined once a NaN is used as its key; \<open>agg_update\<close> returns
    \<open>UB_unordered_key\<close> then.
  \<^item> \<open>agg_update\<close> with a callback installed calls \<open>detect_arbitrage\<close>, which takes the mutex that the
    update still holds: the value \<open>Self_deadlock\<close>.
  \<^item> \<open>recommend_routing\<close> compares its side with an enumerator \<open>Side::BUY\<close> that \<open>types.hpp\<close> does not
    declare. The enumerator is the argument \<open>BUY\<close>, and what is proved holds for either value.
  \<^item> \<open>agg_inv\<close>: every map is ordered, its keys are the prices of its levels, the quantities are
    positive, and the levels carry the exchange of their book.
\<close>

section \<open>Structs\<close>

record AggregatedPriceLevel =
  al_exchange :: Exchange
  al_price :: double
  al_quantity :: double
  al_order_count :: u32
  al_timestamp_ns :: u64

record AggregatedSnapshot =
  as_symbol :: string
  as_bids :: "AggregatedPriceLevel list"
  as_asks :: "AggregatedPriceLevel list"
  as_timestamp_ns :: u64

definition as_get_best_bid :: "AggregatedSnapshot \<Rightarrow> double option" where
  "as_get_best_bid s = (case as_bids s of [] \<Rightarrow> None | l # _ \<Rightarrow> Some (al_price l))"

definition as_get_best_ask :: "AggregatedSnapshot \<Rightarrow> double option" where
  "as_get_best_ask s = (case as_asks s of [] \<Rightarrow> None | l # _ \<Rightarrow> Some (al_price l))"

definition as_get_mid_price :: "AggregatedSnapshot \<Rightarrow> double option" where
  "as_get_mid_price s = (case (as_get_best_bid s, as_get_best_ask s) of
     (Some bid, Some ask) \<Rightarrow> Some (ddiv (dadd bid ask) (Fin 2)) | _ \<Rightarrow> None)"

definition as_get_spread :: "AggregatedSnapshot \<Rightarrow> double option" where
  "as_get_spread s = (case (as_get_best_bid s, as_get_best_ask s) of
     (Some bid, Some ask) \<Rightarrow> Some (dsub ask bid) | _ \<Rightarrow> None)"

definition as_get_spread_bps :: "AggregatedSnapshot \<Rightarrow> double option" where
  "as_get_spread_bps s = (case (as_get_spread s, as_get_mid_price s) of
     (Some spread, Some mid) \<Rightarrow>
       if deq mid (Fin 0) then None else Some (dmul (ddiv spread mid) (Fin 10000))
   | _ \<Rightarrow> None)"

record ArbitrageOpportunity =
  ao_symbol :: string
  ao_buy_exchange :: Exchange
  ao_sell_exchange :: Exchange
  ao_buy_price :: double
  ao_sell_price :: double
  ao_max_quantity :: double
  ao_profit_per_unit :: double
  ao_profit_percentage :: double
  ao_timestamp_ns :: u64

definition calculate_profit :: "ArbitrageOpportunity \<Rightarrow> double \<Rightarrow> double" where
  "calculate_profit opp quantity = dmul (dmin quantity (ao_max_quantity opp)) (ao_profit_per_unit opp)"

datatype Strategy = SINGLE_VENUE | SPLIT_ORDER | ICEBERG | TWAP

record RoutingRecommendation =
  rr_symbol :: string
  rr_side :: Side
  rr_quantity :: double
  rr_strategy :: Strategy
  rr_primary_exchange :: Exchange
  rr_expected_price :: double
  rr_allocations :: "(Exchange, double) omap"
  rr_timestamp_ns :: u64

record ExchangeBook =
  eb_bids :: "(double, AggregatedPriceLevel) omap"
  eb_asks :: "(double, AggregatedPriceLevel) omap"
  eb_last_update_ns :: u64

definition ExchangeBook_default :: ExchangeBook where
  "ExchangeBook_default = \<lparr>eb_bids = [], eb_asks = [], eb_last_update_ns = 0\<rparr>"

record AggregatedOrderBook =
  ag_symbol :: string
  ag_exchange_books :: "(Exchange, ExchangeBook) omap"
  ag_has_callback :: bool

definition AggregatedOrderBook_new :: "string \<Rightarrow> AggregatedOrderBook" where
  "AggregatedOrderBook_new symbol = \<lparr>ag_symbol = symbol, ag_exchange_books = [], ag_has_callback = False\<rparr>"

section \<open>Updates\<close>

fun agg_levels :: "Exchange \<Rightarrow> u64 \<Rightarrow> PriceLevelSnapshot list \<Rightarrow> (double, AggregatedPriceLevel) omap \<Rightarrow>
    (double, AggregatedPriceLevel) omap result" where
  "agg_levels ex ts [] m = Inr m"
| "agg_levels ex ts (bid # bids) m =
     (if ps_price bid = NaN then Inl UB_unordered_key
      else if dlt (Fin 0) (ps_quantity bid)
      then let level = \<lparr>al_exchange = ex, al_price = ps_price bid, al_quantity = ps_quantity bid,
                        al_order_count = ps_order_count bid, al_timestamp_ns = ts\<rparr>
           in agg_levels ex ts bids (omap_put (ps_price bid) level m)
      else agg_levels ex ts bids (omap_erase (ps_price bid) m))"

definition agg_update :: "NormalizedOrderBookUpdate \<Rightarrow> AggregatedOrderBook \<Rightarrow> AggregatedOrderBook result" where
  "agg_update u b =
     (if up_symbol u \<noteq> ag_symbol b then Inr b
      else let book = (case map_of (ag_exchange_books b) (up_exchange u) of
                         Some eb \<Rightarrow> eb | None \<Rightarrow> ExchangeBook_default) in
        bindE (agg_levels (up_exchange u) (up_timestamp u) (up_bids u) (eb_bids book)) (\<lambda>bids.
        bindE (agg_levels (up_exchange u) (up_timestamp u) (up_asks u) (eb_asks book)) (\<lambda>asks.
          if ag_has_callback b then Inl Self_deadlock
          else Inr (b\<lparr>ag_exchange_books :=
                 omap_put (up_exchange u)
                   \<lparr>eb_bids = bids, eb_asks = asks, eb_last_update_ns = up_timestamp u\<rparr>
                   (ag_exchange_books b)\<rparr>))))"

definition set_arbitrage_callback :: "bool \<Rightarrow> AggregatedOrderBook \<Rightarrow> AggregatedOrderBook" where
  "set_arbitrage_callback callback b = b\<lparr>ag_has_callback := callback\<rparr>"

definition agg_clear :: "AggregatedOrderBook \<Rightarrow> AggregatedOrderBook" where
  "agg_clear b = b\<lparr>ag_exchange_books := []\<rparr>"

definition get_exchange_count :: "AggregatedOrderBook \<Rightarrow> nat" where
  "get_exchange_count b = length (ag_exchange_books b)"

section \<open>Best quotes and merged views\<close>

fun best_bid_loop :: "(Exchange \<times> ExchangeBook) list \<Rightarrow> AggregatedPriceLevel option \<Rightarrow> AggregatedPriceLevel option" where
  "best_bid_loop [] best = best"
| "best_bid_loop ((_, book) # rest) best =
     (if eb_bids book = [] then best_bid_loop rest best
      else let top_bid = snd (last (eb_bids book)) in
        best_bid_loop rest (case best of None \<Rightarrow> Some top_bid
          | Some l \<Rightarrow> if dlt (al_price l) (al_price top_bid) then Some top_bid else best))"

fun best_ask_loop :: "(Exchange \<times> ExchangeBook) list \<Rightarrow> AggregatedPriceLevel option \<Rightarrow> AggregatedPriceLevel option" where
  "best_ask_loop [] best = best"
| "best_ask_loop ((_, book) # rest) best =
     (if eb_asks book = [] then best_ask_loop rest best
      else let top_ask = snd (hd (eb_asks book)) in
        best_ask_loop rest (case best of None \<Rightarrow> Some top_ask
          | Some l \<Rightarrow> if dlt (al_price top_ask) (al_price l) then Some top_ask else best))"

definition get_best_bid :: "AggregatedOrderBook \<Rightarrow> AggregatedPriceLevel option" where
  "get_best_bid b = best_bid_loop (ag_exchange_books b) None"

definition get_best_ask :: "AggregatedOrderBook \<Rightarrow> AggregatedPriceLevel option" where
  "get_best_ask b = best_ask_loop (ag_exchange_books b) None"

definition agg_mid_price :: "AggregatedOrderBook \<Rightarrow> double option" where
  "agg_mid_price b = (case (get_best_bid b, get_best_ask b) of
     (Some bid, Some ask) \<Rightarrow> Some (ddiv (dadd (al_price bid) (al_price ask)) (Fin 2)) | _ \<Rightarrow> None)"

definition agg_spread :: "AggregatedOrderBook \<Rightarrow> double option" where
  "agg_spread b = (case (get_best_bid b, get_best_ask b) of
     (Some bid, Some ask) \<Rightarrow> Some (dsub (al_price ask) (al_price bid)) | _ \<Rightarrow> None)"

definition all_bids :: "AggregatedOrderBook \<Rightarrow> AggregatedPriceLevel list" where
  "all_bids b = concat (map (\<lambda>(_, book). map snd (eb_bids book)) (ag_exchange_books b))"

definition all_asks :: "AggregatedOrderBook \<Rightarrow> AggregatedPriceLevel list" where
  "all_asks b = concat (map (\<lambda>(_, book). map snd (eb_asks book)) (ag_exchange_books b))"

definition merge_bids :: "nat \<Rightarrow> AggregatedOrderBook \<Rightarrow> AggregatedPriceLevel list" where
  "merge_bids depth b = take depth (sort_by (\<lambda>x y. dlt (al_price y) (al_price x)) (all_bids b))"

definition merge_asks :: "nat \<Rightarrow> AggregatedOrderBook \<Rightarrow> AggregatedPriceLevel list" where
  "merge_asks depth b = take depth (sort_by (\<lambda>x y. dlt (al_price x) (al_price y)) (all_asks b))"

definition agg_get_snapshot :: "nat \<Rightarrow> u64 \<Rightarrow> AggregatedOrderBook \<Rightarrow> AggregatedSnapshot" where
  "agg_get_snapshot depth now b =
     \<lparr>as_symbol = ag_symbol b, as_bids = merge_bids depth b, as_asks = merge_asks depth b,
      as_timestamp_ns = now\<rparr>"

section \<open>Arbitrage and routing\<close>

definition detect_arbitrage :: "double \<Rightarrow> u64 \<Rightarrow> AggregatedOrderBook \<Rightarrow> ArbitrageOpportunity option" where
  "detect_arbitrage min_profit_percentage now b =
     (case (get_best_bid b, get_best_ask b) of
        (Some bid, Some ask) \<Rightarrow>
          if dle (al_price bid) (al_price ask) then None
          else let profit_per_unit = dsub (al_price bid) (al_price ask);
                   profit_percentage = dmul (ddiv profit_per_unit (al_price ask)) (Fin 100)
               in if dlt profit_percentage min_profit_percentage then None
                  else Some \<lparr>ao_symbol = ag_symbol b, ao_buy_exchange = al_exchange ask,
                     ao_sell_exchange = al_exchange bid, ao_buy_price = al_price ask,
                     ao_sell_price = al_price bid,
                     ao_max_quantity = dmin (al_quantity bid) (al_quantity ask),
                     ao_profit_per_unit = profit_per_unit, ao_profit_percentage = profit_percentage,
                     ao_timestamp_ns = now\<rparr>
      | _ \<Rightarrow> None)"

fun route_fill :: "AggregatedPriceLevel list \<Rightarrow> double \<Rightarrow> (Exchange, double) omap \<Rightarrow> (Exchange, double) omap" where
  "route_fill [] remaining allocations = allocations"
| "route_fill (level # levels) remaining allocations =
     (if dle remaining (Fin 0) then allocations
      else let fill_qty = dmin remaining (al_quantity level);
               old = (case map_of allocations (al_exchange level) of Some q \<Rightarrow> q | None \<Rightarrow> Fin 0)
           in route_fill levels (dsub remaining fill_qty)
                (omap_put (al_exchange level) (dadd old fill_qty) allocations))"

fun route_cost :: "AggregatedPriceLevel list \<Rightarrow> (Exchange, double) omap \<Rightarrow> double \<Rightarrow> double \<Rightarrow> double \<times> double" where
  "route_cost [] allocations total_cost total_qty = (total_cost, total_qty)"
| "route_cost (level # levels) allocations total_cost total_qty =
     (case map_of allocations (al_exchange level) of
        None \<Rightarrow> route_cost levels allocations total_cost total_qty
      | Some a \<Rightarrow> let qty = dmin a (al_quantity level) in
          route_cost levels allocations (dadd total_cost (dmul qty (al_price level))) (dadd total_qty qty))"

definition route_levels :: "Side \<Rightarrow> Side \<Rightarrow> AggregatedOrderBook \<Rightarrow> AggregatedPriceLevel list" where
  "route_levels BUY side b =
     (if side = BUY then sort_by (\<lambda>x y. dlt (al_price x) (al_price y)) (all_asks b)
      else sort_by (\<lambda>x y. dlt (al_price y) (al_price x)) (all_bids b))"

definition recommend_routing :: "Side \<Rightarrow> Side \<Rightarrow> double \<Rightarrow> u64 \<Rightarrow> AggregatedOrderBook \<Rightarrow> RoutingRecommendation result" where
  "recommend_routing BUY side quantity now b =
     (let levels = route_levels BUY side b;
          rec = \<lparr>rr_symbol = ag_symbol b, rr_side = side, rr_quantity = quantity,
                 rr_strategy = SINGLE_VENUE, rr_primary_exchange = BINANCE, rr_expected_price = Fin 0,
                 rr_allocations = [], rr_timestamp_ns = now\<rparr> in
      (case levels of
        [] \<Rightarrow> Inr rec
      | level0 # _ \<Rightarrow>
          let allocations = route_fill levels quantity [] in
          if length allocations = 1
          then Inr (rec\<lparr>rr_primary_exchange := fst (hd allocations), rr_expected_price := al_price level0\<rparr>)
          else (case allocations of
            [] \<Rightarrow> Inl UB_end_iterator
          | first # _ \<Rightarrow>
              let (total_cost, total_qty) = route_cost levels allocations (Fin 0) (Fin 0) in
              Inr (rec\<lparr>rr_strategy := SPLIT_ORDER, rr_allocations := allocations,
                   rr_expected_price := (if dlt (Fin 0) total_qty then ddiv total_cost total_qty else Fin 0),
                   rr_primary_exchange := fst first\<rparr>))))"

section \<open>The invariant\<close>

definition level_ok :: "Exchange \<Rightarrow> double \<Rightarrow> AggregatedPriceLevel \<Rightarrow> bool" where
  "level_ok ex k l \<longleftrightarrow> al_price l = k \<and> k \<noteq> NaN \<and> valid k \<and> dlt (Fin 0) (al_quantity l) \<and> al_exchange l = ex"

definition side_wf :: "Exchange \<Rightarrow> (double, AggregatedPriceLevel) omap \<Rightarrow> bool" where
  "side_wf ex m \<longleftrightarrow> omap_wf m \<and> (\<forall>(k, l) \<in> set m. level_ok ex k l)"

definition agg_inv :: "AggregatedOrderBook \<Rightarrow> bool" where
  "agg_inv b \<longleftrightarrow> omap_wf (ag_exchange_books b) \<and>
     (\<forall>(ex, eb) \<in> set (ag_exchange_books b). side_wf ex (eb_bids eb) \<and> side_wf ex (eb_asks eb))"

definition level_of :: "Exchange \<Rightarrow> u64 \<Rightarrow> PriceLevelSnapshot \<Rightarrow> AggregatedPriceLevel" where
  "level_of ex ts s = \<lparr>al_exchange = ex, al_price = ps_price s, al_quantity = ps_quantity s,
     al_order_count = ps_order_count s, al_timestamp_ns = ts\<rparr>"

text \<open>The effect of a list of level changes on the map of a side.\<close>

definition spec_levels :: "Exchange \<Rightarrow> u64 \<Rightarrow> PriceLevelSnapshot list \<Rightarrow>
    (double \<rightharpoonup> AggregatedPriceLevel) \<Rightarrow> (double \<rightharpoonup> AggregatedPriceLevel)" where
  "spec_levels ex ts = fold (\<lambda>s f. f(ps_price s :=
     if dlt (Fin 0) (ps_quantity s) then Some (level_of ex ts s) else None))"

lemma agg_levels_Cons:
  "agg_levels ex ts (s # bids) m = (if ps_price s = NaN then Inl UB_unordered_key
     else agg_levels ex ts bids (if dlt (Fin 0) (ps_quantity s) then omap_put (ps_price s) (level_of ex ts s) m
                                 else omap_erase (ps_price s) m))"
  by (simp add: level_of_def)

lemma agg_levels_ok: "\<forall>s\<in>set bids. ps_price s \<noteq> NaN \<Longrightarrow> \<exists>m'. agg_levels ex ts bids m = Inr m'"
  by (induction bids arbitrary: m) (simp_all add: agg_levels_Cons del: agg_levels.simps(2))

lemma agg_levels_both:
  assumes "\<forall>s \<in> set bids \<union> set asks. ps_price s \<noteq> NaN"
  obtains m1 m2 where "agg_levels ex ts bids m = Inr m1" "agg_levels ex ts asks m' = Inr m2"
proof -
  have "\<forall>s \<in> set bids. ps_price s \<noteq> NaN" "\<forall>s \<in> set asks. ps_price s \<noteq> NaN" using assms by simp_all
  then show thesis using that agg_levels_ok by blast
qed

lemma agg_levels_NaN:
  "\<exists>s\<in>set bids. ps_price s = NaN \<Longrightarrow> agg_levels ex ts bids m = Inl UB_unordered_key"
  by (induction bids arbitrary: m) (auto simp: agg_levels_Cons simp del: agg_levels.simps(2))

lemma side_wf_Nil [simp]: "side_wf ex []"
  by (simp add: side_wf_def)

lemma side_wf_put: "side_wf ex m \<Longrightarrow> level_ok ex k l \<Longrightarrow> side_wf ex (omap_put k l m)"
  using omap.items_put [of m k l] by (auto simp: side_wf_def)

lemma side_wf_erase: "side_wf ex m \<Longrightarrow> side_wf ex (omap_erase k m)"
  using omap.items_erase [of m k] by (auto simp: side_wf_def)

lemma agg_levels_wf: "agg_levels ex ts bids m = Inr m' \<Longrightarrow> side_wf ex m \<Longrightarrow>
    \<forall>s\<in>set bids. valid (ps_price s) \<Longrightarrow> side_wf ex m'"
proof (induction bids arbitrary: m)
  case (Cons s bids)
  let ?m = "if dlt (Fin 0) (ps_quantity s) then omap_put (ps_price s) (level_of ex ts s) m
     else omap_erase (ps_price s) m"
  have "ps_price s \<noteq> NaN" "agg_levels ex ts bids ?m = Inr m'"
    using Cons.prems(1) by (simp_all add: agg_levels_Cons split: if_splits del: agg_levels.simps(2))
  moreover have "side_wf ex ?m"
    using Cons.prems(2,3) calculation(1) side_wf_put [of ex m "ps_price s" "level_of ex ts s"] side_wf_erase
    by (auto simp: level_ok_def level_of_def)
  ultimately show ?case using Cons.IH Cons.prems(3) by simp
qed simp

lemma agg_levels_map: "agg_levels ex ts bids m = Inr m' \<Longrightarrow> map_of m' = spec_levels ex ts bids (map_of m)"
proof (induction bids arbitrary: m)
  case (Cons s bids)
  let ?m = "if dlt (Fin 0) (ps_quantity s) then omap_put (ps_price s) (level_of ex ts s) m
     else omap_erase (ps_price s) m"
  have "agg_levels ex ts bids ?m = Inr m'"
    using Cons.prems(1) by (simp_all add: agg_levels_Cons split: if_splits del: agg_levels.simps(2))
  then have "map_of m' = spec_levels ex ts bids (map_of ?m)" by (rule Cons.IH)
  also have "map_of ?m = (map_of m)(ps_price s := if dlt (Fin 0) (ps_quantity s) then Some (level_of ex ts s) else None)"
    by (simp only: if_distrib [of map_of] map_of_put map_of_erase) simp
  finally show ?case by (simp only: spec_levels_def fold.simps o_apply)
qed (simp add: spec_levels_def)

lemma agg_inv_new: "agg_inv (AggregatedOrderBook_new symbol)"
  by (simp add: agg_inv_def AggregatedOrderBook_new_def)

lemma agg_inv_clear: "agg_inv (agg_clear b)"
  by (simp add: agg_inv_def agg_clear_def)

definition book_of :: "AggregatedOrderBook \<Rightarrow> Exchange \<Rightarrow> ExchangeBook" where
  "book_of b ex = (case map_of (ag_exchange_books b) ex of Some eb \<Rightarrow> eb | None \<Rightarrow> ExchangeBook_default)"

lemma agg_inv_book: "agg_inv b \<Longrightarrow> side_wf ex (eb_bids (book_of b ex)) \<and> side_wf ex (eb_asks (book_of b ex))"
  by (auto simp: agg_inv_def book_of_def map_of_omap_eq ExchangeBook_default_def split: option.splits)

lemma agg_update_Inr:
  assumes "agg_update u b = Inr b'" and "up_symbol u = ag_symbol b"
  obtains bids asks where "\<not> ag_has_callback b"
    "agg_levels (up_exchange u) (up_timestamp u) (up_bids u) (eb_bids (book_of b (up_exchange u))) = Inr bids"
    "agg_levels (up_exchange u) (up_timestamp u) (up_asks u) (eb_asks (book_of b (up_exchange u))) = Inr asks"
    "b' = b\<lparr>ag_exchange_books := omap_put (up_exchange u)
       \<lparr>eb_bids = bids, eb_asks = asks, eb_last_update_ns = up_timestamp u\<rparr> (ag_exchange_books b)\<rparr>"
  using assms by (auto simp: agg_update_def Let_def bindE_eq_Inr book_of_def split: if_splits)

text \<open>The prices of an update are values of the type \<open>double\<close>.\<close>

definition up_valid :: "NormalizedOrderBookUpdate \<Rightarrow> bool" where
  "up_valid u \<longleftrightarrow> (\<forall>s\<in>set (up_bids u). valid (ps_price s)) \<and> (\<forall>s\<in>set (up_asks u). valid (ps_price s))"

lemma agg_inv_update: "agg_inv b \<Longrightarrow> up_valid u \<Longrightarrow> agg_update u b = Inr b' \<Longrightarrow> agg_inv b'"
proof (cases "up_symbol u = ag_symbol b")
  case True
  assume inv: "agg_inv b" and v: "up_valid u" and "agg_update u b = Inr b'"
  from this(3) True obtain bids asks where
    l: "agg_levels (up_exchange u) (up_timestamp u) (up_bids u) (eb_bids (book_of b (up_exchange u))) = Inr bids"
      "agg_levels (up_exchange u) (up_timestamp u) (up_asks u) (eb_asks (book_of b (up_exchange u))) = Inr asks"
    and b': "b' = b\<lparr>ag_exchange_books := omap_put (up_exchange u)
       \<lparr>eb_bids = bids, eb_asks = asks, eb_last_update_ns = up_timestamp u\<rparr> (ag_exchange_books b)\<rparr>"
    by (rule agg_update_Inr)
  have "side_wf (up_exchange u) bids" "side_wf (up_exchange u) asks"
    using agg_levels_wf [OF l(1)] agg_levels_wf [OF l(2)] agg_inv_book [OF inv] v
    by (auto simp: up_valid_def)
  then show ?thesis
    using inv omap.items_put [of "ag_exchange_books b" "up_exchange u"] by (auto simp: agg_inv_def b')
qed (simp add: agg_update_def)

text \<open>
  C22. An update of a well-formed book with no callback and no NaN price returns a well-formed
  book in which the two maps of the update's exchange are the old ones with the level changes applied in
  order (a positive quantity sets the level, any other quantity deletes it), and the maps of the
  other exchanges are as before.
\<close>

theorem agg_update_refines:
  assumes "agg_inv b" and "up_symbol u = ag_symbol b" and "\<not> ag_has_callback b" and "up_valid u"
    and "\<forall>s \<in> set (up_bids u) \<union> set (up_asks u). ps_price s \<noteq> NaN"
  shows "\<exists>b'. agg_update u b = Inr b' \<and> agg_inv b' \<and>
     map_of (eb_bids (book_of b' (up_exchange u))) =
       spec_levels (up_exchange u) (up_timestamp u) (up_bids u) (map_of (eb_bids (book_of b (up_exchange u)))) \<and>
     map_of (eb_asks (book_of b' (up_exchange u))) =
       spec_levels (up_exchange u) (up_timestamp u) (up_asks u) (map_of (eb_asks (book_of b (up_exchange u)))) \<and>
     (\<forall>ex. ex \<noteq> up_exchange u \<longrightarrow> book_of b' ex = book_of b ex)"
proof -
  obtain bids asks where
    l: "agg_levels (up_exchange u) (up_timestamp u) (up_bids u) (eb_bids (book_of b (up_exchange u))) = Inr bids"
      "agg_levels (up_exchange u) (up_timestamp u) (up_asks u) (eb_asks (book_of b (up_exchange u))) = Inr asks"
    by (rule agg_levels_both [OF assms(5)])
  let ?b' = "b\<lparr>ag_exchange_books := omap_put (up_exchange u)
       \<lparr>eb_bids = bids, eb_asks = asks, eb_last_update_ns = up_timestamp u\<rparr> (ag_exchange_books b)\<rparr>"
  have e: "agg_update u b = Inr ?b'"
    using l assms(2,3) by (simp add: agg_update_def book_of_def)
  moreover have "book_of ?b' ex = (if ex = up_exchange u
      then \<lparr>eb_bids = bids, eb_asks = asks, eb_last_update_ns = up_timestamp u\<rparr> else book_of b ex)" for ex
    by (simp add: book_of_def map_of_put)
  ultimately show ?thesis
    using agg_inv_update [OF assms(1,4) e] agg_levels_map [OF l(1)] agg_levels_map [OF l(2)] by auto
qed

inductive agg_reachable :: "AggregatedOrderBook \<Rightarrow> bool" where
  ag_new: "agg_reachable (AggregatedOrderBook_new symbol)"
| ag_update: "agg_reachable b \<Longrightarrow> up_valid u \<Longrightarrow> agg_update u b = Inr b' \<Longrightarrow> agg_reachable b'"
| ag_callback: "agg_reachable b \<Longrightarrow> agg_reachable (set_arbitrage_callback c b)"
| ag_clear: "agg_reachable b \<Longrightarrow> agg_reachable (agg_clear b)"

lemma agg_reachable_inv: "agg_reachable b \<Longrightarrow> agg_inv b"
proof (induction rule: agg_reachable.induct)
  case (ag_callback b c)
  then show ?case by (simp add: agg_inv_def set_arbitrage_callback_def)
qed (auto simp: agg_inv_new agg_inv_clear intro: agg_inv_update)

text \<open>Witness of C22: the first update of a new book.\<close>

definition sample_update :: NormalizedOrderBookUpdate where
  "sample_update = \<lparr>up_exchange = BINANCE, up_symbol = ''BTC'', up_timestamp = 7, up_update_id = 1,
     up_bids = [\<lparr>ps_price = Fin 100, ps_quantity = Fin 1, ps_order_count = 1\<rparr>],
     up_asks = [\<lparr>ps_price = Fin 101, ps_quantity = Fin 1, ps_order_count = 1\<rparr>]\<rparr>"

lemma sample_update_valid: "up_valid sample_update"
  using valid_Fin_int [of 100] valid_Fin_int [of 101] by (simp add: up_valid_def sample_update_def)

theorem agg_update_refines_witness:
  "agg_inv (AggregatedOrderBook_new ''BTC'') \<and> up_valid sample_update \<and>
   (\<exists>b'. agg_update sample_update (AggregatedOrderBook_new ''BTC'') = Inr b' \<and> agg_inv b' \<and>
      map_of (eb_bids (book_of b' BINANCE)) (Fin 100) \<noteq> None)"
proof -
  have "up_symbol sample_update = ag_symbol (AggregatedOrderBook_new ''BTC'')"
    "\<not> ag_has_callback (AggregatedOrderBook_new ''BTC'')"
    "\<forall>s \<in> set (up_bids sample_update) \<union> set (up_asks sample_update). ps_price s \<noteq> NaN"
    "up_exchange sample_update = BINANCE"
    by (simp_all add: sample_update_def AggregatedOrderBook_new_def)
  from agg_update_refines [OF agg_inv_new this(1,2) sample_update_valid this(3)] this(4)
  obtain b' where b': "agg_update sample_update (AggregatedOrderBook_new ''BTC'') = Inr b'" "agg_inv b'"
    "map_of (eb_bids (book_of b' BINANCE)) = spec_levels BINANCE (up_timestamp sample_update)
       (up_bids sample_update) (map_of (eb_bids (book_of (AggregatedOrderBook_new ''BTC'') BINANCE)))"
    by metis
  moreover have "map_of (eb_bids (book_of b' BINANCE)) (Fin 100) \<noteq> None"
    unfolding b'(3) by (simp add: spec_levels_def sample_update_def)
  ultimately show ?thesis using agg_inv_new sample_update_valid by blast
qed

section \<open>Best quotes\<close>

lemma side_wf_top:
  assumes "side_wf ex m" and "m \<noteq> []"
  shows "snd (last m) \<in> snd ` set m" and "\<And>l. l \<in> snd ` set m \<Longrightarrow> al_price l \<le> al_price (snd (last m))"
    and "snd (hd m) \<in> snd ` set m" and "\<And>l. l \<in> snd ` set m \<Longrightarrow> al_price (snd (hd m)) \<le> al_price l"
    and "al_price (snd (last m)) \<noteq> NaN" and "al_price (snd (hd m)) \<noteq> NaN"
proof -
  have k: "al_price l = k \<and> k \<noteq> NaN" if "(k, l) \<in> set m" for k l
    using assms(1) that by (auto simp: side_wf_def level_ok_def)
  have l: "last m \<in> set m" and h: "hd m \<in> set m" using assms(2) by simp_all
  show "snd (last m) \<in> snd ` set m" "snd (hd m) \<in> snd ` set m" using l h by simp_all
  show "al_price (snd (last m)) \<noteq> NaN" "al_price (snd (hd m)) \<noteq> NaN"
    using k [of "fst (last m)" "snd (last m)"] k [of "fst (hd m)" "snd (hd m)"] l h by auto
  show "al_price x \<le> al_price (snd (last m))" if "x \<in> snd ` set m" for x
    using that omap_last_greatest [of m] assms(1) k [of "fst (last m)" "snd (last m)"] l k
    by (fastforce simp: side_wf_def)
  show "al_price (snd (hd m)) \<le> al_price x" if "x \<in> snd ` set m" for x
    using that omap_hd_least [of m] assms(1) k [of "fst (hd m)" "snd (hd m)"] h k
    by (fastforce simp: side_wf_def)
qed

definition bid_tops :: "(Exchange \<times> ExchangeBook) list \<Rightarrow> AggregatedPriceLevel list" where
  "bid_tops books = map (\<lambda>(_, eb). snd (last (eb_bids eb))) (filter (\<lambda>(_, eb). eb_bids eb \<noteq> []) books)"

definition ask_tops :: "(Exchange \<times> ExchangeBook) list \<Rightarrow> AggregatedPriceLevel list" where
  "ask_tops books = map (\<lambda>(_, eb). snd (hd (eb_asks eb))) (filter (\<lambda>(_, eb). eb_asks eb \<noteq> []) books)"

lemma best_bid_loop_pick:
  assumes "\<forall>l \<in> set (bid_tops books) \<union> set_option best. al_price l \<noteq> NaN"
  shows "best_bid_loop books best = fold (pick (\<lambda>x y. al_price y < al_price x)) (bid_tops books) best"
  using assms by (induction books best rule: best_bid_loop.induct)
    (auto simp: bid_tops_def pick_def dlt_iff_less Let_def split: option.splits)

lemma best_ask_loop_pick:
  assumes "\<forall>l \<in> set (ask_tops books) \<union> set_option best. al_price l \<noteq> NaN"
  shows "best_ask_loop books best = fold (pick (\<lambda>x y. al_price x < al_price y)) (ask_tops books) best"
  using assms by (induction books best rule: best_ask_loop.induct)
    (auto simp: ask_tops_def pick_def dlt_iff_less Let_def split: option.splits)

lemma set_all_bids: "set (all_bids b) = (\<Union>(ex, eb) \<in> set (ag_exchange_books b). snd ` set (eb_bids eb))"
  by (auto simp: all_bids_def)

lemma set_all_asks: "set (all_asks b) = (\<Union>(ex, eb) \<in> set (ag_exchange_books b). snd ` set (eb_asks eb))"
  by (auto simp: all_asks_def)

lemma all_levels_ok:
  assumes "agg_inv b" and "l \<in> set (all_bids b) \<union> set (all_asks b)"
  shows "al_price l \<noteq> NaN" and "valid (al_price l)" and "dlt (Fin 0) (al_quantity l)"
  using assms by (fastforce simp: agg_inv_def side_wf_def level_ok_def set_all_bids set_all_asks)+

lemma bid_tops_cover:
  assumes "agg_inv b"
  shows "set (bid_tops (ag_exchange_books b)) \<subseteq> set (all_bids b)"
    and "l \<in> set (all_bids b) \<Longrightarrow> \<exists>t \<in> set (bid_tops (ag_exchange_books b)). al_price l \<le> al_price t"
proof -
  have wf: "side_wf ex (eb_bids eb)" if "(ex, eb) \<in> set (ag_exchange_books b)" for ex eb
    using assms that by (auto simp: agg_inv_def)
  show "set (bid_tops (ag_exchange_books b)) \<subseteq> set (all_bids b)"
  proof
    fix t assume "t \<in> set (bid_tops (ag_exchange_books b))"
    then obtain ex eb where t: "(ex, eb) \<in> set (ag_exchange_books b)" "eb_bids eb \<noteq> []"
      "t = snd (last (eb_bids eb))" by (auto simp: bid_tops_def)
    then show "t \<in> set (all_bids b)" using side_wf_top(1) [OF wf [OF t(1)] t(2)]
      by (auto simp: set_all_bids intro!: bexI [of _ "(ex, eb)"])
  qed
  assume "l \<in> set (all_bids b)"
  then obtain ex eb where e: "(ex, eb) \<in> set (ag_exchange_books b)" "l \<in> snd ` set (eb_bids eb)"
    by (auto simp: set_all_bids)
  then have "eb_bids eb \<noteq> []" by auto
  moreover from this have "al_price l \<le> al_price (snd (last (eb_bids eb)))"
    using side_wf_top(2) [OF wf [OF e(1)]] e(2) by blast
  ultimately show "\<exists>t \<in> set (bid_tops (ag_exchange_books b)). al_price l \<le> al_price t"
    using e(1) by (force simp: bid_tops_def)
qed

lemma ask_tops_cover:
  assumes "agg_inv b"
  shows "set (ask_tops (ag_exchange_books b)) \<subseteq> set (all_asks b)"
    and "l \<in> set (all_asks b) \<Longrightarrow> \<exists>t \<in> set (ask_tops (ag_exchange_books b)). al_price t \<le> al_price l"
proof -
  have wf: "side_wf ex (eb_asks eb)" if "(ex, eb) \<in> set (ag_exchange_books b)" for ex eb
    using assms that by (auto simp: agg_inv_def)
  show "set (ask_tops (ag_exchange_books b)) \<subseteq> set (all_asks b)"
  proof
    fix t assume "t \<in> set (ask_tops (ag_exchange_books b))"
    then obtain ex eb where t: "(ex, eb) \<in> set (ag_exchange_books b)" "eb_asks eb \<noteq> []"
      "t = snd (hd (eb_asks eb))" by (auto simp: ask_tops_def)
    then show "t \<in> set (all_asks b)" using side_wf_top(3) [OF wf [OF t(1)] t(2)]
      by (auto simp: set_all_asks intro!: bexI [of _ "(ex, eb)"])
  qed
  assume "l \<in> set (all_asks b)"
  then obtain ex eb where e: "(ex, eb) \<in> set (ag_exchange_books b)" "l \<in> snd ` set (eb_asks eb)"
    by (auto simp: set_all_asks)
  then have "eb_asks eb \<noteq> []" by auto
  moreover from this have "al_price (snd (hd (eb_asks eb))) \<le> al_price l"
    using side_wf_top(4) [OF wf [OF e(1)]] e(2) by blast
  ultimately show "\<exists>t \<in> set (ask_tops (ag_exchange_books b)). al_price t \<le> al_price l"
    using e(1) by (force simp: ask_tops_def)
qed

lemma get_best_bid_cases:
  assumes "agg_inv b"
  obtains (none) "get_best_bid b = None" "all_bids b = []"
  | (some) l where "get_best_bid b = Some l" "l \<in> set (all_bids b)" "\<forall>x\<in>set (all_bids b). al_price x \<le> al_price l"
proof -
  let ?t = "bid_tops (ag_exchange_books b)"
  have e: "get_best_bid b = fold (pick (\<lambda>x y. al_price y < al_price x)) ?t None"
    unfolding get_best_bid_def using all_levels_ok(1) [OF assms] bid_tops_cover(1) [OF assms]
    by (intro best_bid_loop_pick) auto
  show thesis
  proof (cases "get_best_bid b")
    case None
    then have "?t = []" using e by (simp add: fold_pick_None)
    then have "all_bids b = []" using bid_tops_cover(2) [OF assms] by (cases "all_bids b") auto
    with None show thesis by (rule none)
  next
    case (Some l)
    then have "l \<in> set ?t" using e fold_pick_in [of _ ?t None l] by auto
    moreover have "al_price x \<le> al_price l" if "x \<in> set ?t" for x
      using desc.fold_pick_best [of al_price ?t None l x] Some e that by (simp add: not_less)
    ultimately show thesis
      using some [OF Some] bid_tops_cover [OF assms] order_trans by (metis subsetD)
  qed
qed

lemma get_best_ask_cases:
  assumes "agg_inv b"
  obtains (none) "get_best_ask b = None" "all_asks b = []"
  | (some) l where "get_best_ask b = Some l" "l \<in> set (all_asks b)" "\<forall>x\<in>set (all_asks b). al_price l \<le> al_price x"
proof -
  let ?t = "ask_tops (ag_exchange_books b)"
  have e: "get_best_ask b = fold (pick (\<lambda>x y. al_price x < al_price y)) ?t None"
    unfolding get_best_ask_def using all_levels_ok(1) [OF assms] ask_tops_cover(1) [OF assms]
    by (intro best_ask_loop_pick) auto
  show thesis
  proof (cases "get_best_ask b")
    case None
    then have "?t = []" using e by (simp add: fold_pick_None)
    then have "all_asks b = []" using ask_tops_cover(2) [OF assms] by (cases "all_asks b") auto
    with None show thesis by (rule none)
  next
    case (Some l)
    then have "l \<in> set ?t" using e fold_pick_in [of _ ?t None l] by auto
    moreover have "al_price l \<le> al_price x" if "x \<in> set ?t" for x
      using asc.fold_pick_best [of al_price ?t None l x] Some e that by (simp add: not_less)
    ultimately show thesis
      using some [OF Some] ask_tops_cover [OF assms] order_trans by (metis subsetD)
  qed
qed

section \<open>Merged views\<close>

lemma merge_bids_sort:
  "agg_inv b \<Longrightarrow> merge_bids depth b = take depth (sort_by (\<lambda>x y. al_price y < al_price x) (all_bids b))"
  unfolding merge_bids_def
  by (intro arg_cong [where f = "take depth"] sort_by_cong) (simp add: dlt_iff_less all_levels_ok(1))

lemma merge_asks_sort:
  "agg_inv b \<Longrightarrow> merge_asks depth b = take depth (sort_by (\<lambda>x y. al_price x < al_price y) (all_asks b))"
  unfolding merge_asks_def
  by (intro arg_cong [where f = "take depth"] sort_by_cong) (simp add: dlt_iff_less all_levels_ok(1))

text \<open>
  The snapshot of a reachable book lists the levels of all exchanges: its bids are the first
  \<open>depth\<close> of all bids in the order of falling price, its asks the first \<open>depth\<close> of all asks in the
  order of rising price, and with a positive depth the snapshot's best prices are those of
  \<open>get_best_bid\<close> and \<open>get_best_ask\<close>.
\<close>

theorem agg_snapshot_sorted:
  assumes "agg_reachable b"
  shows "\<exists>bids asks. as_bids (agg_get_snapshot depth now b) = take depth bids \<and> mset bids = mset (all_bids b) \<and>
     sorted_wrt (\<lambda>x y. al_price y \<le> al_price x) bids \<and>
     as_asks (agg_get_snapshot depth now b) = take depth asks \<and> mset asks = mset (all_asks b) \<and>
     sorted_wrt (\<lambda>x y. al_price x \<le> al_price y) asks \<and>
     (0 < depth \<longrightarrow> as_get_best_bid (agg_get_snapshot depth now b) = map_option al_price (get_best_bid b) \<and>
                   as_get_best_ask (agg_get_snapshot depth now b) = map_option al_price (get_best_ask b))"
proof -
  have inv: "agg_inv b" by (rule agg_reachable_inv [OF assms])
  let ?bids = "sort_by (\<lambda>x y. al_price y < al_price x) (all_bids b)"
    and ?asks = "sort_by (\<lambda>x y. al_price x < al_price y) (all_asks b)"
  have s: "sorted_wrt (\<lambda>x y. al_price y \<le> al_price x) ?bids" "sorted_wrt (\<lambda>x y. al_price x \<le> al_price y) ?asks"
    using desc.sorted_sort_by [of al_price "all_bids b"] asc.sorted_sort_by [of al_price "all_asks b"]
    by (simp_all add: not_less)
  have bid: "as_get_best_bid (agg_get_snapshot depth now b) = map_option al_price (get_best_bid b)" if "0 < depth"
  proof (cases rule: get_best_bid_cases [OF inv, case_names none some])
    case (some l)
    then obtain x xs where x: "?bids = x # xs" by (metis empty_iff list.exhaust list.set(1) set_sort_by)
    then have "x \<in> set (all_bids b)" by (metis list.set_intros(1) set_sort_by)
    moreover have "al_price l \<le> al_price x"
      using some(2) x desc.hd_sort_by [of l "all_bids b" al_price] by (simp add: not_less)
    ultimately have "al_price x = al_price l" using some(3) by (simp add: order.antisym)
    with some(1) x that show ?thesis
      by (cases depth) (simp_all add: as_get_best_bid_def agg_get_snapshot_def merge_bids_sort [OF inv])
  qed (simp add: as_get_best_bid_def agg_get_snapshot_def merge_bids_def sort_by_def)
  have ask: "as_get_best_ask (agg_get_snapshot depth now b) = map_option al_price (get_best_ask b)" if "0 < depth"
  proof (cases rule: get_best_ask_cases [OF inv, case_names none some])
    case (some l)
    then obtain x xs where x: "?asks = x # xs" by (metis empty_iff list.exhaust list.set(1) set_sort_by)
    then have "x \<in> set (all_asks b)" by (metis list.set_intros(1) set_sort_by)
    moreover have "al_price x \<le> al_price l"
      using some(2) x asc.hd_sort_by [of l "all_asks b" al_price] by (simp add: not_less)
    ultimately have "al_price x = al_price l" using some(3) by (simp add: order.antisym)
    with some(1) x that show ?thesis
      by (cases depth) (simp_all add: as_get_best_ask_def agg_get_snapshot_def merge_asks_sort [OF inv])
  qed (simp add: as_get_best_ask_def agg_get_snapshot_def merge_asks_def sort_by_def)
  show ?thesis
    using s bid ask by (intro exI [of _ ?bids] exI [of _ ?asks])
      (simp add: agg_get_snapshot_def merge_bids_sort [OF inv] merge_asks_sort [OF inv])
qed

text \<open>A reachable book with one bid and one ask.\<close>

lemma sample_book:
  obtains b where "agg_reachable b" "\<not> ag_has_callback b" "ag_symbol b = ''BTC''"
    "all_bids b = [level_of BINANCE 7 \<lparr>ps_price = Fin 100, ps_quantity = Fin 1, ps_order_count = 1\<rparr>]"
    "all_asks b = [level_of BINANCE 7 \<lparr>ps_price = Fin 101, ps_quantity = Fin 1, ps_order_count = 1\<rparr>]"
proof -
  let ?b = "\<lparr>ag_symbol = ''BTC'', ag_exchange_books = [(BINANCE,
     \<lparr>eb_bids = [(Fin 100, level_of BINANCE 7 \<lparr>ps_price = Fin 100, ps_quantity = Fin 1, ps_order_count = 1\<rparr>)],
      eb_asks = [(Fin 101, level_of BINANCE 7 \<lparr>ps_price = Fin 101, ps_quantity = Fin 1, ps_order_count = 1\<rparr>)],
      eb_last_update_ns = 7\<rparr>)], ag_has_callback = False\<rparr>"
  have "agg_update sample_update (AggregatedOrderBook_new ''BTC'') = Inr ?b"
    by (simp add: agg_update_def sample_update_def AggregatedOrderBook_new_def ExchangeBook_default_def level_of_def)
  then have "agg_reachable ?b" using ag_update [OF ag_new sample_update_valid] by blast
  then show thesis by (rule that) (simp_all add: all_bids_def all_asks_def)
qed

text \<open>A concrete instance.\<close>

theorem agg_snapshot_sorted_witness:
  "\<exists>b. agg_reachable b \<and> as_get_best_bid (agg_get_snapshot 5 7 b) = map_option al_price (get_best_bid b)"
proof -
  obtain b where "agg_reachable b" by (rule sample_book)
  with agg_snapshot_sorted [OF this, of 5 7] show ?thesis by auto
qed

section \<open>Crossed quotes\<close>

definition profit_pct :: "double \<Rightarrow> double \<Rightarrow> double" where
  "profit_pct buy sell = dmul (ddiv (dsub sell buy) buy) (Fin 100)"

text \<open>
  C23. An opportunity that a reachable book reports is real: there are a bid and an ask in the book,
  no bid is higher and no ask is lower, the ask's price is below the bid's, both exchanges and
  prices are theirs, the quantity is available on both sides, the profit per unit is positive even
  after rounding, and the profit percentage is not below the threshold.
\<close>

theorem arbitrage_sound:
  assumes "agg_reachable b" and "detect_arbitrage m now b = Some opp"
  shows "\<exists>bid \<in> set (all_bids b). \<exists>ask \<in> set (all_asks b).
     (\<forall>x \<in> set (all_bids b). al_price x \<le> al_price bid) \<and> (\<forall>x \<in> set (all_asks b). al_price ask \<le> al_price x) \<and>
     ao_buy_exchange opp = al_exchange ask \<and> ao_buy_price opp = al_price ask \<and>
     ao_sell_exchange opp = al_exchange bid \<and> ao_sell_price opp = al_price bid \<and>
     dlt (ao_buy_price opp) (ao_sell_price opp) \<and> dlt (Fin 0) (ao_profit_per_unit opp) \<and>
     dlt (Fin 0) (ao_max_quantity opp) \<and>
     dle (ao_max_quantity opp) (al_quantity bid) \<and> dle (ao_max_quantity opp) (al_quantity ask) \<and>
     ao_profit_percentage opp = profit_pct (al_price ask) (al_price bid) \<and>
     \<not> dlt (ao_profit_percentage opp) m"
proof -
  have inv: "agg_inv b" by (rule agg_reachable_inv [OF assms(1)])
  from assms(2) obtain bid ask where ba: "get_best_bid b = Some bid" "get_best_ask b = Some ask"
    by (auto simp: detect_arbitrage_def split: option.splits)
  have bid: "bid \<in> set (all_bids b)" "\<forall>x\<in>set (all_bids b). al_price x \<le> al_price bid"
    using get_best_bid_cases [OF inv] ba(1) by (metis option.distinct(1) option.inject)+
  have ask: "ask \<in> set (all_asks b)" "\<forall>x\<in>set (all_asks b). al_price ask \<le> al_price x"
    using get_best_ask_cases [OF inv] ba(2) by (metis option.distinct(1) option.inject)+
  have ok: "al_price bid \<noteq> NaN" "al_price ask \<noteq> NaN" "valid (al_price bid)" "valid (al_price ask)"
    "dlt (Fin 0) (al_quantity bid)" "dlt (Fin 0) (al_quantity ask)"
    using all_levels_ok [OF inv] bid(1) ask(1) by auto
  have lt: "dlt (al_price ask) (al_price bid)"
    using assms(2) ba ok(1,2)
    by (auto simp: detect_arbitrage_def dle_iff_less_eq dlt_iff_less not_le split: if_splits)
  have q: "dlt (Fin 0) (dmin (al_quantity bid) (al_quantity ask))"
    "dle (dmin (al_quantity bid) (al_quantity ask)) (al_quantity bid)"
    "dle (dmin (al_quantity bid) (al_quantity ask)) (al_quantity ask)"
    using ok(5,6) by (cases "al_quantity bid"; cases "al_quantity ask"; auto simp: dmin_def dle_def deq_def)+
  show ?thesis
    using assms(2) ba bid ask lt q dsub_pos [OF ok(3,4) lt]
    by (intro bexI [OF _ bid(1)] bexI [OF _ ask(1)])
      (auto simp: detect_arbitrage_def Let_def profit_pct_def split: if_splits)
qed

text \<open>
  A crossed pair of quotes is not missed: if some bid of a reachable book is above some ask,
  then either an opportunity is reported or the best such pair earns less than the threshold.
\<close>

theorem arbitrage_complete:
  assumes "agg_reachable b" and "x \<in> set (all_bids b)" and "y \<in> set (all_asks b)" and "al_price y < al_price x"
  shows "\<exists>bid \<in> set (all_bids b). \<exists>ask \<in> set (all_asks b). al_price x \<le> al_price bid \<and> al_price ask \<le> al_price y \<and>
     (detect_arbitrage m now b = None \<longleftrightarrow> dlt (profit_pct (al_price ask) (al_price bid)) m)"
proof -
  have inv: "agg_inv b" by (rule agg_reachable_inv [OF assms(1)])
  obtain bid where bid: "get_best_bid b = Some bid" "bid \<in> set (all_bids b)" "al_price x \<le> al_price bid"
    by (rule get_best_bid_cases [OF inv]) (use assms(2) in auto)
  obtain ask where ask: "get_best_ask b = Some ask" "ask \<in> set (all_asks b)" "al_price ask \<le> al_price y"
    by (rule get_best_ask_cases [OF inv]) (use assms(3) in auto)
  have "al_price ask < al_price bid" using assms(4) bid(3) ask(3) by simp
  moreover have "al_price bid \<noteq> NaN" "al_price ask \<noteq> NaN" using all_levels_ok(1) [OF inv] bid(2) ask(2) by auto
  ultimately have "detect_arbitrage m now b = None \<longleftrightarrow> dlt (profit_pct (al_price ask) (al_price bid)) m"
    using bid(1) ask(1) by (auto simp: detect_arbitrage_def Let_def profit_pct_def dle_iff_less_eq)
  with bid(3) ask(3) show ?thesis by (intro bexI [OF _ bid(2)] bexI [OF _ ask(2)] conjI)
qed

text \<open>
  Once an arbitrage callback is installed, every update of the book's symbol without a NaN
  price locks up: the update holds the mutex exclusively while it calls \<open>detect_arbitrage\<close>, which
  locks it again.
\<close>

theorem update_self_deadlock:
  assumes "up_symbol u = ag_symbol b"
    and "\<forall>s \<in> set (up_bids u) \<union> set (up_asks u). ps_price s \<noteq> NaN"
  shows "agg_update u (set_arbitrage_callback True b) = Inl Self_deadlock"
proof -
  obtain bids asks where
    l: "agg_levels (up_exchange u) (up_timestamp u) (up_bids u) (eb_bids (book_of b (up_exchange u))) = Inr bids"
      "agg_levels (up_exchange u) (up_timestamp u) (up_asks u) (eb_asks (book_of b (up_exchange u))) = Inr asks"
    by (rule agg_levels_both [OF assms(2)])
  then show ?thesis using assms(1) by (simp add: agg_update_def set_arbitrage_callback_def book_of_def)
qed

text \<open>A concrete instance.\<close>

theorem update_self_deadlock_witness:
  "up_symbol sample_update = ag_symbol (AggregatedOrderBook_new ''BTC'') \<and>
   agg_update sample_update (set_arbitrage_callback True (AggregatedOrderBook_new ''BTC'')) = Inl Self_deadlock"
  using update_self_deadlock [of sample_update "AggregatedOrderBook_new ''BTC''"]
  by (simp add: sample_update_def AggregatedOrderBook_new_def)

text \<open>A reachable book in which a bid on one exchange is above the ask on another.\<close>

definition crossing_update :: NormalizedOrderBookUpdate where
  "crossing_update = sample_update\<lparr>up_exchange := KRAKEN,
     up_bids := [\<lparr>ps_price = Fin 110, ps_quantity = Fin 2, ps_order_count = 1\<rparr>], up_asks := []\<rparr>"

lemma crossed_book:
  obtains b where "agg_reachable b"
    "get_best_bid b = Some (level_of KRAKEN 7 \<lparr>ps_price = Fin 110, ps_quantity = Fin 2, ps_order_count = 1\<rparr>)"
    "get_best_ask b = Some (level_of BINANCE 7 \<lparr>ps_price = Fin 101, ps_quantity = Fin 1, ps_order_count = 1\<rparr>)"
    "level_of KRAKEN 7 \<lparr>ps_price = Fin 110, ps_quantity = Fin 2, ps_order_count = 1\<rparr> \<in> set (all_bids b)"
    "level_of BINANCE 7 \<lparr>ps_price = Fin 101, ps_quantity = Fin 1, ps_order_count = 1\<rparr> \<in> set (all_asks b)"
proof -
  let ?eb1 = "\<lparr>eb_bids = [(Fin 100, level_of BINANCE 7 \<lparr>ps_price = Fin 100, ps_quantity = Fin 1, ps_order_count = 1\<rparr>)],
      eb_asks = [(Fin 101, level_of BINANCE 7 \<lparr>ps_price = Fin 101, ps_quantity = Fin 1, ps_order_count = 1\<rparr>)],
      eb_last_update_ns = 7\<rparr>"
  let ?eb2 = "\<lparr>eb_bids = [(Fin 110, level_of KRAKEN 7 \<lparr>ps_price = Fin 110, ps_quantity = Fin 2, ps_order_count = 1\<rparr>)],
      eb_asks = [], eb_last_update_ns = 7\<rparr>"
  let ?b1 = "\<lparr>ag_symbol = ''BTC'', ag_exchange_books = [(BINANCE, ?eb1)], ag_has_callback = False\<rparr>"
  let ?b = "\<lparr>ag_symbol = ''BTC'', ag_exchange_books = [(BINANCE, ?eb1), (KRAKEN, ?eb2)], ag_has_callback = False\<rparr>"
  have "agg_update sample_update (AggregatedOrderBook_new ''BTC'') = Inr ?b1"
    by (simp add: agg_update_def sample_update_def AggregatedOrderBook_new_def ExchangeBook_default_def level_of_def)
  then have "agg_reachable ?b1" using ag_update [OF ag_new sample_update_valid] by blast
  moreover have "up_valid crossing_update"
    using valid_Fin_int [of 110] by (simp add: up_valid_def crossing_update_def)
  moreover have "agg_update crossing_update ?b1 = Inr ?b"
    by (simp add: agg_update_def crossing_update_def sample_update_def ExchangeBook_default_def level_of_def
        less_Exchange_def)
  ultimately have "agg_reachable ?b" by (rule ag_update)
  then show thesis
    by (rule that) (simp_all add: get_best_bid_def get_best_ask_def all_bids_def all_asks_def level_of_def)
qed

text \<open>Witness of C23.\<close>

theorem arbitrage_sound_witness:
  "\<exists>b opp. agg_reachable b \<and> detect_arbitrage NInf 7 b = Some opp \<and> dlt (ao_buy_price opp) (ao_sell_price opp)"
proof -
  obtain b where b: "agg_reachable b"
    "get_best_bid b = Some (level_of KRAKEN 7 \<lparr>ps_price = Fin 110, ps_quantity = Fin 2, ps_order_count = 1\<rparr>)"
    "get_best_ask b = Some (level_of BINANCE 7 \<lparr>ps_price = Fin 101, ps_quantity = Fin 1, ps_order_count = 1\<rparr>)"
    by (rule crossed_book)
  then obtain opp where opp: "detect_arbitrage NInf 7 b = Some opp"
    by (auto simp: detect_arbitrage_def level_of_def dle_def deq_def Let_def)
  with b(1) arbitrage_sound [OF b(1) opp] show ?thesis by blast
qed

text \<open>A concrete instance.\<close>

theorem arbitrage_complete_witness:
  "\<exists>b x y. agg_reachable b \<and> x \<in> set (all_bids b) \<and> y \<in> set (all_asks b) \<and> al_price y < al_price x \<and>
     detect_arbitrage NInf 7 b \<noteq> None"
proof -
  let ?x = "level_of KRAKEN 7 \<lparr>ps_price = Fin 110, ps_quantity = Fin 2, ps_order_count = 1\<rparr>"
    and ?y = "level_of BINANCE 7 \<lparr>ps_price = Fin 101, ps_quantity = Fin 1, ps_order_count = 1\<rparr>"
  obtain b where b: "agg_reachable b" "?x \<in> set (all_bids b)" "?y \<in> set (all_asks b)" by (rule crossed_book)
  have xy: "al_price ?y < al_price ?x" by (simp add: level_of_def)
  have n: "\<not> dlt d NInf" for d by (cases d) simp_all
  from arbitrage_complete [OF b xy, of NInf 7] n have "detect_arbitrage NInf 7 b \<noteq> None" by blast
  with b xy show ?thesis by blast
qed

section \<open>Routing\<close>

lemma set_route_levels:
  "set (route_levels BUY side b) = (if side = BUY then set (all_asks b) else set (all_bids b))"
  by (simp add: route_levels_def)

lemma route_fill_keys:
  "fst ` set allocations \<subseteq> fst ` set (route_fill levels q allocations)"
  "fst ` set (route_fill levels q allocations) \<subseteq> fst ` set allocations \<union> al_exchange ` set levels"
  by (induction levels q allocations rule: route_fill.induct) (auto simp: Let_def set_map_fst_put)

lemma route_fill_first:
  assumes "\<not> dle q (Fin 0)"
  shows "al_exchange l \<in> fst ` set (route_fill (l # ls) q [])"
  using route_fill_keys(1) [of "omap_put (al_exchange l) (dadd (Fin 0) (dmin q (al_quantity l))) []" ls] assms
  by (simp add: Let_def)

text \<open>
  Routing a positive quantity on a reachable book that has quotes on the wanted side returns a
  recommendation. The first level it looks at has the best price of that side on any exchange; a
  single-venue recommendation names that level's exchange and price, a split recommendation gives
  that exchange an allocation beside at least one other exchange.
\<close>

theorem routing_best_venue:
  assumes "agg_reachable b" and "(if side = BUY then all_asks b else all_bids b) \<noteq> []" and "\<not> dle quantity (Fin 0)"
  shows "\<exists>r best. recommend_routing BUY side quantity now b = Inr r \<and>
     best \<in> set (if side = BUY then all_asks b else all_bids b) \<and>
     (\<forall>x \<in> set (if side = BUY then all_asks b else all_bids b).
        if side = BUY then al_price best \<le> al_price x else al_price x \<le> al_price best) \<and>
     (rr_strategy r = SINGLE_VENUE \<and> rr_primary_exchange r = al_exchange best \<and> rr_expected_price r = al_price best
      \<or> rr_strategy r = SPLIT_ORDER \<and> 2 \<le> length (rr_allocations r) \<and>
        al_exchange best \<in> fst ` set (rr_allocations r))"
proof -
  have inv: "agg_inv b" by (rule agg_reachable_inv [OF assms(1)])
  define levels where "levels = route_levels BUY side b"
  have set: "set levels = set (if side = BUY then all_asks b else all_bids b)"
    by (simp add: levels_def set_route_levels)
  then obtain best rest where l: "levels = best # rest"
    using assms(2) by (cases levels) auto
  have best: "if side = BUY then al_price best \<le> al_price x else al_price x \<le> al_price best" if "x \<in> set levels" for x
  proof (cases "side = BUY")
    case True
    then have "levels = sort_by (\<lambda>x y. al_price x < al_price y) (all_asks b)"
      unfolding levels_def route_levels_def
      by (simp add: dlt_iff_less all_levels_ok(1) [OF inv] cong: sort_by_cong)
    moreover have "x \<in> set (all_asks b)" using that set True by simp
    ultimately show ?thesis
      using asc.hd_sort_by [of x "all_asks b" al_price] True arg_cong [OF l, of hd] by (simp add: not_less)
  next
    case False
    then have "levels = sort_by (\<lambda>x y. al_price y < al_price x) (all_bids b)"
      unfolding levels_def route_levels_def
      by (simp add: dlt_iff_less all_levels_ok(1) [OF inv] cong: sort_by_cong)
    moreover have "x \<in> set (all_bids b)" using that set False by simp
    ultimately show ?thesis
      using desc.hd_sort_by [of x "all_bids b" al_price] False arg_cong [OF l, of hd] by (simp add: not_less)
  qed
  define allocs where "allocs = route_fill levels quantity []"
  have first: "al_exchange best \<in> fst ` set allocs"
    unfolding allocs_def l by (rule route_fill_first [OF assms(3)])
  then obtain a as where a: "allocs = a # as" by (cases allocs) auto
  have b: "best \<in> set levels" using l by simp
  have rl: "route_levels BUY side b = best # rest" and ra: "route_fill (best # rest) quantity [] = a # as"
    using l a by (simp_all add: levels_def allocs_def)
  show ?thesis
  proof (cases "as = []")
    case True
    then have "recommend_routing BUY side quantity now b = Inr \<lparr>rr_symbol = ag_symbol b, rr_side = side, rr_quantity = quantity,
        rr_strategy = SINGLE_VENUE, rr_primary_exchange = fst a, rr_expected_price = al_price best,
        rr_allocations = [], rr_timestamp_ns = now\<rparr>"
      by (simp add: recommend_routing_def Let_def rl ra del: route_fill.simps)
    moreover have "fst a = al_exchange best" using first True a by simp
    ultimately show ?thesis using best b unfolding set [symmetric] by (intro exI conjI) (assumption | auto)+
  next
    case False
    obtain r where r: "recommend_routing BUY side quantity now b = Inr r" "rr_strategy r = SPLIT_ORDER" "rr_allocations r = allocs"
      using a False by (simp add: recommend_routing_def Let_def rl ra case_prod_unfold del: route_fill.simps)
    moreover have "2 \<le> length allocs" using a False by (cases as) auto
    ultimately show ?thesis using best b first unfolding set [symmetric] by (intro exI [of _ r] exI [of _ best]) auto
  qed
qed

text \<open>
  Routing a quantity that is zero or negative on a book that has quotes dereferences the end
  iterator of an empty allocation map.
\<close>

theorem routing_end_iterator:
  assumes "(if side = BUY then all_asks b else all_bids b) \<noteq> []" and "dle quantity (Fin 0)"
  shows "recommend_routing BUY side quantity now b = Inl UB_end_iterator"
proof -
  obtain l ls where l: "route_levels BUY side b = l # ls"
    using assms(1) set_route_levels [of BUY side b] by (cases "route_levels BUY side b") (auto split: if_splits)
  then show ?thesis using assms(2) by (simp add: recommend_routing_def Let_def)
qed

text \<open>A concrete instance.\<close>

theorem routing_best_venue_witness:
  "\<exists>b r. agg_reachable b \<and> all_asks b \<noteq> [] \<and> \<not> dle (Fin 1) (Fin 0) \<and> recommend_routing BID BID (Fin 1) 7 b = Inr r"
proof -
  obtain b where b: "agg_reachable b"
    "all_asks b = [level_of BINANCE 7 \<lparr>ps_price = Fin 101, ps_quantity = Fin 1, ps_order_count = 1\<rparr>]"
    by (rule sample_book)
  have "\<not> dle (Fin 1) (Fin 0)" by (simp add: dle_def deq_def)
  with b routing_best_venue [OF b(1), of BID BID "Fin 1" 7] show ?thesis by auto
qed

text \<open>A concrete instance.\<close>

theorem routing_end_iterator_witness:
  "\<exists>b. all_asks b \<noteq> [] \<and> dle (Fin 0) (Fin 0) \<and> recommend_routing BID BID (Fin 0) 7 b = Inl UB_end_iterator"
proof -
  obtain b where b:
    "all_asks b = [level_of BINANCE 7 \<lparr>ps_price = Fin 101, ps_quantity = Fin 1, ps_order_count = 1\<rparr>]"
    by (rule sample_book)
  have "dle (Fin 0) (Fin 0)" by (simp add: dle_def deq_def)
  with b routing_end_iterator [of BID BID b "Fin 0" 7] show ?thesis by (intro exI [of _ b]) simp
qed

end
