(* ===== verification/Arbitrage_Monitor.thy ===== *)
theory Arbitrage_Monitor
  imports Aggregated_Order_Book "HOL-Library.Char_ord" "HOL-Library.List_Lexorder" "HOL-Library.Product_Lexorder"
begin

text \<open>
  The class \<open>ArbitrageMonitor\<close> of \<open>include/trading/arbitrage_monitor.hpp\<close> and
  \<open>src/trading/arbitrage_monitor.cpp\<close>: it follows the opportunities that the aggregated books
  report, expires them after a second, keeps a bounded history and statistics.

  \<^item> A \<open>shared_ptr\<close> to a book is an address; the books live in a store that \<open>add_order_book\<close> and
    \<open>remove_order_book\<close> change, because they install and clear the book's callback.
  \<^item> \<open>on_arbitrage_detected\<close> returns the alerts it sends beside the new state. The alert callback
    itself is the user's code and is assumed to leave the monitor alone.
  \<^item> \<open>mon_step\<close> is the step relation over all operations; \<open>mon_inv\<close> is its invariant: active
    opportunities have distinct ids below the next one and are marked active, the history holds
    finished opportunities only and never exceeds its size.
\<close>

section \<open>Structs\<close>

record ExchangePairStats =
  ep_buy_exchange :: Exchange
  ep_sell_exchange :: Exchange
  ep_count :: nat
  ep_total_profit :: double
  ep_avg_profit_percent :: double

record ArbitrageStats =
  ar_total_opportunities :: nat
  ar_active_opportunities :: nat
  ar_total_potential_profit :: double
  ar_average_profit_percent :: double
  ar_max_profit_percent :: double
  ar_average_duration_ms :: double
  ar_pair_stats :: "ExchangePairStats list"

record TrackedArbitrage =
  ta_id :: u64
  ta_opportunity :: ArbitrageOpportunity
  ta_detection_time_ns :: u64
  ta_expiry_time_ns :: u64
  ta_is_active :: bool

definition get_duration_ms :: "TrackedArbitrage \<Rightarrow> double" where
  "get_duration_ms a =
     (if ta_expiry_time_ns a = 0 then Fin 0
      else ddiv (double_of_nat (unat (ta_expiry_time_ns a - ta_detection_time_ns a))) (Fin 1000000))"

definition get_age_ms :: "TrackedArbitrage \<Rightarrow> u64 \<Rightarrow> double" where
  "get_age_ms a current_time_ns =
     ddiv (double_of_nat (unat (current_time_ns - ta_detection_time_ns a))) (Fin 1000000)"

record ArbitrageMonitor =
  am_min_profit_percent :: double
  am_history_size :: nat
  am_running :: bool
  am_next_id :: u64
  am_order_books :: "(string, nat) omap"
  am_active :: "(u64, TrackedArbitrage) omap"
  am_history :: "TrackedArbitrage list"
  am_has_alert :: bool
  am_total_count :: nat
  am_total_profit :: double
  am_max_profit_percent :: double
  am_total_duration_ms :: double
  am_completed_count :: nat

definition ArbitrageMonitor_new :: "double \<Rightarrow> nat \<Rightarrow> ArbitrageMonitor" where
  "ArbitrageMonitor_new min_profit_percent history_size =
     \<lparr>am_min_profit_percent = min_profit_percent, am_history_size = history_size, am_running = False,
      am_next_id = 1, am_order_books = [], am_active = [], am_history = [], am_has_alert = False,
      am_total_count = 0, am_total_profit = Fin 0, am_max_profit_percent = Fin 0,
      am_total_duration_ms = Fin 0, am_completed_count = 0\<rparr>"

section \<open>Order books\<close>

type_synonym books = "nat \<Rightarrow> AggregatedOrderBook"

definition add_order_book :: "nat option \<Rightarrow> books \<Rightarrow> ArbitrageMonitor \<Rightarrow> books \<times> ArbitrageMonitor" where
  "add_order_book order_book heap m =
     (case order_book of
        None \<Rightarrow> (heap, m)
      | Some p \<Rightarrow>
          let symbol = ag_symbol (heap p) in
          if map_of (am_order_books m) symbol \<noteq> None then (heap, m)
          else (heap(p := set_arbitrage_callback True (heap p)),
                m\<lparr>am_order_books := omap_put symbol p (am_order_books m)\<rparr>))"

definition remove_order_book :: "string \<Rightarrow> books \<Rightarrow> ArbitrageMonitor \<Rightarrow> books \<times> ArbitrageMonitor" where
  "remove_order_book symbol heap m =
     (case map_of (am_order_books m) symbol of
        None \<Rightarrow> (heap, m)
      | Some p \<Rightarrow> (heap(p := set_arbitrage_callback False (heap p)),
                   m\<lparr>am_order_books := omap_erase symbol (am_order_books m)\<rparr>))"

section \<open>History and expiry\<close>

function trim_history :: "nat \<Rightarrow> TrackedArbitrage list \<Rightarrow> TrackedArbitrage list" where
  "trim_history n h = (if n < length h then trim_history n (butlast h) else h)"
  by auto
termination by (relation "measure (\<lambda>(n, h). length h)") auto

declare trim_history.simps [simp del]

definition add_to_history :: "TrackedArbitrage \<Rightarrow> ArbitrageMonitor \<Rightarrow> ArbitrageMonitor" where
  "add_to_history arb m = m\<lparr>am_history := trim_history (am_history_size m) (arb # am_history m)\<rparr>"

definition timeout_ns :: u64 where
  "timeout_ns = 1000000000"

definition to_expire :: "u64 \<Rightarrow> ArbitrageMonitor \<Rightarrow> u64 list" where
  "to_expire current_time_ns m =
     map fst (filter (\<lambda>(id, arb). current_time_ns - ta_detection_time_ns arb > timeout_ns) (am_active m))"

definition expire_one :: "u64 \<Rightarrow> u64 \<Rightarrow> ArbitrageMonitor \<Rightarrow> ArbitrageMonitor" where
  "expire_one current_time_ns i m =
     (case map_of (am_active m) i of
        None \<Rightarrow> m
      | Some arb \<Rightarrow>
          let arb1 = arb\<lparr>ta_expiry_time_ns := current_time_ns, ta_is_active := False\<rparr>;
              m1 = add_to_history arb1 m
          in m1\<lparr>am_total_duration_ms := dadd (am_total_duration_ms m1) (get_duration_ms arb1),
                am_completed_count := am_completed_count m1 + 1,
                am_active := omap_erase i (am_active m1)\<rparr>)"

definition update_active_opportunities :: "u64 \<Rightarrow> ArbitrageMonitor \<Rightarrow> ArbitrageMonitor" where
  "update_active_opportunities current_time_ns m =
     fold (expire_one current_time_ns) (to_expire current_time_ns m) m"

section \<open>Control\<close>

definition mon_start :: "ArbitrageMonitor \<Rightarrow> ArbitrageMonitor" where
  "mon_start m = m\<lparr>am_running := True\<rparr>"

definition mon_stop :: "u64 \<Rightarrow> ArbitrageMonitor \<Rightarrow> ArbitrageMonitor" where
  "mon_stop now m =
     (if \<not> am_running m then m
      else let m1 = m\<lparr>am_running := False\<rparr>;
               m2 = fold (\<lambda>(id, arb). add_to_history (arb\<lparr>ta_expiry_time_ns := now, ta_is_active := False\<rparr>))
                      (am_active m1) m1
           in m2\<lparr>am_active := []\<rparr>)"

definition set_alert_callback :: "bool \<Rightarrow> ArbitrageMonitor \<Rightarrow> ArbitrageMonitor" where
  "set_alert_callback callback m = m\<lparr>am_has_alert := callback\<rparr>"

definition clear_history :: "ArbitrageMonitor \<Rightarrow> ArbitrageMonitor" where
  "clear_history m = m\<lparr>am_history := [], am_total_count := 0, am_total_profit := Fin 0,
     am_max_profit_percent := Fin 0, am_total_duration_ms := Fin 0, am_completed_count := 0\<rparr>"

definition set_min_profit :: "double \<Rightarrow> ArbitrageMonitor \<Rightarrow> ArbitrageMonitor" where
  "set_min_profit min_profit_percent m = m\<lparr>am_min_profit_percent := min_profit_percent\<rparr>"

definition on_arbitrage_detected :: "ArbitrageOpportunity \<Rightarrow> u64 \<Rightarrow> ArbitrageMonitor \<Rightarrow>
    TrackedArbitrage list \<times> ArbitrageMonitor" where
  "on_arbitrage_detected opportunity now m =
     (if \<not> am_running m then ([], m)
      else if dlt (ao_profit_percentage opportunity) (am_min_profit_percent m) then ([], m)
      else let tracked = \<lparr>ta_id = am_next_id m, ta_opportunity = opportunity, ta_detection_time_ns = now,
                          ta_expiry_time_ns = 0, ta_is_active = True\<rparr>;
               m1 = m\<lparr>am_next_id := am_next_id m + 1,
                      am_active := omap_put (am_next_id m) tracked (am_active m),
                      am_total_count := am_total_count m + 1,
                      am_total_profit := dadd (am_total_profit m) (ao_profit_percentage opportunity),
                      am_max_profit_percent := dmax (am_max_profit_percent m) (ao_profit_percentage opportunity)\<rparr>
           in (if am_has_alert m then [tracked] else [], update_active_opportunities now m1))"

section \<open>Queries\<close>

definition get_active_opportunities :: "ArbitrageMonitor \<Rightarrow> TrackedArbitrage list" where
  "get_active_opportunities m =
     sort_by (\<lambda>a b. dlt (ao_profit_percentage (ta_opportunity b)) (ao_profit_percentage (ta_opportunity a)))
       (map snd (am_active m))"

definition get_history :: "nat \<Rightarrow> ArbitrageMonitor \<Rightarrow> TrackedArbitrage list" where
  "get_history n m = take (min n (length (am_history m))) (am_history m)"

fun pair_loop :: "TrackedArbitrage list \<Rightarrow> (Exchange \<times> Exchange, ExchangePairStats) omap \<Rightarrow>
    (Exchange \<times> Exchange, ExchangePairStats) omap" where
  "pair_loop [] pair_map = pair_map"
| "pair_loop (arb # history) pair_map =
     (let opp = ta_opportunity arb; key = (ao_buy_exchange opp, ao_sell_exchange opp);
          old = (case map_of pair_map key of Some s \<Rightarrow> s
                 | None \<Rightarrow> \<lparr>ep_buy_exchange = ao_buy_exchange opp, ep_sell_exchange = ao_sell_exchange opp,
                            ep_count = 0, ep_total_profit = Fin 0, ep_avg_profit_percent = Fin 0\<rparr>)
      in pair_loop history (omap_put key
           (old\<lparr>ep_buy_exchange := ao_buy_exchange opp, ep_sell_exchange := ao_sell_exchange opp,
                ep_count := ep_count old + 1,
                ep_total_profit := dadd (ep_total_profit old) (ao_profit_percentage opp)\<rparr>) pair_map))"

definition mon_get_statistics :: "ArbitrageMonitor \<Rightarrow> ArbitrageStats" where
  "mon_get_statistics m =
     \<lparr>ar_total_opportunities = am_total_count m, ar_active_opportunities = length (am_active m),
      ar_total_potential_profit = am_total_profit m,
      ar_average_profit_percent =
        (if am_total_count m > 0 then ddiv (am_total_profit m) (double_of_nat (am_total_count m)) else Fin 0),
      ar_max_profit_percent = am_max_profit_percent m,
      ar_average_duration_ms =
        (if am_completed_count m > 0
         then ddiv (am_total_duration_ms m) (double_of_nat (am_completed_count m)) else Fin 0),
      ar_pair_stats =
        map (\<lambda>(key, s). if ep_count s > 0
               then s\<lparr>ep_avg_profit_percent := ddiv (ep_total_profit s) (double_of_nat (ep_count s))\<rparr> else s)
          (pair_loop (am_history m) [])\<rparr>"

section \<open>The invariant\<close>

lemma trim_history_take: "trim_history n h = take n h"
proof (induction n h rule: trim_history.induct)
  case (1 n h)
  then show ?case by (subst trim_history.simps) (auto simp: butlast_conv_take)
qed

definition done_arb :: "TrackedArbitrage \<Rightarrow> bool" where
  "done_arb a \<longleftrightarrow> \<not> ta_is_active a"

definition mon_inv :: "ArbitrageMonitor \<Rightarrow> bool" where
  "mon_inv m \<longleftrightarrow> omap_wf (am_active m) \<and>
     (\<forall>(i, a) \<in> set (am_active m). ta_id a = i \<and> ta_is_active a \<and> i < am_next_id m) \<and>
     length (am_history m) \<le> am_history_size m \<and> (\<forall>a \<in> set (am_history m). done_arb a)"

lemma mon_inv_new: "mon_inv (ArbitrageMonitor_new p n)"
  by (simp add: mon_inv_def ArbitrageMonitor_new_def)

lemma mon_inv_add_history: "mon_inv m \<Longrightarrow> done_arb a \<Longrightarrow> mon_inv (add_to_history a m)"
  using set_take_subset [of "am_history_size m" "a # am_history m"]
  by (auto simp: mon_inv_def add_to_history_def trim_history_take)

lemma mon_inv_expire_one: "mon_inv m \<Longrightarrow> mon_inv (expire_one now i m)"
proof (cases "map_of (am_active m) i")
  case (Some a)
  assume "mon_inv m"
  then have "mon_inv (add_to_history (a\<lparr>ta_expiry_time_ns := now, ta_is_active := False\<rparr>) m)"
    by (rule mon_inv_add_history) (simp add: done_arb_def)
  then show ?thesis
    using Some omap.items_erase [of "am_active m" i]
    by (auto simp: expire_one_def mon_inv_def Let_def add_to_history_def)
qed (simp add: expire_one_def)

lemma mon_inv_fold: "(\<And>x m. mon_inv m \<Longrightarrow> mon_inv (f x m)) \<Longrightarrow> mon_inv m \<Longrightarrow> mon_inv (fold f xs m)"
  by (induction xs arbitrary: m) auto

lemma mon_inv_expire: "mon_inv m \<Longrightarrow> mon_inv (update_active_opportunities now m)"
  unfolding update_active_opportunities_def by (rule mon_inv_fold) (rule mon_inv_expire_one)

lemma mon_inv_stop: "mon_inv m \<Longrightarrow> mon_inv (mon_stop now m)"
proof -
  assume "mon_inv m"
  then have "mon_inv (m\<lparr>am_running := False\<rparr>)" by (simp add: mon_inv_def)
  then have "mon_inv (fold (\<lambda>(i, arb). add_to_history (arb\<lparr>ta_expiry_time_ns := now, ta_is_active := False\<rparr>))
      (am_active m) (m\<lparr>am_running := False\<rparr>))"
    by (rule mon_inv_fold [rotated]) (auto intro: mon_inv_add_history simp: done_arb_def)
  with \<open>mon_inv m\<close> show ?thesis by (simp add: mon_stop_def Let_def mon_inv_def)
qed

text \<open>Ids do not wrap around: \<open>2 ^ 64\<close> detections are out of reach.\<close>

lemma mon_inv_detect:
  assumes "mon_inv m" and "unat (am_next_id m) + 1 < 2 ^ 64"
  shows "mon_inv (snd (on_arbitrage_detected opp now m))"
proof -
  have lt: "am_next_id m < am_next_id m + 1"
    using assms(2) by (rule u64_less_Suc)
  have "i < am_next_id m + 1" if "i < am_next_id m" for i using that lt by (rule less_trans)
  then have "mon_inv (m\<lparr>am_next_id := am_next_id m + 1,
      am_active := omap_put (am_next_id m) \<lparr>ta_id = am_next_id m, ta_opportunity = opp,
         ta_detection_time_ns = now, ta_expiry_time_ns = 0, ta_is_active = True\<rparr> (am_active m),
      am_total_count := am_total_count m + 1, am_total_profit := x, am_max_profit_percent := y\<rparr>)" for x y
    using assms(1) lt omap.items_put [of "am_active m" "am_next_id m"] by (auto simp: mon_inv_def)
  then show ?thesis using assms(1) by (simp add: on_arbitrage_detected_def Let_def mon_inv_expire)
qed

inductive mon_step :: "books \<times> ArbitrageMonitor \<Rightarrow> books \<times> ArbitrageMonitor \<Rightarrow> bool" where
  st_add: "mon_step (h, m) (add_order_book p h m)"
| st_remove: "mon_step (h, m) (remove_order_book s h m)"
| st_start: "mon_step (h, m) (h, mon_start m)"
| st_stop: "mon_step (h, m) (h, mon_stop now m)"
| st_alert: "mon_step (h, m) (h, set_alert_callback c m)"
| st_clear: "mon_step (h, m) (h, clear_history m)"
| st_min: "mon_step (h, m) (h, set_min_profit d m)"
| st_detect: "unat (am_next_id m) + 1 < 2 ^ 64 \<Longrightarrow> mon_step (h, m) (h, snd (on_arbitrage_detected opp now m))"

inductive mon_reachable :: "books \<times> ArbitrageMonitor \<Rightarrow> bool" where
  mr_new: "mon_reachable (h, ArbitrageMonitor_new p n)"
| mr_step: "mon_reachable c \<Longrightarrow> mon_step c c' \<Longrightarrow> mon_reachable c'"

lemma mon_inv_simple:
  "mon_inv m \<Longrightarrow> mon_inv (mon_start m)" "mon_inv m \<Longrightarrow> mon_inv (set_alert_callback c m)"
  "mon_inv m \<Longrightarrow> mon_inv (clear_history m)" "mon_inv m \<Longrightarrow> mon_inv (set_min_profit d m)"
  "mon_inv m \<Longrightarrow> mon_inv (snd (add_order_book p h m))" "mon_inv m \<Longrightarrow> mon_inv (snd (remove_order_book s h m))"
  by (auto simp: mon_inv_def mon_start_def set_alert_callback_def clear_history_def set_min_profit_def
      add_order_book_def remove_order_book_def Let_def split: option.splits)

lemma mon_step_inv: "mon_step c c' \<Longrightarrow> mon_inv (snd c) \<Longrightarrow> mon_inv (snd c')"
  by (induction rule: mon_step.induct) (auto simp: mon_inv_simple mon_inv_stop mon_inv_detect)

lemma mon_reachable_inv: "mon_reachable c \<Longrightarrow> mon_inv (snd c)"
  by (induction rule: mon_reachable.induct) (auto simp: mon_inv_new intro: mon_step_inv)

section \<open>What a detection and a stop do\<close>

definition closed_arb :: "u64 \<Rightarrow> TrackedArbitrage \<Rightarrow> TrackedArbitrage" where
  "closed_arb now a = a\<lparr>ta_expiry_time_ns := now, ta_is_active := False\<rparr>"

lemma take_append_take: "take n (xs @ take n ys) = take n (xs @ ys)"
  by (simp add: min_def)

lemma expire_fold:
  fixes now :: u64
  assumes "distinct ids" and "\<forall>i \<in> set ids. map_of (am_active m) i \<noteq> None"
    and "length (am_history m) \<le> am_history_size m"
  defines "m' \<equiv> fold (expire_one now) ids m"
  shows "map_of (am_active m') = (\<lambda>i. if i \<in> set ids then None else map_of (am_active m) i)
     \<and> am_completed_count m' = am_completed_count m + length ids
     \<and> am_history m' = take (am_history_size m) (rev (map (\<lambda>i. closed_arb now (the (map_of (am_active m) i))) ids) @ am_history m)
     \<and> am_next_id m' = am_next_id m \<and> am_total_count m' = am_total_count m"
  using assms(1-3) unfolding m'_def
proof (induction ids arbitrary: m)
  case (Cons i ids)
  let ?m = "expire_one now i m"
  obtain a where a: "map_of (am_active m) i = Some a" using Cons.prems(2) by auto
  have act: "map_of (am_active ?m) = (map_of (am_active m))(i := None)"
    and h: "am_history ?m = take (am_history_size m) (closed_arb now a # am_history m)"
    and size: "am_history_size ?m = am_history_size m"
    and cnt: "am_completed_count ?m = am_completed_count m + 1"
    and other: "am_next_id ?m = am_next_id m" "am_total_count ?m = am_total_count m"
    by (simp_all add: expire_one_def a Let_def add_to_history_def trim_history_take closed_arb_def map_of_erase)
  have same: "map (\<lambda>j. closed_arb now (the (map_of (am_active ?m) j))) ids =
      map (\<lambda>j. closed_arb now (the (map_of (am_active m) j))) ids"
    using Cons.prems(1) by (simp add: act)
  have IH: "map_of (am_active (fold (expire_one now) ids ?m)) = (\<lambda>j. if j \<in> set ids then None else map_of (am_active ?m) j)
     \<and> am_completed_count (fold (expire_one now) ids ?m) = am_completed_count ?m + length ids
     \<and> am_history (fold (expire_one now) ids ?m) = take (am_history_size ?m)
         (rev (map (\<lambda>j. closed_arb now (the (map_of (am_active ?m) j))) ids) @ am_history ?m)
     \<and> am_next_id (fold (expire_one now) ids ?m) = am_next_id ?m \<and> am_total_count (fold (expire_one now) ids ?m) = am_total_count ?m"
    using Cons.prems by (intro Cons.IH) (auto simp: act h size)
  have "(\<lambda>j. if j \<in> set ids then None else ((map_of (am_active m))(i := None)) j) =
      (\<lambda>j. if j \<in> set (i # ids) then None else map_of (am_active m) j)" by auto
  with IH [unfolded same] show ?case
    unfolding act h size cnt other by (simp add: a take_append_take del: take_append)
qed simp

lemma to_expire_props:
  assumes "omap_wf (am_active m)"
  shows "distinct (to_expire now m)"
    and "i \<in> set (to_expire now m) \<longleftrightarrow> (\<exists>a. map_of (am_active m) i = Some a \<and> timeout_ns < now - ta_detection_time_ns a)"
proof -
  have "distinct (map fst (am_active m))" by (rule omap_wf_distinct [OF assms])
  then show "distinct (to_expire now m)" by (simp add: to_expire_def distinct_map_filter)
  show "i \<in> set (to_expire now m) \<longleftrightarrow> (\<exists>a. map_of (am_active m) i = Some a \<and> timeout_ns < now - ta_detection_time_ns a)"
    by (force simp: to_expire_def map_of_omap_eq [OF assms])
qed

text \<open>
  A reported opportunity that reaches the threshold of a running monitor becomes active under a
  fresh id and is alerted once if an alert callback is set. Every older opportunity that was detected
  more than a second ago leaves the active set, enters the history marked as finished, and counts as
  completed; every other one stays.
\<close>

theorem detection_tracks:
  assumes "mon_reachable (h, m)" and "am_running m" and "unat (am_next_id m) + 1 < 2 ^ 64"
    and "\<not> dlt (ao_profit_percentage opp) (am_min_profit_percent m)"
  shows "let (alerts, m') = on_arbitrage_detected opp now m;
             t = \<lparr>ta_id = am_next_id m, ta_opportunity = opp, ta_detection_time_ns = now,
                  ta_expiry_time_ns = 0, ta_is_active = True\<rparr>;
             old = (\<lambda>a. timeout_ns < now - ta_detection_time_ns a)
         in alerts = (if am_has_alert m then [t] else []) \<and>
            map_of (am_active m) (am_next_id m) = None \<and>
            map_of (am_active m') = (\<lambda>i. if i = am_next_id m then Some t
               else case map_of (am_active m) i of Some a \<Rightarrow> if old a then None else Some a | None \<Rightarrow> None) \<and>
            am_total_count m' = am_total_count m + 1 \<and>
            (\<exists>expired. distinct (map ta_id expired) \<and> set expired = {a. \<exists>i. map_of (am_active m) i = Some a \<and> old a} \<and>
               am_completed_count m' = am_completed_count m + length expired \<and>
               am_history m' = take (am_history_size m) (rev (map (closed_arb now) expired) @ am_history m))"
proof -
  have inv: "mon_inv m" using mon_reachable_inv [OF assms(1)] by simp
  let ?t = "\<lparr>ta_id = am_next_id m, ta_opportunity = opp, ta_detection_time_ns = now, ta_expiry_time_ns = 0, ta_is_active = True\<rparr>"
  define old :: "TrackedArbitrage \<Rightarrow> bool" where "old = (\<lambda>a. timeout_ns < now - ta_detection_time_ns a)"
  define m1 where "m1 = m\<lparr>am_next_id := am_next_id m + 1,
      am_active := omap_put (am_next_id m) ?t (am_active m), am_total_count := am_total_count m + 1,
      am_total_profit := dadd (am_total_profit m) (ao_profit_percentage opp),
      am_max_profit_percent := dmax (am_max_profit_percent m) (ao_profit_percentage opp)\<rparr>"
  let ?m' = "update_active_opportunities now m1"
  have e: "on_arbitrage_detected opp now m = (if am_has_alert m then [?t] else [], ?m')"
    using assms(2,4) by (simp add: on_arbitrage_detected_def m1_def Let_def)
  have wf: "omap_wf (am_active m)" "omap_wf (am_active m1)" using inv by (simp_all add: mon_inv_def m1_def)
  have ids: "ta_id a = i \<and> i < am_next_id m" if "map_of (am_active m) i = Some a" for i a
    using inv that by (auto simp: mon_inv_def map_of_omap_eq)
  then have fresh: "map_of (am_active m) (am_next_id m) = None" by (metis less_irrefl not_None_eq)
  have act1: "map_of (am_active m1) = (map_of (am_active m))(am_next_id m \<mapsto> ?t)" by (simp add: m1_def map_of_put)
  have new: "\<not> old ?t" by (simp add: old_def)
  let ?ids = "to_expire now m1"
  have mem: "i \<in> set ?ids \<longleftrightarrow> (\<exists>a. map_of (am_active m) i = Some a \<and> old a)" for i
    using to_expire_props(2) [OF wf(2), of i now] new fresh by (auto simp: act1 old_def)
  define expired where "expired = map (\<lambda>i. the (map_of (am_active m) i)) ?ids"
  have t1: "map_of (am_active m1) i = map_of (am_active m) i" if "i \<in> set ?ids" for i
    using that mem fresh by (auto simp: act1)
  have x: "map (\<lambda>i. closed_arb now (the (map_of (am_active m1) i))) ?ids = map (closed_arb now) expired"
    using t1 by (simp add: expired_def)
  have hs: "length (am_history m1) \<le> am_history_size m1" using inv by (simp add: m1_def mon_inv_def)
  have f: "map_of (am_active ?m') = (\<lambda>i. if i \<in> set ?ids then None else map_of (am_active m1) i)
     \<and> am_completed_count ?m' = am_completed_count m1 + length ?ids
     \<and> am_history ?m' = take (am_history_size m1) (rev (map (\<lambda>i. closed_arb now (the (map_of (am_active m1) i))) ?ids) @ am_history m1)
     \<and> am_next_id ?m' = am_next_id m1 \<and> am_total_count ?m' = am_total_count m1"
    unfolding update_active_opportunities_def
    by (rule expire_fold [OF to_expire_props(1) [OF wf(2)] _ hs]) (use t1 mem in auto)
  have "map ta_id expired = ?ids" using mem ids by (auto simp: expired_def intro!: map_idI)
  then have d: "distinct (map ta_id expired)" using to_expire_props(1) [OF wf(2)] by metis
  have se: "set expired = {a. \<exists>i. map_of (am_active m) i = Some a \<and> old a}"
    using mem by (force simp: expired_def)
  have am: "map_of (am_active ?m') = (\<lambda>i. if i = am_next_id m then Some ?t
      else case map_of (am_active m) i of Some a \<Rightarrow> if old a then None else Some a | None \<Rightarrow> None)"
    using f mem fresh by (auto simp: act1 fun_eq_iff split: option.splits)
  have hist: "am_completed_count ?m' = am_completed_count m + length expired"
    "am_history ?m' = take (am_history_size m) (rev (map (closed_arb now) expired) @ am_history m)"
    "am_total_count ?m' = am_total_count m + 1"
    using f unfolding x by (simp_all add: m1_def expired_def)
  show ?thesis
    unfolding e Let_def prod.case old_def [symmetric] using fresh am hist d se by blast
qed

text \<open>Instance: a started monitor sees its first opportunity.\<close>

definition sample_heap :: books where
  "sample_heap = (\<lambda>_. AggregatedOrderBook_new ''BTC'')"

definition sample_opp :: ArbitrageOpportunity where
  "sample_opp = \<lparr>ao_symbol = ''BTC'', ao_buy_exchange = BINANCE, ao_sell_exchange = KRAKEN, ao_buy_price = Fin 101,
     ao_sell_price = Fin 110, ao_max_quantity = Fin 1, ao_profit_per_unit = Fin 9, ao_profit_percentage = Fin 8,
     ao_timestamp_ns = 7\<rparr>"

theorem detection_tracks_witness:
  "let m = mon_start (ArbitrageMonitor_new (Fin 0) 10) in
   mon_reachable (sample_heap, m) \<and> am_running m \<and> unat (am_next_id m) + 1 < 2 ^ 64 \<and>
   \<not> dlt (ao_profit_percentage sample_opp) (am_min_profit_percent m) \<and>
   map_of (am_active (snd (on_arbitrage_detected sample_opp 7 m))) 1 \<noteq> None"
proof -
  let ?m = "mon_start (ArbitrageMonitor_new (Fin 0) 10)"
  have r: "mon_reachable (sample_heap, ?m)" by (rule mr_step [OF mr_new st_start])
  have c: "am_running ?m" "unat (am_next_id ?m) + 1 < 2 ^ 64"
    "\<not> dlt (ao_profit_percentage sample_opp) (am_min_profit_percent ?m)" "am_next_id ?m = 1"
    by (simp_all add: mon_start_def ArbitrageMonitor_new_def sample_opp_def)
  from detection_tracks [OF r c(1-3), of 7] c(4)
  have "map_of (am_active (snd (on_arbitrage_detected sample_opp 7 ?m))) 1 \<noteq> None"
    by (auto simp: Let_def split: prod.splits)
  with r c show ?thesis by (simp only: Let_def) blast
qed

text \<open>
  C37. In every reachable monitor the active opportunities have different ids, all below the next id,
  and are marked active; the history holds no active opportunity and at most \<open>history_size\<close> entries.
\<close>

theorem monitor_invariant:
  assumes "mon_reachable (h, m)"
  shows "distinct (map (ta_id \<circ> snd) (am_active m)) \<and>
     (\<forall>(i, a) \<in> set (am_active m). ta_id a = i \<and> ta_is_active a \<and> ta_id a < am_next_id m) \<and>
     length (am_history m) \<le> am_history_size m \<and> (\<forall>a \<in> set (am_history m). \<not> ta_is_active a)"
proof -
  have inv: "mon_inv m" using mon_reachable_inv [OF assms] by simp
  then have "map (ta_id \<circ> snd) (am_active m) = map fst (am_active m)" by (auto simp: mon_inv_def)
  moreover have "distinct (map fst (am_active m))" using inv omap_wf_distinct by (auto simp: mon_inv_def)
  ultimately have "distinct (map (ta_id \<circ> snd) (am_active m))" by (simp only:)
  with inv show ?thesis by (auto simp: mon_inv_def done_arb_def)
qed

text \<open>Witness of C37.\<close>

theorem monitor_invariant_witness:
  "mon_reachable (sample_heap, ArbitrageMonitor_new (Fin 0) 10) \<and> length (am_history (ArbitrageMonitor_new (Fin 0) 10)) \<le> 10"
proof -
  have r: "mon_reachable (sample_heap, ArbitrageMonitor_new (Fin 0) 10)" by (rule mr_new)
  with monitor_invariant [OF r] show ?thesis by (simp add: ArbitrageMonitor_new_def)
qed

lemma stop_history:
  "am_history (fold (\<lambda>(i, arb). add_to_history (closed_arb now arb)) xs m) =
     (if xs = [] then am_history m else take (am_history_size m) (rev (map (closed_arb now \<circ> snd) xs) @ am_history m))
   \<and> am_history_size (fold (\<lambda>(i, arb). add_to_history (closed_arb now arb)) xs m) = am_history_size m"
proof (induction xs arbitrary: m)
  case (Cons x xs)
  then show ?case
    by (cases x) (auto simp: add_to_history_def trim_history_take take_append_take simp del: take_append)
qed simp

text \<open>
  Stopping a running monitor leaves no active opportunity; all of them enter the history, newest
  id first, marked as finished at the time of the stop. The completed count and the total duration
  do not change, so the average duration leaves these opportunities out.
\<close>

theorem stop_expires_all:
  assumes "mon_reachable (h, m)" and "am_running m"
  shows "am_active (mon_stop now m) = [] \<and> \<not> am_running (mon_stop now m) \<and>
     am_history (mon_stop now m) =
       take (am_history_size m) (rev (map (closed_arb now \<circ> snd) (am_active m)) @ am_history m) \<and>
     am_completed_count (mon_stop now m) = am_completed_count m"
proof -
  have inv: "length (am_history m) \<le> am_history_size m"
    using mon_reachable_inv [OF assms(1)] by (simp add: mon_inv_def)
  let ?f = "\<lambda>(i :: u64, arb). add_to_history (closed_arb now arb)"
  have c: "am_completed_count (fold ?f xs n) = am_completed_count n \<and> am_running (fold ?f xs n) = am_running n" for xs n
    by (induction xs arbitrary: n) (simp_all add: add_to_history_def case_prod_unfold)
  let ?m = "fold ?f (am_active m) (m\<lparr>am_running := False\<rparr>)"
  have e: "mon_stop now m = ?m\<lparr>am_active := []\<rparr>"
    using assms(2) by (simp add: mon_stop_def Let_def closed_arb_def)
  have "am_history ?m = take (am_history_size m) (rev (map (closed_arb now \<circ> snd) (am_active m)) @ am_history m)"
    using stop_history [of now "am_active m" "m\<lparr>am_running := False\<rparr>"] inv
    by (cases "am_active m = []") (simp_all del: take_append)
  with c [of "am_active m" "m\<lparr>am_running := False\<rparr>"] show ?thesis
    unfolding e by (simp del: take_append)
qed

text \<open>A concrete instance.\<close>

theorem stop_expires_all_witness:
  "let m = mon_start (ArbitrageMonitor_new (Fin 0) 10) in
   mon_reachable (sample_heap, m) \<and> am_running m \<and> am_active (mon_stop 9 m) = []"
proof -
  let ?m = "mon_start (ArbitrageMonitor_new (Fin 0) 10)"
  have r: "mon_reachable (sample_heap, ?m)" by (rule mr_step [OF mr_new st_start])
  have c: "am_running ?m" by (simp add: mon_start_def)
  from stop_expires_all [OF r c, of 9] r c show ?thesis by (simp only: Let_def)
qed

text \<open>
  A book that the monitor accepts can no longer be updated: the callback that
  \<open>add_order_book\<close> installs makes every update of the book's symbol without a NaN price lock up, until
  \<open>remove_order_book\<close> clears the callback again.
\<close>

theorem monitored_book_locks:
  assumes "map_of (am_order_books m) (ag_symbol (heap p)) = None" and "up_symbol u = ag_symbol (heap p)"
    and "\<forall>s \<in> set (up_bids u) \<union> set (up_asks u). ps_price s \<noteq> NaN"
  shows "let (heap1, m1) = add_order_book (Some p) heap m;
             (heap2, m2) = remove_order_book (ag_symbol (heap p)) heap1 m1
         in agg_update u (heap1 p) = Inl Self_deadlock \<and> (\<exists>b. agg_update u (heap2 p) = Inr b) \<and>
            map_of (am_order_books m2) = map_of (am_order_books m)"
proof -
  obtain bids asks where
    l: "agg_levels (up_exchange u) (up_timestamp u) (up_bids u) (eb_bids (book_of (heap p) (up_exchange u))) = Inr bids"
      "agg_levels (up_exchange u) (up_timestamp u) (up_asks u) (eb_asks (book_of (heap p) (up_exchange u))) = Inr asks"
    by (rule agg_levels_both [OF assms(3)])
  have u: "agg_update u (set_arbitrage_callback True (heap p)) = Inl Self_deadlock"
    "\<exists>b. agg_update u (set_arbitrage_callback False (heap p)) = Inr b"
    using l assms(2) by (auto simp: agg_update_def set_arbitrage_callback_def book_of_def)
  have e: "set_arbitrage_callback False (set_arbitrage_callback True (heap p)) = set_arbitrage_callback False (heap p)"
    "ag_symbol (set_arbitrage_callback True (heap p)) = ag_symbol (heap p)"
    by (simp_all add: set_arbitrage_callback_def)
  show ?thesis
    using u e assms(1) by (auto simp: add_order_book_def remove_order_book_def Let_def map_of_put map_of_erase)
qed

text \<open>A concrete instance.\<close>

theorem monitored_book_locks_witness:
  "let heap = (\<lambda>_. AggregatedOrderBook_new ''BTC''); m = ArbitrageMonitor_new (Fin 0) 10 in
   map_of (am_order_books m) (ag_symbol (heap 0)) = None \<and> up_symbol sample_update = ag_symbol (heap 0) \<and>
   agg_update sample_update (fst (add_order_book (Some 0) heap m) 0) = Inl Self_deadlock"
proof -
  let ?heap = "(\<lambda>_. AggregatedOrderBook_new ''BTC'') :: books" and ?m = "ArbitrageMonitor_new (Fin 0) 10"
  have "map_of (am_order_books ?m) (ag_symbol (?heap 0)) = None" "up_symbol sample_update = ag_symbol (?heap 0)"
    "\<forall>s \<in> set (up_bids sample_update) \<union> set (up_asks sample_update). ps_price s \<noteq> NaN"
    by (simp_all add: ArbitrageMonitor_new_def sample_update_def AggregatedOrderBook_new_def)
  with monitored_book_locks [of ?m ?heap 0 sample_update] show ?thesis by (simp add: Let_def case_prod_unfold)
qed

end
