(* ===== verification/Rate_Limiter.thy ===== *)
theory Rate_Limiter
  imports Types
begin

text \<open>
  The token buckets of \<open>include/utils/rate_limiter.hpp\<close> and \<open>src/utils/rate_limiter.cpp\<close>.

  \<^item> One thread at a time: a compare-exchange that the code repeats until it succeeds is one update
    here. \<open>now_ns\<close> is an argument, the reading of the steady clock.
  \<^item> \<open>acquire\<close> and \<open>try_acquire_for\<close> loop until tokens are available or the time is over. They read the clock
    again in every turn: \<open>clock k\<close> is the \<open>k\<close>-th reading. \<open>acquire\<close> is a partial function, \<open>None\<close>
    saying that the call never returns; sleeping changes nothing in the state.
  \<^item> \<open>rl_inv\<close>: the tokens are a number between 0 and the capacity, the rate is positive and finite.
\<close>

record RateLimiter =
  rl_rate_per_second :: double
  rl_capacity :: nat
  rl_tokens :: double
  rl_last_refill_ns :: u64

definition RateLimiter_new :: "double \<Rightarrow> nat \<Rightarrow> u64 \<Rightarrow> RateLimiter" where
  "RateLimiter_new rate_per_second capacity now =
     \<lparr>rl_rate_per_second = (if dle rate_per_second (Fin 0) then Fin 1 else rate_per_second),
      rl_capacity = (if capacity = 0 then 1 else capacity),
      rl_tokens = double_of_nat capacity, rl_last_refill_ns = now\<rparr>"

definition refill :: "u64 \<Rightarrow> RateLimiter \<Rightarrow> RateLimiter" where
  "refill now l =
     (let last_ns = rl_last_refill_ns l;
          elapsed_sec = ddiv (double_of_nat (unat (now - last_ns))) (Fin 1000000000);
          tokens_to_add = dmul elapsed_sec (rl_rate_per_second l)
      in if dlt tokens_to_add (fl (1 / 1000)) then l
         else let l1 = l\<lparr>rl_last_refill_ns := now\<rparr>; current = rl_tokens l; cap = double_of_nat (rl_capacity l)
              in if dlt current cap then l1\<lparr>rl_tokens := dmin (dadd current tokens_to_add) cap\<rparr> else l1)"

definition try_acquire :: "nat \<Rightarrow> u64 \<Rightarrow> RateLimiter \<Rightarrow> bool \<times> RateLimiter" where
  "try_acquire tokens now l =
     (let l1 = refill now l; current = rl_tokens l1; needed = double_of_nat tokens
      in if dle needed current then (True, l1\<lparr>rl_tokens := dsub current needed\<rparr>) else (False, l1))"

definition wait_ns :: "nat \<Rightarrow> RateLimiter \<Rightarrow> u64 result" where
  "wait_ns tokens l =
     (let needed = dsub (double_of_nat tokens) (rl_tokens l) in
      if dlt (Fin 0) needed \<and> dlt (Fin 0) (rl_rate_per_second l)
      then bindE (u64_of_double (dmul (ddiv needed (rl_rate_per_second l)) (Fin 1000000000)))
             (\<lambda>w. Inr (min w 100000000))
      else Inr 100000)"

partial_function (option) acquire :: "nat \<Rightarrow> (nat \<Rightarrow> u64) \<Rightarrow> nat \<Rightarrow> RateLimiter \<Rightarrow> RateLimiter result option" where
  "acquire tokens clock k l =
     (let r = try_acquire tokens (clock k) l; l1 = snd r; w = wait_ns tokens l1
      in if fst r then Some (Inr l1)
         else if isl w then Some (Inl (projl w))
         else acquire tokens clock (Suc k) l1)"

partial_function (option) try_acquire_for :: "u64 \<Rightarrow> nat \<Rightarrow> (nat \<Rightarrow> u64) \<Rightarrow> u64 \<Rightarrow> nat \<Rightarrow> RateLimiter \<Rightarrow> (bool \<times> RateLimiter) option" where
  "try_acquire_for timeout_ns tokens clock start k l =
     (if clock k - start < timeout_ns
      then let r = try_acquire tokens (clock (k + 1)) l; l1 = snd r
           in if fst r then Some (True, l1)
              else if timeout_ns \<le> clock (k + 2) - start then Some (False, l1)
              else try_acquire_for timeout_ns tokens clock start (k + 3) l1
      else Some (False, l))"

definition rl_reset :: "u64 \<Rightarrow> RateLimiter \<Rightarrow> RateLimiter" where
  "rl_reset now l = l\<lparr>rl_tokens := double_of_nat (rl_capacity l), rl_last_refill_ns := now\<rparr>"

definition get_current_tokens :: "u64 \<Rightarrow> RateLimiter \<Rightarrow> double \<times> RateLimiter" where
  "get_current_tokens now l = (let l1 = refill now l in (rl_tokens l1, l1))"

definition rl_set_rate :: "double \<Rightarrow> RateLimiter \<Rightarrow> RateLimiter" where
  "rl_set_rate rate_per_second l =
     (if dle rate_per_second (Fin 0) then l else l\<lparr>rl_rate_per_second := rate_per_second\<rparr>)"

definition set_capacity :: "nat \<Rightarrow> RateLimiter \<Rightarrow> RateLimiter" where
  "set_capacity capacity l =
     (if capacity = 0 then l
      else let cap = double_of_nat capacity; current = rl_tokens l; l1 = l\<lparr>rl_capacity := capacity\<rparr>
           in if dlt cap current then l1\<lparr>rl_tokens := cap\<rparr> else l1)"

section \<open>Limiters per exchange\<close>

record ExchangeRateLimiters =
  xl_binance :: RateLimiter
  xl_coinbase :: RateLimiter
  xl_kraken :: RateLimiter

definition ExchangeRateLimiters_new :: "u64 \<Rightarrow> u64 \<Rightarrow> u64 \<Rightarrow> ExchangeRateLimiters" where
  "ExchangeRateLimiters_new now1 now2 now3 =
     \<lparr>xl_binance = RateLimiter_new (Fin 20) 40 now1, xl_coinbase = RateLimiter_new (Fin 30) 60 now2,
      xl_kraken = RateLimiter_new (Fin 15) 30 now3\<rparr>"

fun get_limiter :: "Exchange \<Rightarrow> ExchangeRateLimiters \<Rightarrow> RateLimiter option" where
  "get_limiter BINANCE x = Some (xl_binance x)"
| "get_limiter COINBASE x = Some (xl_coinbase x)"
| "get_limiter KRAKEN x = Some (xl_kraken x)"
| "get_limiter UNKNOWN x = None"

fun put_limiter :: "Exchange \<Rightarrow> RateLimiter \<Rightarrow> ExchangeRateLimiters \<Rightarrow> ExchangeRateLimiters" where
  "put_limiter BINANCE l x = x\<lparr>xl_binance := l\<rparr>"
| "put_limiter COINBASE l x = x\<lparr>xl_coinbase := l\<rparr>"
| "put_limiter KRAKEN l x = x\<lparr>xl_kraken := l\<rparr>"
| "put_limiter UNKNOWN l x = x"

definition xl_acquire :: "Exchange \<Rightarrow> nat \<Rightarrow> (nat \<Rightarrow> u64) \<Rightarrow> ExchangeRateLimiters \<Rightarrow> ExchangeRateLimiters result option" where
  "xl_acquire ex tokens clock x =
     (case get_limiter ex x of
        None \<Rightarrow> Some (Inr x)
      | Some l \<Rightarrow> map_option (\<lambda>r. bindE r (\<lambda>l1. Inr (put_limiter ex l1 x))) (acquire tokens clock 0 l))"

definition xl_try_acquire :: "Exchange \<Rightarrow> nat \<Rightarrow> u64 \<Rightarrow> ExchangeRateLimiters \<Rightarrow> bool \<times> ExchangeRateLimiters" where
  "xl_try_acquire ex tokens now x =
     (case get_limiter ex x of
        None \<Rightarrow> (True, x)
      | Some l \<Rightarrow> (case try_acquire tokens now l of (r, l1) \<Rightarrow> (r, put_limiter ex l1 x)))"

definition xl_set_rate :: "Exchange \<Rightarrow> double \<Rightarrow> ExchangeRateLimiters \<Rightarrow> ExchangeRateLimiters" where
  "xl_set_rate ex rate_per_second x =
     (case get_limiter ex x of None \<Rightarrow> x | Some l \<Rightarrow> put_limiter ex (rl_set_rate rate_per_second l) x)"

section \<open>Bounds of the token count\<close>

definition rate_ok :: "double \<Rightarrow> bool" where
  "rate_ok r \<longleftrightarrow> is_fin r \<and> dlt (Fin 0) r"

definition rl_inv :: "RateLimiter \<Rightarrow> bool" where
  "rl_inv l \<longleftrightarrow> rate_ok (rl_rate_per_second l) \<and> 0 < rl_capacity l \<and> rl_capacity l < 2 ^ 64 \<and>
     (\<exists>x. rl_tokens l = Fin x \<and> rnd x = x \<and> 0 \<le> x \<and> x \<le> rnd (of_nat (rl_capacity l)))"

lemma fl_nonneg:
  assumes "0 \<le> x"
  shows "fl x = PInf \<or> fl x = Fin (rnd x)"
proof -
  have "0 \<le> rnd x" by (rule rnd_nonneg [OF assms])
  then have "\<not> rnd x \<le> - (2 ^ 1024)" by (meson neg_0_le_iff_le not_le order_trans zero_less_numeral zero_less_power)
  then show ?thesis by (simp add: fl_def Let_def)
qed

lemma dmul_rate_nonneg:
  assumes "rate_ok r" and "0 \<le> x"
  shows "dmul (Fin x) r = PInf \<or> (\<exists>y. dmul (Fin x) r = Fin y \<and> 0 \<le> y)"
proof -
  obtain q where q: "r = Fin q" "0 < q" using assms(1) by (cases r) (auto simp: rate_ok_def)
  then have "0 \<le> x * q" using assms(2) by simp
  then show ?thesis using fl_nonneg [of "x * q"] rnd_nonneg [of "x * q"] by (auto simp: q)
qed

lemma elapsed_Fin: "\<exists>x. ddiv (double_of_nat (unat (d :: u64))) (Fin 1000000000) = Fin x \<and> 0 \<le> x"
proof -
  define n where "n = unat d"
  have n: "n < 2 ^ 64" using u64_bound [of d] by (simp add: n_def)
  have "rnd (of_nat n) \<le> 2 ^ 64" by (rule rnd_of_nat_le [OF n])
  moreover have z: "0 \<le> rnd (of_nat n)" by (rule rnd_of_nat_nonneg)
  ultimately have "\<bar>rnd (of_nat n) / 1000000000\<bar> \<le> 2 ^ 64" by (simp add: abs_le_iff)
  also have "\<dots> \<le> (2::rat) ^ 1000" by (rule power_increasing) simp_all
  finally have "fl (rnd (of_nat n) / 1000000000) = Fin (rnd (rnd (of_nat n) / 1000000000))" by (rule fl_bounded)
  with z show ?thesis unfolding n_def [symmetric] double_of_nat_Fin [OF n] by (simp add: rnd_nonneg)
qed

lemma rl_invE:
  assumes "rl_inv l"
  obtains x where "rl_tokens l = Fin x" "rnd x = x" "0 \<le> x" "x \<le> rnd (of_nat (rl_capacity l))"
    "double_of_nat (rl_capacity l) = Fin (rnd (of_nat (rl_capacity l)))"
  using assms double_of_nat_Fin by (auto simp: rl_inv_def)

text \<open>Adding a nonnegative amount and cutting at the capacity.\<close>

lemma dmin_dadd_cap:
  assumes "rnd x = x" and "rnd c = c" and "0 \<le> x" and "x \<le> c"
    and "t = PInf \<or> (\<exists>y. t = Fin y \<and> 0 \<le> y)"
  obtains z where "dmin (dadd (Fin x) t) (Fin c) = Fin z" "rnd z = z" "x \<le> z" "z \<le> c"
proof (cases "dadd (Fin x) t = PInf")
  case True
  then show thesis using that [of c] assms by (simp add: dmin_def)
next
  case False
  then obtain y where y: "t = Fin y" "0 \<le> y" using assms(5) by auto
  then have "dadd (Fin x) t = Fin (rnd (x + y))" using False fl_nonneg [of "x + y"] assms(3) by auto
  moreover have "x \<le> rnd (x + y)" using assms(1) y(2) by (intro b64.r_ge) simp_all
  ultimately show thesis
    using that [of "min (rnd (x + y)) c"] assms(2,4) by (cases "c < rnd (x + y)") (simp_all add: dmin_def)
qed

lemma refill_tokens:
  assumes "rl_inv l"
  shows "rl_inv (refill now l)" and "rl_tokens l \<le> rl_tokens (refill now l)"
    and "rl_capacity (refill now l) = rl_capacity l" and "rl_rate_per_second (refill now l) = rl_rate_per_second l"
proof -
  obtain x where x: "rl_tokens l = Fin x" "rnd x = x" "0 \<le> x" "x \<le> rnd (of_nat (rl_capacity l))"
    "double_of_nat (rl_capacity l) = Fin (rnd (of_nat (rl_capacity l)))" by (rule rl_invE [OF assms])
  let ?t = "dmul (ddiv (double_of_nat (unat (now - rl_last_refill_ns l))) (Fin 1000000000)) (rl_rate_per_second l)"
  obtain e where e: "ddiv (double_of_nat (unat (now - rl_last_refill_ns l))) (Fin 1000000000) = Fin e" "0 \<le> e"
    using elapsed_Fin by blast
  have t: "?t = PInf \<or> (\<exists>y. ?t = Fin y \<and> 0 \<le> y)"
    unfolding e(1) using assms by (intro dmul_rate_nonneg e(2)) (simp add: rl_inv_def)
  obtain z where z: "dmin (dadd (Fin x) ?t) (Fin (rnd (of_nat (rl_capacity l)))) = Fin z" "rnd z = z" "x \<le> z"
    "z \<le> rnd (of_nat (rl_capacity l))"
    by (rule dmin_dadd_cap [OF x(2) _ x(3,4) t]) simp_all
  show "rl_inv (refill now l)" and "rl_tokens l \<le> rl_tokens (refill now l)"
    using assms x z by (auto simp: refill_def Let_def rl_inv_def)
  show "rl_capacity (refill now l) = rl_capacity l" and "rl_rate_per_second (refill now l) = rl_rate_per_second l"
    by (simp_all add: refill_def Let_def)
qed

lemma try_acquire_cases:
  assumes "rl_inv l" and "n < 2 ^ 64"
  obtains (denied) "try_acquire n now l = (False, refill now l)" "rl_tokens (refill now l) < Fin (rnd (of_nat n))"
  | (granted) y z where "rl_tokens (refill now l) = Fin y" "rnd (of_nat n) \<le> y" "z = rnd (y - rnd (of_nat n))"
      "0 \<le> z" "z \<le> y" "try_acquire n now l = (True, (refill now l)\<lparr>rl_tokens := Fin z\<rparr>)"
      "dsub (Fin y) (double_of_nat n) = Fin z"
proof -
  obtain y where y: "rl_tokens (refill now l) = Fin y" "rnd y = y" "0 \<le> y" "y \<le> rnd (of_nat (rl_capacity (refill now l)))"
    by (rule rl_invE [OF refill_tokens(1) [OF assms(1)]])
  have n: "double_of_nat n = Fin (rnd (of_nat n))" by (rule double_of_nat_Fin [OF assms(2)])
  have n0: "0 \<le> rnd (of_nat n)" by (rule rnd_of_nat_nonneg)
  show thesis
  proof (cases "rnd (of_nat n) \<le> y")
    case True
    let ?z = "rnd (y - rnd (of_nat n))"
    have lo: "0 \<le> ?z" using True by (intro rnd_nonneg) simp
    have hi: "?z \<le> y" using n0 y(2) by (intro b64.r_le) simp_all
    have "rl_capacity (refill now l) < 2 ^ 64" using refill_tokens(1) [OF assms(1)] by (simp add: rl_inv_def)
    then have "y \<le> 2 ^ 64" using y(4) rnd_of_nat_le by (metis order_trans)
    then have "\<bar>y - rnd (of_nat n)\<bar> \<le> 2 ^ 64" using True n0 by (simp add: abs_le_iff)
    also have "\<dots> \<le> (2::rat) ^ 1000" by (rule power_increasing) simp_all
    finally have "fl (y - rnd (of_nat n)) = Fin ?z" by (rule fl_bounded)
    then have d: "dsub (Fin y) (double_of_nat n) = Fin ?z" using n by (simp add: dsub_def)
    then have "try_acquire n now l = (True, (refill now l)\<lparr>rl_tokens := Fin ?z\<rparr>)"
      using True y(1) n by (simp add: try_acquire_def Let_def dle_def deq_def le_less)
    with y(1) True lo hi d show thesis by (intro granted) simp_all
  next
    case False
    then show thesis using y(1) n by (intro denied) (simp_all add: try_acquire_def Let_def dle_def deq_def)
  qed
qed

lemma try_acquire_inv:
  assumes "rl_inv l" and "n < 2 ^ 64"
  shows "rl_inv (snd (try_acquire n now l))" and "rl_capacity (snd (try_acquire n now l)) = rl_capacity l"
proof -
  note r = refill_tokens [OF assms(1), of now]
  show "rl_inv (snd (try_acquire n now l))"
  proof (cases rule: try_acquire_cases [OF assms, of now, case_names denied granted])
    case (granted y z)
    obtain x where "rl_tokens (refill now l) = Fin x" "x \<le> rnd (of_nat (rl_capacity (refill now l)))"
      by (rule rl_invE [OF r(1)])
    with granted have "z \<le> rnd (of_nat (rl_capacity (refill now l)))" by simp
    with granted r(1) show ?thesis by (simp add: rl_inv_def)
  qed (use r in simp)
  show "rl_capacity (snd (try_acquire n now l)) = rl_capacity l"
    using r(3) by (simp add: try_acquire_def Let_def)
qed

inductive rl_reachable :: "RateLimiter \<Rightarrow> bool" where
  rr_new: "is_fin r \<Longrightarrow> c < 2 ^ 64 \<Longrightarrow> rl_reachable (RateLimiter_new r c now)"
| rr_try: "rl_reachable l \<Longrightarrow> n < 2 ^ 64 \<Longrightarrow> rl_reachable (snd (try_acquire n now l))"
| rr_reset: "rl_reachable l \<Longrightarrow> rl_reachable (rl_reset now l)"
| rr_get: "rl_reachable l \<Longrightarrow> rl_reachable (snd (get_current_tokens now l))"
| rr_rate: "rl_reachable l \<Longrightarrow> is_fin r \<Longrightarrow> rl_reachable (rl_set_rate r l)"
| rr_cap: "rl_reachable l \<Longrightarrow> c < 2 ^ 64 \<Longrightarrow> rl_reachable (set_capacity c l)"

lemma rate_ok_new: "is_fin r \<Longrightarrow> \<not> dle r (Fin 0) \<Longrightarrow> rate_ok r"
  by (cases r) (auto simp: rate_ok_def dle_def deq_def)

lemma rl_inv_new: "is_fin r \<Longrightarrow> c < 2 ^ 64 \<Longrightarrow> rl_inv (RateLimiter_new r c now)"
  using rate_ok_new [of r] rnd_int [of 1]
  by (auto simp: rl_inv_def RateLimiter_new_def double_of_nat_Fin rnd_of_nat_nonneg)
    (simp_all add: rate_ok_def)

lemma rl_inv_capacity:
  assumes "rl_inv l" and "c < 2 ^ 64"
  shows "rl_inv (set_capacity c l)"
proof -
  obtain x where "rl_tokens l = Fin x" "rnd x = x" "0 \<le> x" by (rule rl_invE [OF assms(1)])
  moreover have "double_of_nat c = Fin (rnd (of_nat c))" by (rule double_of_nat_Fin [OF assms(2)])
  ultimately show ?thesis
    using assms by (auto simp: rl_inv_def set_capacity_def Let_def rnd_of_nat_nonneg not_less)
qed

lemma rl_reachable_inv: "rl_reachable l \<Longrightarrow> rl_inv l"
proof (induction rule: rl_reachable.induct)
  case (rr_new r c now)
  then show ?case by (rule rl_inv_new)
next
  case (rr_try l n now)
  then show ?case by (simp add: try_acquire_inv)
next
  case (rr_reset l now)
  then show ?case by (auto simp: rl_inv_def rl_reset_def double_of_nat_Fin rnd_of_nat_nonneg)
next
  case (rr_get l now)
  then show ?case by (simp add: get_current_tokens_def Let_def refill_tokens)
next
  case (rr_rate l r)
  then show ?case using rate_ok_new [of r] by (auto simp: rl_inv_def rl_set_rate_def)
next
  case (rr_cap l c)
  then show ?case by (simp add: rl_inv_capacity)
qed

text \<open>
  C35. The token count of a reachable limiter is a number between 0 and the capacity. A refill
  never takes tokens away. A request is granted exactly when the refilled count covers it; it then
  lowers the count by the request and keeps it nonnegative, and a denied request takes nothing.
\<close>

theorem token_count_bounded:
  assumes "rl_reachable l" and "n < 2 ^ 64"
  shows "Fin 0 \<le> rl_tokens l \<and> rl_tokens l \<le> double_of_nat (rl_capacity l) \<and> rl_tokens l \<le> rl_tokens (refill now l) \<and>
     (case try_acquire n now l of (granted, l') \<Rightarrow>
        granted = (double_of_nat n \<le> rl_tokens (refill now l)) \<and> Fin 0 \<le> rl_tokens l' \<and>
        rl_tokens l' = (if granted then dsub (rl_tokens (refill now l)) (double_of_nat n) else rl_tokens (refill now l)))"
proof -
  have inv: "rl_inv l" by (rule rl_reachable_inv [OF assms(1)])
  obtain x where x: "rl_tokens l = Fin x" "rnd x = x" "0 \<le> x" "x \<le> rnd (of_nat (rl_capacity l))"
    "double_of_nat (rl_capacity l) = Fin (rnd (of_nat (rl_capacity l)))" by (rule rl_invE [OF inv])
  obtain y where y: "rl_tokens (refill now l) = Fin y" "0 \<le> y" by (rule rl_invE [OF refill_tokens(1) [OF inv]])
  have n: "double_of_nat n = Fin (rnd (of_nat n))" by (rule double_of_nat_Fin [OF assms(2)])
  have d: "case try_acquire n now l of (granted, l') \<Rightarrow>
        granted = (double_of_nat n \<le> rl_tokens (refill now l)) \<and> Fin 0 \<le> rl_tokens l' \<and>
        rl_tokens l' = (if granted then dsub (rl_tokens (refill now l)) (double_of_nat n) else rl_tokens (refill now l))"
  proof (cases rule: try_acquire_cases [OF inv assms(2), of now, case_names denied granted])
    case denied
    then show ?thesis using y n by (simp add: not_le)
  next
    case (granted y' z)
    then show ?thesis using n by simp
  qed
  from x d refill_tokens(2) [OF inv, of now] show ?thesis by simp
qed

text \<open>Witness of C35: the Binance limiter.\<close>

theorem token_count_bounded_witness:
  "rl_reachable (RateLimiter_new (Fin 20) 40 0) \<and> (1::nat) < 2 ^ 64 \<and>
   Fin 0 \<le> rl_tokens (snd (try_acquire 1 5 (RateLimiter_new (Fin 20) 40 0)))"
proof -
  have r: "rl_reachable (RateLimiter_new (Fin 20) 40 0)" by (rule rr_new) simp_all
  have n: "(1::nat) < 2 ^ 64" by simp
  from token_count_bounded [OF r n, of 5] r n show ?thesis unfolding case_prod_unfold by blast
qed

section \<open>Bursts\<close>

text \<open>Requests that all read the clock at the time of the last refill.\<close>

fun burst :: "u64 \<Rightarrow> nat list \<Rightarrow> RateLimiter \<Rightarrow> bool list \<times> RateLimiter" where
  "burst now [] l = ([], l)"
| "burst now (n # ns) l =
     (let (r, l1) = try_acquire n now l; (rs, l2) = burst now ns l1 in (r # rs, l2))"

fun granted_sum :: "nat list \<Rightarrow> bool list \<Rightarrow> nat" where
  "granted_sum (n # ns) (r # rs) = (if r then n else 0) + granted_sum ns rs"
| "granted_sum _ _ = 0"

lemma fl_milli: "dlt (Fin 0) (fl (1 / 1000))"
proof -
  have "rnd (1 / 1000) \<noteq> 0 \<and> 0 \<le> rnd (1 / 1000)"
  proof
    have "\<bar>rnd (1 / 1000) - 1 / 1000\<bar> \<le> \<bar>1 / 1000\<bar> / 2 ^ 53"
    proof (rule rnd_rel_err)
      have "(2::rat) powi (- 1022) \<le> 2 powi (- 10)" by (simp only: pow2_le_iff)
      also have "\<dots> \<le> 1 / 1000" by (simp add: power_int_minus)
      finally show "(2::rat) powi (- 1022) \<le> \<bar>1 / 1000\<bar>" by simp
    qed
    then show "rnd (1 / 1000) \<noteq> 0" by auto
  qed (rule rnd_nonneg, simp)
  moreover have "fl (1 / 1000) = Fin (rnd (1 / 1000))" by (rule fl_bounded) simp
  ultimately show ?thesis by (simp add: less_le)
qed

lemma refill_same_time: "rl_inv l \<Longrightarrow> rl_last_refill_ns l = now \<Longrightarrow> refill now l = l"
proof -
  assume "rl_inv l" "rl_last_refill_ns l = now"
  then obtain q where "rl_rate_per_second l = Fin q" by (cases "rl_rate_per_second l") (auto simp: rl_inv_def rate_ok_def)
  moreover have "double_of_nat 0 = Fin 0" using double_of_nat_small [of 0] by simp
  moreover have "fl 0 = Fin 0" using fl_bounded [of 0] by simp
  ultimately show ?thesis
    using \<open>rl_last_refill_ns l = now\<close> fl_milli by (simp add: refill_def Let_def)
qed

lemma try_acquire_exact:
  assumes "rl_inv l" and "rl_last_refill_ns l = now" and "rl_tokens l = Fin (of_nat k)" and "k \<le> 2 ^ 53" and "n \<le> 2 ^ 53"
  shows "try_acquire n now l = (n \<le> k, if n \<le> k then l\<lparr>rl_tokens := Fin (of_nat (k - n))\<rparr> else l)"
proof -
  have f: "fl (of_nat k - of_nat n) = Fin (of_nat (k - n))" if "n \<le> k"
  proof -
    have "double_of_nat (k - n) = Fin (of_nat (k - n))" using assms(4) by (intro double_of_nat_small) simp
    then show ?thesis using that by (simp add: double_of_nat_def of_nat_diff)
  qed
  have n: "double_of_nat n = Fin (of_nat n)" by (rule double_of_nat_small [OF assms(5)])
  show ?thesis
    unfolding try_acquire_def refill_same_time [OF assms(1,2)] Let_def assms(3) n
    using f by (auto simp: dsub_def dle_def deq_def le_less)
qed

lemma burst_exact:
  assumes "rl_inv l" and "rl_last_refill_ns l = now" and "rl_tokens l = Fin (of_nat k)" and "k \<le> 2 ^ 53"
    and "\<forall>n\<in>set ns. n \<le> 2 ^ 53"
  shows "\<exists>j. granted_sum ns (fst (burst now ns l)) + j = k \<and> rl_tokens (snd (burst now ns l)) = Fin (of_nat j)"
  using assms
proof (induction ns arbitrary: l k)
  case (Cons n ns)
  have n: "n \<le> 2 ^ 53" using Cons.prems(5) by simp
  define l1 where "l1 = (if n \<le> k then l\<lparr>rl_tokens := Fin (of_nat (k - n))\<rparr> else l)"
  have t: "try_acquire n now l = (n \<le> k, l1)"
    unfolding l1_def by (rule try_acquire_exact [OF Cons.prems(1-4) n])
  have "n < 2 ^ 64" using n by simp
  then have i: "rl_inv l1" using try_acquire_inv(1) [OF Cons.prems(1), of n now] t by simp
  have l1: "rl_last_refill_ns l1 = now" "rl_tokens l1 = Fin (of_nat (if n \<le> k then k - n else k))"
    "(if n \<le> k then k - n else k) \<le> 2 ^ 53" "\<forall>n\<in>set ns. n \<le> 2 ^ 53"
    using Cons.prems by (auto simp: l1_def)
  obtain j where "granted_sum ns (fst (burst now ns l1)) + j = (if n \<le> k then k - n else k)"
    "rl_tokens (snd (burst now ns l1)) = Fin (of_nat j)"
    using Cons.IH [OF i l1] by blast
  then show ?case
    by (intro exI [of _ j]) (auto simp: t case_prod_unfold Let_def split: if_splits)
qed simp

text \<open>
  Requests that arrive at the same clock reading, right after a reset, are never granted more than
  the capacity in total, and the tokens that are left are exactly the difference (capacities and
  requests of at most \<open>2 ^ 53\<close>, where doubles count exactly).
\<close>

theorem burst_bounded:
  assumes "rl_reachable l" and "rl_capacity l \<le> 2 ^ 53" and "\<forall>n\<in>set ns. n \<le> 2 ^ 53"
  shows "let (rs, l') = burst now ns (rl_reset now l)
         in granted_sum ns rs \<le> rl_capacity l \<and>
            rl_tokens l' = Fin (of_nat (rl_capacity l - granted_sum ns rs))"
proof -
  have inv: "rl_inv (rl_reset now l)" by (rule rl_reachable_inv [OF rr_reset [OF assms(1)]])
  have t: "rl_tokens (rl_reset now l) = Fin (of_nat (rl_capacity l))"
    using double_of_nat_small [OF assms(2)] by (simp add: rl_reset_def)
  obtain j where "granted_sum ns (fst (burst now ns (rl_reset now l))) + j = rl_capacity l"
    "rl_tokens (snd (burst now ns (rl_reset now l))) = Fin (of_nat j)"
    using burst_exact [OF inv _ t assms(2,3)] by (auto simp: rl_reset_def)
  then show ?thesis by (auto simp: Let_def case_prod_unfold)
qed

text \<open>Instance: 25, 10 and 10 tokens from a bucket of 40.\<close>

theorem burst_bounded_witness:
  "let l = RateLimiter_new (Fin 20) 40 0 in rl_reachable l \<and> rl_capacity l \<le> 2 ^ 53 \<and>
     granted_sum [25, 10, 10] (fst (burst 3 [25, 10, 10] (rl_reset 3 l))) \<le> 40"
proof -
  let ?l = "RateLimiter_new (Fin 20) 40 0"
  have r: "rl_reachable ?l" by (rule rr_new) simp_all
  have c: "rl_capacity ?l = 40" by (simp add: RateLimiter_new_def)
  then have c': "rl_capacity ?l \<le> 2 ^ 53" by simp
  have n: "\<forall>n\<in>set [25, 10, 10]. n \<le> (2::nat) ^ 53" by simp
  from burst_bounded [OF r c' n, of 3] r c c' show ?thesis by (simp only: Let_def case_prod_unfold)
qed

section \<open>Waiting for tokens\<close>

lemma try_acquire_too_many:
  assumes "rl_inv l" and "n < 2 ^ 64" and "double_of_nat (rl_capacity l) < double_of_nat n"
  shows "\<not> fst (try_acquire n now l)"
proof (cases rule: try_acquire_cases [OF assms(1,2), of now, case_names denied granted])
  case (granted y z)
  obtain x where "rl_tokens (refill now l) = Fin x" "x \<le> rnd (of_nat (rl_capacity (refill now l)))"
    by (rule rl_invE [OF refill_tokens(1) [OF assms(1)]])
  moreover have "double_of_nat (rl_capacity l) = Fin (rnd (of_nat (rl_capacity l)))"
    using assms(1) by (intro double_of_nat_Fin) (simp add: rl_inv_def)
  ultimately show ?thesis
    using granted assms(2,3) refill_tokens(3) [OF assms(1), of now] by (simp add: double_of_nat_Fin)
qed simp

lemma acquire_too_many:
  assumes "acquire n clock k l = Some r"
  shows "rl_inv l \<longrightarrow> n < 2 ^ 64 \<longrightarrow> double_of_nat (rl_capacity l) < double_of_nat n \<longrightarrow> isl r"
proof (induction rule: acquire.raw_induct [OF _ assms])
  case (1 acq n clock k l r)
  show ?case
  proof (intro impI)
    assume inv: "rl_inv l" and n: "n < 2 ^ 64" and c: "double_of_nat (rl_capacity l) < double_of_nat n"
    let ?l = "snd (try_acquire n (clock k) l)"
    have "\<not> fst (try_acquire n (clock k) l)" by (rule try_acquire_too_many [OF inv n c])
    moreover have "rl_inv ?l" "rl_capacity ?l = rl_capacity l" by (rule try_acquire_inv [OF inv n])+
    ultimately show "isl r" using 1 n c by (auto simp: Let_def split: if_splits)
  qed
qed

text \<open>
  A blocking request for more tokens than the capacity never succeeds: whatever the clock does,
  it either waits for ever or runs into the undefined conversion of its waiting time.
\<close>

theorem acquire_over_capacity:
  assumes "rl_reachable l" and "n < 2 ^ 64" and "double_of_nat (rl_capacity l) < double_of_nat n"
  shows "acquire n clock 0 l = None \<or> (\<exists>e. acquire n clock 0 l = Some (Inl e))"
proof (cases "acquire n clock 0 l")
  case (Some r)
  then have "isl r" using acquire_too_many rl_reachable_inv [OF assms(1)] assms(2,3) by blast
  then show ?thesis using Some by (cases r) auto
qed simp

text \<open>Instance: 41 tokens from a bucket of 40.\<close>

theorem acquire_over_capacity_witness:
  "let l = RateLimiter_new (Fin 20) 40 0 in rl_reachable l \<and> double_of_nat (rl_capacity l) < double_of_nat 41 \<and>
     \<not> (\<exists>l'. acquire 41 (\<lambda>k. of_nat k) 0 l = Some (Inr l'))"
proof -
  let ?l = "RateLimiter_new (Fin 20) 40 0"
  have r: "rl_reachable ?l" by (rule rr_new) simp_all
  have c: "double_of_nat (rl_capacity ?l) < double_of_nat 41"
    using double_of_nat_small [of 40] double_of_nat_small [of 41] by (simp add: RateLimiter_new_def)
  have n: "(41::nat) < 2 ^ 64" by simp
  from acquire_over_capacity [OF r n c, of "\<lambda>k. of_nat k"] r c show ?thesis by (auto simp: Let_def)
qed

end
