(* ===== verification/Market_Analytics.thy ===== *)
theory Market_Analytics
  imports Types
begin

text \<open>
  The analytics of \<open>include/analytics/market_analytics.hpp\<close> and \<open>src/analytics/market_analytics.cpp\<close>:
  volume-weighted and time-weighted prices, order flow imbalance and spread statistics over sliding
  time windows.

  \<^item> Each calculator is a record with its deque and its sums, and one function per member function.
    The four \<open>remove_expired\<close> loops drop elements from the front while they are older than a cutoff;
    the locale \<open>sliding_window\<close> says what such a loop keeps, and is interpreted for all four.
  \<^item> Sums are IEEE doubles. \<open>std::sqrt\<close> is the correctly rounded square root \<open>dsqrt\<close>.
  \<^item> Timestamps are 64-bit: the cutoff \<open>now - window\<close> wraps around when the clock reads less than the
    window.
\<close>

section \<open>Square root\<close>

primrec isqrt_bits :: "nat \<Rightarrow> nat \<Rightarrow> nat \<Rightarrow> nat" where
  "isqrt_bits 0 n r = r"
| "isqrt_bits (Suc k) n r = isqrt_bits k n (if (r + 2 ^ k) ^ 2 \<le> n then r + 2 ^ k else r)"

definition sqrt_exp :: "rat \<Rightarrow> int" where
  "sqrt_exp x = rexp x div 2 - 52"

definition dsqrt :: "double \<Rightarrow> double" where
  "dsqrt d = (case d of
       Fin x \<Rightarrow> if x < 0 then NaN else if x = 0 then Fin 0
         else let e = sqrt_exp x; y = x / 2 powi (2 * e); m = isqrt_bits 54 (nat \<lfloor>y\<rfloor>) 0
              in Fin (of_nat (if (2 * of_nat m + 1) ^ 2 < 4 * y then m + 1 else m) * 2 powi e)
     | PInf \<Rightarrow> PInf | NInf \<Rightarrow> NaN | NaN \<Rightarrow> NaN)"

definition DBL_MAX :: double where
  "DBL_MAX = Fin ((2 ^ 53 - 1) * 2 ^ 971)"

definition DBL_LOWEST :: double where
  "DBL_LOWEST = Fin (- ((2 ^ 53 - 1) * 2 ^ 971))"

section \<open>VWAP\<close>

record TradePoint =
  tp_price :: double
  tp_volume :: double
  tp_timestamp_ns :: u64

record VWAPCalculator =
  vw_window_ns :: u64
  vw_trades :: "TradePoint list"
  vw_cumulative_price_volume :: double
  vw_cumulative_volume :: double

definition VWAPCalculator_new :: "u64 \<Rightarrow> VWAPCalculator" where
  "VWAPCalculator_new window_ns =
     \<lparr>vw_window_ns = window_ns, vw_trades = [], vw_cumulative_price_volume = Fin 0, vw_cumulative_volume = Fin 0\<rparr>"

fun vwap_expire :: "u64 \<Rightarrow> TradePoint list \<Rightarrow> double \<Rightarrow> double \<Rightarrow> TradePoint list \<times> double \<times> double" where
  "vwap_expire cutoff [] pv v = ([], pv, v)"
| "vwap_expire cutoff (t # ts) pv v =
     (if tp_timestamp_ns t < cutoff
      then vwap_expire cutoff ts (dsub pv (dmul (tp_price t) (tp_volume t))) (dsub v (tp_volume t))
      else (t # ts, pv, v))"

definition vwap_remove_expired :: "u64 \<Rightarrow> VWAPCalculator \<Rightarrow> VWAPCalculator" where
  "vwap_remove_expired current_time_ns c =
     (let (ts, pv, v) = vwap_expire (current_time_ns - vw_window_ns c) (vw_trades c)
            (vw_cumulative_price_volume c) (vw_cumulative_volume c)
      in c\<lparr>vw_trades := ts, vw_cumulative_price_volume := pv, vw_cumulative_volume := v\<rparr>)"

definition vwap_update :: "double \<Rightarrow> double \<Rightarrow> u64 \<Rightarrow> VWAPCalculator \<Rightarrow> VWAPCalculator" where
  "vwap_update price volume timestamp_ns c =
     (let c1 = vwap_remove_expired timestamp_ns c
      in c1\<lparr>vw_trades := vw_trades c1 @ [\<lparr>tp_price = price, tp_volume = volume, tp_timestamp_ns = timestamp_ns\<rparr>],
            vw_cumulative_price_volume := dadd (vw_cumulative_price_volume c1) (dmul price volume),
            vw_cumulative_volume := dadd (vw_cumulative_volume c1) volume\<rparr>)"

definition get_vwap :: "VWAPCalculator \<Rightarrow> double" where
  "get_vwap c = (if deq (vw_cumulative_volume c) (Fin 0) then Fin 0
     else ddiv (vw_cumulative_price_volume c) (vw_cumulative_volume c))"

definition get_total_volume :: "VWAPCalculator \<Rightarrow> double" where
  "get_total_volume c = vw_cumulative_volume c"

definition vwap_reset :: "VWAPCalculator \<Rightarrow> VWAPCalculator" where
  "vwap_reset c = c\<lparr>vw_trades := [], vw_cumulative_price_volume := Fin 0, vw_cumulative_volume := Fin 0\<rparr>"

section \<open>TWAP\<close>

record PriceSample =
  sm_price :: double
  sm_timestamp_ns :: u64
  sm_duration_ns :: u64

record TWAPCalculator =
  tw_window_ns :: u64
  tw_samples :: "PriceSample list"
  tw_last_timestamp_ns :: u64

definition TWAPCalculator_new :: "u64 \<Rightarrow> TWAPCalculator" where
  "TWAPCalculator_new window_ns = \<lparr>tw_window_ns = window_ns, tw_samples = [], tw_last_timestamp_ns = 0\<rparr>"

definition twap_remove_expired :: "u64 \<Rightarrow> TWAPCalculator \<Rightarrow> TWAPCalculator" where
  "twap_remove_expired current_time_ns c =
     c\<lparr>tw_samples := dropWhile (\<lambda>s. sm_timestamp_ns s < current_time_ns - tw_window_ns c) (tw_samples c)\<rparr>"

definition twap_update :: "double \<Rightarrow> u64 \<Rightarrow> TWAPCalculator \<Rightarrow> TWAPCalculator" where
  "twap_update price timestamp_ns c =
     (let c1 = twap_remove_expired timestamp_ns c; samples = tw_samples c1;
          samples1 = (if samples \<noteq> [] \<and> tw_last_timestamp_ns c1 > 0
                      then butlast samples @ [(last samples)\<lparr>sm_duration_ns := timestamp_ns - tw_last_timestamp_ns c1\<rparr>]
                      else samples)
      in c1\<lparr>tw_samples := samples1 @ [\<lparr>sm_price = price, sm_timestamp_ns = timestamp_ns, sm_duration_ns = 0\<rparr>],
            tw_last_timestamp_ns := timestamp_ns\<rparr>)"

fun twap_sums :: "PriceSample list \<Rightarrow> double \<Rightarrow> u64 \<Rightarrow> double \<times> u64" where
  "twap_sums [] weighted_sum total_duration = (weighted_sum, total_duration)"
| "twap_sums (s # ss) weighted_sum total_duration =
     twap_sums ss (dadd weighted_sum (dmul (sm_price s) (double_of_nat (unat (sm_duration_ns s)))))
       (total_duration + sm_duration_ns s)"

definition get_twap :: "TWAPCalculator \<Rightarrow> double" where
  "get_twap c =
     (if tw_samples c = [] then Fin 0
      else let (weighted_sum, total_duration) = twap_sums (tw_samples c) (Fin 0) 0
           in if total_duration = 0 then sm_price (last (tw_samples c))
              else ddiv weighted_sum (double_of_nat (unat total_duration)))"

definition twap_reset :: "TWAPCalculator \<Rightarrow> TWAPCalculator" where
  "twap_reset c = c\<lparr>tw_samples := [], tw_last_timestamp_ns := 0\<rparr>"

section \<open>Order flow imbalance\<close>

record FlowPoint =
  fp_bid_volume :: double
  fp_ask_volume :: double
  fp_timestamp_ns :: u64

record OrderFlowImbalance =
  of_window_ns :: u64
  of_flows :: "FlowPoint list"
  of_cumulative_bid_volume :: double
  of_cumulative_ask_volume :: double

definition OrderFlowImbalance_new :: "u64 \<Rightarrow> OrderFlowImbalance" where
  "OrderFlowImbalance_new window_ns =
     \<lparr>of_window_ns = window_ns, of_flows = [], of_cumulative_bid_volume = Fin 0, of_cumulative_ask_volume = Fin 0\<rparr>"

fun flow_expire :: "u64 \<Rightarrow> FlowPoint list \<Rightarrow> double \<Rightarrow> double \<Rightarrow> FlowPoint list \<times> double \<times> double" where
  "flow_expire cutoff [] b a = ([], b, a)"
| "flow_expire cutoff (f # fs) b a =
     (if fp_timestamp_ns f < cutoff
      then flow_expire cutoff fs (dsub b (fp_bid_volume f)) (dsub a (fp_ask_volume f))
      else (f # fs, b, a))"

definition flow_remove_expired :: "u64 \<Rightarrow> OrderFlowImbalance \<Rightarrow> OrderFlowImbalance" where
  "flow_remove_expired current_time_ns c =
     (let (fs, b, a) = flow_expire (current_time_ns - of_window_ns c) (of_flows c)
            (of_cumulative_bid_volume c) (of_cumulative_ask_volume c)
      in c\<lparr>of_flows := fs, of_cumulative_bid_volume := b, of_cumulative_ask_volume := a\<rparr>)"

definition sum_quantities :: "PriceLevelSnapshot list \<Rightarrow> double" where
  "sum_quantities ls = fold (\<lambda>l total. dadd total (ps_quantity l)) ls (Fin 0)"

definition flow_update :: "OrderBookSnapshot \<Rightarrow> u64 \<Rightarrow> OrderFlowImbalance \<Rightarrow> OrderFlowImbalance" where
  "flow_update snapshot timestamp_ns c =
     (let c1 = flow_remove_expired timestamp_ns c;
          bid_volume = sum_quantities (sn_bids snapshot); ask_volume = sum_quantities (sn_asks snapshot)
      in c1\<lparr>of_flows := of_flows c1 @
              [\<lparr>fp_bid_volume = bid_volume, fp_ask_volume = ask_volume, fp_timestamp_ns = timestamp_ns\<rparr>],
            of_cumulative_bid_volume := dadd (of_cumulative_bid_volume c1) bid_volume,
            of_cumulative_ask_volume := dadd (of_cumulative_ask_volume c1) ask_volume\<rparr>)"

definition get_imbalance :: "OrderFlowImbalance \<Rightarrow> double" where
  "get_imbalance c =
     (let total = dadd (of_cumulative_bid_volume c) (of_cumulative_ask_volume c)
      in if deq total (Fin 0) then Fin 0
         else ddiv (dsub (of_cumulative_bid_volume c) (of_cumulative_ask_volume c)) total)"

definition get_bid_volume :: "OrderFlowImbalance \<Rightarrow> double" where
  "get_bid_volume c = of_cumulative_bid_volume c"

definition get_ask_volume :: "OrderFlowImbalance \<Rightarrow> double" where
  "get_ask_volume c = of_cumulative_ask_volume c"

definition flow_reset :: "OrderFlowImbalance \<Rightarrow> OrderFlowImbalance" where
  "flow_reset c = c\<lparr>of_flows := [], of_cumulative_bid_volume := Fin 0, of_cumulative_ask_volume := Fin 0\<rparr>"

section \<open>Spread statistics\<close>

record SpreadStats =
  ss_current_spread :: double
  ss_current_spread_bps :: double
  ss_average_spread :: double
  ss_average_spread_bps :: double
  ss_min_spread :: double
  ss_max_spread :: double
  ss_std_dev_spread :: double
  ss_sample_count :: nat

definition SpreadStats_default :: SpreadStats where
  "SpreadStats_default = \<lparr>ss_current_spread = Fin 0, ss_current_spread_bps = Fin 0, ss_average_spread = Fin 0,
     ss_average_spread_bps = Fin 0, ss_min_spread = Fin 0, ss_max_spread = Fin 0, ss_std_dev_spread = Fin 0,
     ss_sample_count = 0\<rparr>"

record SpreadSample =
  sp_bid :: double
  sp_ask :: double
  sp_mid :: double
  sp_spread :: double
  sp_spread_bps :: double
  sp_timestamp_ns :: u64

record SpreadAnalyzer =
  sa_window_ns :: u64
  sa_samples :: "SpreadSample list"

definition SpreadAnalyzer_new :: "u64 \<Rightarrow> SpreadAnalyzer" where
  "SpreadAnalyzer_new window_ns = \<lparr>sa_window_ns = window_ns, sa_samples = []\<rparr>"

definition spread_remove_expired :: "u64 \<Rightarrow> SpreadAnalyzer \<Rightarrow> SpreadAnalyzer" where
  "spread_remove_expired current_time_ns c =
     c\<lparr>sa_samples := dropWhile (\<lambda>s. sp_timestamp_ns s < current_time_ns - sa_window_ns c) (sa_samples c)\<rparr>"

definition spread_sample :: "double \<Rightarrow> double \<Rightarrow> u64 \<Rightarrow> SpreadSample" where
  "spread_sample bid ask timestamp_ns =
     (let mid = ddiv (dadd bid ask) (Fin 2); spread = dsub ask bid
      in \<lparr>sp_bid = bid, sp_ask = ask, sp_mid = mid, sp_spread = spread,
          sp_spread_bps = (if dlt (Fin 0) mid then dmul (ddiv spread mid) (Fin 10000) else Fin 0),
          sp_timestamp_ns = timestamp_ns\<rparr>)"

definition spread_update :: "double \<Rightarrow> double \<Rightarrow> u64 \<Rightarrow> SpreadAnalyzer \<Rightarrow> SpreadAnalyzer" where
  "spread_update bid ask timestamp_ns c =
     (let c1 = spread_remove_expired timestamp_ns c
      in c1\<lparr>sa_samples := sa_samples c1 @ [spread_sample bid ask timestamp_ns]\<rparr>)"

definition calculate_stats :: "SpreadAnalyzer \<Rightarrow> SpreadStats" where
  "calculate_stats c =
     (let samples = sa_samples c in
      if samples = [] then SpreadStats_default
      else let current = last samples; n = double_of_nat (length samples);
               sum_spread = fold (\<lambda>s total. dadd total (sp_spread s)) samples (Fin 0);
               sum_spread_bps = fold (\<lambda>s total. dadd total (sp_spread_bps s)) samples (Fin 0);
               min_spread = fold (\<lambda>s m. dmin m (sp_spread s)) samples DBL_MAX;
               max_spread = fold (\<lambda>s m. dmax m (sp_spread s)) samples DBL_LOWEST;
               average_spread = ddiv sum_spread n;
               variance = fold (\<lambda>s v. let diff = dsub (sp_spread s) average_spread in dadd v (dmul diff diff)) samples (Fin 0)
           in \<lparr>ss_current_spread = sp_spread current, ss_current_spread_bps = sp_spread_bps current,
               ss_average_spread = average_spread, ss_average_spread_bps = ddiv sum_spread_bps n,
               ss_min_spread = min_spread, ss_max_spread = max_spread,
               ss_std_dev_spread = dsqrt (ddiv variance n), ss_sample_count = length samples\<rparr>)"

definition spread_reset :: "SpreadAnalyzer \<Rightarrow> SpreadAnalyzer" where
  "spread_reset c = c\<lparr>sa_samples := []\<rparr>"

section \<open>All analytics of a symbol\<close>

record MarketAnalytics =
  ma_symbol :: string
  ma_vwap :: VWAPCalculator
  ma_twap :: TWAPCalculator
  ma_imbalance :: OrderFlowImbalance
  ma_spread :: SpreadAnalyzer

definition MarketAnalytics_new :: "string \<Rightarrow> MarketAnalytics" where
  "MarketAnalytics_new symbol = \<lparr>ma_symbol = symbol, ma_vwap = VWAPCalculator_new 60000000000,
     ma_twap = TWAPCalculator_new 300000000000, ma_imbalance = OrderFlowImbalance_new 10000000000,
     ma_spread = SpreadAnalyzer_new 60000000000\<rparr>"

definition on_orderbook_update :: "OrderBookSnapshot \<Rightarrow> u64 \<Rightarrow> u64 \<Rightarrow> MarketAnalytics \<Rightarrow> MarketAnalytics" where
  "on_orderbook_update snapshot timestamp_ns flow_time m =
     (let m1 = m\<lparr>ma_imbalance := flow_update snapshot flow_time (ma_imbalance m)\<rparr>
      in case (sn_bids snapshot, sn_asks snapshot) of
           (bid # _, ask # _) \<Rightarrow>
             m1\<lparr>ma_twap := twap_update (ddiv (dadd (ps_price bid) (ps_price ask)) (Fin 2)) timestamp_ns (ma_twap m1),
                ma_spread := spread_update (ps_price bid) (ps_price ask) timestamp_ns (ma_spread m1)\<rparr>
         | _ \<Rightarrow> m1)"

definition on_trade :: "double \<Rightarrow> double \<Rightarrow> u64 \<Rightarrow> MarketAnalytics \<Rightarrow> MarketAnalytics" where
  "on_trade price volume timestamp_ns m = m\<lparr>ma_vwap := vwap_update price volume timestamp_ns (ma_vwap m)\<rparr>"

definition ma_reset :: "MarketAnalytics \<Rightarrow> MarketAnalytics" where
  "ma_reset m = m\<lparr>ma_vwap := vwap_reset (ma_vwap m), ma_twap := twap_reset (ma_twap m),
     ma_imbalance := flow_reset (ma_imbalance m), ma_spread := spread_reset (ma_spread m)\<rparr>"

section \<open>Sliding windows\<close>

lemma u64_diff_mono: "w \<le> a \<Longrightarrow> a \<le> b \<Longrightarrow> a - w \<le> b - w" for a b w :: u64
  by (simp add: word_le_nat_alt unat_sub)

lemma u64_diff_le: "w \<le> a \<Longrightarrow> a - w \<le> a" for a w :: u64
  by (simp add: word_le_nat_alt unat_sub)

text \<open>
  What the \<open>remove_expired\<close> loops keep: in a deque whose timestamps do not decrease, exactly the
  elements that are not older than the cutoff.
\<close>

locale sliding_window =
  fixes stamp :: "'a \<Rightarrow> u64" and expire :: "u64 \<Rightarrow> 'a list \<Rightarrow> 'a list"
  assumes expire_dropWhile: "expire cutoff xs = dropWhile (\<lambda>x. stamp x < cutoff) xs"
begin

definition ordered :: "'a list \<Rightarrow> bool" where
  "ordered xs \<longleftrightarrow> sorted_wrt (\<lambda>x y. stamp x \<le> stamp y) xs"

lemma expire_filter: "ordered xs \<Longrightarrow> expire cutoff xs = filter (\<lambda>x. cutoff \<le> stamp x) xs"
proof (induction xs)
  case (Cons x xs)
  then show ?case
    by (cases "stamp x < cutoff") (auto simp: expire_dropWhile ordered_def not_less intro!: filter_True [symmetric]
        intro: order_trans)
qed (simp add: expire_dropWhile)

lemma ordered_expire: "ordered xs \<Longrightarrow> ordered (expire cutoff xs)"
  by (simp add: expire_filter) (simp add: ordered_def sorted_wrt_filter)

lemma ordered_push: "ordered xs \<Longrightarrow> (\<And>y. y \<in> set xs \<Longrightarrow> stamp y \<le> stamp x) \<Longrightarrow> ordered (xs @ [x])"
  by (simp add: ordered_def sorted_wrt_append)

lemma window_kept:
  assumes "ordered (xs @ [x])" and "\<And>y. y \<in> set (xs @ [x]) \<Longrightarrow> w \<le> stamp y"
  shows "fold (\<lambda>y ys. expire (stamp y - w) ys @ [y]) (xs @ [x]) [] = filter (\<lambda>y. stamp x - w \<le> stamp y) (xs @ [x])"
  using assms
proof (induction xs arbitrary: x rule: rev_induct)
  case Nil
  then show ?case by (simp add: expire_dropWhile u64_diff_le)
next
  case (snoc x' xs)
  let ?ys = "filter (\<lambda>y. stamp x' - w \<le> stamp y) (xs @ [x'])"
  have o: "ordered (xs @ [x'])" using snoc.prems(1) by (simp add: ordered_def sorted_wrt_append)
  have IH: "fold (\<lambda>y ys. expire (stamp y - w) ys @ [y]) (xs @ [x']) [] = ?ys"
    using snoc.prems(2) by (intro snoc.IH o) auto
  have t: "stamp x' - w \<le> stamp x - w"
    using snoc.prems by (intro u64_diff_mono) (auto simp: ordered_def sorted_wrt_append)
  have "expire (stamp x - w) ?ys = filter (\<lambda>y. stamp x - w \<le> stamp y) ?ys"
    using o by (intro expire_filter) (simp only: ordered_def sorted_wrt_filter)
  also have "\<dots> = filter (\<lambda>y. stamp x - w \<le> stamp y) (xs @ [x'])"
    unfolding filter_filter using t by (intro filter_cong) auto
  finally show ?case using IH snoc.prems(2) [of x] by (simp add: u64_diff_le)
qed

lemma expire_wraps: "(\<And>x. x \<in> set xs \<Longrightarrow> stamp x < cutoff) \<Longrightarrow> expire cutoff xs = []"
  by (simp add: expire_dropWhile dropWhile_eq_Nil_conv)

end

lemma vwap_expire_fst: "fst (vwap_expire cutoff ts pv v) = dropWhile (\<lambda>t. tp_timestamp_ns t < cutoff) ts"
  by (induction cutoff ts pv v rule: vwap_expire.induct) auto

lemma flow_expire_fst: "fst (flow_expire cutoff fs b a) = dropWhile (\<lambda>f. fp_timestamp_ns f < cutoff) fs"
  by (induction cutoff fs b a rule: flow_expire.induct) auto

interpretation vwap_win: sliding_window tp_timestamp_ns "\<lambda>cutoff ts. fst (vwap_expire cutoff ts pv v)" for pv v
  by unfold_locales (rule vwap_expire_fst)

interpretation flow_win: sliding_window fp_timestamp_ns "\<lambda>cutoff fs. fst (flow_expire cutoff fs b a)" for b a
  by unfold_locales (rule flow_expire_fst)

interpretation twap_win: sliding_window sm_timestamp_ns "\<lambda>cutoff. dropWhile (\<lambda>s. sm_timestamp_ns s < cutoff)"
  by unfold_locales simp

interpretation spread_win: sliding_window sp_timestamp_ns "\<lambda>cutoff. dropWhile (\<lambda>s. sp_timestamp_ns s < cutoff)"
  by unfold_locales simp

section \<open>VWAP over whole numbers\<close>

text \<open>Trades whose prices and volumes are whole numbers, given as pairs.\<close>

definition whole_trade :: "nat \<Rightarrow> nat \<Rightarrow> u64 \<Rightarrow> TradePoint" where
  "whole_trade p v ts = \<lparr>tp_price = Fin (of_nat p), tp_volume = Fin (of_nat v), tp_timestamp_ns = ts\<rparr>"

definition sum_pv :: "(nat \<times> nat \<times> u64) list \<Rightarrow> nat" where
  "sum_pv xs = (\<Sum>(p, v, ts)\<leftarrow>xs. p * v)"

definition sum_v :: "(nat \<times> nat \<times> u64) list \<Rightarrow> nat" where
  "sum_v xs = (\<Sum>(p, v, ts)\<leftarrow>xs. v)"

definition points :: "(nat \<times> nat \<times> u64) list \<Rightarrow> TradePoint list" where
  "points xs = map (\<lambda>(p, v, ts). whole_trade p v ts) xs"

lemma fl_of_nat: "n \<le> 2 ^ 53 \<Longrightarrow> fl (of_nat n) = Fin (of_nat n)"
  using double_of_nat_small [of n] by (simp add: double_of_nat_def)

lemma dadd_nat: "a + b \<le> 2 ^ 53 \<Longrightarrow> dadd (Fin (of_nat a)) (Fin (of_nat b)) = Fin (of_nat (a + b))"
  using fl_of_nat [of "a + b"] by simp

lemma dmul_nat: "a * b \<le> 2 ^ 53 \<Longrightarrow> dmul (Fin (of_nat a)) (Fin (of_nat b)) = Fin (of_nat (a * b))"
  using fl_of_nat [of "a * b"] by simp

lemma dsub_nat: "b \<le> a \<Longrightarrow> a \<le> 2 ^ 53 \<Longrightarrow> dsub (Fin (of_nat a)) (Fin (of_nat b)) = Fin (of_nat (a - b))"
  using fl_of_nat [of "a - b"] by (simp add: dsub_def of_nat_diff)

lemma sum_Cons:
  "sum_pv ((p, v, ts) # xs) = p * v + sum_pv xs" "sum_v ((p, v, ts) # xs) = v + sum_v xs"
  "sum_pv [] = 0" "sum_v [] = 0"
  by (simp_all add: sum_pv_def sum_v_def)

lemma vwap_expire_exact:
  assumes "sum_pv xs \<le> 2 ^ 53" and "sum_v xs \<le> 2 ^ 53"
  shows "vwap_expire cutoff (points xs) (Fin (of_nat (sum_pv xs))) (Fin (of_nat (sum_v xs))) =
    (let ys = dropWhile (\<lambda>(p, v, ts). ts < cutoff) xs
     in (points ys, Fin (of_nat (sum_pv ys)), Fin (of_nat (sum_v ys))))"
  using assms
proof (induction xs)
  case (Cons x xs)
  obtain p v ts where x: "x = (p, v, ts)" by (cases x)
  have "dsub (Fin (of_nat (sum_pv (x # xs)))) (dmul (Fin (of_nat p)) (Fin (of_nat v))) = Fin (of_nat (sum_pv xs))"
    "dsub (Fin (of_nat (sum_v (x # xs)))) (Fin (of_nat v)) = Fin (of_nat (sum_v xs))"
    using Cons.prems dsub_nat [of "p * v" "sum_pv (x # xs)"] dsub_nat [of v "sum_v (x # xs)"] dmul_nat [of p v]
    by (simp_all add: x sum_Cons)
  with Cons show ?case by (auto simp: x sum_Cons points_def whole_trade_def Let_def)
qed (simp add: points_def sum_Cons Let_def)

definition vwap_of :: "u64 \<Rightarrow> (nat \<times> nat \<times> u64) list \<Rightarrow> VWAPCalculator" where
  "vwap_of w xs = \<lparr>vw_window_ns = w, vw_trades = points xs, vw_cumulative_price_volume = Fin (of_nat (sum_pv xs)),
     vw_cumulative_volume = Fin (of_nat (sum_v xs))\<rparr>"

definition spec_window :: "u64 \<Rightarrow> nat \<times> nat \<times> u64 \<Rightarrow> (nat \<times> nat \<times> u64) list \<Rightarrow> (nat \<times> nat \<times> u64) list" where
  "spec_window w = (\<lambda>(p, v, ts) xs. dropWhile (\<lambda>(p', v', ts'). ts' < ts - w) xs @ [(p, v, ts)])"

lemma sum_append: "sum_pv (xs @ ys) = sum_pv xs + sum_pv ys" "sum_v (xs @ ys) = sum_v xs + sum_v ys"
  by (simp_all add: sum_pv_def sum_v_def)

lemma vwap_update_exact:
  assumes "sum_pv xs \<le> 2 ^ 53" and "sum_v xs \<le> 2 ^ 53"
    and "sum_pv (spec_window w (p, v, ts) xs) \<le> 2 ^ 53" and "sum_v (spec_window w (p, v, ts) xs) \<le> 2 ^ 53"
  shows "vwap_update (Fin (of_nat p)) (Fin (of_nat v)) ts (vwap_of w xs) = vwap_of w (spec_window w (p, v, ts) xs)"
proof -
  let ?ys = "dropWhile (\<lambda>(p', v', ts'). ts' < ts - w) xs"
  have b: "sum_pv ?ys + p * v \<le> 2 ^ 53" "sum_v ?ys + v \<le> 2 ^ 53"
    using assms(3,4) by (simp_all add: spec_window_def sum_append sum_Cons)
  have "vwap_remove_expired ts (vwap_of w xs) = vwap_of w ?ys"
    by (simp add: vwap_remove_expired_def vwap_of_def vwap_expire_exact [OF assms(1,2)] Let_def)
  then show ?thesis
    using b dadd_nat [of "sum_pv ?ys" "p * v"] dadd_nat [of "sum_v ?ys" v] dmul_nat [of p v]
    by (simp add: vwap_update_def Let_def spec_window_def sum_append sum_Cons vwap_of_def points_def whole_trade_def)
qed

fun vwap_run :: "(nat \<times> nat \<times> u64) list \<Rightarrow> VWAPCalculator \<Rightarrow> VWAPCalculator" where
  "vwap_run [] c = c"
| "vwap_run ((p, v, ts) # xs) c = vwap_run xs (vwap_update (Fin (of_nat p)) (Fin (of_nat v)) ts c)"

lemma sum_dropWhile: "sum_pv (dropWhile P xs) \<le> sum_pv xs" "sum_v (dropWhile P xs) \<le> sum_v xs"
  by (induction xs) (auto simp: sum_pv_def sum_v_def trans_le_add2 split: prod.splits)

lemma sum_window:
  "sum_pv (spec_window w x xs) \<le> sum_pv xs + sum_pv [x]" "sum_v (spec_window w x xs) \<le> sum_v xs + sum_v [x]"
  by (cases x; simp add: spec_window_def sum_append sum_dropWhile)+

lemma vwap_run_exact:
  assumes "sum_pv ys + sum_pv xs \<le> 2 ^ 53" and "sum_v ys + sum_v xs \<le> 2 ^ 53"
  shows "vwap_run xs (vwap_of w ys) = vwap_of w (fold (spec_window w) xs ys) \<and>
    sum_pv (fold (spec_window w) xs ys) \<le> 2 ^ 53 \<and> sum_v (fold (spec_window w) xs ys) \<le> 2 ^ 53"
  using assms
proof (induction xs arbitrary: ys)
  case (Cons x xs)
  obtain p v ts where x: "x = (p, v, ts)" by (cases x)
  have b: "sum_pv (spec_window w x ys) + sum_pv xs \<le> 2 ^ 53" "sum_v (spec_window w x ys) + sum_v xs \<le> 2 ^ 53"
    using Cons.prems sum_window [of w x ys] by (simp_all add: x sum_Cons)
  have "vwap_update (Fin (of_nat p)) (Fin (of_nat v)) ts (vwap_of w ys) = vwap_of w (spec_window w x ys)"
    unfolding x using Cons.prems b by (intro vwap_update_exact) (simp_all add: x sum_Cons)
  with Cons.IH [OF b] show ?case by (simp add: x)
qed simp

lemma sum_bounds:
  assumes "\<forall>(p, v, ts) \<in> set xs. m \<le> p" shows "m * sum_v xs \<le> sum_pv xs"
  using assms by (induction xs) (auto simp: sum_Cons add_mult_distrib2 intro!: add_mono mult_le_mono1)

lemma sum_bounds_upper:
  assumes "\<forall>(p, v, ts) \<in> set xs. p \<le> m" shows "sum_pv xs \<le> m * sum_v xs"
  using assms by (induction xs) (auto simp: sum_Cons add_mult_distrib2 intro!: add_mono mult_le_mono1)

lemma vwap_of_value:
  assumes "sum_v xs \<noteq> 0" and "sum_pv xs \<le> 2 ^ 53"
  shows "get_vwap (vwap_of w xs) = Fin (rnd (of_nat (sum_pv xs) / of_nat (sum_v xs)))"
proof -
  have "(of_nat (sum_pv xs) :: rat) / of_nat (sum_v xs) \<le> of_nat (sum_pv xs)"
    using assms(1) by (simp add: divide_le_eq mult_le_cancel_left1)
  also have "\<dots> \<le> of_nat (2 ^ 53)" using assms(2) by (simp only: of_nat_le_iff)
  also have "\<dots> \<le> (2::rat) ^ 1000" by simp
  finally have "\<bar>(of_nat (sum_pv xs) :: rat) / of_nat (sum_v xs)\<bar> \<le> 2 ^ 1000" by simp
  then show ?thesis using assms(1) fl_bounded by (simp add: get_vwap_def vwap_of_def deq_def)
qed

text \<open>
  C32. For whole prices and volumes with total turnover and volume of at most \<open>2 ^ 53\<close>, the running
  sums of the VWAP calculator never drift: after any sequence of trades they are the exact sums over
  the trades in its window, the VWAP is the correctly rounded quotient, and it lies between any
  whole lower and upper bound of the prices in the window.
\<close>

theorem vwap_correct:
  assumes "sum_pv xs \<le> 2 ^ 53" and "sum_v xs \<le> 2 ^ 53"
  shows "let c = vwap_run xs (VWAPCalculator_new w); ws = fold (spec_window w) xs [] in
     vw_trades c = points ws \<and> get_total_volume c = Fin (of_nat (sum_v ws)) \<and>
     (if sum_v ws = 0 then get_vwap c = Fin 0
      else \<exists>x. get_vwap c = Fin x \<and> x = rnd (of_nat (sum_pv ws) / of_nat (sum_v ws)) \<and>
        (\<forall>m \<le> 2 ^ 53. (\<forall>(p, v, ts) \<in> set ws. m \<le> p) \<longrightarrow> of_nat m \<le> x) \<and>
        (\<forall>m \<le> 2 ^ 53. (\<forall>(p, v, ts) \<in> set ws. p \<le> m) \<longrightarrow> x \<le> of_nat m))"
proof -
  define ws where "ws = fold (spec_window w) xs []"
  have new: "VWAPCalculator_new w = vwap_of w []"
    by (simp add: VWAPCalculator_new_def vwap_of_def points_def sum_Cons)
  have run: "vwap_run xs (VWAPCalculator_new w) = vwap_of w ws" "sum_pv ws \<le> 2 ^ 53"
    using vwap_run_exact [of "[]" xs w] assms unfolding new ws_def by (simp_all add: sum_Cons)
  have lo: "of_nat m \<le> rnd (of_nat (sum_pv ws) / of_nat (sum_v ws))"
    if "sum_v ws \<noteq> 0" "m \<le> 2 ^ 53" "\<forall>(p, v, ts) \<in> set ws. m \<le> p" for m
  proof (rule b64.r_ge [OF _ rnd_nat [OF that(2)]])
    have "(of_nat (m * sum_v ws) :: rat) \<le> of_nat (sum_pv ws)"
      using sum_bounds [OF that(3)] by (simp only: of_nat_le_iff)
    then show "of_nat m \<le> (of_nat (sum_pv ws) / of_nat (sum_v ws) :: rat)"
      using that(1) by (simp add: le_divide_eq)
  qed
  have hi: "rnd (of_nat (sum_pv ws) / of_nat (sum_v ws)) \<le> of_nat m"
    if "sum_v ws \<noteq> 0" "m \<le> 2 ^ 53" "\<forall>(p, v, ts) \<in> set ws. p \<le> m" for m
  proof (rule b64.r_le [OF _ rnd_nat [OF that(2)]])
    have "(of_nat (sum_pv ws) :: rat) \<le> of_nat (m * sum_v ws)"
      using sum_bounds_upper [OF that(3)] by (simp only: of_nat_le_iff)
    then show "(of_nat (sum_pv ws) / of_nat (sum_v ws) :: rat) \<le> of_nat m"
      using that(1) by (simp add: divide_le_eq)
  qed
  have v: "vw_trades (vwap_of w ws) = points ws" "get_total_volume (vwap_of w ws) = Fin (of_nat (sum_v ws))"
    "sum_v ws = 0 \<Longrightarrow> get_vwap (vwap_of w ws) = Fin 0"
    by (simp_all add: vwap_of_def get_total_volume_def get_vwap_def deq_def)
  show ?thesis
    unfolding Let_def ws_def [symmetric] run(1)
    using v lo hi vwap_of_value [OF _ run(2), of w] by (cases "sum_v ws = 0") simp_all
qed

text \<open>Witness of C32: 3 units at 100 and 1 unit at 104.\<close>

theorem vwap_correct_witness:
  "let xs = [(100, 3, 61000000000), (104, 1, 62000000000)] in
   sum_pv xs \<le> 2 ^ 53 \<and> sum_v xs \<le> 2 ^ 53 \<and>
   get_total_volume (vwap_run xs (VWAPCalculator_new 60000000000)) = Fin 4"
proof -
  let ?xs = "[(100, 3, 61000000000), (104, 1, 62000000000)] :: (nat \<times> nat \<times> u64) list"
  have b: "sum_pv ?xs \<le> 2 ^ 53" "sum_v ?xs \<le> 2 ^ 53" by (simp_all add: sum_pv_def sum_v_def)
  have "sum_v (fold (spec_window 60000000000) ?xs []) = 4" by (simp add: spec_window_def sum_v_def)
  moreover have "get_total_volume (vwap_run ?xs (VWAPCalculator_new 60000000000)) =
      Fin (of_nat (sum_v (fold (spec_window 60000000000) ?xs [])))"
    using vwap_correct [OF b, of 60000000000] unfolding Let_def by blast
  ultimately show ?thesis using b by (simp only: Let_def) simp
qed

section \<open>What the windows hold\<close>

definition vwap_feed :: "TradePoint list \<Rightarrow> VWAPCalculator \<Rightarrow> VWAPCalculator" where
  "vwap_feed = fold (\<lambda>t. vwap_update (tp_price t) (tp_volume t) (tp_timestamp_ns t))"

definition spread_feed :: "(double \<times> double \<times> u64) list \<Rightarrow> SpreadAnalyzer \<Rightarrow> SpreadAnalyzer" where
  "spread_feed = fold (\<lambda>(bid, ask, ts). spread_update bid ask ts)"

lemma vwap_update_trades:
  "vw_trades (vwap_update p v ts c) = dropWhile (\<lambda>t. tp_timestamp_ns t < ts - vw_window_ns c) (vw_trades c) @
     [\<lparr>tp_price = p, tp_volume = v, tp_timestamp_ns = ts\<rparr>]"
  "vw_window_ns (vwap_update p v ts c) = vw_window_ns c"
  using vwap_expire_fst [of "ts - vw_window_ns c" "vw_trades c" "vw_cumulative_price_volume c" "vw_cumulative_volume c"]
  by (auto simp: vwap_update_def vwap_remove_expired_def Let_def split: prod.splits)

lemma vwap_feed_trades:
  "vw_trades (vwap_feed ts c) =
     fold (\<lambda>t xs. dropWhile (\<lambda>x. tp_timestamp_ns x < tp_timestamp_ns t - vw_window_ns c) xs @ [t]) ts (vw_trades c)"
proof (induction ts arbitrary: c)
  case (Cons t ts)
  let ?c = "vwap_update (tp_price t) (tp_volume t) (tp_timestamp_ns t) c"
  have "vw_trades (vwap_feed (t # ts) c) = vw_trades (vwap_feed ts ?c)" by (simp add: vwap_feed_def)
  then show ?case using Cons [of ?c] by (cases t) (simp add: vwap_update_trades)
qed (simp add: vwap_feed_def)

lemma spread_feed_samples:
  "sa_samples (spread_feed qs c) =
     fold (\<lambda>t xs. dropWhile (\<lambda>x. sp_timestamp_ns x < sp_timestamp_ns t - sa_window_ns c) xs @ [t])
       (map (\<lambda>(bid, ask, ts). spread_sample bid ask ts) qs) (sa_samples c)"
proof (induction qs arbitrary: c)
  case (Cons q qs)
  obtain bid ask ts where q: "q = (bid, ask, ts)" by (cases q)
  have "sa_samples (spread_feed (q # qs) c) = sa_samples (spread_feed qs (spread_update bid ask ts c))"
    by (simp add: spread_feed_def q)
  then show ?case using Cons [of "spread_update bid ask ts c"]
    by (simp add: spread_update_def spread_remove_expired_def q spread_sample_def Let_def)
qed (simp add: spread_feed_def)

text \<open>
  C36. When the clock reads at least the window length and does not run backwards, the
  deque of the VWAP calculator and the deque of the spread analyzer hold, after any number of
  updates, exactly the trades and the quotes that are at most the window length older than the last
  one.
\<close>

theorem analytics_windows:
  assumes "sorted_wrt (\<lambda>a b. tp_timestamp_ns a \<le> tp_timestamp_ns b) (trades @ [t])"
    and "\<forall>x \<in> set (trades @ [t]). w \<le> tp_timestamp_ns x"
    and "sorted_wrt (\<lambda>a b. snd (snd a) \<le> snd (snd b)) (quotes @ [(bid, ask, now)])"
    and "\<forall>(b, a, ts) \<in> set (quotes @ [(bid, ask, now)]). w' \<le> ts"
  shows "vw_trades (vwap_feed (trades @ [t]) (VWAPCalculator_new w)) =
      filter (\<lambda>x. tp_timestamp_ns t - w \<le> tp_timestamp_ns x) (trades @ [t]) \<and>
    sa_samples (spread_feed (quotes @ [(bid, ask, now)]) (SpreadAnalyzer_new w')) =
      map (\<lambda>(b, a, ts). spread_sample b a ts) (filter (\<lambda>(b, a, ts). now - w' \<le> ts) (quotes @ [(bid, ask, now)]))"
proof -
  let ?s = "\<lambda>(b, a, ts). spread_sample b a ts"
  have "vwap_win.ordered (trades @ [t])" using assms(1) by (simp add: vwap_win.ordered_def)
  from vwap_win.window_kept [OF this, of w] assms(2)
  have v: "vw_trades (vwap_feed (trades @ [t]) (VWAPCalculator_new w)) =
      filter (\<lambda>x. tp_timestamp_ns t - w \<le> tp_timestamp_ns x) (trades @ [t])"
    by (simp add: vwap_feed_trades VWAPCalculator_new_def vwap_expire_fst)
  have ts: "sp_timestamp_ns (spread_sample b a t) = t" "sp_timestamp_ns (?s q) = snd (snd q)" for b a t q
    by (simp_all add: spread_sample_def Let_def split: prod.splits)
  have "spread_win.ordered (map ?s quotes @ [?s (bid, ask, now)])"
    using assms(3) by (simp add: spread_win.ordered_def sorted_wrt_append sorted_wrt_map ts)
  moreover have "w' \<le> sp_timestamp_ns y" if "y \<in> set (map ?s quotes @ [?s (bid, ask, now)])" for y
    using that assms(4) by (auto simp: ts)
  ultimately have "sa_samples (spread_feed (quotes @ [(bid, ask, now)]) (SpreadAnalyzer_new w')) =
      filter (\<lambda>x. now - w' \<le> sp_timestamp_ns x) (map ?s (quotes @ [(bid, ask, now)]))"
    using spread_win.window_kept [of "map ?s quotes" "?s (bid, ask, now)" w']
    by (simp add: spread_feed_samples SpreadAnalyzer_new_def ts)
  also have "\<dots> = map ?s (filter (\<lambda>(b, a, ts). now - w' \<le> ts) (quotes @ [(bid, ask, now)]))"
    by (simp add: filter_map comp_def ts case_prod_unfold)
  finally show ?thesis using v by blast
qed

text \<open>Witness of C36: a window of 10 and trades and quotes at 12, 20 and 25.\<close>

theorem analytics_windows_witness:
  "vw_trades (vwap_feed [whole_trade 5 1 12, whole_trade 6 1 20, whole_trade 7 1 25] (VWAPCalculator_new 10)) =
     [whole_trade 6 1 20, whole_trade 7 1 25] \<and>
   length (sa_samples (spread_feed [(Fin 1, Fin 2, 12), (Fin 1, Fin 3, 20), (Fin 2, Fin 3, 25)] (SpreadAnalyzer_new 10))) = 2"
  using analytics_windows [of "[whole_trade 5 1 12, whole_trade 6 1 20]" "whole_trade 7 1 25" 10
      "[(Fin 1, Fin 2, 12), (Fin 1, Fin 3, 20)]" "Fin 2" "Fin 3" 25 10]
  by (simp add: whole_trade_def)

text \<open>
  Before the clock has reached the window length the cutoff wraps around: the second of two
  trades evicts the first one although it lies within the window, and the reported volume is that of
  the second trade alone.
\<close>

theorem vwap_early_eviction:
  assumes "t1 \<le> t2" and "t2 < w" and "p * v \<le> 2 ^ 53" and "v \<le> 2 ^ 53" and "q * u \<le> 2 ^ 53" and "u \<le> 2 ^ 53"
  shows "vwap_run [(p, v, t1), (q, u, t2)] (VWAPCalculator_new w) = vwap_of w [(q, u, t2)] \<and> unat t2 - unat t1 < unat w"
proof -
  have "unat (t2 - w) = 2 ^ 64 + unat t2 - unat w"
    using assms(2) by (simp add: unat_sub_if' word_less_nat_alt not_le)
  moreover have "unat w < 2 ^ 64" using unsigned_less [of w] by simp
  ultimately have "t1 < t2 - w" using assms(1,2) by (simp add: word_less_nat_alt word_le_nat_alt)
  then have w2: "spec_window w (q, u, t2) [(p, v, t1)] = [(q, u, t2)]" by (simp add: spec_window_def)
  have new: "VWAPCalculator_new w = vwap_of w []"
    by (simp add: VWAPCalculator_new_def vwap_of_def points_def sum_Cons)
  have "vwap_update (Fin (of_nat p)) (Fin (of_nat v)) t1 (vwap_of w []) = vwap_of w [(p, v, t1)]"
    using vwap_update_exact [of "[]" w p v t1] assms by (simp add: spec_window_def sum_Cons)
  moreover have "vwap_update (Fin (of_nat q)) (Fin (of_nat u)) t2 (vwap_of w [(p, v, t1)]) = vwap_of w [(q, u, t2)]"
    using vwap_update_exact [of "[(p, v, t1)]" w q u t2] assms w2 by (simp add: sum_Cons)
  ultimately show ?thesis using assms(2) by (simp add: new word_less_nat_alt)
qed

text \<open>Instance: two trades one and two seconds after a clock that starts at zero.\<close>

theorem vwap_early_eviction_witness:
  "vwap_run [(100, 3, 1000000000), (104, 1, 2000000000)] (VWAPCalculator_new 60000000000) =
     vwap_of 60000000000 [(104, 1, 2000000000)]"
  using vwap_early_eviction [of 1000000000 2000000000 60000000000 100 3 104 1] by simp

section \<open>Spread statistics and imbalance\<close>

lemma fold_dmin:
  assumes "a \<noteq> NaN" and "\<forall>s \<in> set ss. f s \<noteq> NaN"
  shows "fold (\<lambda>s m. dmin m (f s)) ss a = Min (insert a (f ` set ss))"
  using assms
proof (induction ss arbitrary: a)
  case (Cons s ss)
  have "dmin a (f s) = min a (f s)" using Cons.prems by (auto simp: dmin_def dlt_iff_less min_def)
  moreover have "min a (f s) \<noteq> NaN" using Cons.prems by (simp add: min_def)
  ultimately show ?case using Cons by (cases "ss = []") (simp_all add: min.assoc)
qed simp

lemma fold_dmax:
  assumes "a \<noteq> NaN" and "\<forall>s \<in> set ss. f s \<noteq> NaN"
  shows "fold (\<lambda>s m. dmax m (f s)) ss a = Max (insert a (f ` set ss))"
  using assms
proof (induction ss arbitrary: a)
  case (Cons s ss)
  have "dmax a (f s) = max a (f s)" using Cons.prems by (auto simp: dmax_def dlt_iff_less max_def)
  moreover have "max a (f s) \<noteq> NaN" using Cons.prems by (simp add: max_def)
  ultimately show ?case using Cons by (cases "ss = []") (simp_all add: max.assoc)
qed simp

lemma finite_double_bounds:
  assumes "rnd x = x" and "\<bar>x\<bar> < 2 ^ 1024"
  shows "\<bar>x\<bar> \<le> (2 ^ 53 - 1) * 2 ^ 971"
proof (cases "x = 0")
  case False
  obtain m where m: "x = of_int m * 2 powi ulp_exp x" "\<bar>m\<bar> \<le> 2 ^ 53" using rnd_form [of x] assms(1) by metis
  have ax: "\<bar>x\<bar> = of_int \<bar>m\<bar> * 2 powi ulp_exp x" by (subst m(1)) (simp add: abs_mult)
  have "2 powi rexp \<bar>x\<bar> \<le> \<bar>x\<bar>" using False by (intro rexp_bounds) simp
  also have "\<dots> < 2 powi 1024" using assms(2) by (simp only: power_int_numeral)
  finally have "rexp \<bar>x\<bar> < 1024" by (simp only: pow2_less_iff)
  then have e: "ulp_exp x \<le> 971" by (simp add: ulp_exp_def)
  show ?thesis
  proof (cases "ulp_exp x = 971")
    case True
    have p: "(2::rat) ^ 1024 = of_int (2 ^ 53) * 2 powi 971"
      by (simp only: power_int_numeral of_int_power of_int_numeral flip: power_add) simp
    have "of_int \<bar>m\<bar> * (2::rat) powi 971 < of_int (2 ^ 53) * 2 powi 971"
      using assms(2) unfolding ax True p .
    then have "(of_int \<bar>m\<bar> :: rat) < of_int (2 ^ 53)" by (simp only: mult_less_cancel_right_pos pow2_pos)
    then have "\<bar>m\<bar> \<le> 2 ^ 53 - 1" by (simp only: of_int_less_iff)
    then have "(of_int \<bar>m\<bar> :: rat) \<le> of_int (2 ^ 53 - 1)" by (simp only: of_int_le_iff)
    then show ?thesis unfolding ax True by (simp only: power_int_numeral) (simp add: mult_right_mono)
  next
    case False
    then have "(2::rat) powi ulp_exp x \<le> 2 powi 970" unfolding pow2_le_iff using e by simp
    moreover have "(of_int \<bar>m\<bar> :: rat) \<le> of_int (2 ^ 53)" using m(2) by (simp only: of_int_le_iff)
    ultimately have "\<bar>x\<bar> \<le> of_int (2 ^ 53) * 2 powi 970" unfolding ax by (intro mult_mono) simp_all
    also have "\<dots> \<le> (2 ^ 53 - 1) * 2 ^ 971" by (simp only: power_int_numeral) simp
    finally show ?thesis .
  qed
qed simp

text \<open>
  For a window that holds at least one quote and whose spreads are finite doubles, the
  statistics report the spread of the latest quote, the number of quotes, and the smallest and the
  largest spread in the window (the sentinels \<open>DBL_MAX\<close> and \<open>lowest()\<close> of the loop never show).
\<close>

theorem spread_statistics_correct:
  assumes "sa_samples c \<noteq> []" and "\<forall>s \<in> set (sa_samples c). is_fin (sp_spread s) \<and> valid (sp_spread s)"
  shows "ss_current_spread (calculate_stats c) = sp_spread (last (sa_samples c)) \<and>
    ss_sample_count (calculate_stats c) = length (sa_samples c) \<and>
    ss_min_spread (calculate_stats c) = Min (sp_spread ` set (sa_samples c)) \<and>
    ss_max_spread (calculate_stats c) = Max (sp_spread ` set (sa_samples c))"
proof -
  let ?S = "sp_spread ` set (sa_samples c)"
  have b: "DBL_LOWEST \<le> x \<and> x \<le> DBL_MAX \<and> x \<noteq> NaN" if "x \<in> ?S" for x
  proof -
    from that assms(2) have v: "is_fin x" "valid x" by auto
    then obtain y where x: "x = Fin y" by (cases x) auto
    have y: "rnd y = y" "\<bar>y\<bar> < 2 ^ 1024" using v(2) unfolding x valid_def by (simp_all only: double.case)
    show ?thesis using finite_double_bounds [OF y] unfolding x DBL_LOWEST_def DBL_MAX_def abs_le_iff
      by (simp only: less_eq_double.simps double.simps minus_le_iff) simp
  qed
  have ne: "finite ?S" "?S \<noteq> {}" using assms(1) by simp_all
  have "Min (insert DBL_MAX ?S) = Min ?S" "Max (insert DBL_LOWEST ?S) = Max ?S"
    using b [OF Min_in [OF ne]] b [OF Max_in [OF ne]]
    by (simp_all only: Min_insert [OF ne] Max_insert [OF ne] min_absorb2 max_absorb2)
  moreover have "DBL_MAX \<noteq> NaN" "DBL_LOWEST \<noteq> NaN" by (simp_all add: DBL_MAX_def DBL_LOWEST_def)
  ultimately show ?thesis
    using b assms(1) fold_dmin [of DBL_MAX "sa_samples c" sp_spread] fold_dmax [of DBL_LOWEST "sa_samples c" sp_spread]
    by (simp add: calculate_stats_def Let_def)
qed

text \<open>Instance: three quotes with spreads 2, 1 and 3.\<close>

theorem spread_statistics_correct_witness:
  "let c = SpreadAnalyzer.make 60 (map (\<lambda>d. SpreadSample.make (Fin 10) (Fin (10 + d)) (Fin 11) (Fin d) (Fin 9) 61) [2, 1, 3]) in
   ss_current_spread (calculate_stats c) = Fin 3 \<and> ss_sample_count (calculate_stats c) = 3 \<and>
   ss_min_spread (calculate_stats c) = Fin 1 \<and> ss_max_spread (calculate_stats c) = Fin 3"
proof -
  define c where
    "c = SpreadAnalyzer.make 60 (map (\<lambda>d. SpreadSample.make (Fin 10) (Fin (10 + d)) (Fin 11) (Fin d) (Fin 9) 61) [2, 1, 3])"
  have c: "sa_samples c \<noteq> []" "length (sa_samples c) = 3" "sp_spread (last (sa_samples c)) = Fin 3"
      "sp_spread ` set (sa_samples c) = {Fin 2, Fin 1, Fin 3}"
    by (simp_all add: c_def SpreadAnalyzer.make_def SpreadSample.make_def)
  have "valid (Fin 1)" "valid (Fin 2)" "valid (Fin 3)"
    using valid_Fin_int [of 1] valid_Fin_int [of 2] valid_Fin_int [of 3] by simp_all
  then have "\<forall>x \<in> sp_spread ` set (sa_samples c). is_fin x \<and> valid x" unfolding c(4) by simp
  then have "\<forall>s \<in> set (sa_samples c). is_fin (sp_spread s) \<and> valid (sp_spread s)" by blast
  from spread_statistics_correct [OF c(1) this] show ?thesis
    unfolding c Let_def c_def [symmetric] by (simp add: min_def max_def)
qed

text \<open>
  When the cumulated bid and ask volumes are finite doubles that are not negative and not
  above \<open>2 ^ 999\<close>, the order flow imbalance lies in \<open>[-1, 1]\<close> with all its roundings; it is not negative
  when the bids dominate, not positive when the asks dominate, and \<open>0\<close> without volume.
\<close>

theorem flow_imbalance_bounded:
  assumes "of_cumulative_bid_volume c = Fin b" and "of_cumulative_ask_volume c = Fin a"
    and "0 \<le> b" and "0 \<le> a" and "b \<le> 2 ^ 999" and "a \<le> 2 ^ 999" and "rnd b = b" and "rnd a = a"
  shows "\<exists>x. get_imbalance c = Fin x \<and> \<bar>x\<bar> \<le> 1 \<and> (a \<le> b \<longrightarrow> 0 \<le> x) \<and> (b \<le> a \<longrightarrow> x \<le> 0) \<and>
    (b = 0 \<and> a = 0 \<longrightarrow> x = 0)"
proof (cases "rnd (b + a) = 0")
  case False
  let ?y = "rnd (b - a) / rnd (b + a)"
  have "(2::rat) ^ 1000 = 2 ^ 999 + 2 ^ 999" by simp
  then have "\<bar>b + a\<bar> \<le> 2 ^ 1000" "\<bar>b - a\<bar> \<le> 2 ^ 1000"
    using assms(3-6) by (simp_all only: abs_le_iff) linarith+
  then have s: "fl (b + a) = Fin (rnd (b + a))" "fl (b - a) = Fin (rnd (b - a))" by (auto intro: fl_bounded)
  have y: "\<bar>?y\<bar> \<le> 1" by (rule b64.r_ratio_exact) (use assms in simp_all)
  also have "(1::rat) \<le> 2 ^ 1000" by simp
  finally have "fl ?y = Fin (rnd ?y)" by (rule fl_bounded)
  then have g: "get_imbalance c = Fin (rnd ?y)"
    using False s by (simp add: get_imbalance_def assms(1,2) deq_def dsub_def)
  have pos: "0 < rnd (b + a)" using False b64.r_nonneg [of "b + a"] assms(3,4) by simp
  have "0 \<le> rnd ?y" if "a \<le> b" using that pos by (intro b64.r_nonneg divide_nonneg_pos) simp_all
  moreover have "rnd ?y \<le> 0" if "b \<le> a"
    using that pos b64.r_nonneg [of "a - b"] rnd_minus [of "b - a"]
    by (intro b64.r_le) (simp_all add: divide_le_0_iff)
  moreover have "\<bar>rnd ?y\<bar> \<le> 1" by (rule b64.r_ratio) (use assms in simp_all)
  ultimately show ?thesis using g False by auto
qed (use assms in \<open>auto simp: get_imbalance_def deq_def fl_def Let_def\<close>)

text \<open>Instance: three times as much bid as ask volume.\<close>

theorem flow_imbalance_bounded_witness:
  "\<exists>x. get_imbalance ((OrderFlowImbalance_new 10)\<lparr>of_cumulative_bid_volume := Fin 3, of_cumulative_ask_volume := Fin 1\<rparr>) = Fin x \<and>
    \<bar>x\<bar> \<le> 1 \<and> 0 \<le> x"
  using flow_imbalance_bounded
    [of "(OrderFlowImbalance_new 10)\<lparr>of_cumulative_bid_volume := Fin 3, of_cumulative_ask_volume := Fin 1\<rparr>" 3 1]
    rnd_int [of 1] rnd_int [of 3] by auto

section \<open>Durations of the time-weighted price\<close>

definition twap_feed :: "(double \<times> u64) list \<Rightarrow> TWAPCalculator \<Rightarrow> TWAPCalculator" where
  "twap_feed = fold (\<lambda>(price, ts). twap_update price ts)"

fun timed :: "(double \<times> u64) list \<Rightarrow> PriceSample list" where
  "timed [] = []"
| "timed [(p, t)] = [\<lparr>sm_price = p, sm_timestamp_ns = t, sm_duration_ns = 0\<rparr>]"
| "timed ((p, t) # (p', t') # xs) = \<lparr>sm_price = p, sm_timestamp_ns = t, sm_duration_ns = t' - t\<rparr> # timed ((p', t') # xs)"

lemma timed_eq_Nil [simp]: "timed xs = [] \<longleftrightarrow> xs = []"
  by (cases xs rule: timed.cases) auto

lemma timed_dropWhile: "dropWhile (\<lambda>s. sm_timestamp_ns s < c) (timed xs) = timed (dropWhile (\<lambda>(p, t). t < c) xs)"
  by (induction xs rule: timed.induct) auto

lemma timed_snoc:
  "xs \<noteq> [] \<Longrightarrow> timed (xs @ [(p, t)]) =
     butlast (timed xs) @ [(last (timed xs))\<lparr>sm_duration_ns := t - snd (last xs)\<rparr>] @
       [\<lparr>sm_price = p, sm_timestamp_ns = t, sm_duration_ns = 0\<rparr>]"
  by (induction xs rule: timed.induct) auto

lemma twap_sums_duration: "snd (twap_sums (timed xs) ws d) = (if xs = [] then d else d + (snd (last xs) - snd (hd xs)))"
  by (induction xs arbitrary: ws d rule: timed.induct) auto

definition twap_window :: "u64 \<Rightarrow> double \<times> u64 \<Rightarrow> (double \<times> u64) list \<Rightarrow> (double \<times> u64) list" where
  "twap_window w = (\<lambda>(p, t) xs. dropWhile (\<lambda>(p', t'). t' < t - w) xs @ [(p, t)])"

lemma twap_update_timed:
  assumes "tw_samples c = timed xs" and "xs \<noteq> [] \<Longrightarrow> tw_last_timestamp_ns c = snd (last xs) \<and> 0 < snd (last xs)"
  shows "tw_samples (twap_update p t c) = timed (twap_window (tw_window_ns c) (p, t) xs)"
    and "tw_last_timestamp_ns (twap_update p t c) = t" and "tw_window_ns (twap_update p t c) = tw_window_ns c"
proof -
  let ?ys = "dropWhile (\<lambda>(p', t'). t' < t - tw_window_ns c) xs"
  have "?ys \<noteq> [] \<Longrightarrow> last ?ys = last xs" by (metis last_appendR takeWhile_dropWhile_id)
  then have "?ys \<noteq> [] \<Longrightarrow> tw_last_timestamp_ns c = snd (last ?ys) \<and> 0 < snd (last ?ys)"
    using assms(2) by (cases "xs = []") simp_all
  note ys = this
  let ?new = "\<lparr>sm_price = p, sm_timestamp_ns = t, sm_duration_ns = 0\<rparr>"
  have "tw_samples (twap_update p t c) =
      (if ?ys \<noteq> [] \<and> tw_last_timestamp_ns c > 0
       then butlast (timed ?ys) @ [(last (timed ?ys))\<lparr>sm_duration_ns := t - tw_last_timestamp_ns c\<rparr>]
       else timed ?ys) @ [?new]"
    unfolding twap_update_def twap_remove_expired_def Let_def by (simp add: assms(1) timed_dropWhile del: dropWhile_eq_Nil_conv)
  also have "\<dots> = timed (?ys @ [(p, t)])"
  proof (cases "?ys = []")
    case True
    then show ?thesis unfolding True by simp
  next
    case False
    show ?thesis using ys [OF False] False unfolding timed_snoc [OF False] by (simp del: dropWhile_eq_Nil_conv)
  qed
  finally show "tw_samples (twap_update p t c) = timed (twap_window (tw_window_ns c) (p, t) xs)"
    by (simp add: twap_window_def)
qed (simp_all add: twap_update_def twap_remove_expired_def Let_def)

text \<open>
  For quotes with positive timestamps the TWAP calculator weighs each price in its window by the
  time until the next quote (the latest one by zero), whatever was evicted before, and the total
  duration it divides by is the time from the oldest to the latest quote of the window.
\<close>

theorem twap_durations:
  assumes "\<forall>(p, t) \<in> set xs. 0 < t"
  shows "let c = twap_feed xs (TWAPCalculator_new w); ws = fold (twap_window w) xs [] in
     tw_samples c = timed ws \<and>
     snd (twap_sums (tw_samples c) (Fin 0) 0) = (if ws = [] then 0 else snd (last ws) - snd (hd ws))"
proof -
  have "tw_samples (twap_feed xs c) = timed (fold (twap_window (tw_window_ns c)) xs ys)"
    if "tw_samples c = timed ys" "ys \<noteq> [] \<Longrightarrow> tw_last_timestamp_ns c = snd (last ys) \<and> 0 < snd (last ys)" for c ys
    using assms that
  proof (induction xs arbitrary: c ys)
    case (Cons x xs)
    obtain p t where x: "x = (p, t)" by (cases x)
    note u = twap_update_timed [OF Cons.prems(2,3), of p t]
    have l: "last (twap_window (tw_window_ns c) (p, t) ys) = (p, t)" by (simp add: twap_window_def)
    have "tw_samples (twap_feed xs (twap_update p t c)) =
        timed (fold (twap_window (tw_window_ns (twap_update p t c))) xs (twap_window (tw_window_ns c) (p, t) ys))"
      using Cons.prems(1) u l by (intro Cons.IH) (auto simp: x)
    then show ?case by (simp add: twap_feed_def x u)
  qed (simp add: twap_feed_def)
  from this [of "TWAPCalculator_new w" "[]"] show ?thesis
    by (simp add: TWAPCalculator_new_def Let_def twap_sums_duration)
qed

text \<open>Instance: three quotes, the first of which leaves the window.\<close>

theorem twap_durations_witness:
  "(let c = twap_feed [(Fin 1, 100), (Fin 2, 130), (Fin 3, 170)] (TWAPCalculator_new 50) in
    map sm_duration_ns (tw_samples c) = [40, 0] \<and> snd (twap_sums (tw_samples c) (Fin 0) 0) = 40)"
proof -
  have "fold (twap_window 50) [(Fin 1, 100), (Fin 2, 130), (Fin 3, 170)] [] = [(Fin 2, 130), (Fin 3, 170)]"
    by (simp add: twap_window_def)
  then show ?thesis
    using twap_durations [of "[(Fin 1, 100), (Fin 2, 130), (Fin 3, 170)]" 50] by (simp add: Let_def)
qed

end
