(* ===== verification/Lock_Free_Queue.thy ===== *)
theory Lock_Free_Queue
  imports Prelude
begin

text \<open>
  The class \<open>LockFreeQueue<T>\<close> of \<open>include/utils/lock_free_queue.hpp\<close>: a linked queue with a dummy
  node, shared by any number of threads.

  \<^item> \<open>lfq_step\<close> is one atomic action of one thread: between two actions every other thread may run.
    A call is a value of \<open>lfq_pc\<close>, with the local variables of the C++ function at that point. A
    \<open>compare_exchange_weak\<close> may fail spuriously (the argument \<open>spurious\<close>). Access to a deleted node is
    the error \<open>UB_use_after_free\<close>.
  \<^item> The retired nodes are a list of their addresses; the \<open>RetiredNode\<close> cells belong to that list only.
  \<^item> The memory orders are taken as sequentially consistent.
  \<^item> \<open>lfq_reach\<close> interleaves the threads. A run is \<open>careful\<close> when a thread that takes the retired list
    to delete it does so only while no other thread still holds a pointer to one of its nodes: what
    the comment in \<open>try_reclaim\<close> takes for granted.
  \<^item> In a careful run nothing deleted is touched, and the queue is linearizable: each call takes effect
    at one action between its start and its end, and the effects are those of a FIFO list.
\<close>

section \<open>The queue\<close>

record 'a Node =
  nd_data :: "'a option"
  nd_next :: "nat option"

record 'a LockFreeQueue =
  lq_heap :: "nat \<rightharpoonup> 'a Node"
  lq_head :: nat
  lq_tail :: nat
  lq_size :: u64
  lq_retired :: "nat list"
  lq_retired_count :: u64

definition LockFreeQueue_new :: "nat \<Rightarrow> 'a LockFreeQueue" where
  "LockFreeQueue_new dummy =
     \<lparr>lq_heap = [dummy \<mapsto> \<lparr>nd_data = None, nd_next = None\<rparr>], lq_head = dummy, lq_tail = dummy, lq_size = 0,
      lq_retired = [], lq_retired_count = 0\<rparr>"

definition lfq_empty :: "'a LockFreeQueue \<Rightarrow> bool result" where
  "lfq_empty q = (case lq_heap q (lq_head q) of None \<Rightarrow> Inl UB_use_after_free | Some nd \<Rightarrow> Inr (nd_next nd = None))"

definition lfq_size :: "'a LockFreeQueue \<Rightarrow> u64" where
  "lfq_size q = lq_size q"

text \<open>The destructor: the loop over the nodes from \<open>head_\<close> on, then the loop over the retired list.\<close>

partial_function (option) delete_nodes :: "(nat \<rightharpoonup> 'a Node) \<Rightarrow> nat option \<Rightarrow> (nat \<rightharpoonup> 'a Node) result option" where
  "delete_nodes h old_head = (case old_head of
       None \<Rightarrow> Some (Inr h)
     | Some a \<Rightarrow> (case h a of None \<Rightarrow> Some (Inl UB_use_after_free) | Some nd \<Rightarrow> delete_nodes (h(a := None)) (nd_next nd)))"

fun delete_retired :: "(nat \<rightharpoonup> 'a Node) \<Rightarrow> nat list \<Rightarrow> (nat \<rightharpoonup> 'a Node) result" where
  "delete_retired h [] = Inr h"
| "delete_retired h (a # as) = (if h a = None then Inl UB_use_after_free else delete_retired (h(a := None)) as)"

definition lfq_destroy :: "'a LockFreeQueue \<Rightarrow> (nat \<rightharpoonup> 'a Node) result option" where
  "lfq_destroy q = map_option (\<lambda>r. bindE r (\<lambda>h. delete_retired h (lq_retired q))) (delete_nodes (lq_heap q) (Some (lq_head q)))"

definition reclaim_threshold :: u64 where
  "reclaim_threshold = 100"

text \<open>
  The points between two atomic actions of a call. \<open>PushLoop\<close> is the head of the loop of \<open>push\<close> with the
  new node; \<open>PushNext\<close> has read \<open>tail_\<close>, \<open>PushCheck\<close> has read \<open>tail->next\<close>, \<open>PushCas\<close> has seen \<open>tail_\<close>
  unchanged, \<open>PushSwing\<close> has linked the node, \<open>PushSize\<close> has tried to swing the tail. \<open>PopLoop\<close> to
  \<open>PopCas\<close> are the loop of \<open>pop\<close>, \<open>PopSize\<close> follows the successful swing of \<open>head_\<close>, \<open>PopRetire\<close> and
  \<open>PopCount\<close> are \<open>retire_node\<close>, \<open>PopReclaim\<close> to \<open>PopDelete\<close> are \<open>try_reclaim\<close>.
\<close>

datatype 'a lfq_pc =
    Idle
  | PushLoop nat
  | PushNext nat nat
  | PushCheck nat nat "nat option"
  | PushCas nat nat "nat option"
  | PushSwing nat nat
  | PushSize
  | PushDone
  | PopLoop
  | PopTail nat
  | PopNext nat nat
  | PopCheck nat nat "nat option"
  | PopHelp nat nat
  | PopData nat nat
  | PopCas nat nat "'a option"
  | PopSize nat "'a option"
  | PopRetire nat "'a option"
  | PopCount "'a option"
  | PopReclaim "'a option"
  | PopGrab "'a option"
  | PopReset "'a option" "nat list"
  | PopDelete "'a option" "nat list"
  | PopDone "'a option"

text \<open>What an action does to the abstract queue, if anything.\<close>

datatype 'a lfq_event = Quiet | LinPush 'a | LinPop 'a | SawEmpty

definition pop_return :: "'a option \<Rightarrow> 'a lfq_pc" where
  "pop_return data = (case data of None \<Rightarrow> PopLoop | Some v \<Rightarrow> PopDone (Some v))"

definition lin_of :: "('a \<Rightarrow> 'a lfq_event) \<Rightarrow> 'a option \<Rightarrow> 'a lfq_event" where
  "lin_of f data = (case data of None \<Rightarrow> Quiet | Some v \<Rightarrow> f v)"

definition set_next :: "nat \<Rightarrow> nat \<Rightarrow> 'a LockFreeQueue \<Rightarrow> 'a LockFreeQueue" where
  "set_next a n q = (case lq_heap q a of None \<Rightarrow> q | Some nd \<Rightarrow> q\<lparr>lq_heap := (lq_heap q)(a \<mapsto> nd\<lparr>nd_next := Some n\<rparr>)\<rparr>)"

definition node_data :: "'a LockFreeQueue \<Rightarrow> nat \<Rightarrow> 'a option" where
  "node_data q a = Option.bind (lq_heap q a) nd_data"

definition cas_tail :: "bool \<Rightarrow> nat \<Rightarrow> nat \<Rightarrow> 'a LockFreeQueue \<Rightarrow> 'a LockFreeQueue" where
  "cas_tail spurious expected desired q =
     (if \<not> spurious \<and> lq_tail q = expected then q\<lparr>lq_tail := desired\<rparr> else q)"

fun push_step :: "bool \<Rightarrow> 'a LockFreeQueue \<Rightarrow> 'a lfq_pc \<Rightarrow> ('a LockFreeQueue \<times> 'a lfq_pc \<times> 'a lfq_event) result" where
  "push_step spurious q (PushLoop n) = Inr (q, PushNext n (lq_tail q), Quiet)"
| "push_step spurious q (PushNext n tail) =
     (case lq_heap q tail of None \<Rightarrow> Inl UB_use_after_free | Some nd \<Rightarrow> Inr (q, PushCheck n tail (nd_next nd), Quiet))"
| "push_step spurious q (PushCheck n tail nxt) =
     Inr (q, if tail = lq_tail q then PushCas n tail nxt else PushLoop n, Quiet)"
| "push_step spurious q (PushCas n tail None) =
     (case lq_heap q tail of None \<Rightarrow> Inl UB_use_after_free
      | Some nd \<Rightarrow> if \<not> spurious \<and> nd_next nd = None
          then Inr (set_next tail n q, PushSwing n tail, lin_of LinPush (node_data q n))
          else Inr (q, PushLoop n, Quiet))"
| "push_step spurious q (PushCas n tail (Some x)) = Inr (cas_tail spurious tail x q, PushLoop n, Quiet)"
| "push_step spurious q (PushSwing n tail) = Inr (cas_tail spurious tail n q, PushSize, Quiet)"
| "push_step spurious q PushSize = Inr (q\<lparr>lq_size := lq_size q + 1\<rparr>, PushDone, Quiet)"
| "push_step spurious q pc = Inr (q, pc, Quiet)"

fun pop_step :: "bool \<Rightarrow> 'a LockFreeQueue \<Rightarrow> 'a lfq_pc \<Rightarrow> ('a LockFreeQueue \<times> 'a lfq_pc \<times> 'a lfq_event) result" where
  "pop_step spurious q PopLoop = Inr (q, PopTail (lq_head q), Quiet)"
| "pop_step spurious q (PopTail head) = Inr (q, PopNext head (lq_tail q), Quiet)"
| "pop_step spurious q (PopNext head tail) =
     (case lq_heap q head of None \<Rightarrow> Inl UB_use_after_free
      | Some nd \<Rightarrow> Inr (q, PopCheck head tail (nd_next nd), if head = tail \<and> nd_next nd = None then SawEmpty else Quiet))"
| "pop_step spurious q (PopCheck head tail nxt) =
     Inr (q, if head = lq_head q
             then (case nxt of None \<Rightarrow> if head = tail then PopDone None else PopLoop
                   | Some x \<Rightarrow> if head = tail then PopHelp tail x else PopData head x)
             else PopLoop, Quiet)"
| "pop_step spurious q (PopHelp tail x) = Inr (cas_tail spurious tail x q, PopLoop, Quiet)"
| "pop_step spurious q (PopData head x) =
     (case lq_heap q x of None \<Rightarrow> Inl UB_use_after_free | Some nd \<Rightarrow> Inr (q, PopCas head x (nd_data nd), Quiet))"
| "pop_step spurious q (PopCas head x data) =
     (if \<not> spurious \<and> lq_head q = head then Inr (q\<lparr>lq_head := x\<rparr>, PopSize head data, lin_of LinPop data)
      else Inr (q, PopLoop, Quiet))"
| "pop_step spurious q (PopSize head data) = Inr (q\<lparr>lq_size := lq_size q - 1\<rparr>, PopRetire head data, Quiet)"
| "pop_step spurious q (PopRetire head data) = Inr (q\<lparr>lq_retired := head # lq_retired q\<rparr>, PopCount data, Quiet)"
| "pop_step spurious q (PopCount data) = Inr (q\<lparr>lq_retired_count := lq_retired_count q + 1\<rparr>, PopReclaim data, Quiet)"
| "pop_step spurious q (PopReclaim data) =
     Inr (q, if lq_retired_count q < reclaim_threshold then pop_return data else PopGrab data, Quiet)"
| "pop_step spurious q (PopGrab data) =
     Inr (q\<lparr>lq_retired := []\<rparr>, if lq_retired q = [] then pop_return data else PopReset data (lq_retired q), Quiet)"
| "pop_step spurious q (PopReset data xs) = Inr (q\<lparr>lq_retired_count := 0\<rparr>, PopDelete data xs, Quiet)"
| "pop_step spurious q (PopDelete data []) = Inr (q, pop_return data, Quiet)"
| "pop_step spurious q (PopDelete data (x # xs)) =
     (if lq_heap q x = None then Inl UB_use_after_free
      else Inr (q\<lparr>lq_heap := (lq_heap q)(x := None)\<rparr>, PopDelete data xs, Quiet))"
| "pop_step spurious q pc = Inr (q, pc, Quiet)"

fun is_push :: "'a lfq_pc \<Rightarrow> bool" where
  "is_push (PushLoop n) = True"
| "is_push (PushNext n tail) = True"
| "is_push (PushCheck n tail nxt) = True"
| "is_push (PushCas n tail nxt) = True"
| "is_push (PushSwing n tail) = True"
| "is_push PushSize = True"
| "is_push _ = False"

definition lfq_step :: "bool \<Rightarrow> 'a LockFreeQueue \<Rightarrow> 'a lfq_pc \<Rightarrow> ('a LockFreeQueue \<times> 'a lfq_pc \<times> 'a lfq_event) result" where
  "lfq_step spurious q pc = (if is_push pc then push_step spurious q pc else pop_step spurious q pc)"

section \<open>Interleaving\<close>

text \<open>The shared pointers a thread may still follow or compare.\<close>

fun pins :: "'a lfq_pc \<Rightarrow> nat set" where
  "pins (PushNext n tail) = {tail}"
| "pins (PushCheck n tail nxt) = {tail}"
| "pins (PushCas n tail nxt) = {tail}"
| "pins (PushSwing n tail) = {tail}"
| "pins (PopTail head) = {head}"
| "pins (PopNext head tail) = {head}"
| "pins (PopCheck head tail nxt) = {head}"
| "pins (PopHelp tail x) = {tail}"
| "pins (PopData head x) = {head, x}"
| "pins (PopCas head x data) = {head}"
| "pins _ = {}"

datatype 'a lfq_label =
    CallPush 'a
  | CallPop
  | Act "'a lfq_event"
  | ReturnPush
  | ReturnPop "'a option"

record 'a lfq_sys =
  ls_queue :: "'a LockFreeQueue"
  ls_pc :: "nat \<Rightarrow> 'a lfq_pc"
  ls_trace :: "(nat \<times> 'a lfq_label) list"

definition reclaim_ok :: "'a lfq_sys \<Rightarrow> nat \<Rightarrow> bool" where
  "reclaim_ok s t \<longleftrightarrow> (case ls_pc s t of
       PopGrab d \<Rightarrow> \<forall>t'. t' \<noteq> t \<longrightarrow> pins (ls_pc s t') \<inter> set (lq_retired (ls_queue s)) = {}
     | _ \<Rightarrow> True)"

definition goto :: "nat \<Rightarrow> 'a lfq_pc \<Rightarrow> 'a lfq_label \<Rightarrow> 'a LockFreeQueue \<Rightarrow> 'a lfq_sys \<Rightarrow> 'a lfq_sys" where
  "goto t pc l q s = \<lparr>ls_queue = q, ls_pc = (ls_pc s)(t := pc), ls_trace = ls_trace s @ [(t, l)]\<rparr>"

inductive lfq_reach :: "bool \<Rightarrow> 'a lfq_sys \<Rightarrow> bool" for careful where
  init: "lfq_reach careful \<lparr>ls_queue = LockFreeQueue_new dummy, ls_pc = (\<lambda>_. Idle), ls_trace = []\<rparr>"
| push: "lfq_reach careful s \<Longrightarrow> ls_pc s t = Idle \<Longrightarrow> lq_heap (ls_queue s) n = None \<Longrightarrow>
    lfq_reach careful (goto t (PushLoop n) (CallPush v)
      ((ls_queue s)\<lparr>lq_heap := (lq_heap (ls_queue s))(n \<mapsto> \<lparr>nd_data = Some v, nd_next = None\<rparr>)\<rparr>) s)"
| pop: "lfq_reach careful s \<Longrightarrow> ls_pc s t = Idle \<Longrightarrow> lfq_reach careful (goto t PopLoop CallPop (ls_queue s) s)"
| act: "lfq_reach careful s \<Longrightarrow> lfq_step spurious (ls_queue s) (ls_pc s t) = Inr (q, pc, ev) \<Longrightarrow>
    (careful \<Longrightarrow> reclaim_ok s t) \<Longrightarrow> lfq_reach careful (goto t pc (Act ev) q s)"
| ret_push: "lfq_reach careful s \<Longrightarrow> ls_pc s t = PushDone \<Longrightarrow>
    lfq_reach careful (goto t Idle ReturnPush (ls_queue s) s)"
| ret_pop: "lfq_reach careful s \<Longrightarrow> ls_pc s t = PopDone r \<Longrightarrow>
    lfq_reach careful (goto t Idle (ReturnPop r) (ls_queue s) s)"

section \<open>Linearizability, stated\<close>

text \<open>The abstract queue: the effects of a trace on a list.\<close>

fun fifo_next :: "'a lfq_label \<Rightarrow> 'a list option \<Rightarrow> 'a list option" where
  "fifo_next (Act (LinPush v)) (Some xs) = Some (xs @ [v])"
| "fifo_next (Act (LinPop v)) (Some xs) = (case xs of [] \<Rightarrow> None | x # ys \<Rightarrow> if x = v then Some ys else None)"
| "fifo_next (Act SawEmpty) (Some xs) = (if xs = [] then Some xs else None)"
| "fifo_next _ m = m"

definition fifo_replay :: "(nat \<times> 'a lfq_label) list \<Rightarrow> 'a list option" where
  "fifo_replay tr = fold (\<lambda>(t, l). fifo_next l) tr (Some [])"

text \<open>
  Where a thread stands in its current call: a push must take effect exactly once, with its
  argument, before it returns; a pop that returns a value must have taken exactly that value once, and
  one that returns nothing must have seen the queue empty and taken nothing.
\<close>

datatype 'a lfq_pending = NoCall | PendingPush 'a | PushTaken | PendingPop bool | PopTaken 'a | Illegal

fun pend_next :: "'a lfq_label \<Rightarrow> 'a lfq_pending \<Rightarrow> 'a lfq_pending" where
  "pend_next (CallPush v) NoCall = PendingPush v"
| "pend_next CallPop NoCall = PendingPop False"
| "pend_next (Act (LinPush v)) (PendingPush w) = (if v = w then PushTaken else Illegal)"
| "pend_next (Act (LinPop v)) (PendingPop b) = PopTaken v"
| "pend_next (Act SawEmpty) (PendingPop b) = PendingPop True"
| "pend_next (Act Quiet) p = p"
| "pend_next ReturnPush PushTaken = NoCall"
| "pend_next (ReturnPop (Some v)) (PopTaken w) = (if v = w then NoCall else Illegal)"
| "pend_next (ReturnPop None) (PendingPop True) = NoCall"
| "pend_next _ _ = Illegal"

definition pending :: "nat \<Rightarrow> (nat \<times> 'a lfq_label) list \<Rightarrow> 'a lfq_pending" where
  "pending t tr = fold (\<lambda>(u, l) p. if u = t then pend_next l p else p) tr NoCall"

lemma fifo_replay_snoc [simp]: "fifo_replay (tr @ [(t, l)]) = fifo_next l (fifo_replay tr)"
  by (simp add: fifo_replay_def)

lemma pending_snoc [simp]: "pending t (tr @ [(u, l)]) = (if u = t then pend_next l (pending t tr) else pending t tr)"
  by (simp add: pending_def)

section \<open>The invariant\<close>

definition next_of :: "(nat \<rightharpoonup> 'a Node) \<Rightarrow> nat \<Rightarrow> nat option" where
  "next_of h a = Option.bind (h a) nd_next"

fun linked :: "(nat \<rightharpoonup> 'a Node) \<Rightarrow> nat list \<Rightarrow> bool" where
  "linked h [] = False"
| "linked h [x] = (h x \<noteq> None \<and> next_of h x = None)"
| "linked h (x # y # xs) = (next_of h x = Some y \<and> linked h (y # xs))"

definition live :: "(nat \<rightharpoonup> 'a Node) \<Rightarrow> nat list \<Rightarrow> nat \<Rightarrow> bool" where
  "live h cur x \<longleftrightarrow> (h x \<noteq> None \<and> x \<in> set cur) \<or> next_of h x \<noteq> None"

definition fresh_node :: "(nat \<rightharpoonup> 'a Node) \<Rightarrow> nat \<Rightarrow> bool" where
  "fresh_node h n \<longleftrightarrow> (\<exists>v. h n = Some \<lparr>nd_data = Some v, nd_next = None\<rparr>)"

fun owned_nodes :: "'a lfq_pc \<Rightarrow> nat list" where
  "owned_nodes (PushLoop n) = [n]"
| "owned_nodes (PushNext n tail) = [n]"
| "owned_nodes (PushCheck n tail nxt) = [n]"
| "owned_nodes (PushCas n tail nxt) = [n]"
| "owned_nodes (PopSize head data) = [head]"
| "owned_nodes (PopRetire head data) = [head]"
| "owned_nodes (PopReset data xs) = xs"
| "owned_nodes (PopDelete data xs) = xs"
| "owned_nodes _ = []"

fun grabbed :: "'a lfq_pc \<Rightarrow> nat list" where
  "grabbed (PopReset data xs) = xs"
| "grabbed (PopDelete data xs) = xs"
| "grabbed _ = []"

text \<open>What a thread knows about the nodes in its local variables, at each point of its call.\<close>

fun knows :: "(nat \<rightharpoonup> 'a Node) \<Rightarrow> nat \<Rightarrow> nat \<Rightarrow> nat list \<Rightarrow> 'a lfq_pc \<Rightarrow> bool" where
  "knows h hq tq cur (PushLoop n) = fresh_node h n"
| "knows h hq tq cur (PushNext n tail) = (fresh_node h n \<and> live h cur tail)"
| "knows h hq tq cur (PushCheck n tail nxt) = (fresh_node h n \<and> live h cur tail \<and> (nxt \<noteq> None \<longrightarrow> next_of h tail = nxt))"
| "knows h hq tq cur (PushCas n tail nxt) = (fresh_node h n \<and> live h cur tail \<and> (nxt \<noteq> None \<longrightarrow> next_of h tail = nxt))"
| "knows h hq tq cur (PushSwing n tail) = (next_of h tail = Some n)"
| "knows h hq tq cur (PopTail head) = (live h cur head \<and> head \<notin> set (tl cur))"
| "knows h hq tq cur (PopNext head tail) = (live h cur head \<and> head \<notin> set (tl cur) \<and> (head \<noteq> tail \<longrightarrow> head = hq \<longrightarrow> tq \<noteq> head))"
| "knows h hq tq cur (PopCheck head tail nxt) = (live h cur head \<and> head \<notin> set (tl cur) \<and>
     (head \<noteq> tail \<longrightarrow> head = hq \<longrightarrow> tq \<noteq> head) \<and> (nxt \<noteq> None \<longrightarrow> next_of h head = nxt))"
| "knows h hq tq cur (PopHelp tail x) = (next_of h tail = Some x)"
| "knows h hq tq cur (PopData head x) = (next_of h head = Some x \<and> head \<notin> set (tl cur) \<and> live h cur x \<and>
     (head = hq \<longrightarrow> tq \<noteq> head))"
| "knows h hq tq cur (PopCas head x data) = (next_of h head = Some x \<and> head \<notin> set (tl cur) \<and>
     (head = hq \<longrightarrow> Option.bind (h x) nd_data = data \<and> tq \<noteq> head))"
| "knows h hq tq cur (PopSize head data) = (next_of h head \<noteq> None \<and> data \<noteq> None)"
| "knows h hq tq cur (PopRetire head data) = (next_of h head \<noteq> None \<and> data \<noteq> None)"
| "knows h hq tq cur (PopCount data) = (data \<noteq> None)"
| "knows h hq tq cur (PopReclaim data) = (data \<noteq> None)"
| "knows h hq tq cur (PopGrab data) = (data \<noteq> None)"
| "knows h hq tq cur (PopReset data xs) = (data \<noteq> None)"
| "knows h hq tq cur (PopDelete data xs) = (data \<noteq> None)"
| "knows h hq tq cur _ = True"

definition queue_inv :: "'a LockFreeQueue \<Rightarrow> nat list \<Rightarrow> 'a list \<Rightarrow> bool" where
  "queue_inv q cur xs \<longleftrightarrow> linked (lq_heap q) cur \<and> distinct cur \<and> hd cur = lq_head q \<and> lq_tail q \<in> set cur \<and>
     map (node_data q) (tl cur) = map Some xs \<and> distinct (lq_retired q) \<and>
     (\<forall>x \<in> set (lq_retired q). x \<notin> set cur \<and> next_of (lq_heap q) x \<noteq> None)"

definition owns_ok :: "'a LockFreeQueue \<Rightarrow> nat list \<Rightarrow> nat list \<Rightarrow> bool" where
  "owns_ok q cur xs \<longleftrightarrow> distinct xs \<and> (\<forall>x \<in> set xs. x \<notin> set cur \<and> x \<notin> set (lq_retired q) \<and> lq_heap q x \<noteq> None)"

abbreviation knows_q :: "'a LockFreeQueue \<Rightarrow> nat list \<Rightarrow> 'a lfq_pc \<Rightarrow> bool" where
  "knows_q q \<equiv> knows (lq_heap q) (lq_head q) (lq_tail q)"

definition apart :: "'a lfq_pc \<Rightarrow> 'a lfq_pc \<Rightarrow> bool" where
  "apart p p' \<longleftrightarrow> set (owned_nodes p) \<inter> set (owned_nodes p') = {} \<and> pins p \<inter> set (grabbed p') = {} \<and> pins p' \<inter> set (grabbed p) = {}"

definition threads_inv :: "'a LockFreeQueue \<Rightarrow> nat list \<Rightarrow> (nat \<Rightarrow> 'a lfq_pc) \<Rightarrow> bool" where
  "threads_inv q cur pcs \<longleftrightarrow> (\<forall>t. knows_q q cur (pcs t) \<and> owns_ok q cur (owned_nodes (pcs t))) \<and>
     (\<forall>t t'. t \<noteq> t' \<longrightarrow> apart (pcs t) (pcs t'))"

lemma apart_sym: "apart p p' \<longleftrightarrow> apart p' p"
  by (auto simp: apart_def)

lemma threads_invI:
  assumes "threads_inv q cur pcs" and "knows_q q' cur' pc" and "owns_ok q' cur' (owned_nodes pc)"
    and "\<And>t'. t' \<noteq> t \<Longrightarrow> knows_q q' cur' (pcs t') \<and> owns_ok q' cur' (owned_nodes (pcs t')) \<and> apart pc (pcs t')"
  shows "threads_inv q' cur' (pcs(t := pc))"
  using assms apart_sym [of pc] unfolding threads_inv_def by auto

lemma linked_ne: "linked h cur \<Longrightarrow> cur \<noteq> []"
  by auto

lemma linked_heap: "linked h cur \<Longrightarrow> x \<in> set cur \<Longrightarrow> h x \<noteq> None"
  by (induction h cur rule: linked.induct) (auto simp: next_of_def bind_eq_Some_conv)

lemma linked_next: "linked h cur \<Longrightarrow> distinct cur \<Longrightarrow> x \<in> set cur \<Longrightarrow> next_of h x = Some y \<Longrightarrow> y \<in> set (tl cur)"
  by (induction h cur rule: linked.induct) (auto split: if_splits)

lemma linked_last: "linked h cur \<Longrightarrow> x \<in> set cur \<Longrightarrow> next_of h x = None \<Longrightarrow> x = last cur"
  by (induction h cur rule: linked.induct) auto

lemma linked_cong: "(\<And>x. x \<in> set cur \<Longrightarrow> h' x = h x) \<Longrightarrow> linked h' cur = linked h cur"
  by (induction h cur rule: linked.induct) (auto simp: next_of_def)

lemma linked_tl: "linked h (x # cur) \<Longrightarrow> cur \<noteq> [] \<Longrightarrow> linked h cur \<and> next_of h x = Some (hd cur)"
  by (cases cur) auto

lemma linked_snoc:
  assumes "linked h cur" and "distinct cur" and "n \<notin> set cur" and "h n = Some nd" and "nd_next nd = None"
    and "h (last cur) = Some l"
  shows "linked (h(last cur \<mapsto> l\<lparr>nd_next := Some n\<rparr>)) (cur @ [n])"
  using assms by (induction h cur rule: linked.induct) (auto simp: next_of_def split: if_splits)

lemma live_next: "next_of h x = Some y \<Longrightarrow> live h cur x"
  by (simp add: live_def)

lemma knows_frame:
  assumes "knows h hq tq cur pc"
    and nx: "\<And>x y. x \<in> pins pc \<Longrightarrow> next_of h x = Some y \<Longrightarrow> next_of h' x = Some y"
    and lv: "\<And>x. x \<in> pins pc \<Longrightarrow> live h cur x \<Longrightarrow> live h' cur' x"
    and own: "\<And>x. x \<in> set (owned_nodes pc) \<Longrightarrow> h' x = h x"
    and out: "\<And>x. x \<in> pins pc \<Longrightarrow> live h cur x \<Longrightarrow> x \<notin> set (tl cur) \<Longrightarrow> x \<notin> set (tl cur')"
    and hd: "\<And>x. x \<in> pins pc \<Longrightarrow> live h cur x \<Longrightarrow> x \<notin> set (tl cur) \<Longrightarrow> x = hq' \<Longrightarrow>
      x = hq \<and> (tq \<noteq> x \<longrightarrow> tq' \<noteq> x) \<and> (\<forall>y. next_of h x = Some y \<longrightarrow> Option.bind (h' y) nd_data = Option.bind (h y) nd_data)"
  shows "knows h' hq' tq' cur' pc"
proof -
  have fr: "fresh_node h' n" if "fresh_node h n" "n \<in> set (owned_nodes pc)" for n using that own by (simp add: fresh_node_def)
  have no: "next_of h' n \<noteq> None" if "next_of h n \<noteq> None" "n \<in> set (owned_nodes pc)" for n using that own by (simp add: next_of_def)
  show ?thesis
  proof (cases pc)
    case (PushLoop n)
    then show ?thesis using assms(1) fr [of n] by simp
  next
    case (PushNext n tail)
    then show ?thesis using assms(1) fr [of n] lv [of tail] by simp
  next
    case (PushCheck n tail nxt)
    then show ?thesis using assms(1) fr [of n] lv [of tail] nx [of tail] by auto
  next
    case (PushCas n tail nxt)
    then show ?thesis using assms(1) fr [of n] lv [of tail] nx [of tail] by auto
  next
    case (PopTail head)
    then show ?thesis using assms(1) lv [of head] out [of head] by simp
  next
    case (PopNext head tail)
    note pc = this
    have "head \<in> pins pc" by (simp add: pc)
    from lv [OF this] out [OF this] hd [OF this] show ?thesis
      using assms(1) unfolding pc knows.simps by blast
  next
    case (PopCheck head tail nxt)
    note pc = this
    have "head \<in> pins pc" by (simp add: pc)
    from lv [OF this] out [OF this] hd [OF this] nx [OF this] show ?thesis
      using assms(1) unfolding pc knows.simps by blast
  next
    case (PopData head x)
    note pc = this
    have p: "head \<in> pins pc" "x \<in> pins pc" by (simp_all add: pc)
    from lv [OF p(2)] out [OF p(1)] hd [OF p(1)] nx [OF p(1)] show ?thesis
      using assms(1) live_next [of h head x cur] unfolding pc knows.simps by blast
  next
    case (PopCas head x data)
    note pc = this
    have p: "head \<in> pins pc" by (simp add: pc)
    from out [OF p] hd [OF p] nx [OF p] show ?thesis
      using assms(1) live_next [of h head x cur] unfolding pc knows.simps by blast
  qed (use assms(1) nx no in simp_all)
qed

lemma owns_frame:
  "owns_ok q cur xs \<Longrightarrow>
    (\<And>x. x \<in> set xs \<Longrightarrow> x \<notin> set cur \<Longrightarrow> x \<notin> set (lq_retired q) \<Longrightarrow> lq_heap q x \<noteq> None \<Longrightarrow>
      x \<notin> set cur' \<and> x \<notin> set (lq_retired q') \<and> lq_heap q' x \<noteq> None) \<Longrightarrow> owns_ok q' cur' xs"
  by (simp add: owns_ok_def)

lemma owned_live: "threads_inv q cur pcs \<Longrightarrow> x \<in> set (owned_nodes (pcs t)) \<Longrightarrow> x \<notin> set cur \<and> x \<notin> set (lq_retired q) \<and> lq_heap q x \<noteq> None"
  by (auto simp: threads_inv_def owns_ok_def)

lemma thread_knows: "threads_inv q cur pcs \<Longrightarrow> pcs t = pc \<Longrightarrow> knows_q q cur pc"
  by (auto simp: threads_inv_def)

lemma pins_live: "knows h hq tq cur pc \<Longrightarrow> x \<in> pins pc \<Longrightarrow> live h cur x"
  by (cases pc) (auto simp: live_next)

lemma grabbed_owned: "set (grabbed pc) \<subseteq> set (owned_nodes pc)"
  by (cases pc) auto

lemma local_step:
  assumes T: "threads_inv q cur pcs"
    and q: "lq_heap q' = lq_heap q" "lq_head q' = lq_head q" "lq_tail q' = lq_tail q" "lq_retired q' = lq_retired q"
    and k: "knows_q q cur pc" and o: "set (owned_nodes pc) \<subseteq> set (owned_nodes (pcs t))" "distinct (owned_nodes pc)"
    and g: "set (grabbed pc) \<subseteq> set (grabbed (pcs t))" and p: "pins pc \<subseteq> pins (pcs t) \<union> set cur"
  shows "threads_inv q' cur (pcs(t := pc))"
proof (rule threads_invI [OF T])
  show "knows_q q' cur pc" using k q by simp
  show "owns_ok q' cur (owned_nodes pc)" using T o q unfolding threads_inv_def owns_ok_def by auto
  fix t' assume t': "t' \<noteq> t"
  have "apart (pcs t) (pcs t')" using T t' by (auto simp: threads_inv_def)
  moreover have "set (grabbed (pcs t')) \<inter> set cur = {}" using owned_live [OF T] grabbed_owned by blast
  ultimately have "apart pc (pcs t')" using o g p unfolding apart_def by blast
  moreover have "owns_ok q' cur (owned_nodes (pcs t'))" using T q by (simp add: threads_inv_def owns_ok_def)
  ultimately show "knows_q q' cur (pcs t') \<and> owns_ok q' cur (owned_nodes (pcs t')) \<and> apart pc (pcs t')"
    using T q by (simp add: threads_inv_def)
qed

section \<open>Every action keeps the invariant\<close>

lemma queue_inv_head: "queue_inv q cur xs \<Longrightarrow> \<exists>cur'. cur = lq_head q # cur'"
  by (cases cur) (auto simp: queue_inv_def)

lemma queue_inv_cong:
  "queue_inv q cur xs \<Longrightarrow> lq_heap q' = lq_heap q \<Longrightarrow> lq_head q' = lq_head q \<Longrightarrow> lq_tail q' = lq_tail q \<Longrightarrow>
   lq_retired q' = lq_retired q \<Longrightarrow> queue_inv q' cur xs"
  by (simp add: queue_inv_def node_data_def [abs_def])

lemma cas_tail_inv:
  assumes Q: "queue_inv q cur xs" and T: "threads_inv q cur pcs" and nx: "next_of (lq_heap q) e = Some y"
    and k: "\<And>tq. knows (lq_heap q) (lq_head q) tq cur pc" and o: "owned_nodes pc = owned_nodes (pcs t)"
    and g: "grabbed pc = []" and p: "pins pc = {}"
  shows "queue_inv (cas_tail spurious e y q) cur xs \<and> threads_inv (cas_tail spurious e y q) cur (pcs(t := pc))"
proof (cases "\<not> spurious \<and> lq_tail q = e")
  case True
  let ?q = "q\<lparr>lq_tail := y\<rparr>"
  have "y \<in> set (tl cur)"
    using Q nx True linked_next [of "lq_heap q" cur e y] by (auto simp: queue_inv_def)
  then have y: "y \<in> set cur" "y \<noteq> lq_head q" using queue_inv_head [OF Q] Q by (auto simp: queue_inv_def)
  have "queue_inv ?q cur xs" using Q y(1) by (simp add: queue_inv_def node_data_def [abs_def])
  moreover have "threads_inv ?q cur (pcs(t := pc))"
  proof (rule threads_invI [OF T])
    show "knows_q ?q cur pc" using k by simp
    show "owns_ok ?q cur (owned_nodes pc)" using T o by (auto simp: threads_inv_def owns_ok_def)
    fix t' assume "t' \<noteq> t"
    then have a: "apart (pcs t) (pcs t')" and kn: "knows_q q cur (pcs t')" and ow: "owns_ok q cur (owned_nodes (pcs t'))"
      using T by (auto simp: threads_inv_def)
    have "knows_q ?q cur (pcs t')" using y(2) by (auto intro!: knows_frame [OF kn])
    moreover have "apart pc (pcs t')" using a o g p by (auto simp: apart_def)
    ultimately show "knows_q ?q cur (pcs t') \<and> owns_ok ?q cur (owned_nodes (pcs t')) \<and> apart pc (pcs t')"
      using ow by (simp add: owns_ok_def)
  qed
  ultimately show ?thesis using True by (simp add: cas_tail_def)
next
  case False
  then have "cas_tail spurious e y q = q" by (auto simp: cas_tail_def)
  moreover have "distinct (owned_nodes (pcs t))" using T by (auto simp: threads_inv_def owns_ok_def)
  ultimately show ?thesis using Q local_step [OF T refl refl refl refl k, of t] o g p by simp
qed

lemma push_cas_inv:
  assumes Q: "queue_inv q cur xs" and T: "threads_inv q cur pcs" and pc: "pcs t = PushCas n tail None"
    and nx: "lq_heap q tail = Some l" "nd_next l = None" and v: "node_data q n = Some v"
  shows "queue_inv (set_next tail n q) (cur @ [n]) (xs @ [v])"
    and "threads_inv (set_next tail n q) (cur @ [n]) (pcs(t := PushSwing n tail))"
proof -
  let ?h = "lq_heap q" and ?h' = "(lq_heap q)(tail \<mapsto> l\<lparr>nd_next := Some n\<rparr>)"
  have q': "set_next tail n q = q\<lparr>lq_heap := ?h'\<rparr>" using nx by (simp add: set_next_def)
  have kt: "fresh_node ?h n" "live ?h cur tail" using thread_knows [OF T pc] by simp_all
  have n: "n \<notin> set cur" "n \<notin> set (lq_retired q)" using owned_live [OF T, of n t] by (simp_all add: pc)
  have L: "linked ?h cur" "distinct cur" "cur \<noteq> []" using Q linked_ne by (auto simp: queue_inv_def)
  have "tail \<in> set cur" using kt(2) nx by (simp add: live_def next_of_def)
  then have last: "tail = last cur" using linked_last [OF L(1)] nx by (simp add: next_of_def)
  have nt: "n \<noteq> tail" using n(1) \<open>tail \<in> set cur\<close> by auto
  have data: "Option.bind (?h' x) nd_data = Option.bind (?h x) nd_data" for x using nx(1) by simp
  have nxt: "next_of ?h x = Some y \<Longrightarrow> next_of ?h' x = Some y" for x y using nx by (auto simp: next_of_def)
  have live: "live ?h cur x \<Longrightarrow> live ?h' (cur @ [n]) x" for x using nxt by (auto simp: live_def)
  have n0: "next_of ?h n = None" using kt(1) by (auto simp: fresh_node_def next_of_def)
  obtain c where cur: "cur = lq_head q # c" using queue_inv_head [OF Q] by auto
  show "queue_inv (set_next tail n q) (cur @ [n]) (xs @ [v])"
    unfolding q' queue_inv_def
  proof (intro conjI)
    show "linked (lq_heap (q\<lparr>lq_heap := ?h'\<rparr>)) (cur @ [n])"
      using linked_snoc [OF L(1,2) n(1)] kt(1) nx(1) unfolding last by (auto simp: fresh_node_def)
    have "node_data (q\<lparr>lq_heap := ?h'\<rparr>) = node_data q" using data by (simp add: node_data_def fun_eq_iff)
    then show "map (node_data (q\<lparr>lq_heap := ?h'\<rparr>)) (tl (cur @ [n])) = map Some (xs @ [v])"
      using Q v L(3) by (simp add: queue_inv_def)
    show "\<forall>x \<in> set (lq_retired (q\<lparr>lq_heap := ?h'\<rparr>)). x \<notin> set (cur @ [n]) \<and> next_of (lq_heap (q\<lparr>lq_heap := ?h'\<rparr>)) x \<noteq> None"
      using Q n(2) nxt by (fastforce simp: queue_inv_def)
  qed (use Q n L in \<open>auto simp: queue_inv_def\<close>)
  show "threads_inv (set_next tail n q) (cur @ [n]) (pcs(t := PushSwing n tail))"
    unfolding q'
  proof (rule threads_invI [OF T])
    show "knows_q (q\<lparr>lq_heap := ?h'\<rparr>) (cur @ [n]) (PushSwing n tail)" by (simp add: next_of_def)
    show "owns_ok (q\<lparr>lq_heap := ?h'\<rparr>) (cur @ [n]) (owned_nodes (PushSwing n tail))" by (simp add: owns_ok_def)
    fix t' assume "t' \<noteq> t"
    then have a: "apart (pcs t) (pcs t')" and kn: "knows_q q cur (pcs t')" and ow: "owns_ok q cur (owned_nodes (pcs t'))"
      using T by (auto simp: threads_inv_def)
    have nn: "n \<notin> set (owned_nodes (pcs t'))" using a by (simp add: apart_def pc)
    have "knows_q (q\<lparr>lq_heap := ?h'\<rparr>) (cur @ [n]) (pcs t')"
    proof (rule knows_frame [OF kn], goal_cases)
      case (3 x)
      then have "x \<noteq> tail" using owned_live [OF T, of x t'] \<open>tail \<in> set cur\<close> by auto
      then show ?case by simp
    next
      case (4 x)
      then show ?case using n0 n(1) by (auto simp: cur live_def)
    qed (use nxt live data in simp_all)
    moreover have "owns_ok (q\<lparr>lq_heap := ?h'\<rparr>) (cur @ [n]) (owned_nodes (pcs t'))"
      using nn by (intro owns_frame [OF ow]) auto
    moreover have "apart (PushSwing n tail) (pcs t')" using a by (simp add: apart_def pc)
    ultimately show "knows_q (q\<lparr>lq_heap := ?h'\<rparr>) (cur @ [n]) (pcs t') \<and>
        owns_ok (q\<lparr>lq_heap := ?h'\<rparr>) (cur @ [n]) (owned_nodes (pcs t')) \<and> apart (PushSwing n tail) (pcs t')" by blast
  qed
qed

lemma pop_cas_inv:
  assumes Q: "queue_inv q cur xs" and T: "threads_inv q cur pcs" and pc: "pcs t = PopCas head x data" and hd: "lq_head q = head"
  obtains v ys where "data = Some v" and "xs = v # ys" and "queue_inv (q\<lparr>lq_head := x\<rparr>) (tl cur) ys"
    and "threads_inv (q\<lparr>lq_head := x\<rparr>) (tl cur) (pcs(t := PopSize head data))"
proof -
  let ?h = "lq_heap q" and ?q = "q\<lparr>lq_head := x\<rparr>"
  have kt: "next_of ?h head = Some x" "node_data q x = data" "lq_tail q \<noteq> head"
    using thread_knows [OF T pc] hd by (simp_all add: node_data_def)
  obtain c where cur: "cur = head # c" using queue_inv_head [OF Q] hd by auto
  have L: "linked ?h cur" "distinct cur" using Q by (auto simp: queue_inv_def)
  have "c \<noteq> []" using L(1) kt(1) unfolding cur by (cases c) auto
  moreover have "linked ?h c \<and> hd c = x"
    using linked_tl [OF L(1) [unfolded cur] \<open>c \<noteq> []\<close>] kt(1) by simp
  moreover define c' where "c' = tl c"
  ultimately have c: "linked ?h c" "c = x # c'" by auto
  obtain v ys where xs: "xs = v # ys" "data = Some v" "map (node_data q) c' = map Some ys"
    using Q kt(2) unfolding queue_inv_def cur c(2) by (cases xs) auto
  have Q': "queue_inv ?q (tl cur) ys"
    using Q kt(3) c(1) xs unfolding queue_inv_def cur c(2) by (auto simp: node_data_def [abs_def])
  have T': "threads_inv ?q (tl cur) (pcs(t := PopSize head data))"
  proof (rule threads_invI [OF T])
    show "knows_q ?q (tl cur) (PopSize head data)" using kt(1) xs(2) by simp
    show "owns_ok ?q (tl cur) (owned_nodes (PopSize head data))"
      using Q L kt(1) by (auto simp: owns_ok_def queue_inv_def cur next_of_def bind_eq_Some_conv)
    fix t' assume "t' \<noteq> t"
    then have a: "apart (pcs t) (pcs t')" and kn: "knows_q q cur (pcs t')" and ow: "owns_ok q cur (owned_nodes (pcs t'))"
      using T by (auto simp: threads_inv_def)
    have "knows_q ?q (tl cur) (pcs t')"
    proof (rule knows_frame [OF kn], goal_cases)
      case (2 y)
      then show ?case using kt(1) by (auto simp: live_def cur)
    next
      case (4 y)
      then show ?case by (auto simp: cur c(2))
    next
      case (5 y)
      then show ?case by (auto simp: cur c(2))
    qed simp_all
    moreover have "owns_ok ?q (tl cur) (owned_nodes (pcs t'))"
      using ow by (auto intro!: owns_frame [OF ow] simp: cur)
    moreover have "head \<notin> set (owned_nodes (pcs t'))" using owned_live [OF T, of head t'] by (auto simp: cur)
    then have "apart (PopSize head data) (pcs t')" using a by (simp add: apart_def pc)
    ultimately show "knows_q ?q (tl cur) (pcs t') \<and> owns_ok ?q (tl cur) (owned_nodes (pcs t')) \<and> apart (PopSize head data) (pcs t')"
      by blast
  qed
  show thesis by (rule that [OF xs(2,1) Q' T'])
qed

lemma retire_inv:
  assumes Q: "queue_inv q cur xs" and T: "threads_inv q cur pcs" and pc: "pcs t = PopRetire head data"
  shows "queue_inv (q\<lparr>lq_retired := head # lq_retired q\<rparr>) cur xs"
    and "threads_inv (q\<lparr>lq_retired := head # lq_retired q\<rparr>) cur (pcs(t := PopCount data))"
proof -
  let ?q = "q\<lparr>lq_retired := head # lq_retired q\<rparr>"
  have kt: "next_of (lq_heap q) head \<noteq> None" "data \<noteq> None" using thread_knows [OF T pc] by simp_all
  have h: "head \<notin> set cur" "head \<notin> set (lq_retired q)" using owned_live [OF T, of head t] by (simp_all add: pc)
  show "queue_inv ?q cur xs" using Q kt h by (simp add: queue_inv_def node_data_def [abs_def])
  show "threads_inv ?q cur (pcs(t := PopCount data))"
  proof (rule threads_invI [OF T])
    fix t' assume "t' \<noteq> t"
    then have a: "apart (pcs t) (pcs t')" and kn: "knows_q q cur (pcs t')" and ow: "owns_ok q cur (owned_nodes (pcs t'))"
      using T by (auto simp: threads_inv_def)
    have "head \<notin> set (owned_nodes (pcs t'))" using a by (auto simp: apart_def pc)
    then show "knows_q ?q cur (pcs t') \<and> owns_ok ?q cur (owned_nodes (pcs t')) \<and> apart (PopCount data) (pcs t')"
      using kn ow a by (auto simp: owns_ok_def apart_def pc)
  qed (use kt in \<open>auto simp: owns_ok_def\<close>)
qed

lemma grab_inv:
  assumes Q: "queue_inv q cur xs" and T: "threads_inv q cur pcs" and pc: "pcs t = PopGrab data"
    and free: "\<And>t'. t' \<noteq> t \<Longrightarrow> pins (pcs t') \<inter> set (lq_retired q) = {}"
  shows "queue_inv (q\<lparr>lq_retired := []\<rparr>) cur xs"
    and "threads_inv (q\<lparr>lq_retired := []\<rparr>) cur (pcs(t := PopReset data (lq_retired q)))"
    and "threads_inv (q\<lparr>lq_retired := []\<rparr>) cur (pcs(t := pop_return data))"
proof -
  let ?q = "q\<lparr>lq_retired := []\<rparr>"
  have kt: "data \<noteq> None" using thread_knows [OF T pc] by simp
  show "queue_inv ?q cur xs" using Q by (simp add: queue_inv_def node_data_def [abs_def])
  have others: "apart (pcs t) (pcs t') \<and> knows_q ?q cur (pcs t') \<and> owns_ok ?q cur (owned_nodes (pcs t'))" if "t' \<noteq> t" for t'
    using T that by (auto simp: threads_inv_def owns_ok_def)
  show "threads_inv ?q cur (pcs(t := PopReset data (lq_retired q)))"
  proof (rule threads_invI [OF T])
    show "owns_ok ?q cur (owned_nodes (PopReset data (lq_retired q)))"
      using Q by (auto simp: owns_ok_def queue_inv_def next_of_def bind_eq_Some_conv)
    fix t' assume t': "t' \<noteq> t"
    have "set (lq_retired q) \<inter> set (owned_nodes (pcs t')) = {}" using owned_live [OF T, of _ t'] by auto
    then show "knows_q ?q cur (pcs t') \<and> owns_ok ?q cur (owned_nodes (pcs t')) \<and> apart (PopReset data (lq_retired q)) (pcs t')"
      using others [OF t'] free [OF t'] by (auto simp: apart_def pc)
  qed (use kt in simp)
  show "threads_inv ?q cur (pcs(t := pop_return data))"
    using others kt by (intro threads_invI [OF T]) (auto simp: pop_return_def owns_ok_def apart_def pc)
qed

lemma delete_inv:
  assumes Q: "queue_inv q cur xs" and T: "threads_inv q cur pcs" and pc: "pcs t = PopDelete data (x # rest)"
  shows "queue_inv (q\<lparr>lq_heap := (lq_heap q)(x := None)\<rparr>) cur xs"
    and "threads_inv (q\<lparr>lq_heap := (lq_heap q)(x := None)\<rparr>) cur (pcs(t := PopDelete data rest))"
proof -
  let ?h = "lq_heap q" and ?h' = "(lq_heap q)(x := None)"
  let ?q = "q\<lparr>lq_heap := ?h'\<rparr>"
  have x: "x \<notin> set cur" "x \<notin> set (lq_retired q)" using owned_live [OF T, of x t] by (simp_all add: pc)
  have "owns_ok q cur (owned_nodes (pcs t))" using T by (simp add: threads_inv_def)
  then have ow: "owns_ok ?q cur rest" by (auto simp: owns_ok_def pc)
  have nx: "y \<noteq> x \<Longrightarrow> next_of ?h' y = next_of ?h y" for y by (simp add: next_of_def)
  have lv: "y \<noteq> x \<Longrightarrow> live ?h' cur y = live ?h cur y" for y by (simp add: live_def nx)
  have L: "linked ?h cur" "distinct cur" using Q by (auto simp: queue_inv_def)
  have data: "y \<in> set cur \<Longrightarrow> node_data ?q y = node_data q y" for y using x(1) by (auto simp: node_data_def)
  have "linked ?h' cur" using L(1) x(1) by (subst linked_cong [of _ _ ?h]) auto
  moreover have "map (node_data ?q) (tl cur) = map (node_data q) (tl cur)"
    using data linked_ne [OF L(1)] by (auto dest: list.set_sel(2))
  moreover have "\<forall>y \<in> set (lq_retired q). next_of ?h' y = next_of ?h y" using x(2) nx by metis
  ultimately show "queue_inv ?q cur xs" using Q by (simp add: queue_inv_def del: map_eq_conv)
  show "threads_inv ?q cur (pcs(t := PopDelete data rest))"
  proof (rule threads_invI [OF T])
    show "knows_q ?q cur (PopDelete data rest)" using thread_knows [OF T pc] by simp
    show "owns_ok ?q cur (owned_nodes (PopDelete data rest))" using ow by simp
    fix t' assume "t' \<noteq> t"
    then have a: "apart (pcs t) (pcs t')" and kn: "knows_q q cur (pcs t')" and ow': "owns_ok q cur (owned_nodes (pcs t'))"
      using T by (auto simp: threads_inv_def)
    have np: "x \<notin> pins (pcs t')" "x \<notin> set (owned_nodes (pcs t'))" using a by (auto simp: apart_def pc)
    have "knows_q ?q cur (pcs t')"
    proof (rule knows_frame [OF kn], goal_cases)
      case (1 y z)
      then show ?case using np(1) nx [of y] by auto
    next
      case (2 y)
      then show ?case using np(1) lv [of y] by auto
    next
      case (5 y)
      have "z \<noteq> x" if "next_of ?h y = Some z" for z
      proof -
        have "y \<in> set cur" using 5 queue_inv_head [OF Q] by auto
        from linked_next [OF L this that] show ?thesis
          using x(1) linked_ne [OF L(1)] by (metis list.set_sel(2))
      qed
      then show ?case using 5 by simp
    qed (use np in auto)
    moreover have "owns_ok ?q cur (owned_nodes (pcs t'))" using np by (intro owns_frame [OF ow']) auto
    moreover have "apart (PopDelete data rest) (pcs t')" using a by (auto simp: apart_def pc)
    ultimately show "knows_q ?q cur (pcs t') \<and> owns_ok ?q cur (owned_nodes (pcs t')) \<and> apart (PopDelete data rest) (pcs t')"
      by blast
  qed
qed

lemma alloc_inv:
  fixes q :: "'a LockFreeQueue" and v :: 'a
  assumes Q: "queue_inv q cur xs" and T: "threads_inv q cur pcs" and pc: "pcs t = Idle" and n: "lq_heap q n = None"
  defines "q' \<equiv> q\<lparr>lq_heap := (lq_heap q)(n \<mapsto> \<lparr>nd_data = Some v, nd_next = None\<rparr>)\<rparr>"
  shows "queue_inv q' cur xs" and "threads_inv q' cur (pcs(t := PushLoop n))"
proof -
  have L: "linked (lq_heap q) cur" "distinct cur" using Q by (auto simp: queue_inv_def)
  have h': "y \<noteq> n \<Longrightarrow> lq_heap q' y = lq_heap q y" for y by (simp add: q'_def)
  have rest: "lq_head q' = lq_head q" "lq_tail q' = lq_tail q" "lq_retired q' = lq_retired q" by (simp_all add: q'_def)
  have nc: "n \<notin> set cur" using linked_heap [OF L(1)] n by metis
  have nr: "n \<notin> set (lq_retired q)" using Q n by (auto simp: queue_inv_def next_of_def)
  have "linked (lq_heap q') cur" using L(1) nc h' linked_cong [of cur "lq_heap q'" "lq_heap q"] by metis
  moreover have "map (node_data q') (tl cur) = map (node_data q) (tl cur)"
    using h' nc linked_ne [OF L(1)] unfolding node_data_def by (metis (no_types, lifting) list.set_sel(2) map_cong)
  moreover have "\<forall>y \<in> set (lq_retired q). next_of (lq_heap q') y = next_of (lq_heap q) y"
    using nr h' unfolding next_of_def by metis
  ultimately show "queue_inv q' cur xs" using Q rest by (simp add: queue_inv_def del: map_eq_conv)
  show "threads_inv q' cur (pcs(t := PushLoop n))"
  proof (rule threads_invI [OF T])
    show "knows_q q' cur (PushLoop n)" by (simp add: fresh_node_def q'_def)
    show "owns_ok q' cur (owned_nodes (PushLoop n))" using nc nr by (simp add: owns_ok_def q'_def)
    fix t' assume "t' \<noteq> t"
    then have a: "apart (pcs t) (pcs t')" and kn: "knows_q q cur (pcs t')" and ow': "owns_ok q cur (owned_nodes (pcs t'))"
      using T by (auto simp: threads_inv_def)
    have np: "n \<notin> pins (pcs t')" using pins_live [OF kn, of n] n by (auto simp: live_def next_of_def)
    have no: "n \<notin> set (owned_nodes (pcs t'))" using ow' n by (auto simp: owns_ok_def)
    have "knows_q q' cur (pcs t')"
    proof (rule knows_frame [OF kn], goal_cases)
      case (1 y z)
      then have "y \<noteq> n" using np by auto
      then show ?case using 1 h' [of y] by (simp add: next_of_def)
    next
      case (2 y)
      then have "y \<noteq> n" using np by auto
      then show ?case using 2 h' [of y] by (simp add: live_def next_of_def)
    next
      case (3 y)
      then show ?case using no h' by metis
    next
      case (5 y)
      have "z \<noteq> n" if "next_of (lq_heap q) y = Some z" for z
      proof -
        have "y \<in> set cur" using 5 rest queue_inv_head [OF Q] by auto
        from linked_next [OF L this that] show ?thesis
          using nc linked_ne [OF L(1)] by (metis list.set_sel(2))
      qed
      then show ?case using 5 rest h' by simp
    qed
    moreover have "owns_ok q' cur (owned_nodes (pcs t'))" using no h' rest by (intro owns_frame [OF ow']) metis
    moreover have "apart (PushLoop n) (pcs t')" using a no np by (auto simp: apart_def pc)
    ultimately show "knows_q q' cur (pcs t') \<and> owns_ok q' cur (owned_nodes (pcs t')) \<and> apart (PushLoop n) (pcs t')"
      by blast
  qed
qed

lemma tail_live: "queue_inv q cur xs \<Longrightarrow> live (lq_heap q) cur (lq_tail q)"
  using linked_heap by (fastforce simp: queue_inv_def live_def)

lemma head_live: "queue_inv q cur xs \<Longrightarrow> live (lq_heap q) cur (lq_head q) \<and> lq_head q \<notin> set (tl cur) \<and> lq_head q \<in> set cur"
  using queue_inv_head [of q cur xs] linked_heap [of "lq_heap q" cur "lq_head q"] by (auto simp: queue_inv_def live_def)

definition step_ok :: "(nat \<Rightarrow> 'a lfq_pc) \<Rightarrow> nat \<Rightarrow> 'a list \<Rightarrow> 'a LockFreeQueue \<Rightarrow> 'a lfq_pc \<Rightarrow> 'a lfq_event \<Rightarrow> bool" where
  "step_ok pcs t xs q pc ev \<longleftrightarrow> (\<exists>cur ys. queue_inv q cur ys \<and> threads_inv q cur (pcs(t := pc)) \<and>
     fifo_next (Act ev) (Some xs) = Some ys)"

lemma step_okI: "queue_inv q cur xs \<Longrightarrow> threads_inv q cur (pcs(t := pc)) \<Longrightarrow> step_ok pcs t xs q pc Quiet"
  by (auto simp: step_ok_def)

lemma quiet_ok:
  assumes "queue_inv q cur xs" and "threads_inv q cur pcs"
    and "lq_heap q' = lq_heap q" and "lq_head q' = lq_head q" and "lq_tail q' = lq_tail q" and "lq_retired q' = lq_retired q"
    and "knows_q q cur pc" and "owned_nodes pc = owned_nodes (pcs t) \<or> owned_nodes pc = []" and "grabbed pc = grabbed (pcs t) \<or> grabbed pc = []"
    and "pins pc \<subseteq> pins (pcs t) \<union> set cur"
  shows "step_ok pcs t xs q' pc Quiet"
proof (rule step_okI)
  show "queue_inv q' cur xs" using assms(1,3-6) by (rule queue_inv_cong)
  have "distinct (owned_nodes (pcs t))" using assms(2) by (simp add: threads_inv_def owns_ok_def)
  then show "threads_inv q' cur (pcs(t := pc))" using assms by (intro local_step [OF assms(2)]) auto
qed

lemma push_step_ok:
  assumes Q: "queue_inv q cur xs" and T: "threads_inv q cur pcs" and "is_push (pcs t)"
    and step: "push_step spurious q (pcs t) = Inr (q', pc', ev)"
  shows "step_ok pcs t xs q' pc' ev"
proof (cases "pcs t")
  case (PushLoop n)
  note k = thread_knows [OF T PushLoop]
  have "lq_tail q \<in> set cur" using Q by (simp add: queue_inv_def)
  then show ?thesis using step PushLoop k tail_live [OF Q] by (auto intro!: quiet_ok [OF Q T])
next
  case (PushNext n tail)
  note k = thread_knows [OF T PushNext]
  then show ?thesis using step PushNext
    by (auto intro!: quiet_ok [OF Q T] simp: next_of_def split: option.splits)
next
  case (PushCheck n tail nxt)
  note k = thread_knows [OF T PushCheck]
  then show ?thesis using step PushCheck by (cases "tail = lq_tail q") (auto intro!: quiet_ok [OF Q T])
next
  case (PushCas n tail nxt)
  note k = thread_knows [OF T PushCas]
  show ?thesis
  proof (cases nxt)
    case (Some x)
    then show ?thesis
      using step k PushCas cas_tail_inv [OF Q T, of tail x "PushLoop n" t spurious] by (auto intro: step_okI)
  next
    case None
    then obtain l where l: "lq_heap q tail = Some l" using step PushCas by (auto split: option.splits)
    obtain v where v: "node_data q n = Some v" using k by (auto simp: fresh_node_def node_data_def)
    show ?thesis
    proof (cases "\<not> spurious \<and> nd_next l = None")
      case True
      have pc: "pcs t = PushCas n tail None" using PushCas None by simp
      from True show ?thesis
        using step pc l v push_cas_inv [OF Q T pc l _ v] by (auto simp: step_ok_def lin_of_def)
    next
      case False
      then show ?thesis using step k PushCas None l by (auto intro!: quiet_ok [OF Q T])
    qed
  qed
next
  case (PushSwing n tail)
  note k = thread_knows [OF T PushSwing]
  then show ?thesis
    using step PushSwing cas_tail_inv [OF Q T, of tail n PushSize t spurious] by (auto intro: step_okI)
next
  case PushSize
  then show ?thesis using step by (auto intro!: quiet_ok [OF Q T])
qed (use assms in simp_all)

lemma pop_next_ok:
  assumes Q: "queue_inv q cur xs" and T: "threads_inv q cur pcs" and PopNext: "pcs t = PopNext head tail"
    and step: "pop_step spurious q (pcs t) = Inr (q', pc', ev)"
  shows "step_ok pcs t xs q' pc' ev"
proof -
  note k = thread_knows [OF T PopNext]
  obtain nd where nd: "lq_heap q head = Some nd" using k by (auto simp: live_def next_of_def bind_eq_Some_conv)
  then have nx: "next_of (lq_heap q) head = nd_next nd" by (simp add: next_of_def)
  have ok: "step_ok pcs t xs q (PopCheck head tail (nd_next nd)) Quiet"
    using k nx PopNext by (intro quiet_ok [OF Q T]) auto
  show ?thesis
  proof (cases "head = tail \<and> nd_next nd = None")
    case True
    then have "head \<in> set cur" using k nx by (simp add: live_def)
    then have "cur = [head]"
      using k True nx queue_inv_head [OF Q] Q linked_last [of "lq_heap q" cur head]
      by (cases "tl cur") (auto simp: queue_inv_def)
    then have "xs = []" using Q by (simp add: queue_inv_def)
    then show ?thesis using ok step PopNext nd True by (auto simp: step_ok_def)
  next
    case False
    then show ?thesis using ok step PopNext nd by auto
  qed
qed

lemma pop_check_ok:
  assumes Q: "queue_inv q cur xs" and T: "threads_inv q cur pcs" and PopCheck: "pcs t = PopCheck head tail nxt"
    and step: "pop_step spurious q (pcs t) = Inr (q', pc', ev)"
  shows "step_ok pcs t xs q' pc' ev"
proof -
  note k = thread_knows [OF T PopCheck]
  have x: "x \<in> set cur \<and> live (lq_heap q) cur x" if "head = lq_head q" "nxt = Some x" for x
  proof -
    have "x \<in> set (tl cur)"
      using k that head_live [OF Q] Q linked_next [of "lq_heap q" cur head x] by (auto simp: queue_inv_def)
    then have "x \<in> set cur" using queue_inv_head [OF Q] by auto
    then show ?thesis using Q linked_heap [of "lq_heap q" cur x] by (auto simp: live_def queue_inv_def)
  qed
  show ?thesis
    using step k x PopCheck by (auto intro!: quiet_ok [OF Q T] split: option.splits if_splits)
qed

lemma pop_cas_ok:
  assumes Q: "queue_inv q cur xs" and T: "threads_inv q cur pcs" and PopCas: "pcs t = PopCas head x data"
    and step: "pop_step spurious q (pcs t) = Inr (q', pc', ev)"
  shows "step_ok pcs t xs q' pc' ev"
proof -
  show ?thesis
  proof (cases "\<not> spurious \<and> lq_head q = head")
    case True
    obtain v ys where "data = Some v" "xs = v # ys" "queue_inv (q\<lparr>lq_head := x\<rparr>) (tl cur) ys"
        "threads_inv (q\<lparr>lq_head := x\<rparr>) (tl cur) (pcs(t := PopSize head data))"
      using pop_cas_inv [OF Q T PopCas] True by metis
    then show ?thesis using step True PopCas by (auto simp: step_ok_def lin_of_def)
  next
    case False
    then show ?thesis using step PopCas by (auto intro!: quiet_ok [OF Q T])
  qed
qed

lemma pop_delete_ok:
  assumes Q: "queue_inv q cur xs" and T: "threads_inv q cur pcs" and PopDelete: "pcs t = PopDelete data ys"
    and step: "pop_step spurious q (pcs t) = Inr (q', pc', ev)"
  shows "step_ok pcs t xs q' pc' ev"
proof -
  note k = thread_knows [OF T PopDelete]
  show ?thesis
  proof (cases ys)
    case Nil
    then show ?thesis using step k PopDelete by (auto intro!: quiet_ok [OF Q T] simp: pop_return_def)
  next
    case (Cons y ys')
    then show ?thesis
      using step PopDelete delete_inv [OF Q T, of t data y ys'] by (auto intro: step_okI split: if_splits)
  qed
qed

lemma pop_step_ok:
  assumes Q: "queue_inv q cur xs" and T: "threads_inv q cur pcs" and np: "\<not> is_push (pcs t)"
    and step: "pop_step spurious q (pcs t) = Inr (q', pc', ev)"
    and free: "\<And>data t'. pcs t = PopGrab data \<Longrightarrow> t' \<noteq> t \<Longrightarrow> pins (pcs t') \<inter> set (lq_retired q) = {}"
  shows "step_ok pcs t xs q' pc' ev"
proof (cases "pcs t")
  case PopLoop
  then show ?thesis using step head_live [OF Q] by (auto intro!: quiet_ok [OF Q T])
next
  case (PopTail head)
  then show ?thesis using step thread_knows [OF T PopTail] by (auto intro!: quiet_ok [OF Q T])
next
  case (PopNext head tail)
  then show ?thesis using step by (rule pop_next_ok [OF Q T])
next
  case (PopCheck head tail nxt)
  then show ?thesis using step by (rule pop_check_ok [OF Q T])
next
  case (PopHelp tail x)
  then show ?thesis
    using step thread_knows [OF T PopHelp] cas_tail_inv [OF Q T, of tail x PopLoop t spurious] by (auto intro: step_okI)
next
  case (PopData head x)
  then show ?thesis
    using step thread_knows [OF T PopData] by (auto intro!: quiet_ok [OF Q T] split: option.splits)
next
  case (PopCas head x data)
  then show ?thesis using step by (rule pop_cas_ok [OF Q T])
next
  case (PopRetire head data)
  then show ?thesis using step retire_inv [OF Q T PopRetire] by (auto intro: step_okI)
next
  case (PopGrab data)
  then show ?thesis using step grab_inv [OF Q T PopGrab free [OF PopGrab]] by (auto intro: step_okI split: if_splits)
next
  case (PopDelete data ys)
  then show ?thesis using step by (rule pop_delete_ok [OF Q T])
next
  case (PopReclaim data)
  then show ?thesis
    using step thread_knows [OF T PopReclaim] by (auto intro!: quiet_ok [OF Q T] simp: pop_return_def split: if_splits)
qed (use step np thread_knows [OF T refl, of t] in \<open>auto intro!: quiet_ok [OF Q T]\<close>)

lemma lfq_step_ok:
  assumes "queue_inv q cur xs" and "threads_inv q cur pcs" and "lfq_step spurious q (pcs t) = Inr (q', pc', ev)"
    and "\<And>data t'. pcs t = PopGrab data \<Longrightarrow> t' \<noteq> t \<Longrightarrow> pins (pcs t') \<inter> set (lq_retired q) = {}"
  shows "step_ok pcs t xs q' pc' ev"
  using assms push_step_ok [OF assms(1,2)] pop_step_ok [OF assms(1,2)]
  unfolding lfq_step_def by (cases "is_push (pcs t)") simp_all

lemma live_heap: "live h cur x \<Longrightarrow> h x \<noteq> None"
  by (auto simp: live_def next_of_def bind_eq_Some_conv)

lemma lfq_step_safe:
  assumes "threads_inv q cur pcs"
  shows "\<exists>r. lfq_step spurious q (pcs t) = Inr r"
proof -
  have k: "knows_q q cur (pcs t)" using thread_knows [OF assms refl] .
  then have l: "\<And>x. x \<in> pins (pcs t) \<Longrightarrow> \<exists>nd. lq_heap q x = Some nd"
    using pins_live [OF k] live_heap by blast
  have o: "\<And>x. x \<in> set (owned_nodes (pcs t)) \<Longrightarrow> lq_heap q x \<noteq> None" using owned_live [OF assms] by blast
  show ?thesis
  proof (cases "pcs t")
    case (PushCas n tail nxt)
    then show ?thesis using l [of tail] by (cases nxt) (auto simp: lfq_step_def)
  next
    case (PopDelete data xs)
    then show ?thesis using o by (cases xs) (auto simp: lfq_step_def)
  next
    case (PopData head x)
    then show ?thesis using l [of x] by (auto simp: lfq_step_def)
  qed (use l in \<open>auto simp: lfq_step_def\<close>)
qed

text \<open>How far the call of a thread has got, against what its trace says.\<close>

fun pend_ok :: "'a LockFreeQueue \<Rightarrow> 'a lfq_pc \<Rightarrow> 'a lfq_pending \<Rightarrow> bool" where
  "pend_ok q Idle p = (p = NoCall)"
| "pend_ok q (PushLoop n) p = (\<exists>v. node_data q n = Some v \<and> p = PendingPush v)"
| "pend_ok q (PushNext n tail) p = (\<exists>v. node_data q n = Some v \<and> p = PendingPush v)"
| "pend_ok q (PushCheck n tail nxt) p = (\<exists>v. node_data q n = Some v \<and> p = PendingPush v)"
| "pend_ok q (PushCas n tail nxt) p = (\<exists>v. node_data q n = Some v \<and> p = PendingPush v)"
| "pend_ok q (PushSwing n tail) p = (p = PushTaken)"
| "pend_ok q PushSize p = (p = PushTaken)"
| "pend_ok q PushDone p = (p = PushTaken)"
| "pend_ok q (PopCheck head tail nxt) p = (\<exists>b. p = PendingPop b \<and> (head = tail \<and> nxt = None \<longrightarrow> b))"
| "pend_ok q (PopSize head data) p = (\<exists>v. data = Some v \<and> p = PopTaken v)"
| "pend_ok q (PopRetire head data) p = (\<exists>v. data = Some v \<and> p = PopTaken v)"
| "pend_ok q (PopCount data) p = (\<exists>v. data = Some v \<and> p = PopTaken v)"
| "pend_ok q (PopReclaim data) p = (\<exists>v. data = Some v \<and> p = PopTaken v)"
| "pend_ok q (PopGrab data) p = (\<exists>v. data = Some v \<and> p = PopTaken v)"
| "pend_ok q (PopReset data xs) p = (\<exists>v. data = Some v \<and> p = PopTaken v)"
| "pend_ok q (PopDelete data xs) p = (\<exists>v. data = Some v \<and> p = PopTaken v)"
| "pend_ok q (PopDone None) p = (p = PendingPop True)"
| "pend_ok q (PopDone (Some v)) p = (p = PopTaken v)"
| "pend_ok q _ p = (\<exists>b. p = PendingPop b)"

lemma pend_ok_frame:
  "pend_ok q pc p \<Longrightarrow> (\<And>x. x \<in> set (owned_nodes pc) \<Longrightarrow> node_data q' x = node_data q x) \<Longrightarrow> pend_ok q' pc p"
  by (cases "(q, pc, p)" rule: pend_ok.cases) auto

lemma pend_ok_legal: "pend_ok q pc p \<Longrightarrow> p \<noteq> Illegal"
  by (cases "(q, pc, p)" rule: pend_ok.cases) auto

lemma node_data_simps [simp]:
  "node_data (cas_tail spurious e y q) = node_data q" "node_data (set_next a n q) = node_data q"
  by (auto simp: node_data_def fun_eq_iff cas_tail_def set_next_def split: option.splits)

lemma step_node_data:
  assumes "lfq_step spurious q pc = Inr (q', pc', ev)" and "x \<notin> set (grabbed pc)"
  shows "node_data q' x = node_data q x"
proof (cases "is_push pc")
  case True
  with assms(1) show ?thesis
    unfolding lfq_step_def by (cases "(spurious, q, pc)" rule: push_step.cases) (auto simp: node_data_def [of "_ \<lparr>lq_size := _\<rparr>"]
        node_data_def [of q, symmetric] split: option.splits if_splits)
next
  case False
  with assms show ?thesis
    unfolding lfq_step_def by (cases "(spurious, q, pc)" rule: pop_step.cases) (auto simp: node_data_def cas_tail_def split: option.splits if_splits)
qed

lemma pend_step:
  assumes Q: "queue_inv q cur xs" and T: "threads_inv q cur pcs" and p: "pend_ok q (pcs t) p"
    and step: "lfq_step spurious q (pcs t) = Inr (q', pc', ev)"
  shows "pend_ok q' pc' (pend_next (Act ev) p)"
proof (cases "is_push (pcs t)")
  case True
  have "node_data (q\<lparr>lq_size := n\<rparr>) = node_data q" for n by (simp add: node_data_def [abs_def])
  with True p step show ?thesis
    unfolding lfq_step_def
    by (cases "(spurious, q, pcs t)" rule: push_step.cases) (auto simp: lin_of_def split: option.splits if_splits)
next
  case False
  show ?thesis
  proof (cases "pcs t")
    case (PopCas head x data)
    have "\<exists>v. data = Some v" if "lq_head q = head" using pop_cas_inv [OF Q T PopCas that] by metis
    then show ?thesis using False p step PopCas by (auto simp: lfq_step_def lin_of_def split: if_splits)
  next
    case (PopDelete data xs)
    then show ?thesis
      using False p step by (cases xs) (auto simp: lfq_step_def pop_return_def split: option.splits if_splits)
  next
    case (PopDone r)
    then have "q' = q \<and> pc' = PopDone r \<and> ev = Quiet" using step by (simp add: lfq_step_def)
    then show ?thesis using p PopDone by simp
  qed (use False p step in \<open>auto simp: lfq_step_def pop_return_def split: option.splits if_splits\<close>)
qed

definition sys_inv :: "'a lfq_sys \<Rightarrow> nat list \<Rightarrow> 'a list \<Rightarrow> bool" where
  "sys_inv s cur xs \<longleftrightarrow> queue_inv (ls_queue s) cur xs \<and> threads_inv (ls_queue s) cur (ls_pc s) \<and>
     fifo_replay (ls_trace s) = Some xs \<and> (\<forall>t. pend_ok (ls_queue s) (ls_pc s t) (pending t (ls_trace s)))"

lemma sys_inv_goto:
  assumes "sys_inv s cur xs" and "queue_inv q cur' ys" and "threads_inv q cur' ((ls_pc s)(t := pc))"
    and "fifo_next l (Some xs) = Some ys" and "pend_ok q pc (pend_next l (pending t (ls_trace s)))"
    and "\<And>t' x. t' \<noteq> t \<Longrightarrow> x \<in> set (owned_nodes (ls_pc s t')) \<Longrightarrow> node_data q x = node_data (ls_queue s) x"
  shows "sys_inv (goto t pc l q s) cur' ys"
proof -
  have "pend_ok q (ls_pc s t') (pending t' (ls_trace s))" if "t' \<noteq> t" for t'
  proof (rule pend_ok_frame)
    show "pend_ok (ls_queue s) (ls_pc s t') (pending t' (ls_trace s))" using assms(1) by (simp add: sys_inv_def)
    show "node_data q x = node_data (ls_queue s) x" if "x \<in> set (owned_nodes (ls_pc s t'))" for x
      using \<open>t' \<noteq> t\<close> that by (rule assms(6))
  qed
  moreover have "fifo_replay (ls_trace s) = Some xs" using assms(1) by (simp add: sys_inv_def)
  ultimately show ?thesis using assms(2-5) by (simp add: sys_inv_def goto_def)
qed

lemma push_call_inv:
  assumes I: "sys_inv s cur xs" and idle: "ls_pc s t = Idle" and new: "lq_heap (ls_queue s) n = None"
  shows "sys_inv (goto t (PushLoop n) (CallPush v) ((ls_queue s)\<lparr>lq_heap := (lq_heap (ls_queue s))(n \<mapsto> \<lparr>nd_data = Some v, nd_next = None\<rparr>)\<rparr>) s) cur xs"
proof -
  let ?q = "(ls_queue s)\<lparr>lq_heap := (lq_heap (ls_queue s))(n \<mapsto> \<lparr>nd_data = Some v, nd_next = None\<rparr>)\<rparr>"
  have QT: "queue_inv (ls_queue s) cur xs" "threads_inv (ls_queue s) cur (ls_pc s)" using I by (simp_all add: sys_inv_def)
  have p: "pending t (ls_trace s) = NoCall" using I idle by (metis pend_ok.simps(1) sys_inv_def)
  show ?thesis
  proof (rule sys_inv_goto [OF I])
    show "node_data ?q x = node_data (ls_queue s) x" if "t' \<noteq> t" "x \<in> set (owned_nodes (ls_pc s t'))" for t' x
      using owned_live [OF QT(2) that(2)] new by (auto simp: node_data_def)
  qed (use alloc_inv [OF QT idle new] p in \<open>simp_all add: node_data_def\<close>)
qed

lemma reach_inv: "lfq_reach True s \<Longrightarrow> \<exists>cur xs. sys_inv s cur xs"
proof (induction rule: lfq_reach.induct)
  case (init dummy)
  have "queue_inv (LockFreeQueue_new dummy) [dummy] []"
    by (simp add: queue_inv_def LockFreeQueue_new_def next_of_def)
  then show ?case
    by (intro exI [of _ "[dummy]"] exI [of _ "[]"])
      (simp add: sys_inv_def threads_inv_def owns_ok_def apart_def fifo_replay_def pending_def)
next
  case (push s t n v)
  then obtain cur xs where "sys_inv s cur xs" by blast
  from push_call_inv [OF this push.hyps(2,3)] show ?case by blast
next
  case (pop s t)
  then obtain cur xs where I: "sys_inv s cur xs" by blast
  have QT: "queue_inv (ls_queue s) cur xs" "threads_inv (ls_queue s) cur (ls_pc s)" using I by (simp_all add: sys_inv_def)
  have "pending t (ls_trace s) = NoCall" using I pop.hyps(2) by (metis pend_ok.simps(1) sys_inv_def)
  then have "sys_inv (goto t PopLoop CallPop (ls_queue s) s) cur xs"
    using QT by (intro sys_inv_goto [OF I] local_step [OF QT(2)]) auto
  then show ?case by blast
next
  case (act s spurious t q pc ev)
  then obtain cur xs where I: "sys_inv s cur xs" by blast
  have QT: "queue_inv (ls_queue s) cur xs" "threads_inv (ls_queue s) cur (ls_pc s)" using I by (simp_all add: sys_inv_def)
  have "step_ok (ls_pc s) t xs q pc ev"
    using act.hyps(3) by (intro lfq_step_ok [OF QT act.hyps(2)]) (auto simp: reclaim_ok_def)
  then obtain cur' ys where ok: "queue_inv q cur' ys" "threads_inv q cur' ((ls_pc s)(t := pc))"
      "fifo_next (Act ev) (Some xs) = Some ys" by (auto simp: step_ok_def)
  have "sys_inv (goto t pc (Act ev) q s) cur' ys"
  proof (rule sys_inv_goto [OF I ok])
    show "pend_ok q pc (pend_next (Act ev) (pending t (ls_trace s)))"
      using I by (intro pend_step [OF QT _ act.hyps(2)]) (simp add: sys_inv_def)
    fix t' x assume "t' \<noteq> t" and "x \<in> set (owned_nodes (ls_pc s t'))"
    moreover have "apart (ls_pc s t) (ls_pc s t')" using QT(2) \<open>t' \<noteq> t\<close> by (auto simp: threads_inv_def)
    ultimately have "x \<notin> set (grabbed (ls_pc s t))" using grabbed_owned by (auto simp: apart_def)
    then show "node_data q x = node_data (ls_queue s) x" by (rule step_node_data [OF act.hyps(2)])
  qed
  then show ?case by blast
next
  case (ret_push s t)
  then obtain cur xs where I: "sys_inv s cur xs" by blast
  have QT: "queue_inv (ls_queue s) cur xs" "threads_inv (ls_queue s) cur (ls_pc s)" using I by (simp_all add: sys_inv_def)
  have "pending t (ls_trace s) = PushTaken" using I ret_push.hyps(2) by (metis pend_ok.simps(8) sys_inv_def)
  then have "sys_inv (goto t Idle ReturnPush (ls_queue s) s) cur xs"
    using QT by (intro sys_inv_goto [OF I] local_step [OF QT(2)]) simp_all
  then show ?case by blast
next
  case (ret_pop s t r)
  then obtain cur xs where I: "sys_inv s cur xs" by blast
  have QT: "queue_inv (ls_queue s) cur xs" "threads_inv (ls_queue s) cur (ls_pc s)" using I by (simp_all add: sys_inv_def)
  have "pend_ok (ls_queue s) (PopDone r) (pending t (ls_trace s))" using I ret_pop.hyps(2) by (metis sys_inv_def)
  then have "pend_next (ReturnPop r) (pending t (ls_trace s)) = NoCall" by (cases r) auto
  then have "sys_inv (goto t Idle (ReturnPop r) (ls_queue s) s) cur xs"
    using QT by (intro sys_inv_goto [OF I] local_step [OF QT(2)]) simp_all
  then show ?case by blast
qed

section \<open>Results\<close>

text \<open>The queue holds a list: the data of the nodes after the dummy node, in order.\<close>

definition lfq_holds :: "'a LockFreeQueue \<Rightarrow> 'a list \<Rightarrow> bool" where
  "lfq_holds q xs \<longleftrightarrow> (\<exists>cur. linked (lq_heap q) cur \<and> hd cur = lq_head q \<and> map (node_data q) (tl cur) = map Some xs)"

text \<open>
  C7. In every careful interleaving of any number of threads that push and pop, spurious failures
  included: no action touches a deleted node; every call so far has taken effect at most once, every
  finished push exactly once, every finished pop has returned the value it took or has seen the queue
  empty; and replaying these effects in their order on a list is legal and gives the contents of the
  queue.
\<close>

theorem lfq_linearizable:
  assumes "lfq_reach True s"
  shows "(\<forall>t spurious. \<exists>r. lfq_step spurious (ls_queue s) (ls_pc s t) = Inr r) \<and>
    (\<forall>t. pending t (ls_trace s) \<noteq> Illegal) \<and>
    (\<exists>xs. fifo_replay (ls_trace s) = Some xs \<and> lfq_holds (ls_queue s) xs)"
proof -
  obtain cur xs where I: "sys_inv s cur xs" using reach_inv [OF assms] by blast
  then have "lfq_holds (ls_queue s) xs" by (auto simp: sys_inv_def queue_inv_def lfq_holds_def)
  moreover have "\<forall>t. pending t (ls_trace s) \<noteq> Illegal"
    using I pend_ok_legal by (metis sys_inv_def)
  moreover have "\<forall>t spurious. \<exists>r. lfq_step spurious (ls_queue s) (ls_pc s t) = Inr r"
    using I lfq_step_safe by (metis sys_inv_def)
  ultimately show ?thesis using I by (auto simp: sys_inv_def)
qed

text \<open>The destructor.\<close>

lemma linked_frame: "linked h xs \<Longrightarrow> a \<notin> set xs \<Longrightarrow> linked (h(a := None)) xs"
  by (induction h xs rule: linked.induct) (auto simp: next_of_def)

lemma delete_nodes_linked:
  "linked h (x # xs) \<Longrightarrow> distinct (x # xs) \<Longrightarrow> delete_nodes h (Some x) = Some (Inr (h |` (- set (x # xs))))"
proof (induction xs arbitrary: h x)
  case Nil
  then obtain nd where "h x = Some nd" "nd_next nd = None" by (auto simp: next_of_def)
  then show ?case by (simp add: delete_nodes.simps restrict_map_def fun_eq_iff)
next
  case (Cons y ys)
  then obtain nd where nd: "h x = Some nd" "nd_next nd = Some y" by (auto simp: next_of_def Option.bind_eq_Some_conv)
  have "linked (h(x := None)) (y # ys)" using Cons.prems by (intro linked_frame) auto
  from Cons.IH [OF this] distinct_tl [OF Cons.prems(2)]
  have "delete_nodes (h(x := None)) (Some y) = Some (Inr ((h(x := None)) |` (- set (y # ys))))" unfolding list.sel by blast
  moreover have "(h(x := None)) |` (- set (y # ys)) = h |` (- set (x # y # ys))" by (auto simp: restrict_map_def fun_eq_iff)
  ultimately show ?case using nd by (simp add: delete_nodes.simps [of h])
qed

lemma delete_retired_frees:
  "distinct as \<Longrightarrow> \<forall>a \<in> set as. h a \<noteq> None \<Longrightarrow> delete_retired h as = Inr (h |` (- set as))"
proof (induction as arbitrary: h)
  case (Cons a as)
  have "(h(a := None)) |` (- set as) = h |` (- set (a # as))" by (auto simp: restrict_map_def fun_eq_iff)
  moreover have "delete_retired (h(a := None)) as = Inr ((h(a := None)) |` (- set as))" using Cons by (intro Cons.IH) auto
  ultimately show ?case using Cons.prems(2) by (simp del: fun_upd_apply set_simps) simp
qed (simp add: restrict_map_def)

text \<open>
  After every careful interleaving the destructor ends, deletes no node twice and
  touches no deleted node, and no node of the queue and no retired node is left.
\<close>

theorem lfq_destroy_returns:
  assumes "lfq_reach True s"
  shows "\<exists>nodes. linked (lq_heap (ls_queue s)) nodes \<and> hd nodes = lq_head (ls_queue s) \<and>
    lfq_destroy (ls_queue s) = Some (Inr (lq_heap (ls_queue s) |` (- (set nodes \<union> set (lq_retired (ls_queue s))))))"
proof -
  let ?q = "ls_queue s"
  obtain cur xs where "queue_inv ?q cur xs" using reach_inv [OF assms] by (auto simp: sys_inv_def)
  then have I: "linked (lq_heap ?q) cur" "distinct cur" "hd cur = lq_head ?q" "distinct (lq_retired ?q)"
      "\<forall>x \<in> set (lq_retired ?q). x \<notin> set cur \<and> next_of (lq_heap ?q) x \<noteq> None"
    by (auto simp: queue_inv_def)
  obtain ys where cur: "cur = lq_head ?q # ys" using I(1,3) by (cases cur) auto
  have "delete_nodes (lq_heap ?q) (Some (lq_head ?q)) = Some (Inr (lq_heap ?q |` (- set cur)))"
    using delete_nodes_linked I(1,2) unfolding cur by blast
  moreover have "delete_retired (lq_heap ?q |` (- set cur)) (lq_retired ?q) =
      Inr (lq_heap ?q |` (- set cur) |` (- set (lq_retired ?q)))"
    using I(4,5) by (intro delete_retired_frees) (auto simp: next_of_def restrict_map_def Option.bind_eq_Some_conv)
  ultimately show ?thesis
    using I(1,3) by (intro exI [of _ cur]) (simp add: lfq_destroy_def)
qed

text \<open>One thread running alone.\<close>

definition act_one :: "nat \<Rightarrow> 'a lfq_sys \<Rightarrow> 'a lfq_sys" where
  "act_one t s = (case lfq_step False (ls_queue s) (ls_pc s t) of Inl e \<Rightarrow> s | Inr (q, pc, ev) \<Rightarrow> goto t pc (Act ev) q s)"

primrec run_alone :: "nat \<Rightarrow> nat \<Rightarrow> 'a lfq_sys \<Rightarrow> 'a lfq_sys" where
  "run_alone t 0 s = s"
| "run_alone t (Suc n) s = run_alone t n (act_one t s)"

lemma act_one_reach:
  assumes "lfq_reach careful s" and "careful \<Longrightarrow> reclaim_ok s t"
  shows "lfq_reach careful (act_one t s)"
  using lfq_reach.act [OF assms(1), of False t] assms
  by (auto simp: act_one_def split: sum.splits prod.splits)

lemma act_one_others: "t' \<noteq> t \<Longrightarrow> ls_pc (act_one t s) t' = ls_pc s t'"
  by (simp add: act_one_def goto_def split: sum.splits prod.splits)

lemma run_alone_reach:
  assumes "lfq_reach careful s" and "careful \<Longrightarrow> \<forall>t'. t' \<noteq> t \<longrightarrow> pins (ls_pc s t') = {}"
  shows "lfq_reach careful (run_alone t n s)"
  using assms
proof (induction n arbitrary: s)
  case (Suc n)
  have "lfq_reach careful (act_one t s)"
    using Suc.prems by (intro act_one_reach) (auto simp: reclaim_ok_def split: lfq_pc.splits)
  then show ?case using Suc.prems(2) by (auto intro!: Suc.IH simp: act_one_others)
qed simp

definition sys_new :: "nat \<Rightarrow> 'a lfq_sys" where
  "sys_new dummy = \<lparr>ls_queue = LockFreeQueue_new dummy, ls_pc = (\<lambda>_. Idle), ls_trace = []\<rparr>"

definition call_push :: "nat \<Rightarrow> nat \<Rightarrow> 'a \<Rightarrow> 'a lfq_sys \<Rightarrow> 'a lfq_sys" where
  "call_push t n v s = goto t (PushLoop n) (CallPush v)
     ((ls_queue s)\<lparr>lq_heap := (lq_heap (ls_queue s))(n \<mapsto> \<lparr>nd_data = Some v, nd_next = None\<rparr>)\<rparr>) s"

lemma sys_new_reach: "lfq_reach careful (sys_new dummy)"
  unfolding sys_new_def by (rule lfq_reach.init)

lemma call_push_reach:
  "lfq_reach careful s \<Longrightarrow> ls_pc s t = Idle \<Longrightarrow> lq_heap (ls_queue s) n = None \<Longrightarrow> lfq_reach careful (call_push t n v s)"
  unfolding call_push_def by (rule lfq_reach.push)

lemmas act_simps = act_one_def lfq_step_def goto_def cas_tail_def set_next_def lin_of_def node_data_def

text \<open>Witness of C7: one thread has pushed the value 7.\<close>

theorem lfq_linearizable_witness:
  "let s = run_alone 0 4 (call_push 0 1 (7 :: nat) (sys_new 0)) in
   lfq_reach True s \<and> fifo_replay (ls_trace s) = Some [7] \<and> lfq_holds (ls_queue s) [7]"
proof -
  define s where "s = run_alone 0 4 (call_push 0 1 (7 :: nat) (sys_new 0))"
  have r: "lfq_reach True s"
    unfolding s_def by (intro run_alone_reach call_push_reach sys_new_reach)
      (simp_all add: sys_new_def LockFreeQueue_new_def call_push_def goto_def)
  have "ls_trace s = [(0, CallPush 7), (0, Act Quiet), (0, Act Quiet), (0, Act Quiet), (0, Act (LinPush 7))]"
    unfolding s_def by (simp add: eval_nat_numeral act_simps sys_new_def LockFreeQueue_new_def call_push_def)
  then have "fifo_replay (ls_trace s) = Some [7]" by (simp add: fifo_replay_def)
  with lfq_linearizable [OF r] r show ?thesis unfolding s_def [symmetric] Let_def by auto
qed

text \<open>Instance: the queue that holds the value 7 is destroyed.\<close>

theorem lfq_destroy_returns_witness:
  "let q = ls_queue (run_alone 0 4 (call_push 0 1 (7 :: nat) (sys_new 0))) in
   \<exists>nodes. linked (lq_heap q) nodes \<and> hd nodes = lq_head q \<and>
     lfq_destroy q = Some (Inr (lq_heap q |` (- (set nodes \<union> set (lq_retired q)))))"
proof -
  have "lfq_reach True (run_alone 0 4 (call_push 0 1 (7 :: nat) (sys_new 0)))"
    by (intro run_alone_reach call_push_reach sys_new_reach)
      (simp_all add: sys_new_def LockFreeQueue_new_def call_push_def goto_def)
  from lfq_destroy_returns [OF this] show ?thesis by (simp only: Let_def)
qed










end
