(* ===== verification/Memory_Pool.thy ===== *)
theory Memory_Pool
  imports Prelude
begin

text \<open>
  The class \<open>LockFreePool<T, POOL_SIZE>\<close> of \<open>include/core/memory_pool.hpp\<close> and its owning pointer
  \<open>PoolPtr\<close>.

  \<^item> A pool has \<open>length mp_in_use = POOL_SIZE\<close> slots; a slot of the storage is \<open>Some x\<close> while an object
    lives in it. \<open>mp_base\<close> is the address of \<open>storage_[0]\<close>, \<open>mp_sizeof\<close> the size of a slot, and a pointer
    is an address or null.
  \<^item> \<open>deallocate\<close> runs the destructor on whatever the pointer points to: a pointer into the pool that
    is not the address of a living object is the error \<open>UB_use_after_free\<close>.
  \<^item> The locale \<open>slot_allocator\<close> is what a client relies on; the interpretation \<open>pool\<close> shows that the
    pool keeps it.
  \<^item> \<open>pool_step\<close> interleaves the atomic actions of several threads.
\<close>

section \<open>The pool\<close>

record 'a LockFreePool =
  mp_base :: nat
  mp_sizeof :: nat
  mp_head :: u64
  mp_in_use :: "bool list"
  mp_storage :: "'a option list"

abbreviation pool_size :: "'a LockFreePool \<Rightarrow> nat" where
  "pool_size p \<equiv> length (mp_in_use p)"

definition LockFreePool_new :: "nat \<Rightarrow> nat \<Rightarrow> nat \<Rightarrow> 'a LockFreePool" where
  "LockFreePool_new base size_of n = \<lparr>mp_base = base, mp_sizeof = size_of, mp_head = 0,
     mp_in_use = replicate n False, mp_storage = replicate n None\<rparr>"

definition slot_addr :: "'a LockFreePool \<Rightarrow> nat \<Rightarrow> nat" where
  "slot_addr p i = mp_base p + i * mp_sizeof p"

text \<open>The probing loop of \<open>allocate\<close>, on the attempts left.\<close>

fun find_slot :: "bool list \<Rightarrow> nat \<Rightarrow> nat \<Rightarrow> nat \<Rightarrow> nat option" where
  "find_slot in_use start attempts 0 = None"
| "find_slot in_use start attempts (Suc left) =
     (let idx = (start + attempts) mod length in_use
      in if \<not> in_use ! idx then Some idx else find_slot in_use start (attempts + 1) left)"

definition start_idx :: "'a LockFreePool \<Rightarrow> nat" where
  "start_idx p = unat (mp_head p) mod pool_size p"

definition mp_allocate :: "'a \<Rightarrow> 'a LockFreePool \<Rightarrow> nat option \<times> 'a LockFreePool" where
  "mp_allocate x p =
     (let p1 = p\<lparr>mp_head := mp_head p + 1\<rparr>
      in case find_slot (mp_in_use p) (start_idx p) 0 (pool_size p) of
           None \<Rightarrow> (None, p1)
         | Some idx \<Rightarrow> (Some (slot_addr p idx),
             p1\<lparr>mp_in_use := (mp_in_use p)[idx := True], mp_storage := (mp_storage p)[idx := Some x]\<rparr>))"

definition mp_deallocate :: "nat option \<Rightarrow> 'a LockFreePool \<Rightarrow> 'a LockFreePool result" where
  "mp_deallocate ptr p = (case ptr of
       None \<Rightarrow> Inr p
     | Some addr \<Rightarrow>
         if addr < mp_base p \<or> addr \<ge> mp_base p + pool_size p * mp_sizeof p then Inr p
         else let idx = (addr - mp_base p) div mp_sizeof p
              in if idx \<ge> pool_size p then Inr p
                 else if slot_addr p idx \<noteq> addr \<or> mp_storage p ! idx = None then Inl UB_use_after_free
                 else Inr (p\<lparr>mp_storage := (mp_storage p)[idx := None], mp_in_use := (mp_in_use p)[idx := False]\<rparr>))"

definition mp_capacity :: "'a LockFreePool \<Rightarrow> nat" where
  "mp_capacity p = pool_size p"

fun count_used :: "bool list \<Rightarrow> nat \<Rightarrow> nat" where
  "count_used [] c = c"
| "count_used (b # bs) c = count_used bs (if b then c + 1 else c)"

definition mp_allocated :: "'a LockFreePool \<Rightarrow> nat" where
  "mp_allocated p = count_used (mp_in_use p) 0"

definition mp_available :: "'a LockFreePool \<Rightarrow> nat" where
  "mp_available p = pool_size p - mp_allocated p"

definition mp_destroy :: "'a LockFreePool \<Rightarrow> 'a LockFreePool" where
  "mp_destroy p = p\<lparr>mp_storage := map (\<lambda>(used, x). if used then None else x) (zip (mp_in_use p) (mp_storage p))\<rparr>"

section \<open>Owning pointers\<close>

text \<open>
  A \<open>PoolPtr\<close> holds a reference to its pool, here the number of a pool among those of the program,
  and the pointer. Move assignment is given for two different \<open>PoolPtr\<close>s; on itself it does nothing.
\<close>

record PoolPtr =
  pp_pool :: nat
  pp_ptr :: "nat option"

type_synonym 'a pools = "nat \<Rightarrow> 'a LockFreePool"

definition PoolPtr_new :: "nat \<Rightarrow> nat option \<Rightarrow> PoolPtr" where
  "PoolPtr_new pool ptr = \<lparr>pp_pool = pool, pp_ptr = ptr\<rparr>"

definition PoolPtr_destroy :: "PoolPtr \<Rightarrow> 'a pools \<Rightarrow> 'a pools result" where
  "PoolPtr_destroy pp ps = (case pp_ptr pp of None \<Rightarrow> Inr ps
     | Some a \<Rightarrow> bindE (mp_deallocate (Some a) (ps (pp_pool pp))) (\<lambda>p. Inr (ps(pp_pool pp := p))))"

definition PoolPtr_move :: "PoolPtr \<Rightarrow> PoolPtr \<times> PoolPtr" where
  "PoolPtr_move other = (\<lparr>pp_pool = pp_pool other, pp_ptr = pp_ptr other\<rparr>, other\<lparr>pp_ptr := None\<rparr>)"

definition PoolPtr_assign :: "PoolPtr \<Rightarrow> PoolPtr \<Rightarrow> 'a pools \<Rightarrow> (PoolPtr \<times> PoolPtr \<times> 'a pools) result" where
  "PoolPtr_assign pp other ps = bindE (PoolPtr_destroy pp ps)
     (\<lambda>ps'. Inr (pp\<lparr>pp_ptr := pp_ptr other\<rparr>, other\<lparr>pp_ptr := None\<rparr>, ps'))"

definition PoolPtr_get :: "PoolPtr \<Rightarrow> nat option" where
  "PoolPtr_get pp = pp_ptr pp"

definition PoolPtr_bool :: "PoolPtr \<Rightarrow> bool" where
  "PoolPtr_bool pp \<longleftrightarrow> pp_ptr pp \<noteq> None"

definition PoolPtr_release :: "PoolPtr \<Rightarrow> nat option \<times> PoolPtr" where
  "PoolPtr_release pp = (pp_ptr pp, pp\<lparr>pp_ptr := None\<rparr>)"

section \<open>Probing\<close>

lemma find_slot_Some:
  assumes "find_slot u s a k = Some i"
  shows "\<exists>j \<ge> a. j < a + k \<and> i = (s + j) mod length u \<and> \<not> u ! i \<and> (\<forall>l. a \<le> l \<and> l < j \<longrightarrow> u ! ((s + l) mod length u))"
  using assms
proof (induction u s a k rule: find_slot.induct)
  case (2 u s a k)
  show ?case
  proof (cases "u ! ((s + a) mod length u)")
    case True
    with 2 obtain j where "j \<ge> a + 1" "j < a + 1 + k" "i = (s + j) mod length u" "\<not> u ! i"
        "\<forall>l. a + 1 \<le> l \<and> l < j \<longrightarrow> u ! ((s + l) mod length u)"
      by (auto simp: Let_def)
    with True show ?thesis by (intro exI [of _ j]) (auto simp: le_eq_less_or_eq [of a])
  next
    case False
    with 2 show ?thesis by (intro exI [of _ a]) (auto simp: Let_def)
  qed
qed simp

lemma find_slot_None: "find_slot u s a k = None \<Longrightarrow> a \<le> j \<Longrightarrow> j < a + k \<Longrightarrow> u ! ((s + j) mod length u)"
proof (induction u s a k rule: find_slot.induct)
  case (2 u s a k)
  then show ?case by (cases "j = a") (auto simp: Let_def split: if_splits)
qed simp

lemma mod_cover: "i < n \<Longrightarrow> s < n \<Longrightarrow> \<exists>j < n. (s + j) mod n = (i :: nat)"
  by (intro exI [of _ "if s \<le> i then i - s else i + n - s"]) auto

lemma find_slot_all:
  assumes "s < length u" and "find_slot u s 0 (length u) = None" and "i < length u"
  shows "u ! i"
  using mod_cover [OF assms(3,1)] find_slot_None [OF assms(2)] by auto

lemma count_used_filter: "count_used bs c = c + length (filter id bs)"
  by (induction bs arbitrary: c) auto

section \<open>The contract of an allocator\<close>

locale slot_allocator =
  fixes alloc :: "'x \<Rightarrow> 'p \<Rightarrow> 'a option \<times> 'p"
    and free :: "'a \<Rightarrow> 'p \<Rightarrow> 'p result"
    and objs :: "'p \<Rightarrow> 'a \<rightharpoonup> 'x"
    and cap :: "'p \<Rightarrow> nat"
    and inv :: "'p \<Rightarrow> bool"
  assumes finite_objs: "inv p \<Longrightarrow> finite (dom (objs p)) \<and> card (dom (objs p)) \<le> cap p"
    and alloc_fails: "inv p \<Longrightarrow> alloc x p = (None, p') \<Longrightarrow>
      inv p' \<and> cap p' = cap p \<and> objs p' = objs p \<and> card (dom (objs p)) = cap p"
    and alloc_gives: "inv p \<Longrightarrow> alloc x p = (Some a, p') \<Longrightarrow>
      inv p' \<and> cap p' = cap p \<and> objs p a = None \<and> objs p' = (objs p)(a \<mapsto> x)"
    and free_live: "inv p \<Longrightarrow> objs p a \<noteq> None \<Longrightarrow>
      \<exists>p'. free a p = Inr p' \<and> inv p' \<and> cap p' = cap p \<and> objs p' = (objs p)(a := None)"
begin

lemma alloc_iff: "inv p \<Longrightarrow> fst (alloc x p) = None \<longleftrightarrow> card (dom (objs p)) = cap p"
proof
  assume i: "inv p" and full: "card (dom (objs p)) = cap p"
  show "fst (alloc x p) = None"
  proof (rule ccontr)
    assume "fst (alloc x p) \<noteq> None"
    then obtain a p' where a: "alloc x p = (Some a, p')" by (cases "alloc x p") auto
    from alloc_gives [OF i a] have "card (dom (objs p')) = Suc (card (dom (objs p)))" "inv p'" "cap p' = cap p"
      using finite_objs [OF i] by (auto simp: domIff)
    then show False using finite_objs [of p'] full by simp
  qed
next
  assume i: "inv p" and "fst (alloc x p) = None"
  then obtain p' where "alloc x p = (None, p')" by (cases "alloc x p") auto
  then show "card (dom (objs p)) = cap p" using alloc_fails [OF i] by blast
qed

lemma alloc_free: "inv p \<Longrightarrow> alloc x p = (Some a, p') \<Longrightarrow> \<exists>p''. free a p' = Inr p'' \<and> inv p'' \<and> objs p'' = objs p"
proof -
  assume i: "inv p" and a: "alloc x p = (Some a, p')"
  note g = alloc_gives [OF i a]
  then obtain p'' where "free a p' = Inr p''" "inv p''" "objs p'' = (objs p')(a := None)"
    using free_live [of p' a] by auto
  with g show ?thesis by (auto simp: fun_upd_idem)
qed

end

definition pool_inv :: "'a LockFreePool \<Rightarrow> bool" where
  "pool_inv p \<longleftrightarrow> length (mp_storage p) = pool_size p \<and> 0 < pool_size p \<and> 0 < mp_sizeof p \<and>
     (\<forall>i < pool_size p. mp_in_use p ! i \<longleftrightarrow> mp_storage p ! i \<noteq> None)"

definition pool_objs :: "'a LockFreePool \<Rightarrow> nat \<rightharpoonup> 'a" where
  "pool_objs p a = (let i = (a - mp_base p) div mp_sizeof p
     in if mp_base p \<le> a \<and> i < pool_size p \<and> slot_addr p i = a then mp_storage p ! i else None)"

lemma slot_addr_inj: "0 < mp_sizeof p \<Longrightarrow> slot_addr p i = slot_addr p j \<longleftrightarrow> i = j"
  by (simp add: slot_addr_def)

lemma pool_objs_slot: "pool_inv p \<Longrightarrow> i < pool_size p \<Longrightarrow> pool_objs p (slot_addr p i) = mp_storage p ! i"
  by (simp add: pool_objs_def slot_addr_def pool_inv_def)

lemma pool_objs_addr: "pool_objs p a = Some x \<Longrightarrow> \<exists>i < pool_size p. a = slot_addr p i \<and> mp_storage p ! i = Some x"
  by (auto simp: pool_objs_def Let_def split: if_splits)

lemma pool_dom: "pool_inv p \<Longrightarrow> dom (pool_objs p) = slot_addr p ` {i. i < pool_size p \<and> mp_in_use p ! i}"
proof -
  assume i: "pool_inv p"
  then show ?thesis
    using pool_objs_slot [OF i] by (force simp: pool_inv_def domIff dest: pool_objs_addr)
qed

lemma pool_card: "pool_inv p \<Longrightarrow> card (dom (pool_objs p)) = mp_allocated p"
proof -
  assume i: "pool_inv p"
  have "card (dom (pool_objs p)) = card {i. i < pool_size p \<and> mp_in_use p ! i}"
    unfolding pool_dom [OF i] using i slot_addr_inj by (intro card_image inj_onI) (auto simp: pool_inv_def)
  also have "\<dots> = length (filter id (mp_in_use p))" by (simp add: length_filter_conv_card)
  finally show ?thesis by (simp add: mp_allocated_def count_used_filter)
qed

lemma pool_objs_put:
  assumes "pool_inv p" and "i < pool_size p"
  shows "pool_objs (p\<lparr>mp_head := h, mp_in_use := (mp_in_use p)[i := b], mp_storage := (mp_storage p)[i := v]\<rparr>) =
    (pool_objs p)(slot_addr p i := v)"
proof
  fix a
  let ?p = "p\<lparr>mp_head := h, mp_in_use := (mp_in_use p)[i := b], mp_storage := (mp_storage p)[i := v]\<rparr>"
  show "pool_objs ?p a = ((pool_objs p)(slot_addr p i := v)) a"
  proof (cases "a = slot_addr p i")
    case True
    then show ?thesis using assms by (simp add: pool_objs_def slot_addr_def pool_inv_def)
  next
    case False
    then have "(a - mp_base p) div mp_sizeof p = i \<Longrightarrow> slot_addr p ((a - mp_base p) div mp_sizeof p) \<noteq> a" by auto
    then show ?thesis using False assms
      by (cases "(a - mp_base p) div mp_sizeof p = i") (auto simp: pool_objs_def Let_def slot_addr_def)
  qed
qed

lemma pool_alloc_gives:
  assumes i: "pool_inv p" and a: "mp_allocate x p = (Some a, p')"
  shows "pool_inv p' \<and> pool_size p' = pool_size p \<and> pool_objs p a = None \<and> pool_objs p' = (pool_objs p)(a \<mapsto> x)"
proof -
  obtain idx where f: "find_slot (mp_in_use p) (start_idx p) 0 (pool_size p) = Some idx" and a': "a = slot_addr p idx"
    and p': "p' = p\<lparr>mp_head := mp_head p + 1, mp_in_use := (mp_in_use p)[idx := True], mp_storage := (mp_storage p)[idx := Some x]\<rparr>"
    using a by (auto simp: mp_allocate_def Let_def split: option.splits)
  have idx: "idx < pool_size p" "\<not> mp_in_use p ! idx" using find_slot_Some [OF f] i by (auto simp: pool_inv_def)
  have "pool_objs p a = None" using pool_objs_slot [OF i idx(1)] idx i by (simp add: a' pool_inv_def)
  moreover have "pool_inv p'" using i idx(1) by (auto simp: p' pool_inv_def nth_list_update)
  ultimately show ?thesis using pool_objs_put [OF i idx(1), where h = "mp_head p + 1" and b = True and v = "Some x"] by (simp add: p' a')
qed

lemma pool_alloc_fails:
  assumes i: "pool_inv p" and a: "mp_allocate x p = (None, p')"
  shows "pool_inv p' \<and> pool_size p' = pool_size p \<and> pool_objs p' = pool_objs p \<and> card (dom (pool_objs p)) = pool_size p"
proof -
  have f: "find_slot (mp_in_use p) (start_idx p) 0 (pool_size p) = None" and p': "p' = p\<lparr>mp_head := mp_head p + 1\<rparr>"
    using a by (auto simp: mp_allocate_def Let_def split: option.splits)
  have "start_idx p < pool_size p" using i by (simp add: start_idx_def pool_inv_def)
  from find_slot_all [OF this f] have "filter id (mp_in_use p) = mp_in_use p"
    by (auto simp: filter_id_conv in_set_conv_nth)
  then have "card (dom (pool_objs p)) = pool_size p"
    unfolding pool_card [OF i] by (simp add: mp_allocated_def count_used_filter)
  moreover have "pool_objs p' = pool_objs p" by (simp add: p' pool_objs_def fun_eq_iff slot_addr_def Let_def)
  ultimately show ?thesis using i by (simp add: p' pool_inv_def)
qed

lemma pool_free_live:
  assumes i: "pool_inv p" and "pool_objs p a \<noteq> None"
  shows "\<exists>p'. mp_deallocate (Some a) p = Inr p' \<and> pool_inv p' \<and> pool_size p' = pool_size p \<and> pool_objs p' = (pool_objs p)(a := None)"
proof -
  obtain x j where j: "j < pool_size p" "a = slot_addr p j" "mp_storage p ! j = Some x"
    using assms(2) pool_objs_addr [of p a] by auto
  have s: "0 < mp_sizeof p" using i by (simp add: pool_inv_def)
  have idx: "(a - mp_base p) div mp_sizeof p = j" using s by (simp add: j(2) slot_addr_def)
  have "j * mp_sizeof p < pool_size p * mp_sizeof p" using j(1) s by simp
  then have lim: "mp_base p \<le> a" "a < mp_base p + pool_size p * mp_sizeof p" by (simp_all add: j(2) slot_addr_def)
  let ?p = "p\<lparr>mp_storage := (mp_storage p)[j := None], mp_in_use := (mp_in_use p)[j := False]\<rparr>"
  have swap: "?p = p\<lparr>mp_in_use := (mp_in_use p)[j := False], mp_storage := (mp_storage p)[j := None]\<rparr>" by (cases p) simp
  have "mp_deallocate (Some a) p = Inr ?p" using lim j idx by (simp add: mp_deallocate_def Let_def)
  moreover have "pool_inv ?p" using i j(1) by (auto simp: pool_inv_def nth_list_update split: if_splits)
  moreover have "pool_objs ?p = (pool_objs p)(a := None)"
    unfolding swap using pool_objs_put [OF i j(1), where h = "mp_head p" and b = False and v = None] by (simp add: j(2))
  ultimately show ?thesis by simp
qed

interpretation pool: slot_allocator mp_allocate "\<lambda>a. mp_deallocate (Some a)" pool_objs mp_capacity pool_inv
proof
  fix p :: "'a LockFreePool" assume i: "pool_inv p"
  have "card (dom (pool_objs p)) \<le> card {i. i < pool_size p \<and> mp_in_use p ! i}"
    unfolding pool_dom [OF i] by (rule card_image_le) simp
  also have "\<dots> \<le> card {..<pool_size p}" by (rule card_mono) auto
  finally show "finite (dom (pool_objs p)) \<and> card (dom (pool_objs p)) \<le> mp_capacity p"
    unfolding pool_dom [OF i] by (simp add: mp_capacity_def)
next
  fix p p' :: "'a LockFreePool" and x assume "pool_inv p" "mp_allocate x p = (None, p')"
  then show "pool_inv p' \<and> mp_capacity p' = mp_capacity p \<and> pool_objs p' = pool_objs p \<and>
      card (dom (pool_objs p)) = mp_capacity p"
    unfolding mp_capacity_def by (rule pool_alloc_fails)
next
  fix p p' :: "'a LockFreePool" and x a assume "pool_inv p" "mp_allocate x p = (Some a, p')"
  then show "pool_inv p' \<and> mp_capacity p' = mp_capacity p \<and> pool_objs p a = None \<and> pool_objs p' = (pool_objs p)(a \<mapsto> x)"
    unfolding mp_capacity_def by (rule pool_alloc_gives)
next
  fix p :: "'a LockFreePool" and a assume "pool_inv p" "pool_objs p a \<noteq> None"
  then show "\<exists>p'. mp_deallocate (Some a) p = Inr p' \<and> pool_inv p' \<and> mp_capacity p' = mp_capacity p \<and>
      pool_objs p' = (pool_objs p)(a := None)"
    unfolding mp_capacity_def by (rule pool_free_live)
qed

section \<open>Clients of the pool\<close>

text \<open>
  The uses the class allows: any allocations, deallocation of null, of a pointer outside the pool,
  and of an object that is still alive. The map \<open>m\<close> is what the clients own.
\<close>

inductive pool_run :: "nat \<Rightarrow> nat \<Rightarrow> nat \<Rightarrow> 'a LockFreePool \<Rightarrow> (nat \<rightharpoonup> 'a) \<Rightarrow> bool" for base size_of n where
  new: "pool_run base size_of n (LockFreePool_new base size_of n) Map.empty"
| alloc: "pool_run base size_of n p m \<Longrightarrow> mp_allocate x p = (Some a, p') \<Longrightarrow> pool_run base size_of n p' (m(a \<mapsto> x))"
| full: "pool_run base size_of n p m \<Longrightarrow> mp_allocate x p = (None, p') \<Longrightarrow> pool_run base size_of n p' m"
| free: "pool_run base size_of n p m \<Longrightarrow> m a \<noteq> None \<Longrightarrow> mp_deallocate (Some a) p = Inr p' \<Longrightarrow>
    pool_run base size_of n p' (m(a := None))"
| null: "pool_run base size_of n p m \<Longrightarrow> mp_deallocate None p = Inr p' \<Longrightarrow> pool_run base size_of n p' m"

lemma pool_run_objs:
  assumes "pool_run base size_of n p m" and "0 < size_of" and "0 < n"
  shows "pool_inv p \<and> pool_objs p = m \<and> pool_size p = n"
  using assms
proof (induction rule: pool_run.induct)
  case new
  then show ?case
    by (auto simp: LockFreePool_new_def pool_inv_def pool_objs_def fun_eq_iff Let_def)
next
  case (alloc p m x a p')
  then show ?case using pool_alloc_gives by fastforce
next
  case (full p m x p')
  then show ?case using pool_alloc_fails by fastforce
next
  case (free p m a p')
  then show ?case using pool_free_live by fastforce
next
  case (null p m p')
  then show ?case by (simp add: mp_deallocate_def)
qed

text \<open>
  C24. However its clients allocate and deallocate their objects, the pool holds exactly the objects
  they own, at the addresses they were given; a new object never lands on a living one; allocation
  fails only when all \<open>POOL_SIZE\<close> slots are owned; deallocation of an owned object succeeds; and
  \<open>allocated()\<close> and \<open>available()\<close> count the owned and the free slots.
\<close>

theorem pool_correct:
  assumes "pool_run base size_of n p m" and "0 < size_of" and "0 < n"
  shows "pool_objs p = m \<and> mp_allocated p = card (dom m) \<and> mp_available p = n - card (dom m) \<and>
    (\<forall>x. case mp_allocate x p of (None, p') \<Rightarrow> card (dom m) = n | (Some a, p') \<Rightarrow> m a = None \<and> card (dom m) < n) \<and>
    (\<forall>a \<in> dom m. \<exists>p'. mp_deallocate (Some a) p = Inr p')"
proof -
  have P: "pool_inv p" "pool_objs p = m" "pool_size p = n" using pool_run_objs [OF assms] by blast+
  have c: "mp_allocated p = card (dom m)" using pool_card [OF P(1)] P(2) by simp
  have le: "card (dom m) \<le> n" using pool.finite_objs [OF P(1)] P by (simp add: mp_capacity_def)
  have "case mp_allocate x p of (None, p') \<Rightarrow> card (dom m) = n | (Some a, p') \<Rightarrow> m a = None \<and> card (dom m) < n" for x
  proof (cases "mp_allocate x p")
    case (Pair r p')
    then show ?thesis
      using pool.alloc_iff [OF P(1), of x] pool_alloc_gives [OF P(1), of x _ p'] P(2,3) le
      by (cases r) (auto simp: mp_capacity_def)
  qed
  moreover have "\<exists>p'. mp_deallocate (Some a) p = Inr p'" if "a \<in> dom m" for a
    using pool_free_live [OF P(1), of a] that P(2) by auto
  ultimately show ?thesis using P c by (simp add: mp_available_def)
qed

text \<open>Witness of C24: a pool of two slots, one of them taken.\<close>

theorem pool_correct_witness:
  "\<exists>p. pool_run 1000 8 2 p [1000 \<mapsto> (5 :: nat)] \<and> mp_allocated p = 1 \<and> mp_available p = 1"
proof -
  let ?p = "snd (mp_allocate (5 :: nat) (LockFreePool_new 1000 8 2))"
  have "mp_allocate (5 :: nat) (LockFreePool_new 1000 8 2) = (Some 1000, ?p)"
    by (simp add: mp_allocate_def LockFreePool_new_def start_idx_def slot_addr_def eval_nat_numeral)
  from pool_run.alloc [OF pool_run.new this] have r: "pool_run 1000 8 2 ?p [1000 \<mapsto> 5]" .
  with pool_correct [OF r] show ?thesis by auto
qed

lemma dealloc_outside:
  "a < mp_base p \<or> mp_base p + pool_size p * mp_sizeof p \<le> a \<Longrightarrow> mp_deallocate (Some a) p = Inr p"
  by (auto simp: mp_deallocate_def)

text \<open>
  Move assignment between \<open>PoolPtr\<close>s of two pools takes the pointer but not the pool: the
  destructor then asks the wrong pool, which ignores the foreign address, and the object stays
  allocated in its own pool for ever.
\<close>

theorem poolptr_assign_leaks:
  assumes "pp_pool pp \<noteq> pp_pool other" and "pp_ptr pp = None" and "pp_ptr other = Some a"
    and "pool_objs (ps (pp_pool other)) a = Some x"
    and "a < mp_base (ps (pp_pool pp)) \<or> mp_base (ps (pp_pool pp)) + pool_size (ps (pp_pool pp)) * mp_sizeof (ps (pp_pool pp)) \<le> a"
  shows "\<exists>pp' other'. PoolPtr_assign pp other ps = Inr (pp', other', ps) \<and>
    PoolPtr_destroy pp' ps = Inr ps \<and> PoolPtr_destroy other' ps = Inr ps \<and> pool_objs (ps (pp_pool other)) a = Some x"
  using assms by (simp add: PoolPtr_assign_def PoolPtr_destroy_def dealloc_outside)

text \<open>Instance: two pools of one slot at addresses 1000 and 2000.\<close>

theorem poolptr_assign_leaks_witness:
  "let ps = (\<lambda>k :: nat. if k = 0 then LockFreePool_new 1000 8 1
                 else snd (mp_allocate (5 :: nat) (LockFreePool_new 2000 8 1))) in
   \<exists>pp' other'. PoolPtr_assign (PoolPtr_new 0 None) (PoolPtr_new 1 (Some 2000)) ps = Inr (pp', other', ps) \<and>
     PoolPtr_destroy pp' ps = Inr ps \<and> PoolPtr_destroy other' ps = Inr ps"
proof -
  define ps where "ps = (\<lambda>k :: nat. if k = 0 then LockFreePool_new 1000 8 1
    else snd (mp_allocate (5 :: nat) (LockFreePool_new 2000 8 1)))"
  have "pool_objs (ps 1) 2000 = Some 5" "mp_base (ps 0) + pool_size (ps 0) * mp_sizeof (ps 0) \<le> 2000"
    by (simp_all add: ps_def mp_allocate_def LockFreePool_new_def start_idx_def slot_addr_def pool_objs_def)
  then show ?thesis
    unfolding ps_def [symmetric] Let_def
    using poolptr_assign_leaks [of "PoolPtr_new 0 None" "PoolPtr_new 1 (Some 2000)" 2000 ps 5]
    by (simp add: PoolPtr_new_def)
qed

section \<open>Threads\<close>

text \<open>
  Where a thread is in a call: \<open>Probe\<close> in the loop of \<open>allocate\<close>, \<open>Construct\<close> after its
  \<open>compare_exchange_strong\<close> has taken a slot, \<open>Destroy\<close> and \<open>Release\<close> in \<open>deallocate\<close>.
\<close>

datatype 'a pool_pc = Outside | Probe nat nat 'a | Construct nat 'a | Destroy nat | Release nat

fun pool_act :: "'a LockFreePool \<Rightarrow> 'a pool_pc \<Rightarrow> ('a LockFreePool \<times> 'a pool_pc \<times> nat option) result" where
  "pool_act p (Probe start attempts x) =
     (if attempts < pool_size p
      then let idx = (start + attempts) mod pool_size p
           in if \<not> mp_in_use p ! idx then Inr (p\<lparr>mp_in_use := (mp_in_use p)[idx := True]\<rparr>, Construct idx x, None)
              else Inr (p, Probe start (attempts + 1) x, None)
      else Inr (p, Outside, None))"
| "pool_act p (Construct idx x) = Inr (p\<lparr>mp_storage := (mp_storage p)[idx := Some x]\<rparr>, Outside, Some idx)"
| "pool_act p (Destroy idx) =
     (if mp_storage p ! idx = None then Inl UB_use_after_free
      else Inr (p\<lparr>mp_storage := (mp_storage p)[idx := None]\<rparr>, Release idx, None))"
| "pool_act p (Release idx) = Inr (p\<lparr>mp_in_use := (mp_in_use p)[idx := False]\<rparr>, Outside, None)"
| "pool_act p Outside = Inr (p, Outside, None)"

record 'a pool_sys =
  py_pool :: "'a LockFreePool"
  py_pc :: "nat \<Rightarrow> 'a pool_pc"
  py_holds :: "nat \<Rightarrow> nat set"

definition gain :: "nat option \<Rightarrow> nat set \<Rightarrow> nat set" where
  "gain r h = (case r of None \<Rightarrow> h | Some i \<Rightarrow> insert i h)"

inductive pool_step :: "'a pool_sys \<Rightarrow> 'a pool_sys \<Rightarrow> bool" where
  call_alloc: "py_pc s t = Outside \<Longrightarrow>
    pool_step s (s\<lparr>py_pool := (py_pool s)\<lparr>mp_head := mp_head (py_pool s) + 1\<rparr>,
                   py_pc := (py_pc s)(t := Probe (start_idx (py_pool s)) 0 x)\<rparr>)"
| call_free: "py_pc s t = Outside \<Longrightarrow> i \<in> py_holds s t \<Longrightarrow>
    pool_step s (s\<lparr>py_pc := (py_pc s)(t := Destroy i), py_holds := (py_holds s)(t := py_holds s t - {i})\<rparr>)"
| hand_over: "i \<in> py_holds s t \<Longrightarrow>
    pool_step s (s\<lparr>py_holds := (\<lambda>u. if u = t' then insert i (py_holds s u) else py_holds s u - {i})\<rparr>)"
| act: "pool_act (py_pool s) (py_pc s t) = Inr (p, pc, r) \<Longrightarrow>
    pool_step s (s\<lparr>py_pool := p, py_pc := (py_pc s)(t := pc), py_holds := (py_holds s)(t := gain r (py_holds s t))\<rparr>)"

inductive pool_reach :: "nat \<Rightarrow> nat \<Rightarrow> nat \<Rightarrow> 'a pool_sys \<Rightarrow> bool" for base size_of n where
  init: "pool_reach base size_of n \<lparr>py_pool = LockFreePool_new base size_of n, py_pc = (\<lambda>_. Outside), py_holds = (\<lambda>_. {})\<rparr>"
| step: "pool_reach base size_of n s \<Longrightarrow> pool_step s s' \<Longrightarrow> pool_reach base size_of n s'"

text \<open>The slots a thread is responsible for: those its clients hold and the one its call works on.\<close>

fun working :: "'a pool_pc \<Rightarrow> nat set" where
  "working (Construct i x) = {i}"
| "working (Destroy i) = {i}"
| "working (Release i) = {i}"
| "working _ = {}"

fun no_object :: "'a pool_pc \<Rightarrow> nat set" where
  "no_object (Construct i x) = {i}"
| "no_object (Release i) = {i}"
| "no_object _ = {}"

definition mine :: "'a pool_sys \<Rightarrow> nat \<Rightarrow> nat set" where
  "mine s t = py_holds s t \<union> working (py_pc s t)"

definition pool_sys_inv :: "nat \<Rightarrow> 'a pool_sys \<Rightarrow> bool" where
  "pool_sys_inv n s \<longleftrightarrow> pool_size (py_pool s) = n \<and> length (mp_storage (py_pool s)) = n \<and>
     (\<forall>t. py_holds s t \<inter> working (py_pc s t) = {}) \<and>
     (\<forall>t t' i. i \<in> mine s t \<longrightarrow> i \<in> mine s t' \<longrightarrow> t = t') \<and>
     (\<forall>t. \<forall>i \<in> mine s t. i < n \<and> mp_in_use (py_pool s) ! i) \<and>
     (\<forall>t. \<forall>i \<in> mine s t - no_object (py_pc s t). mp_storage (py_pool s) ! i \<noteq> None)"

lemma pool_sys_invI:
  assumes I: "pool_sys_inv n s"
    and "pool_size p = n" and "length (mp_storage p) = n" and "h \<inter> working pc = {}"
    and "\<And>t' i. t' \<noteq> t \<Longrightarrow> i \<in> h \<union> working pc \<Longrightarrow> i \<notin> mine s t'"
    and "\<And>i. i \<in> h \<union> working pc \<Longrightarrow> i < n \<and> mp_in_use p ! i"
    and "\<And>i. i \<in> h \<union> working pc - no_object pc \<Longrightarrow> mp_storage p ! i \<noteq> None"
    and keep: "\<And>t' i. t' \<noteq> t \<Longrightarrow> i \<in> mine s t' \<Longrightarrow>
      mp_in_use p ! i = mp_in_use (py_pool s) ! i \<and> mp_storage p ! i = mp_storage (py_pool s) ! i"
  shows "pool_sys_inv n (s\<lparr>py_pool := p, py_pc := (py_pc s)(t := pc), py_holds := (py_holds s)(t := h)\<rparr>)"
proof -
  let ?s = "s\<lparr>py_pool := p, py_pc := (py_pc s)(t := pc), py_holds := (py_holds s)(t := h)\<rparr>"
  have m: "mine ?s u = (if u = t then h \<union> working pc else mine s u)" for u by (simp add: mine_def)
  have old: "\<forall>t'. \<forall>i \<in> mine s t'. i < n \<and> mp_in_use (py_pool s) ! i"
      "\<forall>t'. \<forall>i \<in> mine s t' - no_object (py_pc s t'). mp_storage (py_pool s) ! i \<noteq> None"
      "\<forall>u u' i. i \<in> mine s u \<longrightarrow> i \<in> mine s u' \<longrightarrow> u = u'" "\<forall>u. py_holds s u \<inter> working (py_pc s u) = {}"
    using I by (simp_all add: pool_sys_inv_def)
  show ?thesis
    unfolding pool_sys_inv_def m
  proof (intro conjI allI ballI impI, goal_cases)
    case (4 u u' i)
    then show ?case using old(3) assms(5) by (auto simp del: Un_iff split: if_splits)
  next
    case (5 u i)
    then show ?case using old(1) assms(6) by (cases "u = t") auto
  next
    case (6 u i)
    then show ?case using old(1) assms(6) keep [of u i] by (cases "u = t") auto
  next
    case (7 u i)
    then show ?case using old(2) assms(7) keep [of u i] by (cases "u = t") auto
  qed (use assms(2-4) old(4) in auto)
qed

lemma pool_act_inv:
  assumes I: "pool_sys_inv n s" and "0 < n" and a: "pool_act (py_pool s) (py_pc s t) = Inr (p, pc, r)"
  shows "pool_sys_inv n (s\<lparr>py_pool := p, py_pc := (py_pc s)(t := pc), py_holds := (py_holds s)(t := gain r (py_holds s t))\<rparr>)"
proof -
  let ?p = "py_pool s"
  have len: "pool_size ?p = n" "length (mp_storage ?p) = n" using I by (simp_all add: pool_sys_inv_def)
  have M: "mine s t = py_holds s t \<union> working (py_pc s t)" by (simp add: mine_def)
  have d: "i \<in> py_holds s t \<union> working (py_pc s t) \<Longrightarrow> t' \<noteq> t \<Longrightarrow> i \<notin> mine s t'" for i t'
    using I M unfolding pool_sys_inv_def by blast
  have v: "i \<in> mine s t' \<Longrightarrow> mp_in_use ?p ! i" for i t' using I by (auto simp: pool_sys_inv_def)
  have u: "\<forall>i \<in> py_holds s t \<union> working (py_pc s t). i < n \<and> mp_in_use ?p ! i"
    using I M unfolding pool_sys_inv_def by blast
  have o: "\<forall>i \<in> py_holds s t \<union> working (py_pc s t) - no_object (py_pc s t). mp_storage ?p ! i \<noteq> None"
    using I M unfolding pool_sys_inv_def by blast
  have h: "py_holds s t \<inter> working (py_pc s t) = {}" using I by (simp add: pool_sys_inv_def)
  show ?thesis
  proof (cases "py_pc s t")
    case Outside
    then show ?thesis using a len u o d by (intro pool_sys_invI [OF I]) (auto simp: gain_def)
  next
    case (Probe start attempts x)
    define j where "j = (start + attempts) mod pool_size ?p"
    have j: "j < n" using assms(2) len by (simp add: j_def)
    show ?thesis
    proof (cases "attempts < pool_size ?p \<and> \<not> mp_in_use ?p ! j")
      case True
      then have free: "j \<notin> mine s t'" for t' using v by auto
      then have "j \<notin> py_holds s t" using M by auto
      moreover have e: "p = ?p\<lparr>mp_in_use := (mp_in_use ?p)[j := True]\<rparr>" "pc = Construct j x" "r = None"
        using a True Probe by (simp_all add: Let_def flip: j_def)
      ultimately show ?thesis
        unfolding e using Probe len u o j d free
        by (intro pool_sys_invI [OF I]) (auto simp: gain_def nth_list_update)
    next
      case False
      then have "p = ?p \<and> working pc = {} \<and> no_object pc = {} \<and> r = None"
        using a Probe by (auto simp: Let_def simp flip: j_def split: if_splits)
      then show ?thesis
        using Probe len u o d by (intro pool_sys_invI [OF I]) (auto simp: gain_def)
    qed
  next
    case (Construct j x)
    then have "t' \<noteq> t \<Longrightarrow> j \<notin> mine s t'" for t' using d [of j t'] by simp
    then show ?thesis
      using a Construct len u o h d by (intro pool_sys_invI [OF I]) (auto simp: gain_def nth_list_update)
  next
    case (Destroy j)
    then have "t' \<noteq> t \<Longrightarrow> j \<notin> mine s t'" for t' using d [of j t'] by simp
    then show ?thesis
      using a Destroy len u o h d
      by (intro pool_sys_invI [OF I]) (auto simp: gain_def nth_list_update split: if_splits)
  next
    case (Release j)
    then have "t' \<noteq> t \<Longrightarrow> j \<notin> mine s t'" for t' using d [of j t'] by simp
    then show ?thesis
      using a Release len u o h d by (intro pool_sys_invI [OF I]) (auto simp: gain_def nth_list_update split: if_splits)
  qed
qed

lemma pool_reach_inv: "pool_reach base size_of n s \<Longrightarrow> 0 < n \<Longrightarrow> pool_sys_inv n s"
proof (induction rule: pool_reach.induct)
  case init
  then show ?case by (simp add: pool_sys_inv_def LockFreePool_new_def mine_def)
next
  case (step s s')
  then have I: "pool_sys_inv n s" by simp
  from step.hyps(2) show ?case
  proof cases
    case (call_alloc t x)
    then have "mine s' u = mine s u" "no_object (py_pc s' u) = no_object (py_pc s u)" for u by (auto simp: mine_def)
    then show ?thesis using I call_alloc unfolding pool_sys_inv_def by (auto split: if_splits)
  next
    case (call_free t i)
    then have m: "mine s' u = mine s u" "no_object (py_pc s' u) = no_object (py_pc s u)" for u by (auto simp: mine_def)
    have "py_pool s' = py_pool s" "py_holds s' u \<inter> working (py_pc s' u) = {}" for u
      using I call_free by (auto simp: pool_sys_inv_def)
    then show ?thesis using I unfolding pool_sys_inv_def m by simp
  next
    case (hand_over i t t')
    have wi: "i \<notin> working (py_pc s u)" for u
    proof (cases "u = t")
      case True
      then show ?thesis using I hand_over(2) by (auto simp: pool_sys_inv_def)
    next
      case False
      moreover have "i \<in> mine s t" using hand_over(2) by (simp add: mine_def)
      ultimately have "i \<notin> mine s u" using I unfolding pool_sys_inv_def by blast
      then show ?thesis by (simp add: mine_def)
    qed
    have m: "mine s' u = (if u = t' then insert i (mine s u) else mine s u - {i})" for u
      using hand_over(1) wi [of u] by (auto simp: mine_def)
    have im: "i \<in> mine s t" using hand_over(2) by (simp add: mine_def)
    have no: "i \<notin> no_object (py_pc s t)" using wi [of t] by (cases "py_pc s t") auto
    have i: "i < n" "mp_in_use (py_pool s) ! i" "mp_storage (py_pool s) ! i \<noteq> None"
      using I im no unfolding pool_sys_inv_def by blast+
    show ?thesis
      using I i wi hand_over(1) unfolding pool_sys_inv_def m by (auto split: if_splits)
  next
    case (act t p pc r)
    then show ?thesis using pool_act_inv [OF I] step.prems by simp
  qed
qed

text \<open>
  When threads allocate and deallocate concurrently and each frees only what it holds (slots may
  be handed from thread to thread), no slot is ever held by two threads, every held slot is marked in
  use and carries a living object, and no action touches a slot without an object.
\<close>

theorem pool_exclusive:
  assumes "pool_reach base size_of n s" and "0 < n"
  shows "(\<forall>t t'. t \<noteq> t' \<longrightarrow> py_holds s t \<inter> py_holds s t' = {}) \<and>
    (\<forall>t. \<forall>i \<in> py_holds s t. i < n \<and> mp_in_use (py_pool s) ! i \<and> mp_storage (py_pool s) ! i \<noteq> None) \<and>
    (\<forall>t. \<exists>r. pool_act (py_pool s) (py_pc s t) = Inr r)"
proof -
  have I: "pool_sys_inv n s" using pool_reach_inv [OF assms] .
  have no: "no_object (py_pc s t) \<subseteq> working (py_pc s t)" for t by (cases "py_pc s t") auto
  have "py_holds s t \<inter> py_holds s t' = {}" if "t \<noteq> t'" for t t'
    using I that unfolding pool_sys_inv_def mine_def by blast
  moreover have "i < n \<and> mp_in_use (py_pool s) ! i \<and> mp_storage (py_pool s) ! i \<noteq> None" if "i \<in> py_holds s t" for t i
    using I that no [of t] unfolding pool_sys_inv_def mine_def by blast
  moreover have "\<exists>r. pool_act (py_pool s) (py_pc s t) = Inr r" for t
  proof (cases "py_pc s t")
    case (Destroy i)
    then have "i \<in> mine s t - no_object (py_pc s t)" by (simp add: mine_def)
    then have "mp_storage (py_pool s) ! i \<noteq> None" using I unfolding pool_sys_inv_def by blast
    then show ?thesis using Destroy by simp
  qed (auto simp: Let_def)
  ultimately show ?thesis by blast
qed

lemma pool_reach_act:
  assumes "pool_reach base size_of n s" and "pool_act (py_pool s) (py_pc s t) = Inr (p, pc, r)"
  shows "\<exists>s'. pool_reach base size_of n s' \<and> py_pool s' = p \<and> py_pc s' t = pc \<and> py_holds s' t = gain r (py_holds s t)"
  using pool_reach.step [OF assms(1) pool_step.act [OF assms(2)]] by fastforce

text \<open>Instance: thread 3 has taken and constructed the first slot.\<close>

theorem pool_exclusive_witness:
  "\<exists>s. pool_reach 1000 8 2 s \<and> 0 \<in> py_holds s 3 \<and> mp_storage (py_pool s) ! 0 \<noteq> (None :: nat option)"
proof -
  let ?s0 = "\<lparr>py_pool = LockFreePool_new 1000 8 2, py_pc = (\<lambda>_. Outside), py_holds = (\<lambda>_. {})\<rparr> :: nat pool_sys"
  have "pool_reach 1000 8 2 ?s0" by (rule pool_reach.init)
  from pool_reach.step [OF this pool_step.call_alloc [of _ 3 5]]
  obtain s1 where s1: "pool_reach 1000 8 2 s1" "py_pc s1 3 = Probe 0 0 (5 :: nat)" "mp_in_use (py_pool s1) = [False, False]"
    by (simp add: LockFreePool_new_def start_idx_def eval_nat_numeral)
  obtain s2 where s2: "pool_reach 1000 8 2 s2" "py_pc s2 3 = Construct 0 (5 :: nat)"
    using pool_reach_act [OF s1(1), of 3] s1(2,3) by (auto simp: eval_nat_numeral)
  have "pool_act (py_pool s2) (py_pc s2 3) =
      Inr ((py_pool s2)\<lparr>mp_storage := (mp_storage (py_pool s2))[0 := Some 5]\<rparr>, Outside, Some 0)" using s2(2) by simp
  from pool_reach_act [OF s2(1) this] obtain s3 :: "nat pool_sys" where s3: "pool_reach 1000 8 2 s3" "py_holds s3 3 = gain (Some 0) (py_holds s2 3)"
    by blast
  have "0 \<in> py_holds s3 3" using s3(2) by (simp add: gain_def)
  moreover have "(0 :: nat) < 2" by simp
  ultimately show ?thesis using s3(1) pool_exclusive [OF s3(1)] by blast
qed

end
