(* ===== verification/Byte_Codec.thy ===== *)
theory Byte_Codec
  imports Types
begin

text \<open>
  Object representations on the little-endian machine the program runs on, as \<open>std::ofstream::write\<close>
  and \<open>std::ifstream::read\<close> see them: unsigned integers byte by byte, and doubles in the binary64
  interchange format.

  \<^item> \<open>le_bytes k n\<close> are the \<open>k\<close> bytes of an unsigned integer, \<open>le_nat\<close> reads them back.
  \<^item> \<open>double_bits\<close> and \<open>bits_double\<close> are the interchange format. NaN is one bit pattern here, and the
    two zeros are one value.
  \<^item> The locale \<open>codec\<close> is what the record format relies on, interpreted for every field type.
\<close>

type_synonym byte = "8 word"

section \<open>Unsigned integers\<close>

fun le_bytes :: "nat \<Rightarrow> nat \<Rightarrow> byte list" where
  "le_bytes 0 n = []"
| "le_bytes (Suc k) n = of_nat (n mod 256) # le_bytes k (n div 256)"

fun le_nat :: "byte list \<Rightarrow> nat" where
  "le_nat [] = 0"
| "le_nat (b # bs) = unat b + 256 * le_nat bs"

lemma length_le_bytes [simp]: "length (le_bytes k n) = k"
  by (induction k n rule: le_bytes.induct) auto

lemma unat_byte: "unat (of_nat (n mod 256) :: byte) = n mod 256"
  by (simp add: unat_of_nat)

lemma le_nat_bytes: "n < 256 ^ k \<Longrightarrow> le_nat (le_bytes k n) = n"
proof (induction k n rule: le_bytes.induct)
  case (2 k n)
  then have "n div 256 < 256 ^ k" by (simp add: less_mult_imp_div_less mult.commute)
  with 2 show ?case by (simp add: unat_byte)
qed simp

lemma byte_bound: "unat (b :: byte) < 256"
  using unsigned_less [of b] by simp

lemma le_nat_bound: "le_nat bs < 256 ^ length bs"
proof (induction bs)
  case (Cons b bs)
  have "unat b + 256 * le_nat bs < 256 + 256 * le_nat bs" using byte_bound [of b] by simp
  also have "\<dots> \<le> 256 * 256 ^ length bs" using Cons by (metis Suc_leI mult_Suc_right mult_le_mono2)
  finally show ?case by simp
qed simp

lemma le_bytes_nat: "le_bytes (length bs) (le_nat bs) = bs"
proof (induction bs)
  case (Cons b bs)
  have "(unat b + 256 * le_nat bs) mod 256 = unat b" "(unat b + 256 * le_nat bs) div 256 = le_nat bs"
    using byte_bound [of b] by simp_all
  with Cons show ?case by simp
qed simp

section \<open>Doubles\<close>

definition double_bits :: "double \<Rightarrow> nat" where
  "double_bits d = (case d of
       Fin x \<Rightarrow> if x = 0 then 0
         else (if x < 0 then 2 ^ 63 else 0) + nat (ulp_exp x + 1074) * 2 ^ 52 + nat \<lfloor>\<bar>x\<bar> / 2 powi ulp_exp x\<rfloor>
     | PInf \<Rightarrow> 2047 * 2 ^ 52
     | NInf \<Rightarrow> 2 ^ 63 + 2047 * 2 ^ 52
     | NaN \<Rightarrow> 2047 * 2 ^ 52 + 2 ^ 51)"

definition magnitude :: "nat \<Rightarrow> nat \<Rightarrow> rat" where
  "magnitude e f = (if e = 0 then of_nat f * 2 powi (- 1074) else of_nat (2 ^ 52 + f) * 2 powi (int e - 1075))"

definition bits_double :: "nat \<Rightarrow> double" where
  "bits_double b = (let e = b div 2 ^ 52 mod 2 ^ 11; f = b mod 2 ^ 52; neg = b div 2 ^ 63 mod 2 = 1
     in if e = 2047 then (if f \<noteq> 0 then NaN else if neg then NInf else PInf)
        else Fin (if neg then - magnitude e f else magnitude e f))"

lemma significand:
  assumes "rnd x = x" and "x \<noteq> 0"
  obtains m where "\<bar>x\<bar> = of_nat m * 2 powi ulp_exp x" and "m < 2 ^ 53" and "0 < m"
    and "- 1074 < ulp_exp x \<Longrightarrow> 2 ^ 52 \<le> m"
proof -
  let ?e = "ulp_exp x"
  obtain k where k: "x = of_int k * 2 powi ?e" using rnd_form [of x] assms(1) by metis
  define m where "m = nat \<bar>k\<bar>"
  have ax: "\<bar>x\<bar> = of_nat m * 2 powi ?e" by (subst k) (simp add: abs_mult m_def)
  have pos: "0 < \<bar>x\<bar>" using assms(2) by simp
  have e: "?e = max (rexp \<bar>x\<bar> - 52) (- 1074)" using assms(2) by (simp add: ulp_exp_def)
  have "\<bar>x\<bar> < 2 powi (rexp \<bar>x\<bar> + 1)" using rexp_bounds(2) [OF pos] .
  also have "\<dots> \<le> 2 powi (53 + ?e)" unfolding pow2_le_iff using e by simp
  also have "\<dots> = of_nat (2 ^ 53) * 2 powi ?e" by (simp add: power_int_add)
  finally have "(of_nat m :: rat) < of_nat (2 ^ 53)" unfolding ax by (simp only: mult_less_cancel_right_pos pow2_pos)
  then have m53: "m < 2 ^ 53" by (simp only: of_nat_less_iff)
  have "0 < m" using pos unfolding ax by (cases m) auto
  moreover have "2 ^ 52 \<le> m" if "- 1074 < ?e"
  proof -
    have "?e = rexp \<bar>x\<bar> - 52" using e that by simp
    then have "of_nat (2 ^ 52) * (2::rat) powi ?e = 2 powi rexp \<bar>x\<bar>" by (simp add: power_int_diff)
    also have "\<dots> \<le> of_nat m * 2 powi ?e" using rexp_bounds(1) [OF pos] unfolding ax .
    finally have "(of_nat (2 ^ 52) :: rat) \<le> of_nat m" by (simp only: mult_le_cancel_right_pos pow2_pos)
    then show ?thesis by (simp only: of_nat_le_iff)
  qed
  ultimately show thesis using that ax m53 by blast
qed

lemma magnitude_fields:
  assumes "m < 2 ^ 53" and "0 < k \<Longrightarrow> 2 ^ 52 \<le> m"
  shows "magnitude ((k * 2 ^ 52 + m) div 2 ^ 52) ((k * 2 ^ 52 + m) mod 2 ^ 52) = of_nat m * 2 powi (int k - 1074)"
proof (cases "m < 2 ^ 52")
  case True
  then have "k = 0" using assms(2) by (cases k) auto
  with True show ?thesis by (simp add: magnitude_def)
next
  case False
  define f where "f = m - 2 ^ 52"
  have f: "m = 2 ^ 52 + f" "f < 2 ^ 52" using False assms(1) by (simp_all add: f_def)
  have "k * 2 ^ 52 + m = Suc k * 2 ^ 52 + f" by (simp add: f(1))
  then have "(k * 2 ^ 52 + m) div 2 ^ 52 = Suc k" "(k * 2 ^ 52 + m) mod 2 ^ 52 = f"
    using f(2) by (simp_all only: div_mult_self3 mod_mult_self3 div_less mod_less)
  then show ?thesis by (simp only: magnitude_def f(1)) simp
qed

lemma sign_fields:
  fixes low :: nat and neg :: bool
  assumes "low < 2047 * 2 ^ 52"
  defines "b \<equiv> (if neg then 2 ^ 63 else 0) + low"
  shows "b div 2 ^ 52 mod 2 ^ 11 = low div 2 ^ 52" and "b mod 2 ^ 52 = low mod 2 ^ 52"
    and "(b div 2 ^ 63 mod 2 = 1) = neg" and "low div 2 ^ 52 \<noteq> 2047" and "b < 2 ^ 64"
proof -
  have l: "low div 2 ^ 52 < 2047" using assms(1) by (simp add: less_mult_imp_div_less)
  then show "low div 2 ^ 52 \<noteq> 2047" by simp
  have b: "b div 2 ^ 52 = (if neg then 2 ^ 11 else 0) + low div 2 ^ 52"
    unfolding b_def by (simp add: div_plus_div_distrib_dvd_left)
  then show "b div 2 ^ 52 mod 2 ^ 11 = low div 2 ^ 52" using l by simp
  show "b mod 2 ^ 52 = low mod 2 ^ 52" unfolding b_def by (simp add: mod_add_eq [symmetric])
  have "low < 2 ^ 63" using assms(1) by simp
  then show "(b div 2 ^ 63 mod 2 = 1) = neg" and "b < 2 ^ 64" unfolding b_def by (cases neg; simp)+
qed

lemma double_bits_Fin:
  assumes "valid (Fin x)"
  shows "bits_double (double_bits (Fin x)) = Fin x \<and> double_bits (Fin x) < 2 ^ 64"
proof (cases "x = 0")
  case True
  then show ?thesis by (simp add: double_bits_def bits_double_def magnitude_def)
next
  case False
  have r: "rnd x = x" "\<bar>x\<bar> < 2 ^ 1024" using assms unfolding valid_def by (simp_all only: double.case)
  obtain m where m: "\<bar>x\<bar> = of_nat m * 2 powi ulp_exp x" "m < 2 ^ 53" "0 < m" "- 1074 < ulp_exp x \<Longrightarrow> 2 ^ 52 \<le> m"
    using significand [OF r(1) False] by metis
  define k where "k = nat (ulp_exp x + 1074)"
  have k: "int k = ulp_exp x + 1074" using ulp_exp_ge [of x] by (simp add: k_def)
  have "2 powi rexp \<bar>x\<bar> \<le> \<bar>x\<bar>" using False by (intro rexp_bounds) simp
  also have "\<dots> < 2 powi 1024" using r(2) by (simp only: power_int_numeral)
  finally have "rexp \<bar>x\<bar> < 1024" by (simp only: pow2_less_iff)
  then have "ulp_exp x \<le> 971" by (simp add: ulp_exp_def)
  then have "k \<le> 2045" using k by linarith
  then have low: "k * 2 ^ 52 + m < 2047 * 2 ^ 52" using m(2) by simp
  have "\<lfloor>\<bar>x\<bar> / 2 powi ulp_exp x\<rfloor> = int m" unfolding m(1) by simp
  then have b: "double_bits (Fin x) = (if x < 0 then 2 ^ 63 else 0) + (k * 2 ^ 52 + m)"
    using False by (simp add: double_bits_def k_def)
  have mag: "magnitude ((k * 2 ^ 52 + m) div 2 ^ 52) ((k * 2 ^ 52 + m) mod 2 ^ 52) = \<bar>x\<bar>"
    using magnitude_fields [OF m(2), of k] m(1,4) k by simp
  note f = sign_fields(1-3,5) [OF low, where neg = "x < 0"] sign_fields(4) [OF low]
  show ?thesis
    unfolding bits_double_def b f(1,2,3) Let_def mag using f(4,5) by (simp add: abs_if)
qed

lemma double_bits_roundtrip: "valid d \<Longrightarrow> bits_double (double_bits d) = d \<and> double_bits d < 2 ^ 64"
proof (cases d)
  case (Fin x)
  then show "valid d \<Longrightarrow> ?thesis" using double_bits_Fin by simp
qed (simp_all add: double_bits_def bits_double_def)

section \<open>Codecs\<close>

text \<open>A fixed-size representation that decodes back to every admissible value.\<close>

locale codec =
  fixes size :: nat and enc :: "'a \<Rightarrow> byte list" and dec :: "byte list \<Rightarrow> 'a" and ok :: "'a \<Rightarrow> bool"
  assumes length_enc: "length (enc x) = size"
    and dec_enc: "ok x \<Longrightarrow> dec (enc x) = x"
begin

lemma dec_take: "ok x \<Longrightarrow> dec (take size (enc x @ bs)) = x"
  by (simp add: length_enc dec_enc)

lemma drop_enc: "drop size (enc x @ bs) = bs"
  by (simp add: length_enc)

lemma enc_inj: "ok x \<Longrightarrow> ok y \<Longrightarrow> enc x = enc y \<Longrightarrow> x = y"
  by (metis dec_enc)

end

definition enc_u64 :: "u64 \<Rightarrow> byte list" where
  "enc_u64 v = le_bytes 8 (unat v)"

definition dec_u64 :: "byte list \<Rightarrow> u64" where
  "dec_u64 bs = of_nat (le_nat bs)"

definition enc_u32 :: "u32 \<Rightarrow> byte list" where
  "enc_u32 v = le_bytes 4 (unat v)"

definition dec_u32 :: "byte list \<Rightarrow> u32" where
  "dec_u32 bs = of_nat (le_nat bs)"

definition enc_double :: "double \<Rightarrow> byte list" where
  "enc_double d = le_bytes 8 (double_bits d)"

definition dec_double :: "byte list \<Rightarrow> double" where
  "dec_double bs = bits_double (le_nat bs)"

interpretation u64: codec 8 enc_u64 dec_u64 "\<lambda>_. True"
proof
  show "dec_u64 (enc_u64 x) = x" for x
    using u64_bound [of x] le_nat_bytes [of "unat x" 8] by (simp add: dec_u64_def enc_u64_def)
qed (simp add: enc_u64_def)

interpretation u32: codec 4 enc_u32 dec_u32 "\<lambda>_. True"
proof
  fix x :: u32
  have "unat x < 2 ^ LENGTH(32)" by (rule unsigned_less)
  then show "dec_u32 (enc_u32 x) = x"
    using le_nat_bytes [of "unat x" 4] by (simp add: dec_u32_def enc_u32_def)
qed (simp add: enc_u32_def)

interpretation f64: codec 8 enc_double dec_double valid
proof
  fix d assume "valid d"
  then show "dec_double (enc_double d) = d"
    using double_bits_roundtrip [of d] le_nat_bytes [of "double_bits d" 8] by (simp add: dec_double_def enc_double_def)
qed (simp add: enc_double_def)

end
