(* ===== verification/Text_Numbers.thy ===== *)
theory Text_Numbers
  imports Types "HOL-Library.Char_ord"
begin

text \<open>
  Numbers as text, the way the program's files and messages have them.

  \<^item> \<open>show_nat\<close> is \<open>operator<<\<close> and \<open>std::to_string\<close> of an unsigned integer, \<open>show_fixed k\<close> is \<open>operator<<\<close> of a
    double under \<open>std::fixed << std::setprecision(k)\<close>, and \<open>show_fixed8\<close> the case of eight decimals.
  \<^item> \<open>stod\<close> is \<open>std::stod\<close>: white space, a sign, and the longest prefix that is a decimal or hexadecimal
    number, \<open>inf\<close> or \<open>nan\<close>; the rest is ignored. Without such a prefix it throws \<open>invalid_argument\<close>, on
    overflow and on inexact underflow \<open>out_of_range\<close>. The decimal point is that of the C locale.
  \<^item> The lemmas at the end show that \<open>stod\<close> reads back what the two printing functions print.
\<close>

section \<open>Printing\<close>

fun show_nat :: "nat \<Rightarrow> string" where
  "show_nat n = (if n < 10 then [char_of (48 + n)] else show_nat (n div 10) @ [char_of (48 + n mod 10)])"

declare show_nat.simps [simp del]

fun pad_digits :: "nat \<Rightarrow> nat \<Rightarrow> string" where
  "pad_digits 0 n = []"
| "pad_digits (Suc k) n = pad_digits k (n div 10) @ [char_of (48 + n mod 10)]"

text \<open>\<open>std::fixed << std::setprecision(k)\<close>: the exact value, rounded to \<open>k\<close> decimals, ties to even.\<close>

definition show_fixed :: "nat \<Rightarrow> double \<Rightarrow> string" where
  "show_fixed k d = (case d of
       Fin x \<Rightarrow> let n = nat (rne (\<bar>x\<bar> * 10 ^ k))
         in (if x < 0 then ''-'' else '''') @ show_nat (n div 10 ^ k) @ ''.'' @ pad_digits k (n mod 10 ^ k)
     | PInf \<Rightarrow> ''inf'' | NInf \<Rightarrow> ''-inf'' | NaN \<Rightarrow> ''nan'')"

definition show_fixed8 :: "double \<Rightarrow> string" where
  "show_fixed8 d = show_fixed 8 d"

section \<open>Reading\<close>

definition is_space :: "char \<Rightarrow> bool" where
  "is_space c = (let n = of_char c :: nat in n = 32 \<or> 9 \<le> n \<and> n \<le> 13)"

definition is_digit :: "char \<Rightarrow> bool" where
  "is_digit c = (let n = of_char c :: nat in 48 \<le> n \<and> n \<le> 57)"

definition is_hex :: "char \<Rightarrow> bool" where
  "is_hex c = (let n = of_char c :: nat in is_digit c \<or> 65 \<le> n \<and> n \<le> 70 \<or> 97 \<le> n \<and> n \<le> 102)"

definition digit_val :: "char \<Rightarrow> nat" where
  "digit_val c = (let n = of_char c in if n \<le> 57 then n - 48 else if n \<le> 70 then n - 55 else n - 87)"

definition to_lower :: "char \<Rightarrow> char" where
  "to_lower c = (let n = of_char c :: nat in if 65 \<le> n \<and> n \<le> 90 then char_of (n + 32) else c)"

definition digits_val :: "nat \<Rightarrow> string \<Rightarrow> nat" where
  "digits_val base s = foldl (\<lambda>a c. a * base + digit_val c) 0 s"

definition parse_sign :: "string \<Rightarrow> bool \<times> string" where
  "parse_sign s = (case s of [] \<Rightarrow> (False, [])
     | c # r \<Rightarrow> if c = CHR ''-'' then (True, r) else if c = CHR ''+'' then (False, r) else (False, s))"

definition parse_exp :: "char \<Rightarrow> string \<Rightarrow> int" where
  "parse_exp marker s = (case s of [] \<Rightarrow> 0
     | c # r \<Rightarrow> if to_lower c = marker
         then (let (neg, r1) = parse_sign r; ds = takeWhile is_digit r1
               in (if neg then - int (digits_val 10 ds) else int (digits_val 10 ds)))
         else 0)"

text \<open>Digits with an optional point: their value without the point, how many follow it, and the rest.\<close>

definition parse_mantissa :: "(char \<Rightarrow> bool) \<Rightarrow> nat \<Rightarrow> string \<Rightarrow> (nat \<times> nat \<times> string) option" where
  "parse_mantissa isd base s =
     (let ip = takeWhile isd s; r = dropWhile isd s;
          (fp, r1) = (case r of [] \<Rightarrow> ([], [])
             | c # r' \<Rightarrow> if c = CHR ''.'' then (takeWhile isd r', dropWhile isd r') else ([], r))
      in if ip @ fp = [] then None else Some (digits_val base (ip @ fp), length fp, r1))"

datatype number = Value rat | Infinite | Not_a_number

definition parse_number :: "string \<Rightarrow> number option" where
  "parse_number s =
     (if map to_lower (take 3 s) = ''inf'' then Some Infinite
      else if map to_lower (take 3 s) = ''nan'' then Some Not_a_number
      else if map to_lower (take 2 s) = ''0x''
      then (case parse_mantissa is_hex 16 (drop 2 s) of
              Some (m, k, r) \<Rightarrow> Some (Value (of_nat m * 2 powi (parse_exp (CHR ''p'') r - 4 * int k)))
            | None \<Rightarrow> Some (Value 0))
      else (case parse_mantissa is_digit 10 s of
              Some (m, k, r) \<Rightarrow> Some (Value (of_nat m * 10 powi (parse_exp (CHR ''e'') r - int k)))
            | None \<Rightarrow> None))"

datatype stod_error = Invalid_argument | Out_of_range

definition stod :: "string \<Rightarrow> stod_error + double" where
  "stod s =
     (let (neg, r) = parse_sign (dropWhile is_space s)
      in case parse_number r of
           None \<Rightarrow> Inl Invalid_argument
         | Some Infinite \<Rightarrow> Inr (if neg then NInf else PInf)
         | Some Not_a_number \<Rightarrow> Inr NaN
         | Some (Value x) \<Rightarrow>
             let y = (if neg then - x else x)
             in if \<not> is_fin (fl y) \<or> y \<noteq> rnd y \<and> \<bar>rnd y\<bar> < 2 powi (- 1022) then Inl Out_of_range else Inr (fl y))"

section \<open>Reading what was printed\<close>

lemma digit_char:
  assumes "d < 10"
  shows "is_digit (char_of (48 + d))" and "digit_val (char_of (48 + d)) = d" and "\<not> is_space (char_of (48 + d))"
    and "to_lower (char_of (48 + d)) = char_of (48 + d)"
  using assms by (simp_all add: is_digit_def digit_val_def is_space_def to_lower_def)

lemma digits_val_snoc: "digits_val b (s @ [c]) = digits_val b s * b + digit_val c"
  by (simp add: digits_val_def)

lemma show_nat_digits: "list_all is_digit (show_nat n) \<and> digits_val 10 (show_nat n) = n \<and> show_nat n \<noteq> []"
proof (induction n rule: show_nat.induct)
  case (1 n)
  show ?case
  proof (cases "n < 10")
    case True
    then show ?thesis by (simp add: show_nat.simps [of n] digit_char digits_val_def)
  next
    case False
    have "is_digit (char_of (48 + n mod 10))" "digit_val (char_of (48 + n mod 10)) = n mod 10" by (simp_all add: digit_char)
    then show ?thesis using 1 [OF False] False by (simp add: show_nat.simps [of n] digits_val_snoc)
  qed
qed

lemma pad_digits_digits:
  "list_all is_digit (pad_digits k n) \<and> length (pad_digits k n) = k \<and> (n < 10 ^ k \<longrightarrow> digits_val 10 (pad_digits k n) = n)"
proof (induction k arbitrary: n)
  case (Suc k)
  have "n div 10 < 10 ^ k" if "n < 10 ^ Suc k" using that by (simp add: less_mult_imp_div_less mult.commute)
  then show ?case using Suc [of "n div 10"] by (auto simp: digits_val_snoc digit_char)
qed (simp add: digits_val_def)

lemma digits_val_append: "digits_val b (s @ t) = digits_val b s * b ^ length t + digits_val b t"
proof (induction t rule: rev_induct)
  case (snoc c t)
  have "digits_val b (s @ t @ [c]) = digits_val b (s @ t) * b + digit_val c" using digits_val_snoc [of b "s @ t" c] by simp
  then show ?case by (simp add: snoc digits_val_snoc algebra_simps)
qed (simp add: digits_val_def)

lemma lower_digit: "is_digit c \<Longrightarrow> to_lower c = c"
  by (auto simp: is_digit_def to_lower_def Let_def)

lemma digit_facts [simp]: "\<not> is_digit (CHR ''i'')" "\<not> is_digit (CHR ''n'')" "\<not> is_digit (CHR ''x'')" "\<not> is_digit (CHR ''.'')"
  "\<not> is_digit (CHR ''-'')" "\<not> is_digit (CHR ''+'')" "to_lower (CHR ''.'') = CHR ''.''"
  by (simp_all add: is_digit_def to_lower_def)

lemma digit_not_space: "is_digit c \<Longrightarrow> \<not> is_space c"
  by (auto simp: is_digit_def is_space_def Let_def)

lemma takeWhile_digits:
  assumes "list_all is_digit ds" and "\<not> is_digit c"
  shows "takeWhile is_digit (ds @ c # r) = ds" and "dropWhile is_digit (ds @ c # r) = c # r"
  using assms by (induction ds) auto

lemma all_digits: "list_all is_digit ds \<Longrightarrow> takeWhile is_digit ds = ds \<and> dropWhile is_digit ds = []"
  by (induction ds) auto

text \<open>A decimal number that starts with a digit is not one of the words and not hexadecimal.\<close>

lemma parse_number_decimal:
  assumes "is_digit d" and "s = [] \<or> to_lower (hd s) \<noteq> CHR ''x''"
  shows "parse_number (d # s) = (case parse_mantissa is_digit 10 (d # s) of
     Some (m, k, r) \<Rightarrow> Some (Value (of_nat m * 10 powi (parse_exp (CHR ''e'') r - int k))) | None \<Rightarrow> None)"
proof -
  have "to_lower d \<noteq> CHR ''i''" "to_lower d \<noteq> CHR ''n''" using assms(1) lower_digit [OF assms(1)] digit_facts by auto
  moreover have "map to_lower (take 2 (d # s)) \<noteq> ''0x''" using assms(2) by (cases s) (auto simp: numeral_2_eq_2)
  ultimately show ?thesis by (auto simp: parse_number_def numeral_3_eq_3)
qed

lemma parse_mantissa_point:
  assumes "list_all is_digit ip" and "list_all is_digit fp" and "ip \<noteq> []"
  shows "parse_mantissa is_digit 10 (ip @ CHR ''.'' # fp) = Some (digits_val 10 (ip @ fp), length fp, [])"
  using assms by (simp add: parse_mantissa_def takeWhile_digits all_digits Let_def)

lemma parse_mantissa_digits:
  assumes "list_all is_digit ip" and "ip \<noteq> []"
  shows "parse_mantissa is_digit 10 ip = Some (digits_val 10 ip, 0, [])"
  using assms by (simp add: parse_mantissa_def all_digits Let_def)

lemma digit_head:
  assumes "list_all is_digit ip" and "ip \<noteq> []"
  obtains d ds where "ip = d # ds" and "is_digit d" and "list_all is_digit ds"
  using assms by (cases ip) auto

lemma head_not_x: "list_all is_digit ds \<Longrightarrow> ds @ CHR ''.'' # r = [] \<or> to_lower (hd (ds @ CHR ''.'' # r)) \<noteq> CHR ''x''"
  by (cases ds) (auto simp: lower_digit)

lemma stod_decimal:
  assumes "list_all is_digit ip" and "list_all is_digit fp" and "ip \<noteq> []"
    and "y = of_nat (digits_val 10 (ip @ fp)) / 10 ^ length fp"
    and "is_fin (fl y)" and "y = rnd y \<or> 2 powi (- 1022) \<le> \<bar>rnd y\<bar>"
  shows "stod (ip @ CHR ''.'' # fp) = Inr (fl y)" and "stod (CHR ''-'' # ip @ CHR ''.'' # fp) = Inr (fl (- y))"
proof -
  obtain d ds where d: "ip = d # ds" "is_digit d" "list_all is_digit ds" using digit_head [OF assms(1,3)] .
  have "10 powi (- int (length fp)) = (1 :: rat) / 10 ^ length fp" by (simp add: power_int_minus field_simps)
  then have n: "parse_number (ip @ CHR ''.'' # fp) = Some (Value y)"
    using parse_number_decimal [OF d(2) head_not_x [OF d(3), of fp]] parse_mantissa_point [OF assms(1-3)]
    by (simp add: d(1) parse_exp_def assms(4) [unfolded d(1)])
  have sp: "dropWhile is_space (ip @ CHR ''.'' # fp) = ip @ CHR ''.'' # fp"
    "parse_sign (ip @ CHR ''.'' # fp) = (False, ip @ CHR ''.'' # fp)"
    using d(2) digit_not_space [OF d(2)] by (auto simp: d(1) parse_sign_def)
  then show "stod (ip @ CHR ''.'' # fp) = Inr (fl y)" using n assms(5,6) by (auto simp: stod_def Let_def)
  have "fl (- y) = dneg (fl y)" by (simp add: fl_def Let_def)
  then have "is_fin (fl (- y))" using assms(5) by (cases "fl y") auto
  moreover have "dropWhile is_space (CHR ''-'' # ip @ CHR ''.'' # fp) = CHR ''-'' # ip @ CHR ''.'' # fp"
    by (simp add: is_space_def)
  ultimately show "stod (CHR ''-'' # ip @ CHR ''.'' # fp) = Inr (fl (- y))"
    using n assms(6) by (auto simp: stod_def Let_def parse_sign_def)
qed

lemma stod_integer:
  assumes "list_all is_digit ip" and "ip \<noteq> []" and "digits_val 10 ip \<le> 2 ^ 53"
  shows "stod ip = Inr (Fin (of_nat (digits_val 10 ip)))"
proof -
  obtain d ds where d: "ip = d # ds" "is_digit d" "list_all is_digit ds" using digit_head [OF assms(1,2)] .
  have "ds = [] \<or> to_lower (hd ds) \<noteq> CHR ''x''" using d(3) by (cases ds) (auto simp: lower_digit)
  then have n: "parse_number ip = Some (Value (of_nat (digits_val 10 ip)))"
    using parse_number_decimal [OF d(2)] parse_mantissa_digits [OF assms(1,2)] by (simp add: d(1) parse_exp_def)
  have "dropWhile is_space ip = ip" "parse_sign ip = (False, ip)"
    using d(2) digit_not_space [OF d(2)] by (auto simp: d(1) parse_sign_def)
  moreover have "fl (of_nat (digits_val 10 ip)) = Fin (of_nat (digits_val 10 ip))"
    using double_of_nat_small [OF assms(3)] by (simp add: double_of_nat_def)
  moreover have "rnd (of_nat (digits_val 10 ip)) = of_nat (digits_val 10 ip)" using rnd_nat [OF assms(3)] .
  ultimately show ?thesis using n by (simp add: stod_def Let_def)
qed

lemma fixed8_not_tiny:
  fixes n :: nat
  defines "y \<equiv> (of_nat n :: rat) / 10 ^ 8"
  shows "y = rnd y \<or> 2 powi (- 1022) \<le> \<bar>rnd y\<bar>"
proof (cases "n = 0")
  case False
  then have "(1 :: rat) \<le> of_nat n" by simp
  then have "(1 :: rat) / 10 ^ 8 \<le> y" unfolding y_def by (rule divide_right_mono) simp
  moreover have "(2 :: rat) powi (- 27) \<le> 1 / 10 ^ 8" by (simp add: power_int_minus)
  ultimately have "rnd (2 powi (- 27)) \<le> rnd y" by (intro rnd_mono) linarith
  moreover have "rnd (2 powi (- 27)) = 2 powi (- 27)" by (rule rnd_pow2) simp
  moreover have "(2 :: rat) powi (- 1022) \<le> 2 powi (- 27)" by (rule power_int_increasing) simp_all
  ultimately show ?thesis by linarith
qed (simp add: y_def)

text \<open>
  A finite double that is printed with eight decimals and read again is the double
  nearest to its value rounded to eight decimals.
\<close>

theorem stod_show_fixed8:
  assumes "is_fin (fl (of_int (rne (\<bar>x\<bar> * 10 ^ 8)) / 10 ^ 8))"
  shows "stod (show_fixed8 (Fin x)) = Inr (fl ((if x < 0 then - 1 else 1) * (of_int (rne (\<bar>x\<bar> * 10 ^ 8)) / 10 ^ 8)))"
proof -
  define n where "n = nat (rne (\<bar>x\<bar> * 10 ^ 8))"
  have "0 \<le> rne (\<bar>x\<bar> * 10 ^ 8)" using rne_mono [of 0 "\<bar>x\<bar> * 10 ^ 8"] rne_of_int [of 0] by simp
  then have r: "of_int (rne (\<bar>x\<bar> * 10 ^ 8)) = (of_nat n :: rat)" by (simp add: n_def)
  let ?ip = "show_nat (n div 10 ^ 8)" and ?fp = "pad_digits 8 (n mod 10 ^ 8)"
  have ip: "list_all is_digit ?ip" "digits_val 10 ?ip = n div 10 ^ 8" "?ip \<noteq> []" using show_nat_digits by blast+
  have "n mod 10 ^ 8 < 10 ^ 8" by simp
  with pad_digits_digits [of 8 "n mod 10 ^ 8"]
  have fp: "list_all is_digit ?fp" "length ?fp = 8" "digits_val 10 ?fp = n mod 10 ^ 8" by blast+
  have "digits_val 10 (?ip @ ?fp) = n" by (simp only: digits_val_append ip(2) fp(2,3) div_mult_mod_eq)
  then have y: "of_nat n / 10 ^ 8 = of_nat (digits_val 10 (?ip @ ?fp)) / (10 :: rat) ^ length ?fp" by (simp only: fp(2))
  note s = stod_decimal [OF ip(1) fp(1) ip(3) y assms [unfolded r] fixed8_not_tiny]
  have "show_fixed8 (Fin x) = (if x < 0 then ''-'' else '''') @ ?ip @ ''.'' @ ?fp"
    by (simp add: show_fixed8_def show_fixed_def n_def Let_def)
  then show ?thesis using s unfolding r by simp
qed

lemma fl_1: "fl 1 = Fin 1"
  using double_of_nat_small [of 1] by (simp add: double_of_nat_def)

text \<open>Instance: one.\<close>

theorem stod_show_fixed8_witness: "stod (show_fixed8 (Fin 1)) = Inr (Fin 1)"
proof -
  have "rne (10 ^ 8) = 10 ^ 8" by (simp add: rne_def)
  with stod_show_fixed8 [of 1] fl_1 show ?thesis by simp
qed

end
