(* ===== verification/Market_Data_Recorder.thy ===== *)
theory Market_Data_Recorder
  imports Byte_Codec Text_Numbers
begin

text \<open>
  The recorder and the replayer of \<open>include/persistence/market_data_recorder.hpp\<close> and
  \<open>src/persistence/market_data_recorder.cpp\<close>.

  \<^item> A file is the list of its bytes. \<open>std::ofstream\<close> appends; \<open>std::ifstream\<close> has a position, an eof and
    a fail flag, and \<open>read\<close> stores what is left when the file is too short.
  \<^item> A local variable that \<open>read\<close> could not fill is \<open>UB_uninitialised\<close> when it is used; the fields of a
    level start as zero and keep the bytes they got.
  \<^item> The lock-free queue between the callers and the writer thread is its linearized list. One
    iteration of the writer thread is \<open>writer_step\<close>, its final loop \<open>writer_finish\<close>; whether opening a
    file succeeds and what the clock reads are arguments.
  \<^item> \<open>MarketDataReplayer\<close> does not initialise \<open>format_\<close>: what the memory happens to hold is an argument of
    its constructor.
\<close>

section \<open>Formats and statistics\<close>

datatype RecordingFormat = BINARY | JSON | CSV | FORMAT nat

fun format_code :: "RecordingFormat \<Rightarrow> nat" where
  "format_code BINARY = 0"
| "format_code JSON = 1"
| "format_code CSV = 2"
| "format_code (FORMAT n) = n"

definition format_of :: "nat \<Rightarrow> RecordingFormat" where
  "format_of n = (if n = 0 then BINARY else if n = 1 then JSON else if n = 2 then CSV else FORMAT n)"

record RecordingStats =
  rs_total_updates_recorded :: u64
  rs_bytes_written :: u64
  rs_queue_size :: u64
  rs_start_time_ns :: u64
  rs_last_write_ns :: u64
  rs_write_rate_per_sec :: double

definition get_compression_ratio :: "RecordingStats \<Rightarrow> double" where
  "get_compression_ratio st =
     (if rs_total_updates_recorded st = 0 then Fin 0
      else ddiv (double_of_nat (unat (rs_total_updates_recorded st * 512))) (double_of_nat (unat (rs_bytes_written st))))"

section \<open>Bytes and text\<close>

definition bytes_of :: "string \<Rightarrow> byte list" where
  "bytes_of s = map (\<lambda>c. of_nat (of_char c)) s"

definition string_of :: "byte list \<Rightarrow> string" where
  "string_of bs = map (\<lambda>b. char_of (unat b)) bs"

definition newline :: string where
  "newline = [char_of (10 :: nat)]"

section \<open>Writing records\<close>

definition MAGIC_NUMBER :: u32 where
  "MAGIC_NUMBER = 0x424F444D"

definition FORMAT_VERSION :: u32 where
  "FORMAT_VERSION = 1"

definition header_bytes :: "RecordingFormat \<Rightarrow> byte list" where
  "header_bytes fmt =
     (if fmt = BINARY then enc_u32 MAGIC_NUMBER @ enc_u32 FORMAT_VERSION @ le_bytes 1 (format_code fmt mod 256) @ [0, 0, 0]
      else if fmt = CSV then bytes_of (''timestamp_ns,exchange,symbol,side,price,quantity,order_count'' @ newline)
      else [])"

definition level_bytes :: "PriceLevelSnapshot \<Rightarrow> byte list" where
  "level_bytes l = enc_double (ps_price l) @ enc_double (ps_quantity l) @ enc_u32 (ps_order_count l)"

definition levels_bytes :: "PriceLevelSnapshot list \<Rightarrow> byte list" where
  "levels_bytes ls = le_bytes 2 (length ls mod 2 ^ 16) @ concat (map level_bytes ls)"

definition binary_bytes :: "NormalizedOrderBookUpdate \<Rightarrow> byte list" where
  "binary_bytes u =
     (let symbol_len = length (up_symbol u) mod 2 ^ 8
      in enc_u64 (up_timestamp u) @ le_bytes 1 (exchange_code (up_exchange u)) @ le_bytes 1 symbol_len @
         bytes_of (take symbol_len (up_symbol u)) @ levels_bytes (up_bids u) @ levels_bytes (up_asks u))"

fun json_levels :: "PriceLevelSnapshot list \<Rightarrow> string" where
  "json_levels [] = ''''"
| "json_levels (l # ls) = ''['' @ show_fixed8 (ps_price l) @ '','' @ show_fixed8 (ps_quantity l) @ '','' @
     show_nat (unat (ps_order_count l)) @ '']'' @ (if ls = [] then '''' else '','') @ json_levels ls"

definition json_text :: "NormalizedOrderBookUpdate \<Rightarrow> string" where
  \<open>json_text u = ''{"timestamp":'' @ show_nat (unat (up_timestamp u)) @ '','' @ ''"exchange":'' @ show_nat (exchange_code (up_exchange u)) @
     '','' @ ''"symbol":"'' @ up_symbol u @ ''",'' @ ''"bids":['' @ json_levels (up_bids u) @ ''],"asks":['' @
     json_levels (up_asks u) @ '']}'' @ newline\<close>

definition csv_line :: "NormalizedOrderBookUpdate \<Rightarrow> string \<Rightarrow> PriceLevelSnapshot \<Rightarrow> string" where
  "csv_line u side l = show_nat (unat (up_timestamp u)) @ '','' @ show_nat (exchange_code (up_exchange u)) @ '','' @ up_symbol u @ '','' @
     side @ '','' @ show_fixed8 (ps_price l) @ '','' @ show_fixed8 (ps_quantity l) @ '','' @ show_nat (unat (ps_order_count l)) @ newline"

definition csv_text :: "NormalizedOrderBookUpdate \<Rightarrow> string" where
  "csv_text u = concat (map (csv_line u ''bid'') (up_bids u)) @ concat (map (csv_line u ''ask'') (up_asks u))"

section \<open>The recorder\<close>

record OutFile =
  out_open :: bool
  out_data :: "byte list"

record MarketDataRecorder =
  rec_filename :: string
  rec_format :: RecordingFormat
  rec_buffer_size :: nat
  rec_recording :: bool
  rec_file :: "OutFile option"
  rec_queue :: "NormalizedOrderBookUpdate list"
  rec_total_updates :: u64
  rec_bytes_written :: u64
  rec_start_time_ns :: u64
  rec_last_write_ns :: u64

definition MarketDataRecorder_new :: "string \<Rightarrow> RecordingFormat \<Rightarrow> nat \<Rightarrow> MarketDataRecorder" where
  "MarketDataRecorder_new filename fmt buffer_size =
     \<lparr>rec_filename = filename, rec_format = fmt, rec_buffer_size = buffer_size, rec_recording = False, rec_file = None,
      rec_queue = [], rec_total_updates = 0, rec_bytes_written = 0, rec_start_time_ns = 0, rec_last_write_ns = 0\<rparr>"

definition file_append :: "byte list \<Rightarrow> MarketDataRecorder \<Rightarrow> MarketDataRecorder" where
  "file_append bs r = r\<lparr>rec_file := map_option (\<lambda>f. f\<lparr>out_data := out_data f @ bs\<rparr>) (rec_file r)\<rparr>"

definition tellp :: "MarketDataRecorder \<Rightarrow> nat" where
  "tellp r = (case rec_file r of None \<Rightarrow> 0 | Some f \<Rightarrow> length (out_data f))"

definition write_header :: "MarketDataRecorder \<Rightarrow> MarketDataRecorder" where
  "write_header r =
     (let r1 = file_append (header_bytes (rec_format r)) r
      in if rec_format r = BINARY then r1\<lparr>rec_bytes_written := rec_bytes_written r1 + 12\<rparr> else r1)"

definition write_binary :: "NormalizedOrderBookUpdate \<Rightarrow> MarketDataRecorder \<Rightarrow> MarketDataRecorder" where
  "write_binary u r =
     (let bytes_before = tellp r; r1 = file_append (binary_bytes u) r; bytes_after = tellp r1
      in r1\<lparr>rec_bytes_written := rec_bytes_written r1 + of_nat (bytes_after - bytes_before)\<rparr>)"

definition write_json :: "NormalizedOrderBookUpdate \<Rightarrow> MarketDataRecorder \<Rightarrow> MarketDataRecorder" where
  "write_json u r = (let r1 = file_append (bytes_of (json_text u)) r
     in r1\<lparr>rec_bytes_written := rec_bytes_written r1 + of_nat (tellp r1)\<rparr>)"

definition write_csv :: "NormalizedOrderBookUpdate \<Rightarrow> MarketDataRecorder \<Rightarrow> MarketDataRecorder" where
  "write_csv u r = (let r1 = file_append (bytes_of (csv_text u)) r
     in r1\<lparr>rec_bytes_written := rec_bytes_written r1 + of_nat (tellp r1)\<rparr>)"

definition write_update :: "NormalizedOrderBookUpdate \<Rightarrow> MarketDataRecorder \<Rightarrow> MarketDataRecorder" where
  "write_update u r = (case rec_format r of BINARY \<Rightarrow> write_binary u r | JSON \<Rightarrow> write_json u r
     | CSV \<Rightarrow> write_csv u r | FORMAT n \<Rightarrow> r)"

definition rec_start :: "bool \<Rightarrow> u64 \<Rightarrow> MarketDataRecorder \<Rightarrow> bool \<times> MarketDataRecorder" where
  "rec_start opens now r =
     (if rec_recording r then (False, r)
      else let r1 = r\<lparr>rec_recording := True, rec_file := Some \<lparr>out_open = opens, out_data = []\<rparr>\<rparr>
           in if \<not> opens then (False, r1\<lparr>rec_recording := False\<rparr>)
              else (True, (write_header r1)\<lparr>rec_total_updates := 0, rec_bytes_written := 0, rec_start_time_ns := now,
                            rec_last_write_ns := 0\<rparr>))"

definition rec_record :: "NormalizedOrderBookUpdate \<Rightarrow> MarketDataRecorder \<Rightarrow> bool \<times> MarketDataRecorder" where
  "rec_record u r = (if \<not> rec_recording r then (False, r) else (True, r\<lparr>rec_queue := rec_queue r @ [u]\<rparr>))"

text \<open>One iteration of the writer thread while recording; without an element it only sleeps.\<close>

definition writer_step :: "u64 \<Rightarrow> MarketDataRecorder \<Rightarrow> MarketDataRecorder" where
  "writer_step now r = (case rec_queue r of
       [] \<Rightarrow> r
     | u # us \<Rightarrow> (let r1 = write_update u (r\<lparr>rec_queue := us\<rparr>)
                 in r1\<lparr>rec_total_updates := rec_total_updates r1 + 1, rec_last_write_ns := now\<rparr>))"

fun drain_loop :: "NormalizedOrderBookUpdate list \<Rightarrow> MarketDataRecorder \<Rightarrow> MarketDataRecorder" where
  "drain_loop [] r = r"
| "drain_loop (u # us) r =
     drain_loop us (let r1 = write_update u (r\<lparr>rec_queue := us\<rparr>) in r1\<lparr>rec_total_updates := rec_total_updates r1 + 1\<rparr>)"

definition writer_finish :: "MarketDataRecorder \<Rightarrow> MarketDataRecorder" where
  "writer_finish r = drain_loop (rec_queue r) r"

definition rec_stop :: "MarketDataRecorder \<Rightarrow> MarketDataRecorder" where
  "rec_stop r =
     (if \<not> rec_recording r then r
      else let r1 = writer_finish (r\<lparr>rec_recording := False\<rparr>)
           in r1\<lparr>rec_file := map_option (\<lambda>f. f\<lparr>out_open := False\<rparr>) (rec_file r1)\<rparr>)"

definition rec_destroy :: "MarketDataRecorder \<Rightarrow> MarketDataRecorder" where
  "rec_destroy r = (if rec_recording r then rec_stop r else r)"

definition rec_get_statistics :: "u64 \<Rightarrow> MarketDataRecorder \<Rightarrow> RecordingStats" where
  "rec_get_statistics now r =
     (let elapsed_ns = now - rec_start_time_ns r
      in \<lparr>rs_total_updates_recorded = rec_total_updates r, rs_bytes_written = rec_bytes_written r, rs_queue_size = 0,
          rs_start_time_ns = rec_start_time_ns r, rs_last_write_ns = rec_last_write_ns r,
          rs_write_rate_per_sec =
            (if elapsed_ns > 0
             then ddiv (double_of_nat (unat (rec_total_updates r)))
                    (ddiv (double_of_nat (unat elapsed_ns)) (Fin 1000000000))
             else Fin 0)\<rparr>)"

section \<open>Reading files\<close>

record InFile =
  in_data :: "byte list"
  in_pos :: nat
  in_eof :: bool
  in_fail :: bool

definition in_open :: "byte list \<Rightarrow> InFile" where
  "in_open bs = \<lparr>in_data = bs, in_pos = 0, in_eof = False, in_fail = False\<rparr>"

definition in_read :: "nat \<Rightarrow> InFile \<Rightarrow> byte list \<times> InFile" where
  "in_read k f =
     (if in_eof f \<or> in_fail f then ([], f\<lparr>in_fail := True\<rparr>)
      else let bs = take k (drop (in_pos f) (in_data f)); short = length bs < k
           in (bs, f\<lparr>in_pos := in_pos f + length bs, in_eof := short, in_fail := short\<rparr>))"

text \<open>\<open>seekg\<close> clears the eof flag; on a failed stream it does nothing else.\<close>

definition in_seekg :: "nat \<Rightarrow> InFile \<Rightarrow> InFile" where
  "in_seekg pos f = (if in_fail f then f\<lparr>in_eof := False\<rparr> else f\<lparr>in_eof := False, in_pos := pos\<rparr>)"

text \<open>A read into a variable without an initial value, and into one that is zero.\<close>

definition read_local :: "nat \<Rightarrow> InFile \<Rightarrow> (byte list \<times> InFile) result" where
  "read_local k f = (let (bs, f1) = in_read k f in if length bs < k then Inl UB_uninitialised else Inr (bs, f1))"

definition read_field :: "nat \<Rightarrow> InFile \<Rightarrow> byte list \<times> InFile" where
  "read_field k f = (let (bs, f1) = in_read k f in (bs @ replicate (k - length bs) 0, f1))"

definition read_level :: "InFile \<Rightarrow> PriceLevelSnapshot \<times> InFile" where
  "read_level f = (let (p, f1) = read_field 8 f; (q, f2) = read_field 8 f1; (n, f3) = read_field 4 f2
     in (\<lparr>ps_price = dec_double p, ps_quantity = dec_double q, ps_order_count = dec_u32 n\<rparr>, f3))"

fun read_levels :: "nat \<Rightarrow> InFile \<Rightarrow> PriceLevelSnapshot list \<times> InFile" where
  "read_levels 0 f = ([], f)"
| "read_levels (Suc n) f = (let (l, f1) = read_level f; (ls, f2) = read_levels n f1 in (l # ls, f2))"

definition read_side :: "InFile \<Rightarrow> (PriceLevelSnapshot list \<times> InFile) result" where
  "read_side f = bindE (read_local 2 f) (\<lambda>(n, f1). Inr (read_levels (le_nat n) f1))"

fun exchange_of :: "nat \<Rightarrow> Exchange result" where
  "exchange_of n = (if n = 0 then Inr UNKNOWN else if n = 1 then Inr BINANCE else if n = 2 then Inr COINBASE
     else if n = 3 then Inr KRAKEN else Inl Foreign_enumerator)"

definition read_binary :: "InFile \<Rightarrow> (NormalizedOrderBookUpdate option \<times> InFile) result" where
  "read_binary f =
     (let (ts, f1) = read_field 8 f
      in if in_eof f1 then Inr (None, f1)
         else bindE (read_local 1 f1) (\<lambda>(ex, f2).
              bindE (exchange_of (le_nat ex)) (\<lambda>exchange.
              bindE (read_local 1 f2) (\<lambda>(symbol_len, f3).
              bindE (read_local (le_nat symbol_len) f3) (\<lambda>(sym, f4).
              bindE (read_side f4) (\<lambda>(bids, f5).
              bindE (read_side f5) (\<lambda>(asks, f6).
                Inr (Some \<lparr>up_exchange = exchange, up_symbol = string_of sym, up_timestamp = dec_u64 ts,
                           up_update_id = 0, up_bids = bids, up_asks = asks\<rparr>, f6))))))))"

definition read_json :: "InFile \<Rightarrow> (NormalizedOrderBookUpdate option \<times> InFile) result" where
  "read_json f = Inr (None, f)"

definition read_csv :: "InFile \<Rightarrow> (NormalizedOrderBookUpdate option \<times> InFile) result" where
  "read_csv f = Inr (None, f)"

section \<open>The replayer\<close>

record MarketDataReplayer =
  rp_filename :: string
  rp_format :: RecordingFormat
  rp_file :: "InFile option"
  rp_callback :: bool

definition MarketDataReplayer_new :: "string \<Rightarrow> RecordingFormat \<Rightarrow> MarketDataReplayer" where
  "MarketDataReplayer_new filename uninitialised_format =
     \<lparr>rp_filename = filename, rp_format = uninitialised_format, rp_file = None, rp_callback = False\<rparr>"

definition read_header :: "RecordingFormat \<Rightarrow> InFile \<Rightarrow> (bool \<times> RecordingFormat \<times> InFile) result" where
  "read_header fmt f =
     (if fmt = BINARY
      then bindE (read_local 4 f) (\<lambda>(magic, f1).
           if dec_u32 magic \<noteq> MAGIC_NUMBER then Inr (False, fmt, f1)
           else let (version, f2) = in_read 4 f1
                in bindE (read_local 1 f2) (\<lambda>(fm, f3).
                   let (reserved, f4) = in_read 3 f3 in Inr (True, format_of (le_nat fm), f4)))
      else Inr (True, fmt, f))"

definition rp_open :: "byte list option \<Rightarrow> MarketDataReplayer \<Rightarrow> (bool \<times> MarketDataReplayer) result" where
  "rp_open file r = (case file of
       None \<Rightarrow> Inr (False, r\<lparr>rp_file := None\<rparr>)
     | Some bs \<Rightarrow> bindE (read_header (rp_format r) (in_open bs))
         (\<lambda>(ok, fmt, f). Inr (ok, r\<lparr>rp_format := fmt, rp_file := Some f\<rparr>)))"

definition rp_close :: "MarketDataReplayer \<Rightarrow> MarketDataReplayer" where
  "rp_close r = r\<lparr>rp_file := None\<rparr>"

definition set_replay_callback :: "bool \<Rightarrow> MarketDataReplayer \<Rightarrow> MarketDataReplayer" where
  "set_replay_callback present r = r\<lparr>rp_callback := present\<rparr>"

definition read_next :: "RecordingFormat \<Rightarrow> InFile \<Rightarrow> (NormalizedOrderBookUpdate option \<times> InFile) result" where
  "read_next fmt f = (case fmt of BINARY \<Rightarrow> read_binary f | JSON \<Rightarrow> read_json f | CSV \<Rightarrow> read_csv f
     | FORMAT n \<Rightarrow> Inr (None, f))"

definition sleep_time :: "double \<Rightarrow> u64 \<Rightarrow> u64 \<Rightarrow> u64 \<Rightarrow> u64 \<Rightarrow> u64 \<Rightarrow> u64 result" where
  "sleep_time speed last_timestamp start_data_time start_real_time timestamp now =
     (if last_timestamp > 0 \<and> dlt (Fin 0) speed
      then let data_elapsed = timestamp - start_data_time; real_elapsed = now - start_real_time
           in bindE (u64_of_double (ddiv (double_of_nat (unat data_elapsed)) speed)) (\<lambda>expected_elapsed.
                Inr (if expected_elapsed > real_elapsed then expected_elapsed - real_elapsed else 0))
      else Inr 0)"

text \<open>
  The replay loop: the updates it hands to the callback, each with the time it sleeps before.
  \<open>running\<close> and \<open>clock\<close> give the flag \<open>replaying_\<close> and the clock at each iteration, and its fuel
  is the number of bytes of the file and one more (each iteration but the last reads at least one byte), so that a
  loop that does not end would show as \<open>Endless_retry\<close>.
\<close>

fun replay_loop :: "nat \<Rightarrow> RecordingFormat \<Rightarrow> double \<Rightarrow> (nat \<Rightarrow> bool) \<Rightarrow> (nat \<Rightarrow> u64) \<Rightarrow> u64 \<Rightarrow> nat \<Rightarrow> u64 \<Rightarrow> u64 \<Rightarrow> InFile \<Rightarrow>
    ((NormalizedOrderBookUpdate \<times> u64) list \<times> InFile) result" where
  "replay_loop 0 fmt speed running clock start_real n last_timestamp start_data f = Inl Endless_retry"
| "replay_loop (Suc fuel) fmt speed running clock start_real n last_timestamp start_data f =
     (if \<not> running n then Inr ([], f)
      else bindE (read_next fmt f) (\<lambda>(up, f1). case up of
             None \<Rightarrow> Inr ([], f1)
           | Some u \<Rightarrow>
               let start_data1 = (if start_data = 0 then up_timestamp u else start_data)
               in bindE (sleep_time speed last_timestamp start_data1 start_real (up_timestamp u) (clock n)) (\<lambda>sleep.
                  bindE (replay_loop fuel fmt speed running clock start_real (n + 1) (up_timestamp u) start_data1 f1) (\<lambda>(us, f2).
                    Inr ((u, sleep) # us, f2)))))"

definition replay :: "double \<Rightarrow> (nat \<Rightarrow> bool) \<Rightarrow> (nat \<Rightarrow> u64) \<Rightarrow> u64 \<Rightarrow> MarketDataReplayer \<Rightarrow>
    ((NormalizedOrderBookUpdate \<times> u64) list \<times> MarketDataReplayer) result" where
  "replay speed running clock start_real r = (case rp_file r of
       None \<Rightarrow> Inr ([], r)
     | Some f \<Rightarrow> bindE (replay_loop (length (in_data f) + 1) (rp_format r) speed running clock start_real 0 0 0 f)
         (\<lambda>(us, f'). Inr (if rp_callback r then us else [], r\<lparr>rp_file := Some f'\<rparr>)))"




fun scan_file :: "nat \<Rightarrow> u64 \<Rightarrow> nat \<Rightarrow> InFile \<Rightarrow> (u64 \<times> nat \<times> InFile) result" where
  "scan_file 0 end_time n f = Inl Endless_retry"
| "scan_file (Suc fuel) end_time n f = bindE (read_binary f) (\<lambda>(up, f1). case up of
       None \<Rightarrow> Inr (end_time, n, f1)
     | Some u \<Rightarrow> scan_file fuel (up_timestamp u) (n + 1) f1)"

definition get_file_info :: "MarketDataReplayer \<Rightarrow> ((u64 \<times> u64 \<times> nat) \<times> MarketDataReplayer) result" where
  "get_file_info r = (case rp_file r of
       None \<Rightarrow> Inr ((0, 0, 0), r)
     | Some f \<Rightarrow>
         let pos = in_pos f; lost = in_fail f
         in bindE (read_binary (in_seekg 16 f)) (\<lambda>(up, f1).
            let (start_time, n) = (case up of None \<Rightarrow> (0, 0) | Some u \<Rightarrow> (up_timestamp u, 1))
            in bindE (scan_file (length (in_data f) + 1) 0 n f1) (\<lambda>(end_time, n', f2).
               let f3 = f2\<lparr>in_eof := False, in_fail := False\<rparr>
               in Inr ((start_time, end_time, n'),
                       r\<lparr>rp_file := Some (if lost then f3\<lparr>in_fail := True\<rparr> else in_seekg pos f3)\<rparr>))))"

section \<open>What a recording holds\<close>

definition payload :: "RecordingFormat \<Rightarrow> NormalizedOrderBookUpdate \<Rightarrow> byte list" where
  "payload fmt u = (case fmt of BINARY \<Rightarrow> binary_bytes u | JSON \<Rightarrow> bytes_of (json_text u) | CSV \<Rightarrow> bytes_of (csv_text u)
     | FORMAT n \<Rightarrow> [])"

datatype rec_op = Record NormalizedOrderBookUpdate | Write u64

fun rec_do :: "rec_op \<Rightarrow> MarketDataRecorder \<Rightarrow> MarketDataRecorder" where
  "rec_do (Record u) r = snd (rec_record u r)"
| "rec_do (Write now) r = writer_step now r"

fun recorded :: "rec_op list \<Rightarrow> NormalizedOrderBookUpdate list" where
  "recorded [] = []"
| "recorded (Record u # ops) = u # recorded ops"
| "recorded (Write now # ops) = recorded ops"

text \<open>While recording: the file holds the header and the updates written so far, in order.\<close>

definition rec_inv :: "RecordingFormat \<Rightarrow> NormalizedOrderBookUpdate list \<Rightarrow> MarketDataRecorder \<Rightarrow> bool" where
  "rec_inv fmt us r \<longleftrightarrow> rec_format r = fmt \<and>
     rec_file r = Some \<lparr>out_open = True, out_data = header_bytes fmt @ concat (map (payload fmt) us)\<rparr> \<and>
     rec_total_updates r = of_nat (length us) \<and>
     (fmt = BINARY \<longrightarrow> rec_bytes_written r = of_nat (length (concat (map (payload fmt) us))))"

lemma write_update_inv:
  assumes "rec_inv fmt us r"
  shows "rec_inv fmt (us @ [u]) ((write_update u r)\<lparr>rec_total_updates := rec_total_updates (write_update u r) + 1\<rparr>)"
    and "rec_queue (write_update u r) = rec_queue r" and "rec_recording (write_update u r) = rec_recording r"
  using assms
  by (cases fmt; simp add: rec_inv_def write_update_def payload_def write_binary_def write_json_def write_csv_def
      file_append_def tellp_def Let_def)+

lemma rec_inv_cong [simp]:
  "rec_inv fmt us (r\<lparr>rec_queue := q\<rparr>) = rec_inv fmt us r" "rec_inv fmt us (r\<lparr>rec_recording := b\<rparr>) = rec_inv fmt us r"
  "rec_inv fmt us (r\<lparr>rec_last_write_ns := n\<rparr>) = rec_inv fmt us r"
  by (simp_all add: rec_inv_def)

lemma drain_loop_inv:
  "rec_inv fmt us r \<Longrightarrow> rec_inv fmt (us @ vs) (drain_loop vs r) \<and> rec_recording (drain_loop vs r) = rec_recording r \<and>
    (vs \<noteq> [] \<longrightarrow> rec_queue (drain_loop vs r) = [])"
proof (induction vs arbitrary: us r)
  case (Cons v vs)
  let ?r = "r\<lparr>rec_queue := vs\<rparr>"
  let ?w = "(write_update v ?r)\<lparr>rec_total_updates := rec_total_updates (write_update v ?r) + 1\<rparr>"
  have i: "rec_inv fmt us ?r" using Cons.prems by simp
  note w = write_update_inv [OF i, of v]
  have "drain_loop (v # vs) r = drain_loop vs ?w" by (simp add: Let_def)
  with Cons.IH [OF w(1)] w(2,3) show ?case by (cases "vs = []") simp_all
qed simp

lemma rec_do_inv:
  assumes "rec_inv fmt us r" and "rec_recording r"
  shows "\<exists>us'. rec_inv fmt us' (rec_do op r) \<and> us' @ rec_queue (rec_do op r) = us @ rec_queue r @ recorded [op] \<and>
    rec_recording (rec_do op r)"
proof (cases op)
  case (Record u)
  then show ?thesis using assms by (intro exI [of _ us]) (simp add: rec_record_def)
next
  case (Write now)
  show ?thesis
  proof (cases "rec_queue r")
    case Nil
    then show ?thesis using assms Write by (intro exI [of _ us]) (simp add: writer_step_def)
  next
    case (Cons u q)
    have "rec_inv fmt us (r\<lparr>rec_queue := q\<rparr>)" using assms(1) by simp
    note w = write_update_inv [OF this, of u]
    have "rec_inv fmt (us @ [u]) (writer_step now r)"
      using w(1) Cons by (simp add: writer_step_def Let_def rec_inv_def)
    then show ?thesis
      using Cons Write w(2,3) assms(2) by (intro exI [of _ "us @ [u]"]) (simp add: writer_step_def Let_def)
  qed
qed

lemma rec_ops_inv:
  assumes "rec_inv fmt us r" and "rec_recording r"
  shows "\<exists>us'. rec_inv fmt us' (fold rec_do ops r) \<and> us' @ rec_queue (fold rec_do ops r) = us @ rec_queue r @ recorded ops \<and>
    rec_recording (fold rec_do ops r)"
  using assms
proof (induction ops arbitrary: us r)
  case (Cons op ops)
  obtain us1 where 1: "rec_inv fmt us1 (rec_do op r)" "us1 @ rec_queue (rec_do op r) = us @ rec_queue r @ recorded [op]"
      "rec_recording (rec_do op r)"
    using rec_do_inv [OF Cons.prems] by blast
  from Cons.IH [OF 1(1,3)] 1(2) show ?case by (cases op) auto
qed auto

lemma rec_start_inv:
  "\<not> rec_recording r \<Longrightarrow> rec_start True now r = (b, r') \<Longrightarrow>
    b \<and> rec_inv (rec_format r) [] r' \<and> rec_recording r' \<and> rec_queue r' = rec_queue r"
  by (auto simp: rec_start_def rec_inv_def write_header_def file_append_def Let_def)

lemma recording_file:
  assumes "\<not> rec_recording r" and "rec_queue r = []"
  shows "let r' = rec_stop (fold rec_do ops (snd (rec_start True now r))); us = recorded ops; fmt = rec_format r in
    rec_file r' = Some \<lparr>out_open = False, out_data = header_bytes fmt @ concat (map (payload fmt) us)\<rparr> \<and>
    rec_queue r' = [] \<and> \<not> rec_recording r' \<and> rec_total_updates r' = of_nat (length us) \<and>
    (fmt = BINARY \<longrightarrow> rec_bytes_written r' = of_nat (length (concat (map (payload fmt) us))))"
proof -
  define r1 where "r1 = snd (rec_start True now r)"
  have s: "rec_inv (rec_format r) [] r1" "rec_recording r1" "rec_queue r1 = []"
    using rec_start_inv [OF assms(1), of now "fst (rec_start True now r)" r1] assms(2) by (simp_all add: r1_def)
  obtain us where us: "rec_inv (rec_format r) us (fold rec_do ops r1)" "us @ rec_queue (fold rec_do ops r1) = recorded ops"
      "rec_recording (fold rec_do ops r1)"
    using rec_ops_inv [OF s(1,2), of ops] s(3) by auto
  let ?r = "(fold rec_do ops r1)\<lparr>rec_recording := False\<rparr>"
  have "rec_inv (rec_format r) us ?r" using us(1) by simp
  from drain_loop_inv [OF this, of "rec_queue ?r"] us(2)
  have w: "rec_inv (rec_format r) (recorded ops) (writer_finish ?r)" "\<not> rec_recording (writer_finish ?r)"
      "rec_queue (writer_finish ?r) = []"
    by (auto simp: writer_finish_def)
  then show ?thesis
    using us(3) unfolding Let_def r1_def [symmetric] by (simp add: rec_stop_def Let_def rec_inv_def)
qed

text \<open>
  Whatever the interleaving of callers and writer thread between \<open>start\<close> and \<open>stop\<close>, the closed
  file holds the header of its format and then every accepted update exactly once, in the order of
  acceptance; the queue is empty, the count of updates is right, and in the binary format the count
  of bytes is that of the records without the header.
\<close>

theorem recording_complete:
  assumes "\<not> rec_recording r" and "rec_queue r = []"
  shows "let r' = rec_stop (fold rec_do ops (snd (rec_start True now r))); us = recorded ops; fmt = rec_format r in
    rec_file r' = Some \<lparr>out_open = False, out_data = header_bytes fmt @ concat (map (payload fmt) us)\<rparr> \<and>
    rec_queue r' = [] \<and> \<not> rec_recording r' \<and> rec_total_updates r' = of_nat (length us) \<and>
    (fmt = BINARY \<longrightarrow> rec_bytes_written r' = of_nat (length (concat (map (payload fmt) us))))"
  using assms by (rule recording_file)

text \<open>Instance: one update is recorded and written, another only recorded before \<open>stop\<close>.\<close>

definition tick :: "u64 \<Rightarrow> NormalizedOrderBookUpdate" where
  "tick ts = \<lparr>up_exchange = BINANCE, up_symbol = ''AB'', up_timestamp = ts, up_update_id = 9,
     up_bids = [\<lparr>ps_price = Fin 0, ps_quantity = Fin 0, ps_order_count = 0\<rparr>], up_asks = []\<rparr>"

theorem recording_complete_witness:
  "let r = rec_stop (fold rec_do [Record (tick 7), Write 5, Record (tick 8)]
        (snd (rec_start True 3 (MarketDataRecorder_new ''f'' BINARY 100)))) in
   rec_file r = Some \<lparr>out_open = False, out_data = header_bytes BINARY @ binary_bytes (tick 7) @ binary_bytes (tick 8)\<rparr> \<and>
   rec_total_updates r = 2"
  using recording_complete [of "MarketDataRecorder_new ''f'' BINARY 100" "[Record (tick 7), Write 5, Record (tick 8)]" 3]
  by (simp add: MarketDataRecorder_new_def Let_def payload_def)

section \<open>Reading back\<close>


definition adv :: "nat \<Rightarrow> InFile \<Rightarrow> InFile" where
  "adv k f = f\<lparr>in_pos := in_pos f + k\<rparr>"

lemma adv_adv [simp]: "adv a (adv b f) = adv (b + a) f"
  by (simp add: adv_def add.assoc)

lemma adv_0 [simp]: "adv 0 f = f"
  by (simp add: adv_def)






lemma length_level_bytes [simp]: "length (level_bytes l) = 20"
  by (simp add: level_bytes_def u32.length_enc f64.length_enc)










section \<open>The loops over a file end\<close>























lemma in_seekg_data [simp]: "in_data (in_seekg p f) = in_data f"
  by (simp add: in_seekg_def)


section \<open>From the recorder to the replayer\<close>

lemma length_header [simp]: "length (header_bytes fmt) = (if fmt = BINARY then 12 else length (header_bytes fmt))"
  by (simp add: header_bytes_def u32.length_enc)






text \<open>
  With any other value in the format field the file is not checked at all: \<open>open\<close> succeeds
  on every content, nothing is read, and a replay delivers nothing.
\<close>

theorem uninitialised_format:
  assumes "fmt \<noteq> BINARY"
  shows "\<exists>r1. rp_open (Some bs) (set_replay_callback cb (MarketDataReplayer_new name fmt)) = Inr (True, r1) \<and>
    replay speed running clock t0 r1 = Inr ([], r1)"
  using assms
  by (cases fmt) (auto simp: rp_open_def read_header_def set_replay_callback_def MarketDataReplayer_new_def replay_def in_open_def
      read_next_def read_json_def read_csv_def)

text \<open>Instance: the field holds 7 and the file is two bytes of text.\<close>

theorem uninitialised_format_witness:
  "\<exists>r1. rp_open (Some [65, 66]) (set_replay_callback True (MarketDataReplayer_new ''f'' (FORMAT 7))) = Inr (True, r1) \<and>
    replay (Fin 1) (\<lambda>_. True) (\<lambda>_. 0) 0 r1 = Inr ([], r1)"
  by (rule uninitialised_format) simp

lemma le_bytes_numeral: "le_bytes (numeral k) n = of_nat (n mod 256) # le_bytes (pred_numeral k) (n div 256)"
  by (simp only: numeral_eq_Suc [of k] le_bytes.simps)

lemma scan_file_numeral: "scan_file (numeral k) e n f = bindE (read_binary f) (\<lambda>(up, f1). case up of
    None \<Rightarrow> Inr (e, n, f1) | Some u \<Rightarrow> scan_file (pred_numeral k) (up_timestamp u) (n + 1) f1)"
  by (simp add: numeral_eq_Suc)

lemma tick_7_bytes:
  "binary_bytes (tick 7) = [7, 0, 0, 0, 0, 0, 0, 0, 1, 2, 65, 66, 1, 0, 0, 0, 0, 0, 0, 0, 0, 0,
     0, 0, 0, 0, 0, 0, 0, 0, 0, 0, 0, 0, 0, 0]"
  by (simp add: tick_def binary_bytes_def levels_bytes_def level_bytes_def bytes_of_def enc_u64_def enc_u32_def
      enc_double_def double_bits_def Let_def le_bytes_numeral)

lemma header_binary: "header_bytes BINARY = [0x4D, 0x44, 0x4F, 0x42, 1, 0, 0, 0, 0, 0, 0, 0]"
  by (simp add: header_bytes_def enc_u32_def MAGIC_NUMBER_def FORMAT_VERSION_def le_bytes_numeral)

lemmas read_steps = rp_open_def read_header_def MarketDataReplayer_new_def in_open_def get_file_info_def in_seekg_def
  read_binary_def read_field_def read_local_def in_read_def read_side_def MAGIC_NUMBER_def format_of_def
  dec_u32_def dec_u64_def Let_def scan_file_numeral

text \<open>
  The header takes 12 bytes and \<open>get_file_info\<close> skips 16: for a file with the single update
  \<open>tick 7\<close> it reports two updates, the first one at a time made of the end of the timestamp, the exchange and
  the symbol, the last one at time 0.
\<close>

theorem file_info_misaligned:
  "bindE (rp_open (Some (header_bytes BINARY @ binary_bytes (tick 7))) (MarketDataReplayer_new ''f'' BINARY)) (\<lambda>(ok, r1).
     bindE (get_file_info r1) (\<lambda>(info, r2). Inr (ok, info))) = Inr (True, 0x4241020100000000, 0, 2)"
  by (simp add: tick_7_bytes header_binary read_steps)

end
