(* ===== verification/Metrics_Collector.thy ===== *)
theory Metrics_Collector
  imports Byte_Codec "HOL-Library.Multiset" "HOL-Library.Log_Nat"
begin

text \<open>
  The classes \<open>LockFreeHistogram\<close> and \<open>MetricsCollector\<close> of \<open>include/metrics/metrics_collector.hpp\<close>.

  \<^item> Every counter is a 64-bit word that wraps. The compare-exchange loops of \<open>record\<close> run on one thread,
    where they are a minimum and a maximum.
  \<^item> \<open>std::log2\<close> and \<open>std::pow\<close>, whose results the language leaves to the implementation, are the arguments
    \<open>lg\<close> and \<open>pw\<close>. \<open>log2_ok\<close> says what the results rely on: on \<open>[1, 2 ^ 64]\<close> the logarithm is between 0 and 64
    and does not fall.
  \<^item> The gauges hold the bits of a double.
\<close>

section \<open>The histogram\<close>

record LockFreeHistogram =
  hi_buckets :: "u64 list"
  hi_min_value :: u64
  hi_max_value :: u64
  hi_total_count :: u64
  hi_total_sum :: u64

definition UINT64_MAX :: u64 where
  "UINT64_MAX = - 1"

definition LockFreeHistogram_new :: "nat \<Rightarrow> LockFreeHistogram" where
  "LockFreeHistogram_new num_buckets =
     \<lparr>hi_buckets = replicate num_buckets 0, hi_min_value = UINT64_MAX, hi_max_value = 0, hi_total_count = 0, hi_total_sum = 0\<rparr>"

definition value_to_bucket :: "(double \<Rightarrow> double) \<Rightarrow> nat \<Rightarrow> u64 \<Rightarrow> u64 result" where
  "value_to_bucket lg num_buckets v =
     (if v = 0 then Inr 0
      else let log_val = lg (double_of_nat (unat v))
           in bindE (u64_of_double (dmul log_val (Fin 10))) (\<lambda>bucket. Inr (min bucket (of_nat num_buckets - 1))))"

definition bucket_to_value :: "(double \<Rightarrow> double \<Rightarrow> double) \<Rightarrow> nat \<Rightarrow> u64 result" where
  "bucket_to_value pw bucket = (let log_val = ddiv (double_of_nat bucket) (Fin 10) in u64_of_double (pw (Fin 2) log_val))"

definition hi_record :: "(double \<Rightarrow> double) \<Rightarrow> u64 \<Rightarrow> LockFreeHistogram \<Rightarrow> LockFreeHistogram result" where
  "hi_record lg v h =
     bindE (value_to_bucket lg (length (hi_buckets h)) v) (\<lambda>bucket.
       let i = unat bucket
       in Inr (h\<lparr>hi_buckets := (if i < length (hi_buckets h) then (hi_buckets h)[i := hi_buckets h ! i + 1] else hi_buckets h),
                hi_min_value := (if v < hi_min_value h then v else hi_min_value h),
                hi_max_value := (if v > hi_max_value h then v else hi_max_value h),
                hi_total_count := hi_total_count h + 1,
                hi_total_sum := hi_total_sum h + v\<rparr>))"

fun percentile_scan :: "u64 list \<Rightarrow> u64 \<Rightarrow> u64 \<Rightarrow> nat \<Rightarrow> nat option" where
  "percentile_scan [] cumulative target_count i = None"
| "percentile_scan (b # bs) cumulative target_count i =
     (let cumulative1 = cumulative + b
      in if cumulative1 \<ge> target_count then Some i else percentile_scan bs cumulative1 target_count (i + 1))"

definition target_rank :: "double \<Rightarrow> u64 \<Rightarrow> u64 result" where
  "target_rank percentile n = u64_of_double (ddiv (dmul (double_of_nat (unat n)) percentile) (Fin 100))"

definition get_percentile :: "(double \<Rightarrow> double \<Rightarrow> double) \<Rightarrow> double \<Rightarrow> LockFreeHistogram \<Rightarrow> u64 result" where
  "get_percentile pw percentile h =
     (if hi_total_count h = 0 then Inr 0
      else bindE (target_rank percentile (hi_total_count h)) (\<lambda>target_count.
           case percentile_scan (hi_buckets h) 0 target_count 0 of
             Some i \<Rightarrow> bucket_to_value pw i
           | None \<Rightarrow> Inr (hi_max_value h)))"

definition hi_get_average :: "LockFreeHistogram \<Rightarrow> double" where
  "hi_get_average h = (if hi_total_count h = 0 then Fin 0
     else ddiv (double_of_nat (unat (hi_total_sum h))) (double_of_nat (unat (hi_total_count h))))"

definition hi_get_min :: "LockFreeHistogram \<Rightarrow> u64" where
  "hi_get_min h = (if hi_min_value h = UINT64_MAX then 0 else hi_min_value h)"

definition hi_get_max :: "LockFreeHistogram \<Rightarrow> u64" where
  "hi_get_max h = hi_max_value h"

definition hi_get_count :: "LockFreeHistogram \<Rightarrow> u64" where
  "hi_get_count h = hi_total_count h"

definition hi_reset :: "LockFreeHistogram \<Rightarrow> LockFreeHistogram" where
  "hi_reset h = \<lparr>hi_buckets = replicate (length (hi_buckets h)) 0, hi_min_value = UINT64_MAX, hi_max_value = 0,
     hi_total_count = 0, hi_total_sum = 0\<rparr>"

section \<open>The collector\<close>

record MetricsCollector =
  mc_update_latency_ns :: LockFreeHistogram
  mc_snapshot_latency_ns :: LockFreeHistogram
  mc_updates_per_second :: u64
  mc_snapshots_generated :: u64
  mc_total_bid_volume :: u64
  mc_total_ask_volume :: u64
  mc_spread :: u64
  mc_mid_price :: u64
  mc_book_imbalance :: u64

definition to_bits :: "double \<Rightarrow> u64" where
  "to_bits d = of_nat (double_bits d)"

definition of_bits :: "u64 \<Rightarrow> double" where
  "of_bits b = bits_double (unat b)"

definition mc_reset :: "MetricsCollector \<Rightarrow> MetricsCollector" where
  "mc_reset m = \<lparr>mc_update_latency_ns = hi_reset (mc_update_latency_ns m), mc_snapshot_latency_ns = hi_reset (mc_snapshot_latency_ns m),
     mc_updates_per_second = 0, mc_snapshots_generated = 0, mc_total_bid_volume = 0, mc_total_ask_volume = 0,
     mc_spread = 0, mc_mid_price = 0, mc_book_imbalance = 0\<rparr>"

definition MetricsCollector_new :: MetricsCollector where
  "MetricsCollector_new = mc_reset \<lparr>mc_update_latency_ns = LockFreeHistogram_new 1000, mc_snapshot_latency_ns = LockFreeHistogram_new 1000,
     mc_updates_per_second = 0, mc_snapshots_generated = 0, mc_total_bid_volume = 0, mc_total_ask_volume = 0,
     mc_spread = 0, mc_mid_price = 0, mc_book_imbalance = 0\<rparr>"

definition record_update_latency_ns :: "(double \<Rightarrow> double) \<Rightarrow> u64 \<Rightarrow> MetricsCollector \<Rightarrow> MetricsCollector result" where
  "record_update_latency_ns lg latency_ns m =
     bindE (hi_record lg latency_ns (mc_update_latency_ns m)) (\<lambda>h. Inr (m\<lparr>mc_update_latency_ns := h\<rparr>))"

definition record_snapshot_latency_ns :: "(double \<Rightarrow> double) \<Rightarrow> u64 \<Rightarrow> MetricsCollector \<Rightarrow> MetricsCollector result" where
  "record_snapshot_latency_ns lg latency_ns m =
     bindE (hi_record lg latency_ns (mc_snapshot_latency_ns m)) (\<lambda>h. Inr (m\<lparr>mc_snapshot_latency_ns := h\<rparr>))"

definition increment_updates :: "MetricsCollector \<Rightarrow> MetricsCollector" where
  "increment_updates m = m\<lparr>mc_updates_per_second := mc_updates_per_second m + 1\<rparr>"

definition increment_snapshots :: "MetricsCollector \<Rightarrow> MetricsCollector" where
  "increment_snapshots m = m\<lparr>mc_snapshots_generated := mc_snapshots_generated m + 1\<rparr>"

definition set_total_bid_volume :: "u64 \<Rightarrow> MetricsCollector \<Rightarrow> MetricsCollector" where
  "set_total_bid_volume v m = m\<lparr>mc_total_bid_volume := v\<rparr>"

definition set_total_ask_volume :: "u64 \<Rightarrow> MetricsCollector \<Rightarrow> MetricsCollector" where
  "set_total_ask_volume v m = m\<lparr>mc_total_ask_volume := v\<rparr>"

definition mc_set_spread :: "double \<Rightarrow> MetricsCollector \<Rightarrow> MetricsCollector" where
  "mc_set_spread spread m = m\<lparr>mc_spread := to_bits spread\<rparr>"

definition mc_set_mid_price :: "double \<Rightarrow> MetricsCollector \<Rightarrow> MetricsCollector" where
  "mc_set_mid_price mid_price m = m\<lparr>mc_mid_price := to_bits mid_price\<rparr>"

definition mc_set_book_imbalance :: "double \<Rightarrow> MetricsCollector \<Rightarrow> MetricsCollector" where
  "mc_set_book_imbalance imbalance m = m\<lparr>mc_book_imbalance := to_bits imbalance\<rparr>"

definition get_update_latency :: "(double \<Rightarrow> double \<Rightarrow> double) \<Rightarrow> double \<Rightarrow> MetricsCollector \<Rightarrow> u64 result" where
  "get_update_latency pw percentile m = get_percentile pw percentile (mc_update_latency_ns m)"

definition get_snapshot_latency :: "(double \<Rightarrow> double \<Rightarrow> double) \<Rightarrow> double \<Rightarrow> MetricsCollector \<Rightarrow> u64 result" where
  "get_snapshot_latency pw percentile m = get_percentile pw percentile (mc_snapshot_latency_ns m)"

definition mc_get_spread :: "MetricsCollector \<Rightarrow> double" where
  "mc_get_spread m = of_bits (mc_spread m)"

definition mc_get_mid_price :: "MetricsCollector \<Rightarrow> double" where
  "mc_get_mid_price m = of_bits (mc_mid_price m)"

definition mc_get_book_imbalance :: "MetricsCollector \<Rightarrow> double" where
  "mc_get_book_imbalance m = of_bits (mc_book_imbalance m)"

definition reset_counters :: "MetricsCollector \<Rightarrow> MetricsCollector" where
  "reset_counters m = m\<lparr>mc_updates_per_second := 0, mc_snapshots_generated := 0\<rparr>"

definition get_updates_per_second :: "MetricsCollector \<Rightarrow> u64" where
  "get_updates_per_second m = mc_updates_per_second m"

definition get_snapshots_generated :: "MetricsCollector \<Rightarrow> u64" where
  "get_snapshots_generated m = mc_snapshots_generated m"

definition mc_get_total_bid_volume :: "MetricsCollector \<Rightarrow> u64" where
  "mc_get_total_bid_volume m = mc_total_bid_volume m"

definition mc_get_total_ask_volume :: "MetricsCollector \<Rightarrow> u64" where
  "mc_get_total_ask_volume m = mc_total_ask_volume m"

record Summary =
  su_messages_per_second :: u64
  su_active_connections :: u64
  su_latency_p50_us :: u64
  su_latency_p95_us :: u64
  su_latency_p99_us :: u64
  su_spread :: double
  su_mid_price :: double
  su_book_imbalance :: double

definition get_summary :: "(double \<Rightarrow> double \<Rightarrow> double) \<Rightarrow> MetricsCollector \<Rightarrow> Summary result" where
  "get_summary pw m =
     bindE (get_update_latency pw (Fin 50) m) (\<lambda>p50.
     bindE (get_update_latency pw (Fin 95) m) (\<lambda>p95.
     bindE (get_update_latency pw (Fin 99) m) (\<lambda>p99.
       Inr \<lparr>su_messages_per_second = mc_updates_per_second m, su_active_connections = 0,
            su_latency_p50_us = p50 div 1000, su_latency_p95_us = p95 div 1000, su_latency_p99_us = p99 div 1000,
            su_spread = mc_get_spread m, su_mid_price = mc_get_mid_price m, su_book_imbalance = mc_get_book_imbalance m\<rparr>)))"

section \<open>Buckets\<close>

definition log2_ok :: "(double \<Rightarrow> double) \<Rightarrow> bool" where
  "log2_ok lg \<longleftrightarrow> (\<forall>x y. 1 \<le> x \<and> x \<le> y \<and> y \<le> 2 ^ 64 \<longrightarrow>
     (\<exists>r s. lg (Fin x) = Fin r \<and> lg (Fin y) = Fin s \<and> 0 \<le> r \<and> r \<le> s \<and> s \<le> 64))"

definition bucket_index :: "(double \<Rightarrow> double) \<Rightarrow> nat \<Rightarrow> u64 \<Rightarrow> nat" where
  "bucket_index lg n v = (case value_to_bucket lg n v of Inr b \<Rightarrow> unat b | Inl e \<Rightarrow> 0)"

lemma fl_small: "0 \<le> x \<Longrightarrow> x \<le> 640 \<Longrightarrow> fl x = Fin (rnd x) \<and> 0 \<le> rnd x \<and> rnd x \<le> 640"
proof -
  assume x: "0 \<le> x" "x \<le> 640"
  have "rnd (of_nat 640) = (of_nat 640 :: rat)" by (rule rnd_nat) simp
  then have "0 \<le> rnd x" "rnd x \<le> 640" using rnd_mono [OF x(1)] rnd_mono [OF x(2)] by simp_all
  then show ?thesis by (simp add: fl_def Let_def)
qed

lemma double_of_u64:
  assumes "v \<noteq> (0 :: u64)"
  shows "\<exists>x. double_of_nat (unat v) = Fin x \<and> 1 \<le> x \<and> x \<le> 2 ^ 64 \<and> x = rnd (of_nat (unat v))"
proof -
  have b: "unat v < 2 ^ 64" using unsigned_less [of v] by simp
  have "0 < unat v" using assms by (simp add: unat_gt_0)
  then have "rnd (of_nat 1) \<le> rnd (of_nat (unat v))" by (intro rnd_mono of_nat_mono) simp
  moreover have "rnd (of_nat 1) = (of_nat 1 :: rat)" by (rule rnd_nat) simp
  moreover have "rnd (of_nat (unat v)) \<le> rnd (2 ^ 64)"
    using b by (intro rnd_mono) (metis less_imp_le of_nat_le_iff of_nat_numeral of_nat_power)
  moreover have "rnd (2 ^ 64) = 2 ^ 64" using rnd_rep [of 1 64] by simp
  ultimately show ?thesis using double_of_nat_Fin [OF b] by auto
qed

lemma word_of_trunc:
  assumes "0 \<le> x" and "x \<le> 640"
  shows "u64_of_double (Fin x) = Inr (of_nat (nat \<lfloor>x\<rfloor>)) \<and> unat (of_nat (nat \<lfloor>x\<rfloor>) :: u64) = nat \<lfloor>x\<rfloor>"
proof -
  have f: "0 \<le> \<lfloor>x\<rfloor>" "\<lfloor>x\<rfloor> \<le> 640" using assms by (simp_all add: floor_le_iff)
  then have "nat \<lfloor>x\<rfloor> mod 2 ^ 64 = nat \<lfloor>x\<rfloor>" by (intro mod_less) (simp add: nat_less_iff)
  then have "unat (of_nat (nat \<lfloor>x\<rfloor>) :: u64) = nat \<lfloor>x\<rfloor>" by (simp add: unat_of_nat)
  then show ?thesis using assms(1) f by (simp add: trunc_def)
qed

lemma bucket_index_pos:
  assumes "log2_ok lg" and "v \<noteq> 0" and "0 < n" and "n < 2 ^ 64"
  obtains r where "lg (double_of_nat (unat v)) = Fin r" and "0 \<le> r" and "r \<le> 64"
    and "value_to_bucket lg n v = Inr (min (of_nat (nat \<lfloor>rnd (r * 10)\<rfloor>)) (of_nat n - 1))"
    and "bucket_index lg n v = min (nat \<lfloor>rnd (r * 10)\<rfloor>) (n - 1)"
proof -
  obtain x where x: "double_of_nat (unat v) = Fin x" "1 \<le> x" "x \<le> 2 ^ 64" using double_of_u64 [OF assms(2)] by blast
  then obtain r where r: "lg (Fin x) = Fin r" "0 \<le> r" "r \<le> 64"
    using assms(1) [unfolded log2_ok_def, rule_format, of x x] by auto
  have f: "fl (r * 10) = Fin (rnd (r * 10))" "0 \<le> rnd (r * 10)" "rnd (r * 10) \<le> 640"
    using fl_small [of "r * 10"] r by simp_all
  note w = word_of_trunc [OF f(2,3)]
  have n1: "unat (of_nat n - 1 :: u64) = n - 1"
  proof -
    have "(of_nat n - 1 :: u64) = of_nat (n - 1)" using assms(3) by (simp add: of_nat_diff)
    moreover have "(n - 1) mod 2 ^ 64 = n - 1" using assms(4) by (intro mod_less) linarith
    ultimately show ?thesis by (simp add: unat_of_nat)
  qed
  have v: "value_to_bucket lg n v = Inr (min (of_nat (nat \<lfloor>rnd (r * 10)\<rfloor>)) (of_nat n - 1))"
    using assms(2) x r f w by (simp add: value_to_bucket_def del: u64_of_double.simps)
  moreover have "unat (min (of_nat (nat \<lfloor>rnd (r * 10)\<rfloor>)) (of_nat n - 1 :: u64)) = min (nat \<lfloor>rnd (r * 10)\<rfloor>) (n - 1)"
    using w n1 by (simp add: min_def word_le_nat_alt)
  ultimately show thesis using that x r by (simp add: bucket_index_def)
qed

lemma bucket_index_lt: "log2_ok lg \<Longrightarrow> 0 < n \<Longrightarrow> n < 2 ^ 64 \<Longrightarrow> bucket_index lg n v < n"
  by (cases "v = 0") (auto simp: bucket_index_def value_to_bucket_def elim!: bucket_index_pos)

lemma value_to_bucket_index:
  assumes "log2_ok lg" and "0 < n" and "n < 2 ^ 64"
  shows "\<exists>b. value_to_bucket lg n v = Inr b \<and> unat b = bucket_index lg n v"
proof (cases "v = 0")
  case False
  show ?thesis by (rule bucket_index_pos [OF assms(1) False assms(2,3)]) (simp add: bucket_index_def)
qed (simp add: bucket_index_def value_to_bucket_def)

lemma bucket_index_mono:
  assumes "log2_ok lg" and "0 < n" and "n < 2 ^ 64" and "v \<le> w"
  shows "bucket_index lg n v \<le> bucket_index lg n w"
proof (cases "v = 0")
  case False
  have w: "w \<noteq> 0" using False assms(4) by auto
  obtain x where x: "double_of_nat (unat v) = Fin x" "1 \<le> x" "x = rnd (of_nat (unat v))" using double_of_u64 [OF False] by blast
  obtain y where y: "double_of_nat (unat w) = Fin y" "y \<le> 2 ^ 64" "y = rnd (of_nat (unat w))" using double_of_u64 [OF w] by blast
  have "x \<le> y" unfolding x(3) y(3) using assms(4) by (intro rnd_mono of_nat_mono) (simp add: word_le_nat_alt)
  then obtain r s where rs: "lg (Fin x) = Fin r" "lg (Fin y) = Fin s" "r \<le> s"
    using assms(1) [unfolded log2_ok_def, rule_format, of x y] x(2) y(2) by auto
  obtain r' where r': "lg (double_of_nat (unat v)) = Fin r'" "bucket_index lg n v = min (nat \<lfloor>rnd (r' * 10)\<rfloor>) (n - 1)"
    by (rule bucket_index_pos [OF assms(1) False assms(2,3)]) blast
  obtain s' where s': "lg (double_of_nat (unat w)) = Fin s'" "bucket_index lg n w = min (nat \<lfloor>rnd (s' * 10)\<rfloor>) (n - 1)"
    by (rule bucket_index_pos [OF assms(1) w assms(2,3)]) blast
  have "rnd (r * 10) \<le> rnd (s * 10)" using rs(3) by (intro rnd_mono) simp
  then have "nat \<lfloor>rnd (r * 10)\<rfloor> \<le> nat \<lfloor>rnd (s * 10)\<rfloor>" by (intro nat_mono floor_mono)
  moreover have "r' = r" "s' = s" using r'(1) s'(1) rs x(1) y(1) by simp_all
  ultimately show ?thesis unfolding r'(2) s'(2) by (intro min.mono) simp_all
qed (simp add: bucket_index_def value_to_bucket_def)

section \<open>What the histogram knows of the recorded values\<close>

fun record_all :: "(double \<Rightarrow> double) \<Rightarrow> u64 list \<Rightarrow> LockFreeHistogram \<Rightarrow> LockFreeHistogram result" where
  "record_all lg [] h = Inr h"
| "record_all lg (v # vs) h = bindE (hi_record lg v h) (record_all lg vs)"

definition holds_values :: "(double \<Rightarrow> double) \<Rightarrow> nat \<Rightarrow> u64 list \<Rightarrow> LockFreeHistogram \<Rightarrow> bool" where
  "holds_values lg n vs h \<longleftrightarrow> hi_buckets h = map (\<lambda>i. of_nat (length (filter (\<lambda>v. bucket_index lg n v = i) vs))) [0..<n] \<and>
     hi_total_count h = of_nat (length vs) \<and> hi_total_sum h = sum_list vs \<and>
     hi_min_value h = Min (insert UINT64_MAX (set vs)) \<and> hi_max_value h = Max (insert 0 (set vs))"

lemma UINT64_MAX_ge [simp]: "v \<le> UINT64_MAX"
  by (simp add: UINT64_MAX_def)

lemma hi_record_holds:
  assumes "log2_ok lg" and "0 < n" and "n < 2 ^ 64" and "holds_values lg n vs h"
  shows "\<exists>h'. hi_record lg v h = Inr h' \<and> holds_values lg n (vs @ [v]) h'"
proof -
  let ?c = "\<lambda>vs i. length (filter (\<lambda>v. bucket_index lg n v = i) vs)"
  have len: "length (hi_buckets h) = n" using assms(4) by (simp add: holds_values_def)
  obtain b where b: "value_to_bucket lg n v = Inr b" "unat b = bucket_index lg n v"
    using value_to_bucket_index [OF assms(1-3)] by blast
  have lt: "unat b < n" using bucket_index_lt [OF assms(1-3)] b(2) by simp
  have "(hi_buckets h)[unat b := hi_buckets h ! unat b + 1] = map (\<lambda>i. of_nat (?c (vs @ [v]) i)) [0..<n]"
    using assms(4) lt b(2) by (intro nth_equalityI) (auto simp: holds_values_def nth_list_update)
  moreover have "insert UINT64_MAX (set (vs @ [v])) = insert v (insert UINT64_MAX (set vs))"
    "insert 0 (set (vs @ [v])) = insert v (insert 0 (set vs))" by auto
  then have "Min (insert UINT64_MAX (set (vs @ [v]))) = min v (Min (insert UINT64_MAX (set vs)))"
    "Max (insert 0 (set (vs @ [v]))) = max v (Max (insert 0 (set vs)))"
    by (simp_all only: Min_insert Max_insert finite_insert finite_set insert_not_empty not_False_eq_True)
  moreover have "min v (hi_min_value h) = (if v < hi_min_value h then v else hi_min_value h)"
    "max v (hi_max_value h) = (if v > hi_max_value h then v else hi_max_value h)" by auto
  ultimately show ?thesis
    using assms(4) b(1) lt len unfolding hi_record_def holds_values_def Let_def by (simp del: set_append)
qed

lemma record_all_holds:
  assumes "log2_ok lg" and "0 < n" and "n < 2 ^ 64" and "holds_values lg n vs h"
  shows "\<exists>h'. record_all lg ws h = Inr h' \<and> holds_values lg n (vs @ ws) h'"
  using assms(4)
proof (induction ws arbitrary: vs h)
  case (Cons w ws)
  obtain h1 where h1: "hi_record lg w h = Inr h1" "holds_values lg n (vs @ [w]) h1"
    using hi_record_holds [OF assms(1-3) Cons.prems] by blast
  with Cons.IH [OF h1(2)] show ?case by simp
qed simp

lemma holds_new: "holds_values lg n [] (LockFreeHistogram_new n)"
  by (simp add: holds_values_def LockFreeHistogram_new_def map_replicate_trivial)

lemma count_sorted:
  fixes f :: "u64 \<Rightarrow> nat"
  assumes "sorted ws" and "\<And>v w. v \<le> w \<Longrightarrow> f v \<le> f w" and "0 < t" and "t \<le> length ws"
  shows "t \<le> length (filter (\<lambda>v. f v \<le> i) ws) \<longleftrightarrow> f (ws ! (t - 1)) \<le> i"
proof
  assume "f (ws ! (t - 1)) \<le> i"
  have "f x \<le> i" if "x \<in> set (take t ws)" for x
  proof -
    obtain j where "j < length (take t ws)" "take t ws ! j = x" using \<open>x \<in> set (take t ws)\<close> by (metis in_set_conv_nth)
    then have "j < t" "x = ws ! j" by auto
    then have "x \<le> ws ! (t - 1)" using assms(1,4) by (auto intro: sorted_nth_mono)
    with assms(2) \<open>f (ws ! (t - 1)) \<le> i\<close> show ?thesis by (meson order_trans)
  qed
  then have "filter (\<lambda>v. f v \<le> i) (take t ws) = take t ws" by simp
  then have "filter (\<lambda>v. f v \<le> i) ws = take t ws @ filter (\<lambda>v. f v \<le> i) (drop t ws)"
    by (metis append_take_drop_id filter_append)
  then show "t \<le> length (filter (\<lambda>v. f v \<le> i) ws)" using assms(4) by simp
next
  assume l: "t \<le> length (filter (\<lambda>v. f v \<le> i) ws)"
  show "f (ws ! (t - 1)) \<le> i"
  proof (rule ccontr)
    assume c: "\<not> f (ws ! (t - 1)) \<le> i"
    have "\<not> f x \<le> i" if "x \<in> set (drop (t - 1) ws)" for x
    proof -
      obtain j where "j < length (drop (t - 1) ws)" "drop (t - 1) ws ! j = x"
        using \<open>x \<in> set (drop (t - 1) ws)\<close> by (metis in_set_conv_nth)
      then have "x = ws ! (t - 1 + j)" "t - 1 + j < length ws" by auto
      then have "ws ! (t - 1) \<le> x" using assms(1) by (auto intro: sorted_nth_mono)
      with assms(2) c show ?thesis by (meson order_trans)
    qed
    then have "filter (\<lambda>v. f v \<le> i) (drop (t - 1) ws) = []" by simp
    then have "filter (\<lambda>v. f v \<le> i) ws = filter (\<lambda>v. f v \<le> i) (take (t - 1) ws)"
      by (metis append_Nil2 append_take_drop_id filter_append)
    then have "length (filter (\<lambda>v. f v \<le> i) ws) \<le> t - 1"
      by (metis length_filter_le length_take min.bounded_iff)
    with l assms(3) show False by simp
  qed
qed

lemma filter_upto:
  fixes f :: "'a \<Rightarrow> nat"
  shows "length (filter (\<lambda>v. f v < k) vs) + length (filter (\<lambda>v. f v = k) vs) = length (filter (\<lambda>v. f v \<le> k) vs)"
  by (induction vs) auto

lemma scan_finds:
  fixes vs :: "u64 list" and f :: "u64 \<Rightarrow> nat"
  assumes "length vs < 2 ^ 64" and "m < n" and "\<And>i. unat t \<le> length (filter (\<lambda>v. f v \<le> i) vs) \<longleftrightarrow> m \<le> i" and "k \<le> m"
  shows "percentile_scan (map (\<lambda>i. of_nat (length (filter (\<lambda>v. f v = i) vs))) [k..<n])
    (of_nat (length (filter (\<lambda>v. f v < k) vs))) t k = Some m"
proof -
  let ?L = "\<lambda>i. length (filter (\<lambda>v. f v \<le> i) vs)"
  have le: "t \<le> of_nat (?L i) \<longleftrightarrow> m \<le> i" for i
  proof -
    have "?L i mod 2 ^ 64 = ?L i" using assms(1) length_filter_le [of "\<lambda>v. f v \<le> i" vs] by (intro mod_less) linarith
    then show ?thesis using assms(3) [of i] by (simp add: word_le_nat_alt unat_of_nat)
  qed
  have step: "percentile_scan (map (\<lambda>i. of_nat (length (filter (\<lambda>v. f v = i) vs))) [k..<n])
      (of_nat (length (filter (\<lambda>v. f v < k) vs))) t k = (if m \<le> k then Some k
      else percentile_scan (map (\<lambda>i. of_nat (length (filter (\<lambda>v. f v = i) vs))) [Suc k..<n])
        (of_nat (length (filter (\<lambda>v. f v < Suc k) vs))) t (Suc k))" if "k < n" for k
    unfolding upt_conv_Cons [OF that] using le [of k]
    by (simp add: Let_def less_Suc_eq_le flip: of_nat_add filter_upto [of f k vs])
  show ?thesis
    using assms(4)
  proof (induction "m - k" arbitrary: k)
    case 0
    then show ?case using step [of k] assms(2) by simp
  next
    case (Suc d)
    then show ?case using step [of k] Suc.hyps(1) [of "Suc k"] assms(2) by simp
  qed
qed

text \<open>What the percentile query answers on a histogram that holds some values.\<close>

lemma get_percentile_holds:
  assumes "log2_ok lg" and "0 < n" and "n < 2 ^ 64" and "vs \<noteq> []" and "length vs < 2 ^ 64" and "holds_values lg n vs h"
    and "target_rank p (of_nat (length vs)) = Inr t" and "unat t \<le> length vs"
  shows "get_percentile pw p h = bucket_to_value pw (if t = 0 then 0 else bucket_index lg n (sort vs ! (unat t - 1)))"
proof -
  let ?f = "bucket_index lg n"
  define m where "m = (if t = 0 then 0 else ?f (sort vs ! (unat t - 1)))"
  have "m < n" using bucket_index_lt [OF assms(1-3)] assms(2) by (simp add: m_def)
  moreover have "unat t \<le> length (filter (\<lambda>v. ?f v \<le> i) vs) \<longleftrightarrow> m \<le> i" for i
  proof (cases "t = 0")
    case False
    then have "0 < unat t" by (simp add: unat_gt_0)
    then have "unat t \<le> length (filter (\<lambda>v. ?f v \<le> i) (sort vs)) \<longleftrightarrow> ?f (sort vs ! (unat t - 1)) \<le> i"
      using assms(8) bucket_index_mono [OF assms(1-3)] by (intro count_sorted) simp_all
    moreover have "length (filter (\<lambda>v. ?f v \<le> i) (sort vs)) = length (filter (\<lambda>v. ?f v \<le> i) vs)"
      by (metis mset_filter mset_sort size_mset)
    ultimately show ?thesis using False by (simp add: m_def)
  qed (simp add: m_def)
  ultimately have "percentile_scan (hi_buckets h) 0 t 0 = Some m"
    using scan_finds [OF assms(5), of m n t ?f 0] assms(6) by (simp add: holds_values_def)
  moreover have "hi_total_count h = of_nat (length vs)" using assms(6) by (simp add: holds_values_def)
  moreover have "unat (of_nat (length vs) :: u64) = length vs" using assms(5) by (simp add: unat_of_nat)
  then have "(of_nat (length vs) :: u64) \<noteq> 0" using assms(4) by auto
  ultimately show ?thesis using assms(7) by (simp add: get_percentile_def m_def)
qed

text \<open>
  C33. The percentile query is an order statistic: for any recorded values (fewer than
  \<open>2 ^ 64\<close>) and a percentile whose rank \<open>t\<close>, computed in floating point, is at most their number, it
  returns the representative of the bucket of the \<open>t\<close>-th smallest value, and that of bucket 0 when the rank
  rounds down to zero, whatever was recorded.
\<close>

theorem percentile_order_statistic:
  assumes "log2_ok lg" and "0 < n" and "n < 2 ^ 64" and "vs \<noteq> []" and "length vs < 2 ^ 64"
    and "target_rank p (of_nat (length vs)) = Inr t" and "unat t \<le> length vs"
  shows "\<exists>h. record_all lg vs (LockFreeHistogram_new n) = Inr h \<and>
    get_percentile pw p h = bucket_to_value pw (if t = 0 then 0 else bucket_index lg n (sort vs ! (unat t - 1)))"
proof -
  obtain h where h: "record_all lg vs (LockFreeHistogram_new n) = Inr h" "holds_values lg n vs h"
    using record_all_holds [OF assms(1-3) holds_new, of vs] by auto
  with get_percentile_holds [OF assms(1-5) h(2) assms(6,7)] show ?thesis by blast
qed

text \<open>A logarithm that satisfies \<open>log2_ok\<close>: the integer part of the exact one.\<close>

fun floor_log2 :: "double \<Rightarrow> double" where
  "floor_log2 (Fin x) = Fin (of_nat (floorlog 2 (nat \<lfloor>x\<rfloor>) - 1))"
| "floor_log2 _ = NaN"

lemma floor_log2_ok: "log2_ok floor_log2"
  unfolding log2_ok_def
proof (intro allI impI)
  fix x y :: rat assume a: "1 \<le> x \<and> x \<le> y \<and> y \<le> 2 ^ 64"
  have "floorlog 2 (nat \<lfloor>x\<rfloor>) \<le> floorlog 2 (nat \<lfloor>y\<rfloor>)" using a by (intro floorlog_mono nat_mono floor_mono) simp
  moreover have "\<lfloor>y\<rfloor> \<le> 2 ^ 64" using a by (simp add: floor_le_iff)
  then have "nat \<lfloor>y\<rfloor> \<le> nat (2 ^ 64)" by (rule nat_mono)
  then have "floorlog 2 (nat \<lfloor>y\<rfloor>) \<le> 65" by (intro floorlog_leI) auto
  ultimately have "floorlog 2 (nat \<lfloor>x\<rfloor>) - 1 \<le> floorlog 2 (nat \<lfloor>y\<rfloor>) - 1" "floorlog 2 (nat \<lfloor>y\<rfloor>) - 1 \<le> 64" by simp_all
  then have "(of_nat (floorlog 2 (nat \<lfloor>x\<rfloor>) - 1) :: rat) \<le> of_nat (floorlog 2 (nat \<lfloor>y\<rfloor>) - 1)"
      "(of_nat (floorlog 2 (nat \<lfloor>y\<rfloor>) - 1) :: rat) \<le> of_nat 64"
    by (simp_all only: of_nat_le_iff)
  then show "\<exists>r s. floor_log2 (Fin x) = Fin r \<and> floor_log2 (Fin y) = Fin s \<and> 0 \<le> r \<and> r \<le> s \<and> s \<le> 64" by simp
qed

lemma fl_nat: "n \<le> 2 ^ 53 \<Longrightarrow> fl (of_nat n) = Fin (of_nat n)"
  using double_of_nat_small by (simp add: double_of_nat_def)

lemma rank_2_of_4: "target_rank (Fin 50) (of_nat 4) = Inr 2"
proof -
  have "fl 200 = Fin 200" "fl 2 = Fin 2" using fl_nat [of 200] fl_nat [of 2] by simp_all
  then show ?thesis by (simp add: target_rank_def double_of_nat_small trunc_def)
qed

text \<open>Witness of C33: the median of four latencies is the second smallest, 5.\<close>

theorem percentile_order_statistic_witness:
  "\<exists>h. record_all floor_log2 [9, 1000, 3, 5] (LockFreeHistogram_new 1000) = Inr h \<and>
    get_percentile (\<lambda>b e. b) (Fin 50) h = bucket_to_value (\<lambda>b e. b) (bucket_index floor_log2 1000 5)"
  using percentile_order_statistic [OF floor_log2_ok, of 1000 "[9, 1000, 3, 5]" "Fin 50" 2 "\<lambda>b e. b"] rank_2_of_4 by simp

text \<open>
  After any recorded values the histogram reports their exact number and sum as 64-bit words
  (so the average is the rounded quotient of the two), their largest value, and their smallest value, except that a
  smallest value of \<open>UINT64_MAX\<close> is reported as 0; a reset forgets everything.
\<close>

theorem histogram_statistics:
  assumes "log2_ok lg" and "0 < n" and "n < 2 ^ 64"
  shows "\<exists>h. record_all lg vs (LockFreeHistogram_new n) = Inr h \<and> hi_get_count h = of_nat (length vs) \<and>
    hi_get_max h = Max (insert 0 (set vs)) \<and>
    (vs \<noteq> [] \<longrightarrow> hi_get_min h = (if Min (set vs) = UINT64_MAX then 0 else Min (set vs))) \<and>
    (hi_get_count h \<noteq> 0 \<longrightarrow> hi_get_average h = ddiv (double_of_nat (unat (sum_list vs))) (double_of_nat (unat (hi_get_count h)))) \<and>
    hi_reset h = LockFreeHistogram_new n"
proof -
  obtain h where h: "record_all lg vs (LockFreeHistogram_new n) = Inr h" "holds_values lg n vs h"
    using record_all_holds [OF assms holds_new, of vs] by auto
  have "Min (insert UINT64_MAX (set vs)) = Min (set vs)" if "vs \<noteq> []"
    using that by (simp add: min_def antisym)
  then show ?thesis
    using h by (auto simp: holds_values_def hi_get_count_def hi_get_max_def hi_get_min_def hi_get_average_def hi_reset_def
        LockFreeHistogram_new_def)
qed

text \<open>Instance: three latencies.\<close>

theorem histogram_statistics_witness:
  "\<exists>h. record_all floor_log2 [9, 1000, 5] (LockFreeHistogram_new 1000) = Inr h \<and> hi_get_count h = 3 \<and> hi_get_max h = 1000 \<and>
    hi_get_min h = 5"
  using histogram_statistics [OF floor_log2_ok, of 1000 "[9, 1000, 5]"] by (auto simp: UINT64_MAX_def)

lemma bits_roundtrip: "valid d \<Longrightarrow> of_bits (to_bits d) = d"
  using double_bits_roundtrip [of d] by (simp add: of_bits_def to_bits_def unat_of_nat)

lemma of_bits_0 [simp]: "of_bits 0 = Fin 0"
  by (simp add: of_bits_def bits_double_def magnitude_def)

text \<open>
  A gauge returns the double that was stored last, bit by bit, whatever was stored in the other
  gauges and counters in between, and a reset returns every gauge to zero and every histogram to the empty one.
\<close>

theorem gauges_roundtrip:
  assumes "valid s" and "valid p" and "valid i"
  shows "let m' = mc_set_book_imbalance i (increment_updates (mc_set_mid_price p (increment_snapshots (mc_set_spread s m)))) in
    mc_get_spread m' = s \<and> mc_get_mid_price m' = p \<and> mc_get_book_imbalance m' = i \<and>
    mc_updates_per_second m' = mc_updates_per_second m + 1 \<and> mc_snapshots_generated m' = mc_snapshots_generated m + 1 \<and>
    mc_update_latency_ns m' = mc_update_latency_ns m \<and> mc_snapshot_latency_ns m' = mc_snapshot_latency_ns m \<and>
    mc_get_spread (mc_reset m') = Fin 0 \<and> hi_get_count (mc_update_latency_ns (mc_reset m')) = 0"
  using assms
  by (simp add: mc_set_book_imbalance_def mc_set_mid_price_def mc_set_spread_def increment_updates_def increment_snapshots_def
      mc_get_spread_def mc_get_mid_price_def mc_get_book_imbalance_def bits_roundtrip mc_reset_def hi_get_count_def hi_reset_def)

text \<open>Instance: spread 1, mid price 100, imbalance 0.\<close>

theorem gauges_roundtrip_witness:
  "let m' = mc_set_book_imbalance (Fin 0) (increment_updates (mc_set_mid_price (Fin 100) (increment_snapshots
        (mc_set_spread (Fin 1) MetricsCollector_new)))) in
   mc_get_spread m' = Fin 1 \<and> mc_get_mid_price m' = Fin 100 \<and> mc_updates_per_second m' = 1"
  using gauges_roundtrip [of "Fin 1" "Fin 100" "Fin 0" MetricsCollector_new] valid_Fin_int [of 1] valid_Fin_int [of 100]
    valid_Fin_int [of 0]
  by (simp add: Let_def MetricsCollector_new_def mc_reset_def)

end
