(* ===== verification/Websocket_Connector.thy ===== *)
theory Websocket_Connector
  imports Text_Numbers "HOL-Library.List_Lexorder"
begin

text \<open>
  The base class \<open>WebSocketConnector\<close> of \<open>include/exchange/websocket_connector.hpp\<close> and the part that
  \<open>BinanceConnector\<close>, \<open>CoinbaseConnector\<close> and \<open>KrakenConnector\<close> (\<open>src/exchange\<close>) have in common word for word:
  the connection's life cycle and the set of subscriptions.

  \<^item> The fields the three classes share are in one record, which each class extends.
  \<^item> The WebSocket client is not part of the repository. What it answers to a call is an argument
    (\<open>client_result\<close>: success, an error code with its message, or an exception); what the connector asks of it and
    which callbacks it invokes is the list of events an operation returns.
  \<^item> A callback is a flag (installed or not); a call of one that is not installed is no event.
  \<^item> \<open>send\<close>, the message format of \<open>send_subscription\<close>, is an argument of the shared operations; the theory
    \<open>Exchange_Connectors\<close> gives the three of them.
  \<^item> The handlers run one at a time, as on the client's single I/O thread.
\<close>

section \<open>State and events\<close>

datatype ConnectionState = DISCONNECTED | CONNECTING | CONNECTED | RECONNECTING | FAILED

record WebSocketConnector =
  ws_exchange :: Exchange
  ws_state :: ConnectionState
  ws_orderbook_callback :: bool
  ws_trade_callback :: bool
  ws_connection_callback :: bool
  ws_error_callback :: bool
  ws_auto_reconnect :: bool
  ws_reconnect_delay_ms :: u32
  ws_max_reconnect_attempts :: u32
  ws_uri :: string
  ws_subscriptions :: "string list"
  ws_running :: bool
  ws_reconnect_count :: u32

definition WebSocketConnector_new :: "Exchange \<Rightarrow> string \<Rightarrow> 'z \<Rightarrow> 'z WebSocketConnector_scheme" where
  "WebSocketConnector_new exchange uri rest =
     \<lparr>ws_exchange = exchange, ws_state = DISCONNECTED, ws_orderbook_callback = False, ws_trade_callback = False,
      ws_connection_callback = False, ws_error_callback = False, ws_auto_reconnect = True, ws_reconnect_delay_ms = 1000,
      ws_max_reconnect_attempts = 10, ws_uri = uri, ws_subscriptions = [], ws_running = False, ws_reconnect_count = 0,
      \<dots> = rest\<rparr>"

datatype client_result = Client_ok | Client_error string | Client_throws string

datatype ws_event =
    Error_callback string
  | Connection_callback bool string
  | Orderbook_callback NormalizedOrderBookUpdate
  | Client_connect string
  | Client_close
  | Client_stop
  | Client_send string
  | Sleep_ms u32

definition error_event :: "string \<Rightarrow> 'z WebSocketConnector_scheme \<Rightarrow> ws_event list" where
  "error_event msg c = (if ws_error_callback c then [Error_callback msg] else [])"

definition connection_event :: "bool \<Rightarrow> string \<Rightarrow> 'z WebSocketConnector_scheme \<Rightarrow> ws_event list" where
  "connection_event up msg c = (if ws_connection_callback c then [Connection_callback up msg] else [])"

section \<open>The base class\<close>

definition ws_set_orderbook_callback :: "bool \<Rightarrow> 'z WebSocketConnector_scheme \<Rightarrow> 'z WebSocketConnector_scheme" where
  "ws_set_orderbook_callback present c = c\<lparr>ws_orderbook_callback := present\<rparr>"

definition ws_set_trade_callback :: "bool \<Rightarrow> 'z WebSocketConnector_scheme \<Rightarrow> 'z WebSocketConnector_scheme" where
  "ws_set_trade_callback present c = c\<lparr>ws_trade_callback := present\<rparr>"

definition ws_set_connection_callback :: "bool \<Rightarrow> 'z WebSocketConnector_scheme \<Rightarrow> 'z WebSocketConnector_scheme" where
  "ws_set_connection_callback present c = c\<lparr>ws_connection_callback := present\<rparr>"

definition ws_set_error_callback :: "bool \<Rightarrow> 'z WebSocketConnector_scheme \<Rightarrow> 'z WebSocketConnector_scheme" where
  "ws_set_error_callback present c = c\<lparr>ws_error_callback := present\<rparr>"

definition ws_get_state :: "'z WebSocketConnector_scheme \<Rightarrow> ConnectionState" where
  "ws_get_state c = ws_state c"

definition ws_is_connected :: "'z WebSocketConnector_scheme \<Rightarrow> bool" where
  "ws_is_connected c = (ws_get_state c = CONNECTED)"

definition ws_set_auto_reconnect :: "bool \<Rightarrow> 'z WebSocketConnector_scheme \<Rightarrow> 'z WebSocketConnector_scheme" where
  "ws_set_auto_reconnect enable c = c\<lparr>ws_auto_reconnect := enable\<rparr>"

definition ws_set_reconnect_delay :: "u32 \<Rightarrow> 'z WebSocketConnector_scheme \<Rightarrow> 'z WebSocketConnector_scheme" where
  "ws_set_reconnect_delay delay_ms c = c\<lparr>ws_reconnect_delay_ms := delay_ms\<rparr>"

definition ws_set_max_reconnect_attempts :: "u32 \<Rightarrow> 'z WebSocketConnector_scheme \<Rightarrow> 'z WebSocketConnector_scheme" where
  "ws_set_max_reconnect_attempts max_attempts c = c\<lparr>ws_max_reconnect_attempts := max_attempts\<rparr>"

section \<open>The life cycle\<close>

definition ws_connect :: "client_result \<Rightarrow> 'z WebSocketConnector_scheme \<Rightarrow> bool \<times> ws_event list \<times> 'z WebSocketConnector_scheme" where
  "ws_connect r c =
     (if ws_state c \<noteq> DISCONNECTED then (False, [], c)
      else let c1 = c\<lparr>ws_state := CONNECTING\<rparr>
           in case r of
                Client_ok \<Rightarrow> (True, [Client_connect (ws_uri c)], c1)
              | Client_error msg \<Rightarrow> (False, error_event (''Connection creation failed: '' @ msg) c, c1\<lparr>ws_state := FAILED\<rparr>)
              | Client_throws msg \<Rightarrow> (False, error_event (''Exception: '' @ msg) c, c1\<lparr>ws_state := FAILED\<rparr>))"

text \<open>An error code or an exception of the client's \<open>close\<close> is only logged.\<close>

definition ws_disconnect :: "'z WebSocketConnector_scheme \<Rightarrow> ws_event list \<times> 'z WebSocketConnector_scheme" where
  "ws_disconnect c =
     (if ws_state c = DISCONNECTED then ([], c) else ([Client_close], c\<lparr>ws_state := DISCONNECTED, ws_running := False\<rparr>))"

definition ws_destroy :: "'z WebSocketConnector_scheme \<Rightarrow> ws_event list" where
  "ws_destroy c = (if ws_is_connected c then fst (ws_disconnect c) else [])"

text \<open>\<open>run\<close> up to the client's I/O loop, and after it returned or threw.\<close>

definition ws_run_enter :: "'z WebSocketConnector_scheme \<Rightarrow> 'z WebSocketConnector_scheme" where
  "ws_run_enter c = c\<lparr>ws_running := True\<rparr>"

definition ws_run_leave :: "client_result \<Rightarrow> 'z WebSocketConnector_scheme \<Rightarrow> ws_event list" where
  "ws_run_leave r c = (case r of Client_throws msg \<Rightarrow> error_event (''Run loop exception: '' @ msg) c | _ \<Rightarrow> [])"

definition ws_stop :: "'z WebSocketConnector_scheme \<Rightarrow> ws_event list \<times> 'z WebSocketConnector_scheme" where
  "ws_stop c = ([Client_stop], c\<lparr>ws_running := False\<rparr>)"

definition ws_send :: "string \<Rightarrow> client_result \<Rightarrow> 'z WebSocketConnector_scheme \<Rightarrow> ws_event list" where
  "ws_send message r c = (case r of
       Client_ok \<Rightarrow> [Client_send message]
     | Client_error msg \<Rightarrow> error_event (''Send error: '' @ msg) c
     | Client_throws msg \<Rightarrow> error_event (''Subscription error: '' @ msg) c)"

type_synonym 'z sender = "string \<Rightarrow> bool \<Rightarrow> client_result \<Rightarrow> 'z WebSocketConnector_scheme \<Rightarrow> ws_event list \<times> 'z WebSocketConnector_scheme"

definition ws_subscribe :: "'z sender \<Rightarrow> string \<Rightarrow> client_result \<Rightarrow> 'z WebSocketConnector_scheme \<Rightarrow>
    bool \<times> ws_event list \<times> 'z WebSocketConnector_scheme" where
  "ws_subscribe send symbol r c =
     (if \<not> ws_is_connected c then (False, [], c)
      else if symbol \<in> set (ws_subscriptions c) then (True, [], c)
      else (True, send symbol True r (c\<lparr>ws_subscriptions := insort symbol (ws_subscriptions c)\<rparr>)))"

definition ws_unsubscribe :: "'z sender \<Rightarrow> string \<Rightarrow> client_result \<Rightarrow> 'z WebSocketConnector_scheme \<Rightarrow>
    bool \<times> ws_event list \<times> 'z WebSocketConnector_scheme" where
  "ws_unsubscribe send symbol r c =
     (if \<not> ws_is_connected c then (False, [], c)
      else if symbol \<notin> set (ws_subscriptions c) then (True, [], c)
      else (True, send symbol False r (c\<lparr>ws_subscriptions := remove1 symbol (ws_subscriptions c)\<rparr>)))"

section \<open>The handlers of the client\<close>

fun resubscribe :: "'z sender \<Rightarrow> (string \<Rightarrow> client_result) \<Rightarrow> string list \<Rightarrow> 'z WebSocketConnector_scheme \<Rightarrow>
    ws_event list \<times> 'z WebSocketConnector_scheme" where
  "resubscribe send answer [] c = ([], c)"
| "resubscribe send answer (symbol # symbols) c =
     (let (ev1, c1) = send symbol True (answer symbol) c; (ev2, c2) = resubscribe send answer symbols c1
      in (ev1 @ ev2, c2))"

definition ws_on_open :: "'z sender \<Rightarrow> (string \<Rightarrow> client_result) \<Rightarrow> 'z WebSocketConnector_scheme \<Rightarrow>
    ws_event list \<times> 'z WebSocketConnector_scheme" where
  "ws_on_open send answer c =
     (let c1 = c\<lparr>ws_state := CONNECTED, ws_reconnect_count := 0\<rparr>;
          (ev, c2) = resubscribe send answer (ws_subscriptions c1) c1
      in (connection_event True ''Connected'' c @ ev, c2))"

definition ws_on_close :: "client_result \<Rightarrow> 'z WebSocketConnector_scheme \<Rightarrow> ws_event list \<times> 'z WebSocketConnector_scheme" where
  "ws_on_close r c =
     (let prev_state = ws_state c; c1 = c\<lparr>ws_state := DISCONNECTED\<rparr>;
          ev = connection_event False ''Connection closed'' c
      in if ws_auto_reconnect c \<and> prev_state = CONNECTED
         then let attempts = ws_reconnect_count c1; c2 = c1\<lparr>ws_reconnect_count := attempts + 1\<rparr>
              in if ws_max_reconnect_attempts c = 0 \<or> attempts < ws_max_reconnect_attempts c
                 then (let c3 = c2\<lparr>ws_state := RECONNECTING\<rparr>; (ok, ev1, c4) = ws_connect r c3
                       in (ev @ [Sleep_ms (ws_reconnect_delay_ms c)] @ ev1, c4))
                 else (ev, c2\<lparr>ws_state := FAILED\<rparr>)
         else (ev, c1))"

text \<open>The reason of a failure, unless looking it up throws.\<close>

definition ws_on_fail :: "string option \<Rightarrow> 'z WebSocketConnector_scheme \<Rightarrow> ws_event list \<times> 'z WebSocketConnector_scheme" where
  "ws_on_fail reason c =
     (connection_event False ''Connection failed'' c @
        error_event (case reason of Some msg \<Rightarrow> ''Connection failed: '' @ msg | None \<Rightarrow> ''Connection failed'') c,
      c\<lparr>ws_state := FAILED\<rparr>)"

section \<open>Runs of a connector\<close>

datatype ws_op =
    Connect client_result
  | Disconnect
  | Run
  | Run_end client_result
  | Stop
  | Subscribe string client_result
  | Unsubscribe string client_result
  | Set_auto_reconnect bool
  | Set_reconnect_delay u32
  | Set_max_reconnect_attempts u32
  | Set_callbacks bool bool bool bool
  | On_open "string \<Rightarrow> client_result"
  | On_close client_result
  | On_fail "string option"

fun ws_do :: "'z sender \<Rightarrow> ws_op \<Rightarrow> 'z WebSocketConnector_scheme \<Rightarrow> ws_event list \<times> 'z WebSocketConnector_scheme" where
  "ws_do send (Connect r) c = snd (ws_connect r c)"
| "ws_do send Disconnect c = ws_disconnect c"
| "ws_do send Run c = ([], ws_run_enter c)"
| "ws_do send (Run_end r) c = (ws_run_leave r c, c)"
| "ws_do send Stop c = ws_stop c"
| "ws_do send (Subscribe symbol r) c = snd (ws_subscribe send symbol r c)"
| "ws_do send (Unsubscribe symbol r) c = snd (ws_unsubscribe send symbol r c)"
| "ws_do send (Set_auto_reconnect enable) c = ([], ws_set_auto_reconnect enable c)"
| "ws_do send (Set_reconnect_delay d) c = ([], ws_set_reconnect_delay d c)"
| "ws_do send (Set_max_reconnect_attempts n) c = ([], ws_set_max_reconnect_attempts n c)"
| "ws_do send (Set_callbacks ob tr con err) c =
     ([], ws_set_error_callback err (ws_set_connection_callback con (ws_set_trade_callback tr (ws_set_orderbook_callback ob c))))"
| "ws_do send (On_open answer) c = ws_on_open send answer c"
| "ws_do send (On_close r) c = ws_on_close r c"
| "ws_do send (On_fail reason) c = ws_on_fail reason c"

fun ws_steps :: "'z sender \<Rightarrow> ws_op list \<Rightarrow> 'z WebSocketConnector_scheme \<Rightarrow> ws_event list \<times> 'z WebSocketConnector_scheme" where
  "ws_steps send [] c = ([], c)"
| "ws_steps send (op # ops) c =
     (let (ev1, c1) = ws_do send op c; (ev2, c2) = ws_steps send ops c1 in (ev1 @ ev2, c2))"

text \<open>What the owner of a connector can call, short of \<open>disconnect\<close>; the handlers are the client's.\<close>

fun owner_call :: "ws_op \<Rightarrow> bool" where
  "owner_call Disconnect = False"
| "owner_call (On_open a) = False"
| "owner_call (On_close r) = False"
| "owner_call (On_fail e) = False"
| "owner_call _ = True"

text \<open>The state of the connection and the subscriptions on their own.\<close>

fun subs_spec :: "ws_op \<Rightarrow> bool \<Rightarrow> string set \<Rightarrow> string set" where
  "subs_spec (Subscribe s r) up S = (if up then insert s S else S)"
| "subs_spec (Unsubscribe s r) up S = (if up then S - {s} else S)"
| "subs_spec _ up S = S"

definition ws_inv :: "'z WebSocketConnector_scheme \<Rightarrow> bool" where
  "ws_inv c \<longleftrightarrow> sorted (ws_subscriptions c) \<and> distinct (ws_subscriptions c) \<and>
     ws_reconnect_count c \<le> 1 \<and> (ws_state c = CONNECTED \<longrightarrow> ws_reconnect_count c = 0)"

text \<open>
  What the shared operations need of \<open>send_subscription\<close>: it changes none of the shared fields, it does not
  connect, and when the client accepts a message it sends exactly one.
\<close>

locale subscription_sender =
  fixes send :: "'z sender"
  assumes send_keeps: "WebSocketConnector.truncate (snd (send symbol on r c)) = WebSocketConnector.truncate c"
    and send_only: "Client_connect uri \<notin> set (fst (send symbol on r c))"
    and send_one: "\<exists>m. fst (send symbol on Client_ok c) = [Client_send m]"
begin

lemma send_fields [simp]:
  "ws_exchange (snd (send s on r c)) = ws_exchange c" "ws_state (snd (send s on r c)) = ws_state c"
  "ws_auto_reconnect (snd (send s on r c)) = ws_auto_reconnect c"
  "ws_max_reconnect_attempts (snd (send s on r c)) = ws_max_reconnect_attempts c"
  "ws_subscriptions (snd (send s on r c)) = ws_subscriptions c"
  "ws_reconnect_count (snd (send s on r c)) = ws_reconnect_count c"
  using send_keeps [of s on r c] by (simp_all add: WebSocketConnector.truncate_def)

lemma resubscribe_fields:
  "ws_state (snd (resubscribe send a ss c)) = ws_state c \<and> ws_subscriptions (snd (resubscribe send a ss c)) = ws_subscriptions c \<and>
    ws_reconnect_count (snd (resubscribe send a ss c)) = ws_reconnect_count c"
  by (induction ss arbitrary: c) (simp_all add: case_prod_unfold Let_def)

lemma resubscribe_sends:
  "\<exists>ms. fst (resubscribe send (\<lambda>_. Client_ok) ss c) = map Client_send ms \<and> length ms = length ss"
proof (induction ss arbitrary: c)
  case (Cons s ss)
  obtain m where m: "fst (send s True Client_ok c) = [Client_send m]" using send_one by blast
  obtain ms where "fst (resubscribe send (\<lambda>_. Client_ok) ss (snd (send s True Client_ok c))) = map Client_send ms" "length ms = length ss"
    using Cons by blast
  with m show ?case by (intro exI [of _ "m # ms"]) (simp add: case_prod_unfold Let_def)
qed simp

lemmas op_defs = ws_connect_def ws_disconnect_def ws_run_enter_def ws_stop_def ws_subscribe_def ws_unsubscribe_def
  ws_set_auto_reconnect_def ws_set_reconnect_delay_def ws_set_max_reconnect_attempts_def ws_set_error_callback_def
  ws_set_connection_callback_def ws_set_trade_callback_def ws_set_orderbook_callback_def ws_on_open_def ws_on_close_def
  ws_on_fail_def ws_is_connected_def ws_get_state_def Let_def

lemma do_inv: "ws_inv c \<Longrightarrow> ws_inv (snd (ws_do send op c))"
  using resubscribe_fields
  by (cases op) (auto simp: ws_inv_def op_defs case_prod_unfold sorted_insort distinct_insort sorted_remove1
      split: client_result.splits)

lemma steps_inv: "ws_inv c \<Longrightarrow> ws_inv (snd (ws_steps send ops c))"
  by (induction ops arbitrary: c) (auto simp: case_prod_unfold Let_def dest: do_inv)

lemma do_subs: "ws_inv c \<Longrightarrow>
    set (ws_subscriptions (snd (ws_do send op c))) = subs_spec op (ws_is_connected c) (set (ws_subscriptions c))"
  using resubscribe_fields
  by (cases op) (auto simp: ws_inv_def op_defs case_prod_unfold set_insort_key split: client_result.splits)

lemma owner_stalls:
  "owner_call op \<Longrightarrow> ws_state c = RECONNECTING \<Longrightarrow>
    ws_state (snd (ws_do send op c)) = RECONNECTING \<and> Client_connect uri \<notin> set (fst (ws_do send op c))"
  using send_only by (cases op) (auto simp: op_defs ws_run_leave_def error_event_def split: client_result.splits)

lemma owners_stall:
  "\<forall>op \<in> set ops. owner_call op \<Longrightarrow> ws_state c = RECONNECTING \<Longrightarrow>
    ws_state (snd (ws_steps send ops c)) = RECONNECTING \<and> Client_connect uri \<notin> set (fst (ws_steps send ops c))"
  by (induction ops arbitrary: c) (auto simp: case_prod_unfold Let_def dest: owner_stalls)

lemma open_resubscribes:
  "\<exists>ms. ws_on_open send (\<lambda>_. Client_ok) c =
    (connection_event True ''Connected'' c @ map Client_send ms, snd (ws_on_open send (\<lambda>_. Client_ok) c)) \<and>
    length ms = length (ws_subscriptions c)"
  using resubscribe_sends [of "ws_subscriptions c" "c\<lparr>ws_state := CONNECTED, ws_reconnect_count := 0\<rparr>"]
  by (auto simp: ws_on_open_def case_prod_unfold Let_def)

end

end
