(* ===== verification/Exchange_Connectors.thy ===== *)
theory Exchange_Connectors
  imports Websocket_Connector
begin

text \<open>
  The three connectors of \<open>src/exchange\<close>: \<open>BinanceConnector\<close>, \<open>CoinbaseConnector\<close> and \<open>KrakenConnector\<close>. Their life cycle is
  that of \<open>Websocket_Connector\<close>; here are their constructors, their subscription messages and their parsing of
  incoming messages.

  \<^item> The JSON parser is not part of the repository: its functions are the argument \<open>sj\<close>, each with an error message
    or a result. A call of \<open>value()\<close> on an error, and the iteration over a failed array, throws.
  \<^item> Reading an array through an iterator past its end is \<open>UB_end_iterator\<close>. An exception ends the parsing function
    with \<open>std::nullopt\<close>, or the message handler with a call of the error callback.
  \<^item> The message counter of Binance is a static variable; the model keeps it in the connector, of which a
    connection manager has at most one.
\<close>

section \<open>Exceptions\<close>

datatype perr = Json_error string | Std_exception string | Undefined cpp_error

fun bindP :: "perr + 'a \<Rightarrow> ('a \<Rightarrow> perr + 'b) \<Rightarrow> perr + 'b" where
  "bindP (Inl e) f = Inl e"
| "bindP (Inr x) f = f x"

lemma bindP_eq_Inr: "bindP r f = Inr y \<longleftrightarrow> (\<exists>x. r = Inr x \<and> f x = Inr y)"
  by (cases r) auto

record 'j simdjson =
  sj_parse :: "string \<Rightarrow> string + 'j"
  sj_at_key :: "'j \<Rightarrow> string \<Rightarrow> string + 'j"
  sj_get_string :: "'j \<Rightarrow> string + string"
  sj_get_int64 :: "'j \<Rightarrow> string + int"
  sj_get_array :: "'j \<Rightarrow> string + 'j list"
  sj_is_object :: "'j \<Rightarrow> bool"
  sj_is_array :: "'j \<Rightarrow> bool"
  sj_is_string :: "'j \<Rightarrow> bool"

definition value_of :: "string + 'a \<Rightarrow> perr + 'a" where
  "value_of r = (case r of Inl e \<Rightarrow> Inl (Json_error e) | Inr x \<Rightarrow> Inr x)"

definition json_field :: "'j simdjson \<Rightarrow> string + 'j \<Rightarrow> string \<Rightarrow> string + 'j" where
  "json_field sj j key = (case j of Inl e \<Rightarrow> Inl e | Inr x \<Rightarrow> sj_at_key sj x key)"

definition json_string :: "'j simdjson \<Rightarrow> string + 'j \<Rightarrow> string + string" where
  "json_string sj j = (case j of Inl e \<Rightarrow> Inl e | Inr x \<Rightarrow> sj_get_string sj x)"

definition json_array :: "'j simdjson \<Rightarrow> string + 'j \<Rightarrow> string + 'j list" where
  "json_array sj j = (case j of Inl e \<Rightarrow> Inl e | Inr x \<Rightarrow> sj_get_array sj x)"

definition stod_value :: "string \<Rightarrow> perr + double" where
  "stod_value s = (case stod s of Inl e \<Rightarrow> Inl (Std_exception ''stod'') | Inr x \<Rightarrow> Inr x)"

text \<open>The element an iterator points at.\<close>

fun deref :: "'j list \<Rightarrow> perr + 'j" where
  "deref [] = Inl (Undefined UB_end_iterator)"
| "deref (x # xs) = Inr x"

section \<open>Levels\<close>

definition level_of :: "string \<Rightarrow> string \<Rightarrow> perr + PriceLevelSnapshot" where
  "level_of price_str qty_str =
     bindP (stod_value price_str) (\<lambda>price. bindP (stod_value qty_str) (\<lambda>quantity.
       Inr \<lparr>ps_price = price, ps_quantity = quantity, ps_order_count = 1\<rparr>))"

definition parse_level :: "'j simdjson \<Rightarrow> 'j \<Rightarrow> perr + PriceLevelSnapshot" where
  "parse_level sj element =
     bindP (value_of (sj_get_array sj element)) (\<lambda>it.
     bindP (deref it) (\<lambda>e0. bindP (value_of (sj_get_string sj e0)) (\<lambda>price_str.
     bindP (deref (tl it)) (\<lambda>e1. bindP (value_of (sj_get_string sj e1)) (\<lambda>qty_str.
       level_of price_str qty_str)))))"

fun parse_levels :: "'j simdjson \<Rightarrow> 'j list \<Rightarrow> perr + PriceLevelSnapshot list" where
  "parse_levels sj [] = Inr []"
| "parse_levels sj (x # xs) = bindP (parse_level sj x) (\<lambda>l. bindP (parse_levels sj xs) (\<lambda>ls. Inr (l # ls)))"

definition parse_side :: "'j simdjson \<Rightarrow> string + 'j \<Rightarrow> perr + PriceLevelSnapshot list" where
  "parse_side sj j = bindP (value_of (json_array sj j)) (parse_levels sj)"

text \<open>A function body in \<open>try\<close> with \<open>return std::nullopt\<close> for every exception.\<close>

definition or_nullopt :: "perr + 'a \<Rightarrow> 'a option result" where
  "or_nullopt r = (case r of Inr x \<Rightarrow> Inr (Some x) | Inl (Undefined e) \<Rightarrow> Inl e | Inl e \<Rightarrow> Inr None)"

definition update_of :: "Exchange \<Rightarrow> u64 \<Rightarrow> string \<Rightarrow> PriceLevelSnapshot list \<Rightarrow> PriceLevelSnapshot list \<Rightarrow> NormalizedOrderBookUpdate" where
  "update_of exchange now symbol bids asks =
     \<lparr>up_exchange = exchange, up_symbol = symbol, up_timestamp = now, up_update_id = 0, up_bids = bids, up_asks = asks\<rparr>"

definition orderbook_event :: "NormalizedOrderBookUpdate option \<Rightarrow> 'z WebSocketConnector_scheme \<Rightarrow> ws_event list" where
  "orderbook_event up c = (case up of Some u \<Rightarrow> if ws_orderbook_callback c then [Orderbook_callback u] else [] | None \<Rightarrow> [])"

text \<open>A message handler in \<open>try\<close>: what its body did, or the call of the error callback for an exception.\<close>

definition or_error :: "'z WebSocketConnector_scheme \<Rightarrow> perr + ws_event list \<times> 'z WebSocketConnector_scheme \<Rightarrow>
    (ws_event list \<times> 'z WebSocketConnector_scheme) result" where
  "or_error c r = (case r of
       Inr x \<Rightarrow> Inr x
     | Inl (Json_error e) \<Rightarrow> Inr (error_event (''JSON parse error: '' @ e) c, c)
     | Inl (Std_exception e) \<Rightarrow> Inr (error_event (''Message handling error: '' @ e) c, c)
     | Inl (Undefined e) \<Rightarrow> Inl e)"

definition undefined_or :: "'a result \<Rightarrow> perr + 'a" where
  "undefined_or r = (case r of Inl e \<Rightarrow> Inl (Undefined e) | Inr x \<Rightarrow> Inr x)"

section \<open>Binance\<close>

record BinanceConnector = WebSocketConnector +
  bn_use_testnet :: bool
  bn_id_counter :: u64

definition BinanceConnector_new :: "bool \<Rightarrow> BinanceConnector" where
  "BinanceConnector_new use_testnet =
     WebSocketConnector_new BINANCE (if use_testnet then ''wss://testnet.binance.vision/ws'' else ''wss://stream.binance.com:9443/ws'')
       \<lparr>bn_use_testnet = use_testnet, bn_id_counter = 1\<rparr>"

definition binance_message :: "string \<Rightarrow> bool \<Rightarrow> u64 \<Rightarrow> string" where
  \<open>binance_message symbol subscribe message_id =
     (let stream = symbol @ ''@depth@100ms''; method = (if subscribe then ''SUBSCRIBE'' else ''UNSUBSCRIBE'')
      in ''{'' @ ''"method":"'' @ method @ ''",'' @ ''"params":["'' @ stream @ ''"],'' @ ''"id":'' @ show_nat (unat message_id) @ ''}'')\<close>

definition binance_send_subscription :: "string \<Rightarrow> bool \<Rightarrow> client_result \<Rightarrow> BinanceConnector \<Rightarrow> ws_event list \<times> BinanceConnector" where
  "binance_send_subscription symbol subscribe r c =
     (ws_send (binance_message symbol subscribe (bn_id_counter c)) r c, c\<lparr>bn_id_counter := bn_id_counter c + 1\<rparr>)"

definition parse_depth_update :: "'j simdjson \<Rightarrow> u64 \<Rightarrow> 'j \<Rightarrow> NormalizedOrderBookUpdate option result" where
  "parse_depth_update sj now json = or_nullopt (
     bindP (value_of (json_string sj (sj_at_key sj json ''s''))) (\<lambda>symbol.
     bindP (parse_side sj (sj_at_key sj json ''b'')) (\<lambda>bids.
     bindP (parse_side sj (sj_at_key sj json ''a'')) (\<lambda>asks.
       Inr (update_of BINANCE now symbol bids asks)))))"

definition binance_on_message :: "'j simdjson \<Rightarrow> u64 \<Rightarrow> string \<Rightarrow> BinanceConnector \<Rightarrow> (ws_event list \<times> BinanceConnector) result" where
  "binance_on_message sj now payload c = or_error c (
     case sj_parse sj payload of Inl e \<Rightarrow> Inr ([], c)
     | Inr json \<Rightarrow>
        (case sj_at_key sj json ''e'' of Inl e \<Rightarrow> Inr ([], c)
         | Inr e \<Rightarrow> bindP (value_of (sj_get_string sj e)) (\<lambda>event_type.
             if event_type = ''depthUpdate''
             then bindP (undefined_or (parse_depth_update sj now json)) (\<lambda>up. Inr (orderbook_event up c, c))
             else Inr ([], c))))"

section \<open>Coinbase\<close>

record CoinbaseConnector = WebSocketConnector +
  cb_use_sandbox :: bool

definition CoinbaseConnector_new :: "bool \<Rightarrow> CoinbaseConnector" where
  "CoinbaseConnector_new use_sandbox =
     WebSocketConnector_new COINBASE
       (if use_sandbox then ''wss://ws-feed-public.sandbox.exchange.coinbase.com'' else ''wss://ws-feed.exchange.coinbase.com'')
       \<lparr>cb_use_sandbox = use_sandbox\<rparr>"

definition coinbase_message :: "string \<Rightarrow> bool \<Rightarrow> string" where
  \<open>coinbase_message symbol subscribe =
     (let kind = (if subscribe then ''subscribe'' else ''unsubscribe'')
      in ''{'' @ ''"type":"'' @ kind @ ''",'' @ ''"product_ids":["'' @ symbol @ ''"],'' @ ''"channels":["level2_batch"]'' @ ''}'')\<close>

definition coinbase_send_subscription :: "string \<Rightarrow> bool \<Rightarrow> client_result \<Rightarrow> CoinbaseConnector \<Rightarrow> ws_event list \<times> CoinbaseConnector" where
  "coinbase_send_subscription symbol subscribe r c = (ws_send (coinbase_message symbol subscribe) r c, c)"

definition coinbase_parse_snapshot :: "'j simdjson \<Rightarrow> u64 \<Rightarrow> 'j \<Rightarrow> NormalizedOrderBookUpdate option result" where
  "coinbase_parse_snapshot sj now json = or_nullopt (
     bindP (value_of (json_string sj (sj_at_key sj json ''product_id''))) (\<lambda>product_id.
     bindP (parse_side sj (sj_at_key sj json ''bids'')) (\<lambda>bids.
     bindP (parse_side sj (sj_at_key sj json ''asks'')) (\<lambda>asks.
       Inr (update_of COINBASE now product_id bids asks)))))"

definition parse_change :: "'j simdjson \<Rightarrow> 'j \<Rightarrow> perr + string \<times> PriceLevelSnapshot" where
  "parse_change sj element =
     bindP (value_of (sj_get_array sj element)) (\<lambda>it.
     bindP (deref it) (\<lambda>e0. bindP (value_of (sj_get_string sj e0)) (\<lambda>side_str.
     bindP (deref (tl it)) (\<lambda>e1. bindP (value_of (sj_get_string sj e1)) (\<lambda>price_str.
     bindP (deref (tl (tl it))) (\<lambda>e2. bindP (value_of (sj_get_string sj e2)) (\<lambda>qty_str.
     bindP (level_of price_str qty_str) (\<lambda>l. Inr (side_str, l)))))))))"

fun parse_changes :: "'j simdjson \<Rightarrow> 'j list \<Rightarrow> perr + PriceLevelSnapshot list \<times> PriceLevelSnapshot list" where
  "parse_changes sj [] = Inr ([], [])"
| "parse_changes sj (x # xs) = bindP (parse_change sj x) (\<lambda>(side_str, l). bindP (parse_changes sj xs) (\<lambda>(bids, asks).
     Inr (if side_str = ''buy'' then (l # bids, asks) else if side_str = ''sell'' then (bids, l # asks) else (bids, asks))))"

definition parse_l2update :: "'j simdjson \<Rightarrow> u64 \<Rightarrow> 'j \<Rightarrow> NormalizedOrderBookUpdate option result" where
  "parse_l2update sj now json = or_nullopt (
     bindP (value_of (json_string sj (sj_at_key sj json ''product_id''))) (\<lambda>product_id.
     bindP (value_of (json_array sj (sj_at_key sj json ''changes''))) (\<lambda>changes.
     bindP (parse_changes sj changes) (\<lambda>(bids, asks).
       Inr (update_of COINBASE now product_id bids asks)))))"

definition coinbase_on_message :: "'j simdjson \<Rightarrow> u64 \<Rightarrow> string \<Rightarrow> CoinbaseConnector \<Rightarrow> (ws_event list \<times> CoinbaseConnector) result" where
  "coinbase_on_message sj now payload c = or_error c (
     case sj_parse sj payload of Inl e \<Rightarrow> Inr ([], c)
     | Inr json \<Rightarrow>
        (case sj_at_key sj json ''type'' of Inl e \<Rightarrow> Inr ([], c)
         | Inr t \<Rightarrow> bindP (value_of (sj_get_string sj t)) (\<lambda>msg_type.
             if msg_type = ''snapshot''
             then bindP (undefined_or (coinbase_parse_snapshot sj now json)) (\<lambda>up. Inr (orderbook_event up c, c))
             else if msg_type = ''l2update''
             then bindP (undefined_or (parse_l2update sj now json)) (\<lambda>up. Inr (orderbook_event up c, c))
             else if msg_type = ''error''
             then (let error_msg = (case json_string sj (sj_at_key sj json ''message'') of Inr m \<Rightarrow> m | Inl e \<Rightarrow> ''Unknown error'')
                   in Inr (error_event error_msg c, c))
             else Inr ([], c))))"

section \<open>Kraken\<close>

record KrakenConnector = WebSocketConnector +
  kr_depth :: u32
  kr_channel_map :: "(int, string) omap"

definition valid_depth :: "u32 \<Rightarrow> u32" where
  "valid_depth depth = (if depth \<noteq> 10 \<and> depth \<noteq> 25 \<and> depth \<noteq> 100 \<and> depth \<noteq> 500 \<and> depth \<noteq> 1000 then 10 else depth)"

definition KrakenConnector_new :: "u32 \<Rightarrow> KrakenConnector" where
  "KrakenConnector_new depth =
     WebSocketConnector_new KRAKEN ''wss://ws.kraken.com'' \<lparr>kr_depth = valid_depth depth, kr_channel_map = []\<rparr>"

definition kraken_set_depth :: "u32 \<Rightarrow> KrakenConnector \<Rightarrow> KrakenConnector" where
  "kraken_set_depth depth c = c\<lparr>kr_depth := valid_depth depth\<rparr>"

definition kraken_message :: "string \<Rightarrow> bool \<Rightarrow> u32 \<Rightarrow> string" where
  \<open>kraken_message symbol subscribe depth =
     (let event = (if subscribe then ''subscribe'' else ''unsubscribe'')
      in ''{'' @ ''"event":"'' @ event @ ''",'' @ ''"pair":["'' @ symbol @ ''"],'' @
         ''"subscription":{"name":"book","depth":'' @ show_nat (unat depth) @ ''}'' @ ''}'')\<close>

definition kraken_send_subscription :: "string \<Rightarrow> bool \<Rightarrow> client_result \<Rightarrow> KrakenConnector \<Rightarrow> ws_event list \<times> KrakenConnector" where
  "kraken_send_subscription symbol subscribe r c = (ws_send (kraken_message symbol subscribe (kr_depth c)) r c, c)"

definition normalize_symbol :: "string \<Rightarrow> string" where
  "normalize_symbol kraken_symbol = kraken_symbol"

text \<open>A side that is only parsed when the field is there.\<close>

definition parse_optional_side :: "'j simdjson \<Rightarrow> 'j \<Rightarrow> string \<Rightarrow> perr + PriceLevelSnapshot list" where
  "parse_optional_side sj json key = (case sj_at_key sj json key of Inl e \<Rightarrow> Inr [] | Inr j \<Rightarrow> parse_side sj (Inr j))"

definition kraken_parse_snapshot :: "'j simdjson \<Rightarrow> u64 \<Rightarrow> 'j \<Rightarrow> string \<Rightarrow> NormalizedOrderBookUpdate option result" where
  "kraken_parse_snapshot sj now json pair = or_nullopt (
     bindP (parse_optional_side sj json ''bs'') (\<lambda>bids.
     bindP (parse_optional_side sj json ''as'') (\<lambda>asks.
       Inr (update_of KRAKEN now (normalize_symbol pair) bids asks))))"

definition kraken_parse_update :: "'j simdjson \<Rightarrow> u64 \<Rightarrow> 'j \<Rightarrow> string \<Rightarrow> NormalizedOrderBookUpdate option result" where
  "kraken_parse_update sj now json pair = or_nullopt (
     bindP (parse_optional_side sj json ''b'') (\<lambda>bids.
     bindP (parse_optional_side sj json ''a'') (\<lambda>asks.
       Inr (update_of KRAKEN now (normalize_symbol pair) bids asks))))"

definition kraken_on_event :: "'j simdjson \<Rightarrow> 'j \<Rightarrow> KrakenConnector \<Rightarrow> perr + ws_event list \<times> KrakenConnector" where
  "kraken_on_event sj json c =
     (case sj_at_key sj json ''event'' of Inl e \<Rightarrow> Inr ([], c)
      | Inr ev \<Rightarrow> bindP (value_of (sj_get_string sj ev)) (\<lambda>event_type.
          if event_type = ''systemStatus''
          then bindP (value_of (json_string sj (sj_at_key sj json ''status''))) (\<lambda>status. Inr ([], c))
          else if event_type = ''subscriptionStatus''
          then bindP (value_of (json_string sj (sj_at_key sj json ''status''))) (\<lambda>status.
               if status = ''subscribed''
               then bindP (value_of (case sj_at_key sj json ''channelID'' of Inl e \<Rightarrow> Inl e | Inr x \<Rightarrow> sj_get_int64 sj x)) (\<lambda>channel_id.
                    bindP (value_of (json_string sj (sj_at_key sj json ''pair''))) (\<lambda>pair.
                      Inr ([], c\<lparr>kr_channel_map := omap_put channel_id pair (kr_channel_map c)\<rparr>)))
               else Inr ([], c))
          else if event_type = ''error''
          then bindP (value_of (json_string sj (sj_at_key sj json ''errorMessage''))) (\<lambda>error_msg. Inr (error_event error_msg c, c))
          else Inr ([], c)))"

definition channel_pair :: "'j simdjson \<Rightarrow> int \<Rightarrow> 'j list \<Rightarrow> KrakenConnector \<Rightarrow> perr + string" where
  "channel_pair sj channel_id array c =
     (case map_of (kr_channel_map c) channel_id of
        Some pair \<Rightarrow> Inr pair
      | None \<Rightarrow> if sj_is_string sj (last array) then value_of (sj_get_string sj (last array)) else Inr '''')"

definition kraken_on_data :: "'j simdjson \<Rightarrow> u64 \<Rightarrow> 'j \<Rightarrow> KrakenConnector \<Rightarrow> perr + ws_event list \<times> KrakenConnector" where
  "kraken_on_data sj now json c =
     bindP (value_of (sj_get_array sj json)) (\<lambda>array.
     bindP (deref array) (\<lambda>e0. bindP (value_of (sj_get_int64 sj e0)) (\<lambda>channel_id.
     bindP (channel_pair sj channel_id array c) (\<lambda>pair.
       if pair = '''' then Inr ([], c)
       else bindP (deref (tl array)) (\<lambda>data.
            let is_snapshot = (\<not> isl (sj_at_key sj data ''as'') \<or> \<not> isl (sj_at_key sj data ''bs''))
            in bindP (undefined_or (if is_snapshot then kraken_parse_snapshot sj now data pair else kraken_parse_update sj now data pair))
                 (\<lambda>up. Inr (orderbook_event up c, c)))))))"

definition kraken_on_message :: "'j simdjson \<Rightarrow> u64 \<Rightarrow> string \<Rightarrow> KrakenConnector \<Rightarrow> (ws_event list \<times> KrakenConnector) result" where
  "kraken_on_message sj now payload c = or_error c (
     case sj_parse sj payload of Inl e \<Rightarrow> Inr ([], c)
     | Inr json \<Rightarrow>
        if sj_is_object sj json then kraken_on_event sj json c
        else if sj_is_array sj json then kraken_on_data sj now json c
        else Inr ([], c))"

section \<open>The life cycle of each class\<close>

text \<open>The life cycle of \<open>BinanceConnector\<close>.\<close>

definition binance_connect :: "client_result \<Rightarrow> BinanceConnector \<Rightarrow> bool \<times> ws_event list \<times> BinanceConnector" where
  "binance_connect r c = ws_connect r c"

definition binance_disconnect :: "BinanceConnector \<Rightarrow> ws_event list \<times> BinanceConnector" where
  "binance_disconnect c = ws_disconnect c"

definition binance_destroy :: "BinanceConnector \<Rightarrow> ws_event list" where
  "binance_destroy c = ws_destroy c"

definition binance_run_enter :: "BinanceConnector \<Rightarrow> BinanceConnector" where
  "binance_run_enter c = ws_run_enter c"

definition binance_run_leave :: "client_result \<Rightarrow> BinanceConnector \<Rightarrow> ws_event list" where
  "binance_run_leave r c = ws_run_leave r c"

definition binance_stop :: "BinanceConnector \<Rightarrow> ws_event list \<times> BinanceConnector" where
  "binance_stop c = ws_stop c"

definition binance_subscribe :: "string \<Rightarrow> client_result \<Rightarrow> BinanceConnector \<Rightarrow> bool \<times> ws_event list \<times> BinanceConnector" where
  "binance_subscribe symbol r c = ws_subscribe binance_send_subscription symbol r c"

definition binance_unsubscribe :: "string \<Rightarrow> client_result \<Rightarrow> BinanceConnector \<Rightarrow> bool \<times> ws_event list \<times> BinanceConnector" where
  "binance_unsubscribe symbol r c = ws_unsubscribe binance_send_subscription symbol r c"

definition binance_on_open :: "(string \<Rightarrow> client_result) \<Rightarrow> BinanceConnector \<Rightarrow> ws_event list \<times> BinanceConnector" where
  "binance_on_open answer c = ws_on_open binance_send_subscription answer c"

definition binance_on_close :: "client_result \<Rightarrow> BinanceConnector \<Rightarrow> ws_event list \<times> BinanceConnector" where
  "binance_on_close r c = ws_on_close r c"

definition binance_on_fail :: "string option \<Rightarrow> BinanceConnector \<Rightarrow> ws_event list \<times> BinanceConnector" where
  "binance_on_fail reason c = ws_on_fail reason c"

text \<open>The life cycle of \<open>CoinbaseConnector\<close>.\<close>

definition coinbase_connect :: "client_result \<Rightarrow> CoinbaseConnector \<Rightarrow> bool \<times> ws_event list \<times> CoinbaseConnector" where
  "coinbase_connect r c = ws_connect r c"

definition coinbase_disconnect :: "CoinbaseConnector \<Rightarrow> ws_event list \<times> CoinbaseConnector" where
  "coinbase_disconnect c = ws_disconnect c"

definition coinbase_destroy :: "CoinbaseConnector \<Rightarrow> ws_event list" where
  "coinbase_destroy c = ws_destroy c"

definition coinbase_run_enter :: "CoinbaseConnector \<Rightarrow> CoinbaseConnector" where
  "coinbase_run_enter c = ws_run_enter c"

definition coinbase_run_leave :: "client_result \<Rightarrow> CoinbaseConnector \<Rightarrow> ws_event list" where
  "coinbase_run_leave r c = ws_run_leave r c"

definition coinbase_stop :: "CoinbaseConnector \<Rightarrow> ws_event list \<times> CoinbaseConnector" where
  "coinbase_stop c = ws_stop c"

definition coinbase_subscribe :: "string \<Rightarrow> client_result \<Rightarrow> CoinbaseConnector \<Rightarrow> bool \<times> ws_event list \<times> CoinbaseConnector" where
  "coinbase_subscribe symbol r c = ws_subscribe coinbase_send_subscription symbol r c"

definition coinbase_unsubscribe :: "string \<Rightarrow> client_result \<Rightarrow> CoinbaseConnector \<Rightarrow> bool \<times> ws_event list \<times> CoinbaseConnector" where
  "coinbase_unsubscribe symbol r c = ws_unsubscribe coinbase_send_subscription symbol r c"

definition coinbase_on_open :: "(string \<Rightarrow> client_result) \<Rightarrow> CoinbaseConnector \<Rightarrow> ws_event list \<times> CoinbaseConnector" where
  "coinbase_on_open answer c = ws_on_open coinbase_send_subscription answer c"

definition coinbase_on_close :: "client_result \<Rightarrow> CoinbaseConnector \<Rightarrow> ws_event list \<times> CoinbaseConnector" where
  "coinbase_on_close r c = ws_on_close r c"

definition coinbase_on_fail :: "string option \<Rightarrow> CoinbaseConnector \<Rightarrow> ws_event list \<times> CoinbaseConnector" where
  "coinbase_on_fail reason c = ws_on_fail reason c"

text \<open>The life cycle of \<open>KrakenConnector\<close>.\<close>

definition kraken_connect :: "client_result \<Rightarrow> KrakenConnector \<Rightarrow> bool \<times> ws_event list \<times> KrakenConnector" where
  "kraken_connect r c = ws_connect r c"

definition kraken_disconnect :: "KrakenConnector \<Rightarrow> ws_event list \<times> KrakenConnector" where
  "kraken_disconnect c = ws_disconnect c"

definition kraken_destroy :: "KrakenConnector \<Rightarrow> ws_event list" where
  "kraken_destroy c = ws_destroy c"

definition kraken_run_enter :: "KrakenConnector \<Rightarrow> KrakenConnector" where
  "kraken_run_enter c = ws_run_enter c"

definition kraken_run_leave :: "client_result \<Rightarrow> KrakenConnector \<Rightarrow> ws_event list" where
  "kraken_run_leave r c = ws_run_leave r c"

definition kraken_stop :: "KrakenConnector \<Rightarrow> ws_event list \<times> KrakenConnector" where
  "kraken_stop c = ws_stop c"

definition kraken_subscribe :: "string \<Rightarrow> client_result \<Rightarrow> KrakenConnector \<Rightarrow> bool \<times> ws_event list \<times> KrakenConnector" where
  "kraken_subscribe symbol r c = ws_subscribe kraken_send_subscription symbol r c"

definition kraken_unsubscribe :: "string \<Rightarrow> client_result \<Rightarrow> KrakenConnector \<Rightarrow> bool \<times> ws_event list \<times> KrakenConnector" where
  "kraken_unsubscribe symbol r c = ws_unsubscribe kraken_send_subscription symbol r c"

definition kraken_on_open :: "(string \<Rightarrow> client_result) \<Rightarrow> KrakenConnector \<Rightarrow> ws_event list \<times> KrakenConnector" where
  "kraken_on_open answer c = ws_on_open kraken_send_subscription answer c"

definition kraken_on_close :: "client_result \<Rightarrow> KrakenConnector \<Rightarrow> ws_event list \<times> KrakenConnector" where
  "kraken_on_close r c = ws_on_close r c"

definition kraken_on_fail :: "string option \<Rightarrow> KrakenConnector \<Rightarrow> ws_event list \<times> KrakenConnector" where
  "kraken_on_fail reason c = ws_on_fail reason c"

section \<open>The shared life cycle of the three\<close>

lemma ws_send_only: "Client_connect uri \<notin> set (ws_send m r c)"
  by (simp add: ws_send_def error_event_def split: client_result.splits)

interpretation binance: subscription_sender binance_send_subscription
  by unfold_locales
    (simp_all add: binance_send_subscription_def ws_send_only WebSocketConnector.truncate_def, simp add: ws_send_def)

interpretation coinbase: subscription_sender coinbase_send_subscription
  by unfold_locales (simp_all add: coinbase_send_subscription_def ws_send_only, simp add: ws_send_def)

interpretation kraken: subscription_sender kraken_send_subscription
  by unfold_locales (simp_all add: kraken_send_subscription_def ws_send_only, simp add: ws_send_def)

lemma new_inv: "ws_inv (WebSocketConnector_new e u z)"
  by (simp add: ws_inv_def WebSocketConnector_new_def)

lemma close_reconnects:
  assumes "ws_inv c" and "ws_state c = CONNECTED" and "ws_auto_reconnect c"
  shows "ws_state (snd (ws_on_close r c)) = RECONNECTING \<and> Client_connect uri \<notin> set (fst (ws_on_close r c))"
  using assms
  by (auto simp: ws_on_close_def ws_connect_def ws_inv_def connection_event_def Let_def word_gt_0)

text \<open>
  C40. The automatic reconnection of the three connectors never reconnects: when an open connection is
  lost after any history, the handler moves to \<open>RECONNECTING\<close> and calls \<open>connect\<close>, which refuses in every state but
  \<open>DISCONNECTED\<close>. No connection is requested, then or by any later call short of \<open>disconnect\<close>, and the state
  stays \<open>RECONNECTING\<close>.
\<close>

theorem reconnect_stalls:
  assumes "\<forall>op \<in> set calls. owner_call op"
  shows
    "(let c = snd (ws_steps binance_send_subscription history (BinanceConnector_new t)) in
      ws_state c = CONNECTED \<and> ws_auto_reconnect c \<longrightarrow>
      (let (ev, c') = ws_steps binance_send_subscription (On_close r # calls) c
       in ws_state c' = RECONNECTING \<and> Client_connect uri \<notin> set ev)) \<and>
     (let c = snd (ws_steps coinbase_send_subscription history (CoinbaseConnector_new t)) in
      ws_state c = CONNECTED \<and> ws_auto_reconnect c \<longrightarrow>
      (let (ev, c') = ws_steps coinbase_send_subscription (On_close r # calls) c
       in ws_state c' = RECONNECTING \<and> Client_connect uri \<notin> set ev)) \<and>
     (let c = snd (ws_steps kraken_send_subscription history (KrakenConnector_new d)) in
      ws_state c = CONNECTED \<and> ws_auto_reconnect c \<longrightarrow>
      (let (ev, c') = ws_steps kraken_send_subscription (On_close r # calls) c
       in ws_state c' = RECONNECTING \<and> Client_connect uri \<notin> set ev))"
proof (intro conjI)
  have b: "ws_inv (BinanceConnector_new t)" "ws_inv (CoinbaseConnector_new t)" "ws_inv (KrakenConnector_new d)"
    by (simp_all add: BinanceConnector_new_def CoinbaseConnector_new_def KrakenConnector_new_def new_inv)
  show "let c = snd (ws_steps binance_send_subscription history (BinanceConnector_new t)) in
      ws_state c = CONNECTED \<and> ws_auto_reconnect c \<longrightarrow>
      (let (ev, c') = ws_steps binance_send_subscription (On_close r # calls) c
       in ws_state c' = RECONNECTING \<and> Client_connect uri \<notin> set ev)"
    using close_reconnects [OF binance.steps_inv [OF b(1)]] binance.owners_stall [OF assms]
    by (auto simp: Let_def case_prod_unfold)
  show "let c = snd (ws_steps coinbase_send_subscription history (CoinbaseConnector_new t)) in
      ws_state c = CONNECTED \<and> ws_auto_reconnect c \<longrightarrow>
      (let (ev, c') = ws_steps coinbase_send_subscription (On_close r # calls) c
       in ws_state c' = RECONNECTING \<and> Client_connect uri \<notin> set ev)"
    using close_reconnects [OF coinbase.steps_inv [OF b(2)]] coinbase.owners_stall [OF assms]
    by (auto simp: Let_def case_prod_unfold)
  show "let c = snd (ws_steps kraken_send_subscription history (KrakenConnector_new d)) in
      ws_state c = CONNECTED \<and> ws_auto_reconnect c \<longrightarrow>
      (let (ev, c') = ws_steps kraken_send_subscription (On_close r # calls) c
       in ws_state c' = RECONNECTING \<and> Client_connect uri \<notin> set ev)"
    using close_reconnects [OF kraken.steps_inv [OF b(3)]] kraken.owners_stall [OF assms]
    by (auto simp: Let_def case_prod_unfold)
qed

text \<open>Witness of C40: the connection opens, is lost, and the owner calls \<open>connect\<close> again.\<close>

theorem reconnect_stalls_witness:
  "let c = snd (ws_steps coinbase_send_subscription [Connect Client_ok, On_open (\<lambda>_. Client_ok)] (CoinbaseConnector_new False)) in
   ws_state c = CONNECTED \<and> ws_auto_reconnect c \<and>
   ws_state (snd (ws_steps coinbase_send_subscription [On_close Client_ok, Connect Client_ok] c)) = RECONNECTING"
proof -
  let ?c = "snd (ws_steps coinbase_send_subscription [Connect Client_ok, On_open (\<lambda>_. Client_ok)] (CoinbaseConnector_new False))"
  have "ws_state ?c = CONNECTED" "ws_auto_reconnect ?c"
    by (simp_all add: CoinbaseConnector_new_def WebSocketConnector_new_def ws_connect_def ws_on_open_def Let_def case_prod_unfold)
  moreover have "\<forall>op \<in> set [Connect Client_ok]. owner_call op" by simp
  note reconnect_stalls [OF this, THEN conjunct2, THEN conjunct1, of "[Connect Client_ok, On_open (\<lambda>_. Client_ok)]" False Client_ok]
  ultimately show ?thesis unfolding Let_def case_prod_unfold by blast
qed





section \<open>What a message becomes\<close>

lemma parse_levels_iff: "parse_levels sj xs = Inr ls \<longleftrightarrow> list_all2 (\<lambda>x l. parse_level sj x = Inr l) xs ls"
  by (induction xs arbitrary: ls) (auto simp: bindP_eq_Inr list_all2_Cons1)

lemma parse_changes_sound:
  "parse_changes sj xs = Inr (bids, asks) \<Longrightarrow>
     \<exists>cs. list_all2 (\<lambda>x c. parse_change sj x = Inr c) xs cs \<and>
       bids = map snd (filter (\<lambda>c. fst c = ''buy'') cs) \<and> asks = map snd (filter (\<lambda>c. fst c = ''sell'') cs)"
proof (induction xs arbitrary: bids asks)
  case (Cons x xs)
  then obtain side l bids' asks' where c: "parse_change sj x = Inr (side, l)" "parse_changes sj xs = Inr (bids', asks')"
      "(bids, asks) = (if side = ''buy'' then (l # bids', asks') else if side = ''sell'' then (bids', l # asks') else (bids', asks'))"
    by (auto simp: bindP_eq_Inr)
  obtain cs where cs: "list_all2 (\<lambda>x c. parse_change sj x = Inr c) xs cs"
      "bids' = map snd (filter (\<lambda>c. fst c = ''buy'') cs)" "asks' = map snd (filter (\<lambda>c. fst c = ''sell'') cs)"
    using Cons.IH [OF c(2)] by blast
  have "list_all2 (\<lambda>x c. parse_change sj x = Inr c) (x # xs) ((side, l) # cs)" using c(1) cs(1) by simp
  moreover have "bids = map snd (filter (\<lambda>c. fst c = ''buy'') ((side, l) # cs)) \<and>
      asks = map snd (filter (\<lambda>c. fst c = ''sell'') ((side, l) # cs))"
    using c(3) unfolding cs(2,3) by (cases "side = ''buy''"; cases "side = ''sell''") simp_all
  ultimately show ?case by blast
qed simp

text \<open>An element that is an array of at least two values, as the exchanges send their levels.\<close>

definition shaped :: "'j simdjson \<Rightarrow> 'j \<Rightarrow> bool" where
  "shaped sj x \<longleftrightarrow> (\<exists>a b r. sj_get_array sj x = Inr (a # b # r))"

text \<open>The \<open>i\<close>-th value of an element that is an array, as a string and as a number.\<close>

definition text_at :: "'j simdjson \<Rightarrow> 'j \<Rightarrow> nat \<Rightarrow> string option" where
  "text_at sj x i = (case sj_get_array sj x of Inl e \<Rightarrow> None | Inr xs \<Rightarrow>
     if i < length xs then (case sj_get_string sj (xs ! i) of Inl e \<Rightarrow> None | Inr t \<Rightarrow> Some t) else None)"

definition number_at :: "'j simdjson \<Rightarrow> 'j \<Rightarrow> nat \<Rightarrow> double option" where
  "number_at sj x i = (case text_at sj x i of None \<Rightarrow> None | Some t \<Rightarrow> (case stod t of Inl e \<Rightarrow> None | Inr v \<Rightarrow> Some v))"

definition readable :: "'j simdjson \<Rightarrow> 'j \<Rightarrow> bool" where
  "readable sj x \<longleftrightarrow> number_at sj x 0 \<noteq> None \<and> number_at sj x 1 \<noteq> None"

definition level_at :: "'j simdjson \<Rightarrow> 'j \<Rightarrow> PriceLevelSnapshot" where
  "level_at sj x = \<lparr>ps_price = the (number_at sj x 0), ps_quantity = the (number_at sj x 1), ps_order_count = 1\<rparr>"

lemma parse_level_shaped:
  assumes "shaped sj x"
  shows "if readable sj x then parse_level sj x = Inr (level_at sj x)
    else \<exists>e. parse_level sj x = Inl e \<and> (\<forall>u. e \<noteq> Undefined u)"
proof -
  obtain a b r where x: "sj_get_array sj x = Inr (a # b # r)" using assms by (auto simp: shaped_def)
  show ?thesis
    by (cases "sj_get_string sj a"; cases "sj_get_string sj b")
      (auto simp: x parse_level_def value_of_def level_of_def stod_value_def readable_def level_at_def number_at_def text_at_def
        split: sum.splits)
qed

lemma parse_levels_shaped:
  assumes "\<forall>x \<in> set xs. shaped sj x"
  shows "if \<forall>x \<in> set xs. readable sj x then parse_levels sj xs = Inr (map (level_at sj) xs)
    else \<exists>e. parse_levels sj xs = Inl e \<and> (\<forall>u. e \<noteq> Undefined u)"
  using assms
proof (induction xs)
  case (Cons x xs)
  show ?case
  proof (cases "readable sj x")
    case True
    then have "parse_level sj x = Inr (level_at sj x)" using parse_level_shaped [of sj x] Cons.prems by simp
    then show ?thesis using True Cons.IH Cons.prems by (auto split: if_splits)
  next
    case False
    then obtain e where "parse_level sj x = Inl e" "\<forall>u. e \<noteq> Undefined u"
      using parse_level_shaped [of sj x] Cons.prems by auto
    then show ?thesis using False by auto
  qed
qed simp

lemma or_nullopt_thrown: "(\<And>u. e \<noteq> Undefined u) \<Longrightarrow> or_nullopt (Inl e) = Inr None"
  by (cases e) (auto simp: or_nullopt_def)

lemma binance_depth_message:
  assumes "sj_parse sj payload = Inr json" and "sj_at_key sj json ''e'' = Inr je" and "sj_get_string sj je = Inr ''depthUpdate''"
    and "sj_at_key sj json ''s'' = Inr js" and "sj_get_string sj js = Inr symbol"
    and "sj_at_key sj json ''b'' = Inr jb" and "sj_get_array sj jb = Inr bids"
    and "sj_at_key sj json ''a'' = Inr ja" and "sj_get_array sj ja = Inr asks"
    and "\<forall>x \<in> set (bids @ asks). shaped sj x" and "ws_orderbook_callback c"
  shows "binance_on_message sj now payload c = Inr
    (if \<forall>x \<in> set (bids @ asks). readable sj x
     then [Orderbook_callback \<lparr>up_exchange = BINANCE, up_symbol = symbol, up_timestamp = now, up_update_id = 0,
             up_bids = map (level_at sj) bids, up_asks = map (level_at sj) asks\<rparr>]
     else [], c)"
proof -
  have b: "\<forall>x \<in> set bids. shaped sj x" and a: "\<forall>x \<in> set asks. shaped sj x" using assms(10) by auto
  have f: "parse_depth_update sj now json = or_nullopt (bindP (parse_levels sj bids) (\<lambda>bids. bindP (parse_levels sj asks) (\<lambda>asks.
      Inr (update_of BINANCE now symbol bids asks))))"
    by (simp add: parse_depth_update_def parse_side_def json_string_def json_array_def value_of_def assms(4-9))
  have "parse_depth_update sj now json = Inr (if \<forall>x \<in> set (bids @ asks). readable sj x
      then Some (update_of BINANCE now symbol (map (level_at sj) bids) (map (level_at sj) asks)) else None)"
    using parse_levels_shaped [OF b] parse_levels_shaped [OF a] unfolding f
    by (auto simp: or_nullopt_def split: if_splits perr.splits)
  then show ?thesis
    using assms(11)
    by (simp add: binance_on_message_def assms(1-3) value_of_def undefined_or_def orderbook_event_def or_error_def update_of_def)
qed

text \<open>
  C12. A depth update of Binance whose levels are arrays of at least two values becomes one update:
  if every price and quantity can be read, the callback gets all levels of both sides in the order of the message, with
  the symbol and the time of receipt; if a single one cannot, the whole message is dropped without any callback. The
  connector itself does not change.
\<close>

theorem binance_depth_update:
  assumes "sj_parse sj payload = Inr json" and "sj_at_key sj json ''e'' = Inr je" and "sj_get_string sj je = Inr ''depthUpdate''"
    and "sj_at_key sj json ''s'' = Inr js" and "sj_get_string sj js = Inr symbol"
    and "sj_at_key sj json ''b'' = Inr jb" and "sj_get_array sj jb = Inr bids"
    and "sj_at_key sj json ''a'' = Inr ja" and "sj_get_array sj ja = Inr asks"
    and "\<forall>x \<in> set (bids @ asks). shaped sj x" and "ws_orderbook_callback c"
  shows "binance_on_message sj now payload c = Inr
    (if \<forall>x \<in> set (bids @ asks). readable sj x
     then [Orderbook_callback \<lparr>up_exchange = BINANCE, up_symbol = symbol, up_timestamp = now, up_update_id = 0,
             up_bids = map (level_at sj) bids, up_asks = map (level_at sj) asks\<rparr>]
     else [], c)"
  by (rule binance_depth_message [OF assms])

lemma text_at_array: "text_at sj x i = Some t \<Longrightarrow> \<exists>xs. sj_get_array sj x = Inr xs \<and> i < length xs \<and> sj_get_string sj (xs ! i) = Inr t"
  by (auto simp: text_at_def split: sum.splits if_splits)

lemma parse_change_at:
  assumes "text_at sj x 0 = Some side" and "number_at sj x 1 = Some price" and "number_at sj x 2 = Some quantity"
  shows "parse_change sj x = Inr (side, \<lparr>ps_price = price, ps_quantity = quantity, ps_order_count = 1\<rparr>)"
proof -
  obtain p q where n: "text_at sj x 1 = Some p" "stod p = Inr price" "text_at sj x 2 = Some q" "stod q = Inr quantity"
    using assms(2,3) by (auto simp: number_at_def split: option.splits sum.splits)
  obtain xs where xs: "sj_get_array sj x = Inr xs" "2 < length xs" "sj_get_string sj (xs ! 2) = Inr q"
    using text_at_array [OF n(3)] by blast
  then obtain a b c r where "xs = a # b # c # r" by (cases xs; cases "tl xs"; cases "tl (tl xs)") auto
  then show ?thesis
    using text_at_array [OF assms(1)] text_at_array [OF n(1)] xs n
    by (simp add: parse_change_def value_of_def level_of_def stod_value_def)
qed

text \<open>
  An incremental update of Coinbase splits its changes by side: when all changes can be read,
  one update is reported whose bids are the \<open>buy\<close> changes and whose asks are the \<open>sell\<close> changes, each in the
  order of the message; a change of any other side is left out.
\<close>

theorem coinbase_l2update:
  assumes "sj_parse sj payload = Inr json" and "sj_at_key sj json ''type'' = Inr jt" and "sj_get_string sj jt = Inr ''l2update''"
    and "sj_at_key sj json ''product_id'' = Inr jp" and "sj_get_string sj jp = Inr product_id"
    and "sj_at_key sj json ''changes'' = Inr jc" and "sj_get_array sj jc = Inr xs"
    and "list_all2 (\<lambda>x (side, price, quantity). text_at sj x 0 = Some side \<and> number_at sj x 1 = Some price \<and>
      number_at sj x 2 = Some quantity) xs changes" and "ws_orderbook_callback c"
  shows "coinbase_on_message sj now payload c = Inr ([Orderbook_callback
    \<lparr>up_exchange = COINBASE, up_symbol = product_id, up_timestamp = now, up_update_id = 0,
     up_bids = [\<lparr>ps_price = price, ps_quantity = quantity, ps_order_count = 1\<rparr>. (side, price, quantity) \<leftarrow> changes, side = ''buy''],
     up_asks = [\<lparr>ps_price = price, ps_quantity = quantity, ps_order_count = 1\<rparr>. (side, price, quantity) \<leftarrow> changes, side = ''sell'']\<rparr>], c)"
    (is "_ = Inr ([Orderbook_callback \<lparr>up_exchange = _, up_symbol = _, up_timestamp = _, up_update_id = _, up_bids = ?bids changes, up_asks = ?asks changes\<rparr>], c)")
proof -
  have "parse_changes sj xs = Inr (?bids changes, ?asks changes)"
    using assms(8)
  proof (induction rule: list_all2_induct)
    case (Cons x xs ch chs)
    then show ?case by (cases ch) (auto dest: parse_change_at)
  qed simp
  then have "parse_l2update sj now json = Inr (Some (update_of COINBASE now product_id (?bids changes) (?asks changes)))"
    by (simp add: parse_l2update_def json_string_def json_array_def value_of_def or_nullopt_def assms(4-7))
  then show ?thesis
    using assms(9)
    by (simp add: coinbase_on_message_def assms(1-3) value_of_def undefined_or_def orderbook_event_def or_error_def update_of_def)
qed

text \<open>
  A message that is not JSON is dropped by all three connectors without a word: the result of
  the parser is asked for a field before its error is looked at, so the handler for parse errors does not run and the
  error callback is not called.
\<close>

theorem malformed_message_silent:
  assumes "sj_parse sj payload = Inl e"
  shows "binance_on_message sj now payload b = Inr ([], b) \<and> coinbase_on_message sj now payload c = Inr ([], c) \<and>
    kraken_on_message sj now payload k = Inr ([], k)"
  by (simp add: binance_on_message_def coinbase_on_message_def kraken_on_message_def or_error_def assms)

section \<open>Concrete messages\<close>

datatype json = JObject "(string \<times> json) list" | JArray "json list" | JString string | JInt int

definition tree_json :: "(string \<Rightarrow> string + json) \<Rightarrow> json simdjson" where
  "tree_json parse =
     \<lparr>sj_parse = parse,
      sj_at_key = (\<lambda>j k. case j of JObject fs \<Rightarrow> (case map_of fs k of Some x \<Rightarrow> Inr x | None \<Rightarrow> Inl ''no such field'') | _ \<Rightarrow> Inl ''type''),
      sj_get_string = (\<lambda>j. case j of JString s \<Rightarrow> Inr s | _ \<Rightarrow> Inl ''type''),
      sj_get_int64 = (\<lambda>j. case j of JInt i \<Rightarrow> Inr i | _ \<Rightarrow> Inl ''type''),
      sj_get_array = (\<lambda>j. case j of JArray xs \<Rightarrow> Inr xs | _ \<Rightarrow> Inl ''type''),
      sj_is_object = (\<lambda>j. case j of JObject fs \<Rightarrow> True | _ \<Rightarrow> False),
      sj_is_array = (\<lambda>j. case j of JArray xs \<Rightarrow> True | _ \<Rightarrow> False),
      sj_is_string = (\<lambda>j. case j of JString s \<Rightarrow> True | _ \<Rightarrow> False)\<rparr>"

lemma tree_json_simps [simp]:
  "sj_parse (tree_json p) = p"
  "sj_at_key (tree_json p) (JObject fs) k = (case map_of fs k of Some x \<Rightarrow> Inr x | None \<Rightarrow> Inl ''no such field'')"
  "sj_get_string (tree_json p) (JString s) = Inr s"
  "sj_get_array (tree_json p) (JArray xs) = Inr xs"
  by (simp_all add: tree_json_def)

definition depth_json :: json where
  "depth_json = JObject [(''e'', JString ''depthUpdate''), (''s'', JString ''BTCUSDT''),
     (''b'', JArray [JArray [JString ''25'', JString ''1'']]), (''a'', JArray [JArray [JString ''26'', JString ''3'']])]"

lemma stod_small: "stod ''25'' = Inr (Fin 25)" "stod ''26'' = Inr (Fin 26)" "stod ''1'' = Inr (Fin 1)" "stod ''3'' = Inr (Fin 3)"
  using stod_integer [of "''25''"] stod_integer [of "''26''"] stod_integer [of "''1''"] stod_integer [of "''3''"]
  by (simp_all add: is_digit_def digits_val_def digit_val_def)

text \<open>Witness of C12: a message with one level each.\<close>

theorem binance_depth_update_witness:
  "binance_on_message (tree_json (\<lambda>_. Inr depth_json)) 7 ''...'' (ws_set_orderbook_callback True (BinanceConnector_new False)) =
   Inr ([Orderbook_callback \<lparr>up_exchange = BINANCE, up_symbol = ''BTCUSDT'', up_timestamp = 7, up_update_id = 0,
           up_bids = [\<lparr>ps_price = Fin 25, ps_quantity = Fin 1, ps_order_count = 1\<rparr>],
           up_asks = [\<lparr>ps_price = Fin 26, ps_quantity = Fin 3, ps_order_count = 1\<rparr>]\<rparr>],
        ws_set_orderbook_callback True (BinanceConnector_new False))"
proof -
  let ?sj = "tree_json (\<lambda>_. Inr depth_json)" and ?c = "ws_set_orderbook_callback True (BinanceConnector_new False)"
  let ?b = "JArray [JString ''25'', JString ''1'']" and ?a = "JArray [JString ''26'', JString ''3'']"
  have p: "number_at ?sj ?b 0 = Some (Fin 25)" "number_at ?sj ?b 1 = Some (Fin 1)"
      "number_at ?sj ?a 0 = Some (Fin 26)" "number_at ?sj ?a 1 = Some (Fin 3)"
    by (simp_all add: number_at_def text_at_def stod_small)
  have "\<forall>x \<in> set ([?b] @ [?a]). shaped ?sj x" by (simp add: shaped_def)
  moreover have "ws_orderbook_callback ?c" by (simp add: ws_set_orderbook_callback_def)
  ultimately show ?thesis
    using binance_depth_update [of ?sj "''...''" depth_json "JString ''depthUpdate''" "JString ''BTCUSDT''" "''BTCUSDT''"
        "JArray [?b]" "[?b]" "JArray [?a]" "[?a]" ?c 7] p
    by (simp add: depth_json_def readable_def level_at_def)
qed

text \<open>Instance: an update without changes.\<close>

theorem coinbase_l2update_witness:
  "coinbase_on_message (tree_json (\<lambda>_. Inr (JObject [(''type'', JString ''l2update''), (''product_id'', JString ''BTC-USD''),
       (''changes'', JArray [])]))) 7 ''...'' (ws_set_orderbook_callback True (CoinbaseConnector_new False)) =
   Inr ([Orderbook_callback \<lparr>up_exchange = COINBASE, up_symbol = ''BTC-USD'', up_timestamp = 7, up_update_id = 0,
     up_bids = [], up_asks = []\<rparr>], ws_set_orderbook_callback True (CoinbaseConnector_new False))"
  using coinbase_l2update [where sj = "tree_json (\<lambda>_. Inr (JObject [(''type'', JString ''l2update''),
      (''product_id'', JString ''BTC-USD''), (''changes'', JArray [])]))" and changes = "[]" and xs = "[]"
      and c = "ws_set_orderbook_callback True (CoinbaseConnector_new False)" and payload = "''...''" and now = 7]
  by (simp add: ws_set_orderbook_callback_def)

text \<open>Instance: a parser that rejects everything.\<close>

theorem malformed_message_silent_witness:
  "binance_on_message (tree_json (\<lambda>_. Inl ''bad'')) 7 ''{'' (ws_set_error_callback True (BinanceConnector_new False)) =
   Inr ([], ws_set_error_callback True (BinanceConnector_new False))"
proof -
  have "sj_parse (tree_json (\<lambda>_. Inl ''bad'')) ''{'' = Inl ''bad''" by simp
  from malformed_message_silent [OF this, THEN conjunct1] show ?thesis .
qed

end
