(* ===== verification/Connection_Manager.thy ===== *)
theory Connection_Manager
  imports Exchange_Connectors
begin

text \<open>
  The class \<open>ConnectionManager\<close> of \<open>include/exchange/connection_manager.hpp\<close> and \<open>src/exchange/connection_manager.cpp\<close>: one connector
  per exchange, each with an I/O thread of its own.

  \<^item> A connector is one of the three classes; the \<open>v_\<close> functions are the virtual calls.
  \<^item> To destroy or replace the object of a joinable thread is \<open>Std_terminate\<close>. \<open>io_thread_ends\<close> is the end of a loop, whatever
    made the client leave it; \<open>join\<close> waits for it.
  \<^item> The mutex is held in every operation, so that they are atomic.
  \<^item> \<open>set_auto_reconnect\<close> with three arguments, which \<open>connection_manager.cpp\<close> calls and \<open>WebSocketConnector\<close> does not declare, is
    taken as the three setters the class has.
\<close>

section \<open>Virtual calls\<close>

datatype connector = Binance BinanceConnector | Coinbase CoinbaseConnector | Kraken KrakenConnector

fun v_connect :: "client_result \<Rightarrow> connector \<Rightarrow> bool \<times> ws_event list \<times> connector" where
  "v_connect r (Binance c) = map_prod id (map_prod id Binance) (binance_connect r c)"
| "v_connect r (Coinbase c) = map_prod id (map_prod id Coinbase) (coinbase_connect r c)"
| "v_connect r (Kraken c) = map_prod id (map_prod id Kraken) (kraken_connect r c)"

fun v_disconnect :: "connector \<Rightarrow> ws_event list \<times> connector" where
  "v_disconnect (Binance c) = map_prod id Binance (binance_disconnect c)"
| "v_disconnect (Coinbase c) = map_prod id Coinbase (coinbase_disconnect c)"
| "v_disconnect (Kraken c) = map_prod id Kraken (kraken_disconnect c)"

fun v_stop :: "connector \<Rightarrow> ws_event list \<times> connector" where
  "v_stop (Binance c) = map_prod id Binance (binance_stop c)"
| "v_stop (Coinbase c) = map_prod id Coinbase (coinbase_stop c)"
| "v_stop (Kraken c) = map_prod id Kraken (kraken_stop c)"

fun v_destroy :: "connector \<Rightarrow> ws_event list" where
  "v_destroy (Binance c) = binance_destroy c"
| "v_destroy (Coinbase c) = coinbase_destroy c"
| "v_destroy (Kraken c) = kraken_destroy c"

fun v_run_enter :: "connector \<Rightarrow> connector" where
  "v_run_enter (Binance c) = Binance (binance_run_enter c)"
| "v_run_enter (Coinbase c) = Coinbase (coinbase_run_enter c)"
| "v_run_enter (Kraken c) = Kraken (kraken_run_enter c)"

fun v_subscribe :: "string \<Rightarrow> client_result \<Rightarrow> connector \<Rightarrow> bool \<times> ws_event list \<times> connector" where
  "v_subscribe s r (Binance c) = map_prod id (map_prod id Binance) (binance_subscribe s r c)"
| "v_subscribe s r (Coinbase c) = map_prod id (map_prod id Coinbase) (coinbase_subscribe s r c)"
| "v_subscribe s r (Kraken c) = map_prod id (map_prod id Kraken) (kraken_subscribe s r c)"

fun v_unsubscribe :: "string \<Rightarrow> client_result \<Rightarrow> connector \<Rightarrow> bool \<times> ws_event list \<times> connector" where
  "v_unsubscribe s r (Binance c) = map_prod id (map_prod id Binance) (binance_unsubscribe s r c)"
| "v_unsubscribe s r (Coinbase c) = map_prod id (map_prod id Coinbase) (coinbase_unsubscribe s r c)"
| "v_unsubscribe s r (Kraken c) = map_prod id (map_prod id Kraken) (kraken_unsubscribe s r c)"

fun v_state :: "connector \<Rightarrow> ConnectionState" where
  "v_state (Binance c) = ws_get_state c"
| "v_state (Coinbase c) = ws_get_state c"
| "v_state (Kraken c) = ws_get_state c"

definition v_is_connected :: "connector \<Rightarrow> bool" where
  "v_is_connected c \<longleftrightarrow> v_state c = CONNECTED"

fun v_subscriptions :: "connector \<Rightarrow> string list" where
  "v_subscriptions (Binance c) = ws_subscriptions c"
| "v_subscriptions (Coinbase c) = ws_subscriptions c"
| "v_subscriptions (Kraken c) = ws_subscriptions c"

definition set_auto :: "bool \<Rightarrow> u32 \<Rightarrow> u32 \<Rightarrow> 'z WebSocketConnector_scheme \<Rightarrow> 'z WebSocketConnector_scheme" where
  "set_auto enable max_attempts delay_ms c =
     ws_set_reconnect_delay delay_ms (ws_set_max_reconnect_attempts max_attempts (ws_set_auto_reconnect enable c))"

fun v_set_auto_reconnect :: "bool \<Rightarrow> u32 \<Rightarrow> u32 \<Rightarrow> connector \<Rightarrow> connector" where
  "v_set_auto_reconnect e m d (Binance c) = Binance (set_auto e m d c)"
| "v_set_auto_reconnect e m d (Coinbase c) = Coinbase (set_auto e m d c)"
| "v_set_auto_reconnect e m d (Kraken c) = Kraken (set_auto e m d c)"

definition install_callbacks :: "'z WebSocketConnector_scheme \<Rightarrow> 'z WebSocketConnector_scheme" where
  "install_callbacks c = ws_set_error_callback True (ws_set_connection_callback True (ws_set_orderbook_callback True c))"

fun v_install_callbacks :: "connector \<Rightarrow> connector" where
  "v_install_callbacks (Binance c) = Binance (install_callbacks c)"
| "v_install_callbacks (Coinbase c) = Coinbase (install_callbacks c)"
| "v_install_callbacks (Kraken c) = Kraken (install_callbacks c)"

fun create_connector :: "Exchange \<Rightarrow> u32 \<Rightarrow> bool \<Rightarrow> connector option" where
  "create_connector BINANCE depth use_testnet = Some (Binance (BinanceConnector_new use_testnet))"
| "create_connector COINBASE depth use_testnet = Some (Coinbase (CoinbaseConnector_new use_testnet))"
| "create_connector KRAKEN depth use_testnet = Some (Kraken (KrakenConnector_new depth))"
| "create_connector UNKNOWN depth use_testnet = None"

section \<open>The manager\<close>

record ConnectorInfo =
  ci_connector :: connector
  ci_io_thread :: "io_thread option"
  ci_running :: bool

record ConnectionManager =
  cm_connectors :: "(Exchange, ConnectorInfo) omap"
  cm_orderbook_callback :: bool
  cm_connection_callback :: bool
  cm_error_callback :: bool
  cm_auto_reconnect :: bool
  cm_max_reconnect_attempts :: u32
  cm_reconnect_delay_ms :: u32

definition ConnectionManager_new :: ConnectionManager where
  "ConnectionManager_new = \<lparr>cm_connectors = [], cm_orderbook_callback = False, cm_connection_callback = False,
     cm_error_callback = False, cm_auto_reconnect = True, cm_max_reconnect_attempts = 0, cm_reconnect_delay_ms = 5000\<rparr>"

definition add_exchange :: "Exchange \<Rightarrow> u32 \<Rightarrow> bool \<Rightarrow> ConnectionManager \<Rightarrow> bool \<times> ConnectionManager" where
  "add_exchange exchange depth use_testnet m =
     (if map_of (cm_connectors m) exchange \<noteq> None then (False, m)
      else case create_connector exchange depth use_testnet of
             None \<Rightarrow> (False, m)
           | Some c \<Rightarrow>
               let c1 = v_set_auto_reconnect (cm_auto_reconnect m) (cm_max_reconnect_attempts m) (cm_reconnect_delay_ms m)
                          (v_install_callbacks c);
                   info = \<lparr>ci_connector = c1, ci_io_thread = None, ci_running = False\<rparr>
               in (True, m\<lparr>cm_connectors := omap_put exchange info (cm_connectors m)\<rparr>))"

text \<open>Stopping a connector whose flag is set: leave the loop, wait for the thread, close the connection.\<close>

definition stop_info :: "ConnectorInfo \<Rightarrow> ws_event list \<times> ConnectorInfo" where
  "stop_info i =
     (let (ev1, c1) = v_stop (ci_connector i);
          t = (if joinable (ci_io_thread i) then Some Joined else ci_io_thread i);
          (ev2, c2) = v_disconnect c1
      in (ev1 @ ev2, i\<lparr>ci_connector := c2, ci_io_thread := t, ci_running := False\<rparr>))"

definition destroy_info :: "ConnectorInfo \<Rightarrow> ws_event list result" where
  "destroy_info i = (if joinable (ci_io_thread i) then Inl Std_terminate else Inr (v_destroy (ci_connector i)))"

definition remove_exchange :: "Exchange \<Rightarrow> ConnectionManager \<Rightarrow> (bool \<times> ws_event list \<times> ConnectionManager) result" where
  "remove_exchange exchange m = (case map_of (cm_connectors m) exchange of
       None \<Rightarrow> Inr (False, [], m)
     | Some i \<Rightarrow>
         let (ev1, i1) = (if ci_running i then stop_info i else ([], i))
         in bindE (destroy_info i1) (\<lambda>ev2.
              Inr (True, ev1 @ ev2, m\<lparr>cm_connectors := omap_erase exchange (cm_connectors m)\<rparr>)))"

text \<open>Starting a connector whose flag is not set. The new thread takes the place of the old one.\<close>

definition start_info :: "client_result \<Rightarrow> ConnectorInfo \<Rightarrow> (bool \<times> ws_event list \<times> ConnectorInfo) result" where
  "start_info r i =
     (let (ok, ev, c) = v_connect r (ci_connector i); i1 = i\<lparr>ci_connector := c\<rparr>
      in if \<not> ok then Inr (False, ev, i1)
         else if joinable (ci_io_thread i) then Inl Std_terminate
         else Inr (True, ev, i1\<lparr>ci_connector := v_run_enter c, ci_running := True, ci_io_thread := Some Looping\<rparr>))"

fun start_infos :: "(Exchange \<Rightarrow> client_result) \<Rightarrow> (Exchange, ConnectorInfo) omap \<Rightarrow>
    (bool \<times> ws_event list \<times> (Exchange, ConnectorInfo) omap) result" where
  "start_infos answer [] = Inr (True, [], [])"
| "start_infos answer ((ex, i) # is) =
     bindE (if ci_running i then Inr (True, [], i) else start_info (answer ex) i) (\<lambda>(ok, ev, i1).
     bindE (start_infos answer is) (\<lambda>(oks, evs, is1). Inr (ok \<and> oks, ev @ evs, (ex, i1) # is1)))"

definition start_all :: "(Exchange \<Rightarrow> client_result) \<Rightarrow> ConnectionManager \<Rightarrow> (bool \<times> ws_event list \<times> ConnectionManager) result" where
  "start_all answer m = bindE (start_infos answer (cm_connectors m)) (\<lambda>(ok, ev, is). Inr (ok, ev, m\<lparr>cm_connectors := is\<rparr>))"

definition cm_start :: "client_result \<Rightarrow> Exchange \<Rightarrow> ConnectionManager \<Rightarrow> (bool \<times> ws_event list \<times> ConnectionManager) result" where
  "cm_start r exchange m = (case map_of (cm_connectors m) exchange of
       None \<Rightarrow> Inr (False, [], m)
     | Some i \<Rightarrow> if ci_running i then Inr (True, [], m)
         else bindE (start_info r i) (\<lambda>(ok, ev, i1). Inr (ok, ev, m\<lparr>cm_connectors := omap_put exchange i1 (cm_connectors m)\<rparr>)))"

definition stop_all :: "ConnectionManager \<Rightarrow> ws_event list \<times> ConnectionManager" where
  "stop_all m =
     (let rs = map (\<lambda>(ex, i). (ex, if ci_running i then stop_info i else ([], i))) (cm_connectors m)
      in (concat (map (fst \<circ> snd) rs), m\<lparr>cm_connectors := map (\<lambda>(ex, r). (ex, snd r)) rs\<rparr>))"

definition cm_stop :: "Exchange \<Rightarrow> ConnectionManager \<Rightarrow> ws_event list \<times> ConnectionManager" where
  "cm_stop exchange m = (case map_of (cm_connectors m) exchange of
       None \<Rightarrow> ([], m)
     | Some i \<Rightarrow> if \<not> ci_running i then ([], m)
         else let (ev, i1) = stop_info i in (ev, m\<lparr>cm_connectors := omap_put exchange i1 (cm_connectors m)\<rparr>))"

text \<open>The destructor: \<open>stop_all\<close>, then the map with its entries.\<close>

fun destroy_infos :: "(Exchange, ConnectorInfo) omap \<Rightarrow> ws_event list result" where
  "destroy_infos [] = Inr []"
| "destroy_infos ((ex, i) # is) = bindE (destroy_info i) (\<lambda>ev. bindE (destroy_infos is) (\<lambda>evs. Inr (ev @ evs)))"

definition cm_destroy :: "ConnectionManager \<Rightarrow> ws_event list result" where
  "cm_destroy m = (let (ev, m1) = stop_all m in bindE (destroy_infos (cm_connectors m1)) (\<lambda>evs. Inr (ev @ evs)))"

text \<open>The end of an I/O thread's loop.\<close>

definition io_thread_ends :: "Exchange \<Rightarrow> ConnectionManager \<Rightarrow> ConnectionManager" where
  "io_thread_ends exchange m = (case map_of (cm_connectors m) exchange of
       Some i \<Rightarrow> if ci_io_thread i = Some Looping
         then m\<lparr>cm_connectors := omap_put exchange (i\<lparr>ci_running := False, ci_io_thread := Some Left_loop\<rparr>) (cm_connectors m)\<rparr>
         else m
     | None \<Rightarrow> m)"

section \<open>Subscriptions and queries\<close>

fun subscribe_infos :: "(connector \<Rightarrow> bool \<times> ws_event list \<times> connector) \<Rightarrow> (Exchange, ConnectorInfo) omap \<Rightarrow>
    nat \<times> ws_event list \<times> (Exchange, ConnectorInfo) omap" where
  "subscribe_infos f [] = (0, [], [])"
| "subscribe_infos f ((ex, i) # is) =
     (let (n, evs, is1) = subscribe_infos f is
      in if \<not> v_is_connected (ci_connector i) then (n, evs, (ex, i) # is1)
         else let (ok, ev, c) = f (ci_connector i) in (if ok then n + 1 else n, ev @ evs, (ex, i\<lparr>ci_connector := c\<rparr>) # is1))"

definition subscribe_all :: "string \<Rightarrow> client_result \<Rightarrow> ConnectionManager \<Rightarrow> nat \<times> ws_event list \<times> ConnectionManager" where
  "subscribe_all symbol r m =
     (let (n, ev, is) = subscribe_infos (v_subscribe symbol r) (cm_connectors m) in (n, ev, m\<lparr>cm_connectors := is\<rparr>))"

definition unsubscribe_all :: "string \<Rightarrow> client_result \<Rightarrow> ConnectionManager \<Rightarrow> nat \<times> ws_event list \<times> ConnectionManager" where
  "unsubscribe_all symbol r m =
     (let (n, ev, is) = subscribe_infos (v_unsubscribe symbol r) (cm_connectors m) in (n, ev, m\<lparr>cm_connectors := is\<rparr>))"

definition subscribe_one :: "(connector \<Rightarrow> bool \<times> ws_event list \<times> connector) \<Rightarrow> Exchange \<Rightarrow> ConnectionManager \<Rightarrow>
    bool \<times> ws_event list \<times> ConnectionManager" where
  "subscribe_one f exchange m = (case map_of (cm_connectors m) exchange of
       None \<Rightarrow> (False, [], m)
     | Some i \<Rightarrow> if \<not> v_is_connected (ci_connector i) then (False, [], m)
         else let (ok, ev, c) = f (ci_connector i)
              in (ok, ev, m\<lparr>cm_connectors := omap_put exchange (i\<lparr>ci_connector := c\<rparr>) (cm_connectors m)\<rparr>))"

definition cm_subscribe :: "Exchange \<Rightarrow> string \<Rightarrow> client_result \<Rightarrow> ConnectionManager \<Rightarrow> bool \<times> ws_event list \<times> ConnectionManager" where
  "cm_subscribe exchange symbol r m = subscribe_one (v_subscribe symbol r) exchange m"

definition cm_unsubscribe :: "Exchange \<Rightarrow> string \<Rightarrow> client_result \<Rightarrow> ConnectionManager \<Rightarrow> bool \<times> ws_event list \<times> ConnectionManager" where
  "cm_unsubscribe exchange symbol r m = subscribe_one (v_unsubscribe symbol r) exchange m"

definition cm_set_orderbook_callback :: "bool \<Rightarrow> ConnectionManager \<Rightarrow> ConnectionManager" where
  "cm_set_orderbook_callback present m = m\<lparr>cm_orderbook_callback := present\<rparr>"

definition cm_set_connection_callback :: "bool \<Rightarrow> ConnectionManager \<Rightarrow> ConnectionManager" where
  "cm_set_connection_callback present m = m\<lparr>cm_connection_callback := present\<rparr>"

definition cm_set_error_callback :: "bool \<Rightarrow> ConnectionManager \<Rightarrow> ConnectionManager" where
  "cm_set_error_callback present m = m\<lparr>cm_error_callback := present\<rparr>"

definition cm_set_auto_reconnect :: "bool \<Rightarrow> u32 \<Rightarrow> u32 \<Rightarrow> ConnectionManager \<Rightarrow> ConnectionManager" where
  "cm_set_auto_reconnect enable max_attempts delay_ms m =
     m\<lparr>cm_auto_reconnect := enable, cm_max_reconnect_attempts := max_attempts, cm_reconnect_delay_ms := delay_ms,
       cm_connectors := map (\<lambda>(ex, i). (ex, i\<lparr>ci_connector := v_set_auto_reconnect enable max_attempts delay_ms (ci_connector i)\<rparr>))
         (cm_connectors m)\<rparr>"

definition cm_is_connected :: "Exchange \<Rightarrow> ConnectionManager \<Rightarrow> bool" where
  "cm_is_connected exchange m = (case map_of (cm_connectors m) exchange of None \<Rightarrow> False | Some i \<Rightarrow> v_is_connected (ci_connector i))"

definition cm_get_state :: "Exchange \<Rightarrow> ConnectionManager \<Rightarrow> ConnectionState" where
  "cm_get_state exchange m = (case map_of (cm_connectors m) exchange of None \<Rightarrow> DISCONNECTED | Some i \<Rightarrow> v_state (ci_connector i))"

definition get_active_connections :: "ConnectionManager \<Rightarrow> nat" where
  "get_active_connections m = length (filter (\<lambda>(ex, i). v_is_connected (ci_connector i)) (cm_connectors m))"

definition get_exchanges :: "ConnectionManager \<Rightarrow> Exchange list" where
  "get_exchanges m = map fst (cm_connectors m)"

text \<open>What the callbacks installed by \<open>add_exchange\<close> pass on.\<close>

datatype manager_call =
    Book_call NormalizedOrderBookUpdate
  | Connection_call Exchange bool string
  | Error_call Exchange string

definition forward :: "Exchange \<Rightarrow> ConnectionManager \<Rightarrow> ws_event \<Rightarrow> manager_call list" where
  "forward exchange m e = (case e of
       Orderbook_callback u \<Rightarrow> if cm_orderbook_callback m then [Book_call u] else []
     | Connection_callback up msg \<Rightarrow> if cm_connection_callback m then [Connection_call exchange up msg] else []
     | Error_callback msg \<Rightarrow> if cm_error_callback m then [Error_call exchange msg] else []
     | _ \<Rightarrow> [])"

section \<open>Runs of the manager\<close>

fun v_do :: "ws_op \<Rightarrow> connector \<Rightarrow> ws_event list \<times> connector" where
  "v_do op (Binance c) = map_prod id Binance (ws_do binance_send_subscription op c)"
| "v_do op (Coinbase c) = map_prod id Coinbase (ws_do coinbase_send_subscription op c)"
| "v_do op (Kraken c) = map_prod id Kraken (ws_do kraken_send_subscription op c)"

datatype cm_op =
    Add_exchange Exchange u32 bool
  | Remove_exchange Exchange
  | Start_all "Exchange \<Rightarrow> client_result"
  | Start Exchange client_result
  | Stop_all
  | Stop_exchange Exchange
  | Subscribe_all string client_result
  | Unsubscribe_all string client_result
  | Set_auto bool u32 u32
  | Handler Exchange ws_op
  | Loop_ends Exchange

text \<open>A handler of the client runs on the I/O thread of its connector.\<close>

definition cm_handler :: "Exchange \<Rightarrow> ws_op \<Rightarrow> ConnectionManager \<Rightarrow> ConnectionManager" where
  "cm_handler exchange op m = (case map_of (cm_connectors m) exchange of
       Some i \<Rightarrow> if ci_io_thread i = Some Looping
         then m\<lparr>cm_connectors := omap_put exchange (i\<lparr>ci_connector := snd (v_do op (ci_connector i))\<rparr>) (cm_connectors m)\<rparr> else m
     | None \<Rightarrow> m)"

fun cm_do :: "cm_op \<Rightarrow> ConnectionManager \<Rightarrow> ConnectionManager result" where
  "cm_do (Add_exchange ex depth testnet) m = Inr (snd (add_exchange ex depth testnet m))"
| "cm_do (Remove_exchange ex) m = bindE (remove_exchange ex m) (\<lambda>(ok, ev, m1). Inr m1)"
| "cm_do (Start_all answer) m = bindE (start_all answer m) (\<lambda>(ok, ev, m1). Inr m1)"
| "cm_do (Start ex r) m = bindE (cm_start r ex m) (\<lambda>(ok, ev, m1). Inr m1)"
| "cm_do Stop_all m = Inr (snd (stop_all m))"
| "cm_do (Stop_exchange ex) m = Inr (snd (cm_stop ex m))"
| "cm_do (Subscribe_all s r) m = Inr (snd (snd (subscribe_all s r m)))"
| "cm_do (Unsubscribe_all s r) m = Inr (snd (snd (unsubscribe_all s r m)))"
| "cm_do (Set_auto e n d) m = Inr (cm_set_auto_reconnect e n d m)"
| "cm_do (Handler ex op) m = Inr (cm_handler ex op m)"
| "cm_do (Loop_ends ex) m = Inr (io_thread_ends ex m)"

inductive cm_reachable :: "ConnectionManager \<Rightarrow> bool" where
  cm_new: "cm_reachable ConnectionManager_new"
| cm_step: "cm_reachable m \<Longrightarrow> cm_do op m = Inr m' \<Longrightarrow> cm_reachable m'"

definition info_inv :: "ConnectorInfo \<Rightarrow> bool" where
  "info_inv i \<longleftrightarrow> (ci_running i \<longleftrightarrow> ci_io_thread i = Some Looping)"

definition cm_inv :: "ConnectionManager \<Rightarrow> bool" where
  "cm_inv m \<longleftrightarrow> omap_wf (cm_connectors m) \<and> (\<forall>(ex, i) \<in> set (cm_connectors m). info_inv i)"

lemma stop_info_inv: "info_inv (snd (stop_info i)) \<and> \<not> ci_running (snd (stop_info i))"
  by (auto simp: stop_info_def info_inv_def joinable_def case_prod_unfold Let_def)

lemma start_info_inv: "info_inv i \<Longrightarrow> \<not> ci_running i \<Longrightarrow> start_info r i = Inr (ok, ev, i') \<Longrightarrow> info_inv i'"
  by (auto simp: start_info_def info_inv_def case_prod_unfold Let_def split: if_splits)

lemma start_infos_inv:
  "\<forall>(ex, i) \<in> set is. info_inv i \<Longrightarrow> start_infos answer is = Inr (ok, ev, is') \<Longrightarrow>
    map fst is' = map fst is \<and> (\<forall>(ex, i) \<in> set is'. info_inv i)"
proof (induction "is" arbitrary: ok ev is')
  case (Cons x xs)
  obtain ex i where x: "x = (ex, i)" by fastforce
  obtain y1 y2 where s: "(if ci_running i then Inr (True, [], i) else start_info (answer ex) i) = Inr y1"
      "start_infos answer xs = Inr y2" "is' = (ex, snd (snd y1)) # snd (snd y2)"
    using Cons.prems(2) unfolding x by (fastforce simp: bindE_eq_Inr)
  obtain ok1 ev1 i1 where y1: "y1 = (ok1, ev1, i1)" by (metis prod_cases3)
  obtain oks evs is1 where y2: "y2 = (oks, evs, is1)" by (metis prod_cases3)
  have "info_inv i" using Cons.prems(1) x by simp
  then have "info_inv i1" using s(1) start_info_inv by (auto simp: y1 split: if_splits)
  then show ?case using Cons.IH [OF _ s(2) [unfolded y2]] Cons.prems(1) by (simp add: s(3) x y1 y2)
qed simp

lemma subscribe_infos_inv:
  "subscribe_infos f is = (n, ev, is') \<Longrightarrow> map fst is' = map fst is \<and>
    list_all2 (\<lambda>(ex, i) (ex', i'). ex' = ex \<and> i' = (if v_is_connected (ci_connector i)
      then i\<lparr>ci_connector := snd (snd (f (ci_connector i)))\<rparr> else i)) is is'"
proof (induction "is" arbitrary: n ev is')
  case (Cons x xs)
  obtain n1 ev1 is1 where s: "subscribe_infos f xs = (n1, ev1, is1)" by (metis prod_cases3)
  from Cons.IH [OF this] Cons.prems show ?case by (cases x) (auto simp: s case_prod_unfold Let_def split: if_splits)
qed simp

lemma list_all2_info:
  "list_all2 (\<lambda>(ex, i) (ex', i'). ex' = ex \<and> i' = (if P i then i\<lparr>ci_connector := g i\<rparr> else i)) is is' \<Longrightarrow>
    \<forall>(ex, i) \<in> set is. info_inv i \<Longrightarrow> \<forall>(ex, i) \<in> set is'. info_inv i"
  by (induction rule: list_all2_induct) (auto simp: info_inv_def)

lemma set_omap_put: "set (omap_put k v xs) \<subseteq> insert (k, v) (set xs)"
  by (induction k v xs rule: omap_put.induct) auto

lemma cm_inv_put: "cm_inv m \<Longrightarrow> info_inv i \<Longrightarrow> cm_inv (m\<lparr>cm_connectors := omap_put ex i (cm_connectors m)\<rparr>)"
  using set_omap_put [of ex i "cm_connectors m"] by (auto simp: cm_inv_def)

lemma cm_inv_at: "cm_inv m \<Longrightarrow> map_of (cm_connectors m) ex = Some i \<Longrightarrow> info_inv i"
  by (auto simp: cm_inv_def dest: map_of_SomeD)

lemma cm_inv_same:
  "cm_inv m \<Longrightarrow> map fst is = map fst (cm_connectors m) \<Longrightarrow> \<forall>(ex, i) \<in> set is. info_inv i \<Longrightarrow> cm_inv (m\<lparr>cm_connectors := is\<rparr>)"
  by (simp add: cm_inv_def)

lemma stop_all_infos:
  "cm_connectors (snd (stop_all m)) = map (\<lambda>(ex, i). (ex, if ci_running i then snd (stop_info i) else i)) (cm_connectors m)"
  by (auto simp: stop_all_def Let_def comp_def case_prod_unfold)

lemma subscribe_all_inv:
  assumes "cm_inv m" and "subscribe_infos f (cm_connectors m) = (n, ev, is)"
  shows "cm_inv (m\<lparr>cm_connectors := is\<rparr>)"
proof (rule cm_inv_same [OF assms(1)])
  note s = subscribe_infos_inv [OF assms(2)]
  show "map fst is = map fst (cm_connectors m)" using s by simp
  have "\<forall>(ex, i) \<in> set (cm_connectors m). info_inv i" using assms(1) by (simp add: cm_inv_def)
  with conjunct2 [OF s] show "\<forall>(ex, i) \<in> set is. info_inv i" by (rule list_all2_info)
qed

lemma cm_do_inv:
  assumes "cm_inv m" and "cm_do op m = Inr m'"
  shows "cm_inv m'"
proof (cases op)
  case (Add_exchange ex depth testnet)
  then show ?thesis
    using assms by (auto simp: add_exchange_def info_inv_def intro!: cm_inv_put split: option.splits)
next
  case (Remove_exchange ex)
  have "cm_inv (m\<lparr>cm_connectors := omap_erase ex (cm_connectors m)\<rparr>)"
    using assms(1) by (auto simp: cm_inv_def omap_erase_def sorted_wrt_map intro: sorted_wrt_filter)
  then show ?thesis
    using assms Remove_exchange by (auto simp: remove_exchange_def bindE_eq_Inr case_prod_unfold Let_def split: option.splits)
next
  case (Start_all answer)
  then obtain ok ev "is" where s: "start_infos answer (cm_connectors m) = Inr (ok, ev, is)" "m' = m\<lparr>cm_connectors := is\<rparr>"
    using assms(2) by (auto simp: start_all_def bindE_eq_Inr)
  then show ?thesis using start_infos_inv [OF _ s(1)] assms(1) by (auto simp: cm_inv_def)
next
  case (Start ex r)
  then show ?thesis
    using assms by (auto simp: cm_start_def bindE_eq_Inr intro!: cm_inv_put dest: start_info_inv [OF cm_inv_at]
        split: option.splits if_splits)
next
  case Stop_all
  have "map fst (cm_connectors (snd (stop_all m))) = map fst (cm_connectors m)"
    by (auto simp: stop_all_infos comp_def case_prod_unfold)
  moreover have "\<forall>(ex, i) \<in> set (cm_connectors (snd (stop_all m))). info_inv i"
    using assms(1) stop_info_inv by (auto simp: stop_all_infos cm_inv_def)
  ultimately show ?thesis
    using assms Stop_all by (auto simp: cm_inv_def)
next
  case (Stop_exchange ex)
  then show ?thesis
    using assms stop_info_inv by (auto simp: cm_stop_def case_prod_unfold Let_def intro!: cm_inv_put split: option.splits if_splits)
next
  case (Subscribe_all s r)
  obtain n ev "is" where "subscribe_infos (v_subscribe s r) (cm_connectors m) = (n, ev, is)" by (metis prod_cases3)
  then show ?thesis using subscribe_all_inv [OF assms(1)] assms(2) Subscribe_all by (auto simp: subscribe_all_def)
next
  case (Unsubscribe_all s r)
  obtain n ev "is" where "subscribe_infos (v_unsubscribe s r) (cm_connectors m) = (n, ev, is)" by (metis prod_cases3)
  then show ?thesis using subscribe_all_inv [OF assms(1)] assms(2) Unsubscribe_all by (auto simp: unsubscribe_all_def)
next
  case (Set_auto e n d)
  then show ?thesis
    using assms by (fastforce simp: cm_set_auto_reconnect_def cm_inv_def info_inv_def comp_def case_prod_unfold)
next
  case (Handler ex op)
  then show ?thesis
    using assms cm_inv_at by (auto simp: cm_handler_def info_inv_def intro!: cm_inv_put split: option.splits if_splits)
next
  case (Loop_ends ex)
  then show ?thesis
    using assms by (auto simp: io_thread_ends_def info_inv_def intro!: cm_inv_put split: option.splits if_splits)
qed

lemma new_manager_inv: "cm_inv ConnectionManager_new"
  by (simp add: cm_inv_def ConnectionManager_new_def)

lemma cm_reachable_inv: "cm_reachable m \<Longrightarrow> cm_inv m"
  by (induction rule: cm_reachable.induct) (auto simp: new_manager_inv dest: cm_do_inv)

section \<open>What the manager does\<close>

lemma v_disconnect_state: "v_state (snd (v_disconnect c)) = DISCONNECTED"
  by (cases c) (auto simp: binance_disconnect_def coinbase_disconnect_def kraken_disconnect_def ws_disconnect_def ws_get_state_def)

lemma stop_info_stopped:
  "joinable (ci_io_thread i) \<Longrightarrow> ci_io_thread (snd (stop_info i)) = Some Joined"
  "v_state (ci_connector (snd (stop_info i))) = DISCONNECTED"
  using v_disconnect_state by (simp_all add: stop_info_def case_prod_unfold Let_def)

text \<open>
  C19. In every reachable manager the running flag of an exchange says exactly whether its I/O thread is in
  its loop. After \<open>stop_all\<close> no thread is in its loop and no flag is set, and every connector that was running is
  disconnected and its thread joined; the other ones are as before.
\<close>

theorem stop_all_stops:
  assumes "cm_reachable m"
  shows "\<forall>(ex, i) \<in> set (cm_connectors m). (ci_running i \<longleftrightarrow> ci_io_thread i = Some Looping) \<and>
    (\<exists>i'. map_of (cm_connectors (snd (stop_all m))) ex = Some i' \<and> \<not> ci_running i' \<and> ci_io_thread i' \<noteq> Some Looping \<and>
      (if ci_running i then v_state (ci_connector i') = DISCONNECTED \<and> ci_io_thread i' = Some Joined else i' = i))"
proof safe
  fix ex i assume mem: "(ex, i) \<in> set (cm_connectors m)"
  have inv: "cm_inv m" using assms by (rule cm_reachable_inv)
  then have ii: "info_inv i" and wf: "omap_wf (cm_connectors m)" using mem by (auto simp: cm_inv_def)
  then show "ci_running i \<Longrightarrow> ci_io_thread i = Some Looping" "ci_io_thread i = Some Looping \<Longrightarrow> ci_running i"
    by (simp_all add: info_inv_def)
  let ?i = "if ci_running i then snd (stop_info i) else i"
  have "map fst (cm_connectors (snd (stop_all m))) = map fst (cm_connectors m)"
    by (auto simp: stop_all_infos comp_def case_prod_unfold)
  moreover have "(ex, ?i) \<in> set (cm_connectors (snd (stop_all m)))" using mem by (force simp: stop_all_infos)
  ultimately have "map_of (cm_connectors (snd (stop_all m))) ex = Some ?i" using wf by (simp add: map_of_omap_eq)
  moreover have "joinable (ci_io_thread i)" if "ci_running i" using that ii by (simp add: info_inv_def joinable_def)
  ultimately show "\<exists>i'. map_of (cm_connectors (snd (stop_all m))) ex = Some i' \<and> \<not> ci_running i' \<and> ci_io_thread i' \<noteq> Some Looping \<and>
      (if ci_running i then v_state (ci_connector i') = DISCONNECTED \<and> ci_io_thread i' = Some Joined else i' = i)"
    using ii stop_info_inv [of i] stop_info_stopped [of i] by (intro exI [of _ ?i]) (auto simp: info_inv_def)
qed

lemma destroy_infos_result:
  "destroy_infos is = (if \<exists>(ex, i) \<in> set is. joinable (ci_io_thread i) then Inl Std_terminate
     else Inr (concat (map (\<lambda>(ex, i). v_destroy (ci_connector i)) is)))"
  by (induction "is") (auto simp: destroy_info_def)

text \<open>
  When an I/O loop has ended by itself (the connection was lost), its thread is never
  joined: destroying the manager ends the program with \<open>std::terminate\<close>, in fact exactly when there is such a thread;
  and so do removing that exchange and, when its connector is disconnected, starting it again.
\<close>

theorem left_loop_terminates:
  assumes "cm_reachable m" and "map_of (cm_connectors m) ex = Some i" and "ci_io_thread i = Some Left_loop"
  shows "(\<forall>m'. cm_reachable m' \<longrightarrow> (cm_destroy m' = Inl Std_terminate \<longleftrightarrow>
      (\<exists>(ex, i) \<in> set (cm_connectors m'). ci_io_thread i = Some Left_loop))) \<and>
    cm_destroy m = Inl Std_terminate \<and> remove_exchange ex m = Inl Std_terminate \<and>
    (v_state (ci_connector i) = DISCONNECTED \<longrightarrow> cm_start Client_ok ex m = Inl Std_terminate)"
proof -
  have nr: "\<not> ci_running i" using cm_inv_at [OF cm_reachable_inv [OF assms(1)] assms(2)] assms(3) by (simp add: info_inv_def)
  have j: "joinable (ci_io_thread i)" using assms(3) by (simp add: joinable_def)
  have d: "cm_destroy m' = Inl Std_terminate \<longleftrightarrow> (\<exists>(ex, i) \<in> set (cm_connectors m'). ci_io_thread i = Some Left_loop)"
    if "cm_reachable m'" for m'
  proof -
    have "joinable (ci_io_thread (if ci_running (snd p) then snd (stop_info (snd p)) else snd p)) \<longleftrightarrow>
        ci_io_thread (snd p) = Some Left_loop" if "p \<in> set (cm_connectors m')" for p
      using cm_reachable_inv [OF \<open>cm_reachable m'\<close>] that stop_info_stopped(1) [of "snd p"]
      by (cases p) (auto simp: cm_inv_def info_inv_def joinable_def)
    then have "(\<exists>(ex, i) \<in> set (cm_connectors (snd (stop_all m'))). joinable (ci_io_thread i)) \<longleftrightarrow>
        (\<exists>(ex, i) \<in> set (cm_connectors m'). ci_io_thread i = Some Left_loop)"
      unfolding stop_all_infos set_map bex_simps(7) case_prod_unfold fst_conv snd_conv by (rule bex_cong [OF refl])
    then show ?thesis by (simp add: cm_destroy_def case_prod_unfold Let_def destroy_infos_result)
  qed
  have "cm_destroy m = Inl Std_terminate" using d [OF assms(1)] map_of_SomeD [OF assms(2)] assms(3) by blast
  moreover have "remove_exchange ex m = Inl Std_terminate"
    using j nr by (simp add: remove_exchange_def assms(2) destroy_info_def)
  moreover have "fst (v_connect Client_ok (ci_connector i))" if "v_state (ci_connector i) = DISCONNECTED"
    using that by (cases "ci_connector i")
      (auto simp: binance_connect_def coinbase_connect_def kraken_connect_def ws_connect_def ws_get_state_def)
  then have "v_state (ci_connector i) = DISCONNECTED \<longrightarrow> cm_start Client_ok ex m = Inl Std_terminate"
    using j nr by (auto simp: cm_start_def assms(2) start_info_def case_prod_unfold Let_def)
  ultimately show ?thesis using d by blast
qed

text \<open>
  Instance: automatic reconnection is off, Kraken is started, its connection opens and is lost,
  and the loop ends.
\<close>

definition lost_run :: "cm_op list" where
  "lost_run = [Add_exchange KRAKEN 10 False, Set_auto False 0 0, Start KRAKEN Client_ok, Handler KRAKEN (On_open (\<lambda>_. Client_ok)),
     Handler KRAKEN (On_close Client_ok), Loop_ends KRAKEN]"

fun cm_run :: "cm_op list \<Rightarrow> ConnectionManager \<Rightarrow> ConnectionManager result" where
  "cm_run [] m = Inr m"
| "cm_run (op # ops) m = bindE (cm_do op m) (cm_run ops)"

lemma cm_run_reachable: "cm_reachable m \<Longrightarrow> cm_run ops m = Inr m' \<Longrightarrow> cm_reachable m'"
  by (induction ops arbitrary: m) (auto simp: bindE_eq_Inr intro: cm_step)

lemmas manager_steps = ConnectionManager_new_def add_exchange_def cm_set_auto_reconnect_def cm_start_def start_info_def
  io_thread_ends_def cm_handler_def KrakenConnector_new_def WebSocketConnector_new_def set_auto_def install_callbacks_def
  ws_set_reconnect_delay_def ws_set_max_reconnect_attempts_def ws_set_auto_reconnect_def ws_set_error_callback_def
  ws_set_connection_callback_def ws_set_orderbook_callback_def kraken_connect_def ws_connect_def kraken_run_enter_def
  ws_run_enter_def ws_on_open_def ws_on_close_def joinable_def

theorem left_loop_terminates_witness:
  "\<exists>m. cm_run lost_run ConnectionManager_new = Inr m \<and> cm_destroy m = Inl Std_terminate \<and>
     cm_start Client_ok KRAKEN m = Inl Std_terminate"
proof -
  obtain m i where m: "cm_run lost_run ConnectionManager_new = Inr m" "map_of (cm_connectors m) KRAKEN = Some i"
      "ci_io_thread i = Some Left_loop" "v_state (ci_connector i) = DISCONNECTED"
    by (simp add: lost_run_def manager_steps ws_get_state_def)
  have "cm_reachable m" by (rule cm_run_reachable [OF cm_new m(1)])
  from left_loop_terminates [OF this m(2,3)] m(1,4) show ?thesis by blast
qed

text \<open>Witness of C19: the same run without its end.\<close>

theorem stop_all_stops_witness:
  "\<exists>m i. cm_run (take 4 lost_run) ConnectionManager_new = Inr m \<and> map_of (cm_connectors (snd (stop_all m))) KRAKEN = Some i \<and>
     v_state (ci_connector i) = DISCONNECTED \<and> ci_io_thread i = Some Joined"
proof -
  obtain m i where m: "cm_run (take 4 lost_run) ConnectionManager_new = Inr m" "(KRAKEN, i) \<in> set (cm_connectors m)" "ci_running i"
    by (simp add: lost_run_def manager_steps)
  have "cm_reachable m" by (rule cm_run_reachable [OF cm_new m(1)])
  from stop_all_stops [OF this] m show ?thesis by fastforce
qed

text \<open>
  \<open>subscribe_all\<close> returns the number of active connections; afterwards every connected connector is
  subscribed to the symbol beside what it was subscribed to before, and the others are as before.
\<close>

theorem subscribe_all_counts:
  assumes "subscribe_all symbol r m = (n, ev, m')"
  shows "n = get_active_connections m \<and>
    list_all2 (\<lambda>(ex, i) (ex', i'). ex' = ex \<and> (if v_is_connected (ci_connector i)
        then set (v_subscriptions (ci_connector i')) = insert symbol (set (v_subscriptions (ci_connector i))) \<and>
          ci_io_thread i' = ci_io_thread i \<and> ci_running i' = ci_running i
        else i' = i)) (cm_connectors m) (cm_connectors m')"
proof -
  obtain "is" where s: "subscribe_infos (v_subscribe symbol r) (cm_connectors m) = (n, ev, is)" "m' = m\<lparr>cm_connectors := is\<rparr>"
    using assms by (auto simp: subscribe_all_def split: prod.splits)
  have ok: "fst (v_subscribe symbol r c)" if "v_is_connected c" for c
    using that by (cases c) (auto simp: v_is_connected_def binance_subscribe_def coinbase_subscribe_def kraken_subscribe_def
        ws_subscribe_def ws_is_connected_def)
  have "fst (subscribe_infos (v_subscribe symbol r) xs) = length (filter (\<lambda>(ex, i). v_is_connected (ci_connector i)) xs)" for xs
    using ok by (induction xs) (auto simp: case_prod_unfold Let_def)
  then have "n = get_active_connections m" using s(1) by (metis fst_conv get_active_connections_def)
  moreover have sub: "set (v_subscriptions (snd (snd (v_subscribe symbol r c)))) = insert symbol (set (v_subscriptions c))"
    if "v_is_connected c" for c
    using that by (cases c) (auto simp: v_is_connected_def binance_subscribe_def coinbase_subscribe_def kraken_subscribe_def
        ws_subscribe_def ws_is_connected_def set_insort_key)
  have "list_all2 (\<lambda>(ex, i) (ex', i'). ex' = ex \<and> (if v_is_connected (ci_connector i)
        then set (v_subscriptions (ci_connector i')) = insert symbol (set (v_subscriptions (ci_connector i))) \<and>
          ci_io_thread i' = ci_io_thread i \<and> ci_running i' = ci_running i
        else i' = i)) (cm_connectors m) is"
    using conjunct2 [OF subscribe_infos_inv [OF s(1)]] by (rule list_all2_mono) (auto simp: sub)
  ultimately show ?thesis by (simp add: s(2))
qed

text \<open>Instance: one connected exchange.\<close>

theorem subscribe_all_counts_witness:
  "\<exists>m. cm_run (take 4 lost_run) ConnectionManager_new = Inr m \<and> fst (subscribe_all ''XBT/USD'' Client_ok m) = 1"
proof -
  obtain m where m: "cm_run (take 4 lost_run) ConnectionManager_new = Inr m" "get_active_connections m = 1"
    by (simp add: lost_run_def manager_steps get_active_connections_def v_is_connected_def ws_get_state_def)
  obtain n ev m' where s: "subscribe_all ''XBT/USD'' Client_ok m = (n, ev, m')" by (metis prod_cases3)
  from subscribe_all_counts [OF s] s m show ?thesis by auto
qed

end
