(* ===== verification/String_Ops.thy ===== *)
theory String_Ops
  imports Text_Numbers "HOL-Library.Sublist"
begin

text \<open>
  The members of \<open>std::string\<close> and the extractions from a stream that the program cuts text with.

  \<^item> \<open>str_find pat s pos\<close> is \<open>s.find(pat, pos)\<close>, \<open>None\<close> for \<open>npos\<close>. \<open>substr s pos n\<close> is \<open>s.substr(pos, n)\<close> where \<open>pos\<close> is
    within the string, as in every use; \<open>n = None\<close> takes the rest.
  \<^item> \<open>token\<close> is \<open>operator>>\<close> into a string and \<open>split_on\<close> the loop over \<open>std::getline\<close> with a delimiter.
  \<^item> \<open>str_find_Some\<close> and \<open>str_find_None\<close> say that \<open>find\<close> returns the first occurrence.
\<close>

fun find_aux :: "string \<Rightarrow> string \<Rightarrow> nat \<Rightarrow> nat option" where
  "find_aux pat [] i = (if pat = [] then Some i else None)"
| "find_aux pat (c # s) i = (if prefix pat (c # s) then Some i else find_aux pat s (Suc i))"

definition str_find :: "string \<Rightarrow> string \<Rightarrow> nat \<Rightarrow> nat option" where
  "str_find pat s pos = (if pos \<le> length s then find_aux pat (drop pos s) pos else None)"

definition substr :: "string \<Rightarrow> nat \<Rightarrow> nat option \<Rightarrow> string" where
  "substr s pos n = (case n of None \<Rightarrow> drop pos s | Some k \<Rightarrow> take k (drop pos s))"

text \<open>\<open>s.substr(start, end - start)\<close> with the result \<open>end\<close> of a search, which may be \<open>npos\<close>.\<close>

definition upto :: "string \<Rightarrow> nat \<Rightarrow> nat option \<Rightarrow> string" where
  "upto s start e = substr s start (map_option (\<lambda>j. j - start) e)"

definition str_contains :: "string \<Rightarrow> string \<Rightarrow> bool" where
  "str_contains pat s \<longleftrightarrow> str_find pat s 0 \<noteq> None"

definition str_starts :: "string \<Rightarrow> string \<Rightarrow> bool" where
  "str_starts pat s \<longleftrightarrow> str_find pat s 0 = Some 0"

definition token :: "string \<Rightarrow> string \<times> string" where
  "token s = (let r = dropWhile is_space s in (takeWhile (\<lambda>c. \<not> is_space c) r, dropWhile (\<lambda>c. \<not> is_space c) r))"

text \<open>The pieces that a loop over \<open>std::getline(stream, piece, delimiter)\<close> sees: no piece after a delimiter at the end.\<close>

fun split_aux :: "char \<Rightarrow> string \<Rightarrow> string \<Rightarrow> string list" where
  "split_aux d acc [] = (if acc = [] then [] else [acc])"
| "split_aux d acc (c # s) = (if c = d then acc # split_aux d [] s else split_aux d (acc @ [c]) s)"

definition split_on :: "char \<Rightarrow> string \<Rightarrow> string list" where
  "split_on d s = split_aux d [] s"

section \<open>What the searches find\<close>

lemma find_aux_Some: "find_aux pat s i = Some j \<longleftrightarrow>
    i \<le> j \<and> j \<le> i + length s \<and> prefix pat (drop (j - i) s) \<and> (\<forall>k. i \<le> k \<and> k < j \<longrightarrow> \<not> prefix pat (drop (k - i) s))"
proof (induction pat s i rule: find_aux.induct)
  case (2 pat c s i)
  show ?case
  proof (cases "prefix pat (c # s)")
    case True
    then show ?thesis by (auto simp: drop_Cons' intro: order.antisym not_less [THEN iffD1])
  next
    case False
    have r: "drop (k - i) (c # s) = drop (k - Suc i) s" if "Suc i \<le> k" for k
      using that by (simp add: drop_Cons' Suc_diff_Suc)
    have "find_aux pat (c # s) i = Some j \<longleftrightarrow> Suc i \<le> j \<and> j \<le> Suc i + length s \<and> prefix pat (drop (j - Suc i) s) \<and>
        (\<forall>k. Suc i \<le> k \<and> k < j \<longrightarrow> \<not> prefix pat (drop (k - Suc i) s))"
      using False 2 [OF False] by simp
    also have "\<dots> \<longleftrightarrow> i \<le> j \<and> j \<le> i + length (c # s) \<and> prefix pat (drop (j - i) (c # s)) \<and>
        (\<forall>k. i \<le> k \<and> k < j \<longrightarrow> \<not> prefix pat (drop (k - i) (c # s)))" (is "?l \<longleftrightarrow> ?r")
    proof
      assume l: ?l
      have "\<not> prefix pat (drop (k - i) (c # s))" if "i \<le> k" "k < j" for k
        using that l False r [of k] by (cases "k = i") auto
      with l r [of j] show ?r by auto
    next
      assume ?r
      moreover from this False have "j \<noteq> i" by auto
      moreover have "\<not> prefix pat (drop (k - Suc i) s)" if "Suc i \<le> k" "k < j" for k
        using \<open>?r\<close> that Suc_leD [OF that(1)] unfolding r [OF that(1), symmetric] by blast
      ultimately show ?l using r [of j] by auto
    qed
    finally show ?thesis .
  qed
qed auto

lemma str_find_Some: "str_find pat s pos = Some j \<longleftrightarrow>
    pos \<le> j \<and> j \<le> length s \<and> prefix pat (drop j s) \<and> (\<forall>k. pos \<le> k \<and> k < j \<longrightarrow> \<not> prefix pat (drop k s))"
  by (auto simp: str_find_def find_aux_Some)

lemma str_find_None: "str_find pat s pos = None \<longleftrightarrow> (\<forall>k. pos \<le> k \<and> k \<le> length s \<longrightarrow> \<not> prefix pat (drop k s))"
proof
  assume n: "str_find pat s pos = None"
  show "\<forall>k. pos \<le> k \<and> k \<le> length s \<longrightarrow> \<not> prefix pat (drop k s)"
  proof (rule ccontr)
    assume "\<not> ?thesis"
    then obtain k where k: "pos \<le> k \<and> k \<le> length s \<and> prefix pat (drop k s)" by blast
    define j where "j = (LEAST k. pos \<le> k \<and> k \<le> length s \<and> prefix pat (drop k s))"
    have "pos \<le> j \<and> j \<le> length s \<and> prefix pat (drop j s)"
      unfolding j_def using k by (rule LeastI [of "\<lambda>k. pos \<le> k \<and> k \<le> length s \<and> prefix pat (drop k s)"])
    moreover have "\<not> prefix pat (drop i s)" if "pos \<le> i" "i < j" for i
      using not_less_Least [of i "\<lambda>k. pos \<le> k \<and> k \<le> length s \<and> prefix pat (drop k s)", folded j_def] that calculation by auto
    ultimately have "str_find pat s pos = Some j" by (simp add: str_find_Some)
    with n show False by simp
  qed
next
  assume "\<forall>k. pos \<le> k \<and> k \<le> length s \<longrightarrow> \<not> prefix pat (drop k s)"
  then show "str_find pat s pos = None" by (cases "str_find pat s pos") (auto simp: str_find_Some)
qed

lemma str_starts_prefix [simp]: "str_starts pat s \<longleftrightarrow> prefix pat s"
  by (simp add: str_starts_def str_find_Some)

lemma str_contains_sublist [simp]: "str_contains pat s \<longleftrightarrow> sublist pat s"
proof
  assume "str_contains pat s"
  then obtain j where "prefix pat (drop j s)" by (auto simp: str_contains_def str_find_Some)
  then obtain r where "drop j s = pat @ r" by (auto simp: prefix_def)
  then have "s = take j s @ pat @ r" by (metis append_take_drop_id)
  then show "sublist pat s" unfolding sublist_def by blast
next
  assume "sublist pat s"
  then obtain p r where s: "s = p @ pat @ r" by (auto simp: sublist_def)
  then have "length p \<le> length s" "prefix pat (drop (length p) s)" by simp_all
  then show "str_contains pat s" unfolding str_contains_def str_find_None by blast
qed

lemma find_char_append:
  assumes "c \<notin> set p"
  shows "str_find [c] (q @ p @ c # r) (length q) = Some (length q + length p)"
proof -
  have "\<not> prefix [c] (drop k (q @ p @ c # r))" if "length q \<le> k" "k < length q + length p" for k
  proof -
    have "drop k (q @ p @ c # r) = drop (k - length q) p @ c # r" using that by simp
    moreover have "drop (k - length q) p \<noteq> []" "hd (drop (k - length q) p) \<in> set p"
      using that by (auto simp: hd_drop_conv_nth)
    ultimately show ?thesis using assms by (cases "drop (k - length q) p") auto
  qed
  then show ?thesis by (simp add: str_find_Some)
qed

lemma find_char_none: "c \<notin> set s \<Longrightarrow> str_find [c] s pos = None"
  by (auto simp: str_find_None dest!: set_mono_prefix in_set_dropD)

lemma upto_char:
  assumes "c \<notin> set p"
  shows "upto (q @ p @ c # r) (length q) (str_find [c] (q @ p @ c # r) (length q)) = p"
  using find_char_append [OF assms, of q r] by (simp add: upto_def substr_def)

end
