(* ===== verification/Time_Utils.thy ===== *)
theory Time_Utils
  imports String_Ops
begin

text \<open>
  The time functions of \<open>include/utils/time_utils.hpp\<close> and \<open>src/utils/time_utils.cpp\<close>.

  \<^item> The clock is an argument: nanoseconds since the epoch, or since the last boot.
  \<^item> \<open>gmtime\<close> and \<open>timegm\<close> are the Gregorian calendar of the C library. \<open>mktime\<close> reads its argument as local time:
    \<open>local_offset t\<close> is the number of seconds by which the local time zone is ahead of UTC at local time \<open>t\<close>.
  \<^item> \<open>get_time\<close> is \<open>std::get_time\<close> for the conversions the code uses: at most the given number of digits with a value in
    the given range, and other characters of the format by themselves, in either case. Fields are stored one by
    one, so that a failure leaves the later ones as they were; \<open>None\<close> is the failed stream.
\<close>

section \<open>Clock readings\<close>

definition get_timestamp_ns :: "nat \<Rightarrow> u64" where
  "get_timestamp_ns ticks = of_nat ticks"

definition get_timestamp_us :: "nat \<Rightarrow> u64" where
  "get_timestamp_us ticks = of_nat (ticks div 1000)"

definition get_timestamp_ms :: "nat \<Rightarrow> u64" where
  "get_timestamp_ms ticks = of_nat (ticks div 1000000)"

record ScopedTimer =
  st_start :: u64
  st_duration_ref :: u64

definition ScopedTimer_new :: "nat \<Rightarrow> u64 \<Rightarrow> ScopedTimer" where
  "ScopedTimer_new now duration_ns = \<lparr>st_start = get_timestamp_ns now, st_duration_ref = duration_ns\<rparr>"

definition elapsed_ns :: "nat \<Rightarrow> ScopedTimer \<Rightarrow> u64" where
  "elapsed_ns now t = get_timestamp_ns now - st_start t"

definition ScopedTimer_end :: "nat \<Rightarrow> ScopedTimer \<Rightarrow> u64" where
  "ScopedTimer_end now t = get_timestamp_ns now - st_start t"

section \<open>Calendar\<close>

definition is_leap :: "nat \<Rightarrow> bool" where
  "is_leap y \<longleftrightarrow> y mod 4 = 0 \<and> y mod 100 \<noteq> 0 \<or> y mod 400 = 0"

definition year_days :: "nat \<Rightarrow> nat" where
  "year_days y = (if is_leap y then 366 else 365)"

definition month_lengths :: "nat \<Rightarrow> nat list" where
  "month_lengths y = [31, if is_leap y then 29 else 28, 31, 30, 31, 30, 31, 31, 30, 31, 30, 31]"

function year_of :: "nat \<Rightarrow> nat \<Rightarrow> nat \<times> nat" where
  "year_of d y = (if d < year_days y then (y, d) else year_of (d - year_days y) (Suc y))"
  by auto
termination by (relation "measure fst") (auto simp: year_days_def split: if_splits)

declare year_of.simps [simp del]

fun month_of :: "nat \<Rightarrow> nat list \<Rightarrow> nat \<times> nat" where
  "month_of d [] = (0, d)"
| "month_of d (n # ns) = (if d < n then (0, d) else (let (m, r) = month_of (d - n) ns in (Suc m, r)))"

record tm =
  tm_year :: int
  tm_mon :: int
  tm_mday :: int
  tm_hour :: int
  tm_min :: int
  tm_sec :: int

definition tm_zero :: tm where
  "tm_zero = \<lparr>tm_year = 0, tm_mon = 0, tm_mday = 0, tm_hour = 0, tm_min = 0, tm_sec = 0\<rparr>"

definition gmtime :: "nat \<Rightarrow> tm" where
  "gmtime t = (let (y, d) = year_of (t div 86400) 1970; (m, r) = month_of d (month_lengths y); s = t mod 86400
     in \<lparr>tm_year = int y - 1900, tm_mon = int m, tm_mday = int r + 1,
         tm_hour = int (s div 3600), tm_min = int (s div 60 mod 60), tm_sec = int (s mod 60)\<rparr>)"

text \<open>Days from the epoch to the first of January of a year, in the proleptic calendar.\<close>

definition year_start :: "int \<Rightarrow> int" where
  "year_start y = 365 * (y - 1970) + ((y - 1) div 4 - (y - 1) div 100 + (y - 1) div 400) - 477"

definition timegm :: "tm \<Rightarrow> int" where
  "timegm t = (let y = tm_year t + 1900;
       d = year_start y + int (sum_list (take (nat (tm_mon t)) (month_lengths (nat y)))) + tm_mday t - 1
     in ((d * 24 + tm_hour t) * 60 + tm_min t) * 60 + tm_sec t)"

definition mktime :: "(int \<Rightarrow> int) \<Rightarrow> tm \<Rightarrow> int" where
  "mktime local_offset t = timegm t - local_offset (timegm t)"

section \<open>Reading and writing\<close>

datatype directive = Number nat nat nat "int \<Rightarrow> tm \<Rightarrow> tm" | Literal char

fun get_time :: "directive list \<Rightarrow> string \<Rightarrow> tm \<Rightarrow> tm \<times> string option" where
  "get_time [] s t = (t, Some s)"
| "get_time (Literal c # ds) s t = (case s of [] \<Rightarrow> (t, None)
     | x # r \<Rightarrow> if to_lower x = to_lower c then get_time ds r t else (t, None))"
| "get_time (Number w lo hi store # ds) s t = (let n = takeWhile is_digit (take w s); v = digits_val 10 n
     in if n = [] \<or> v < lo \<or> hi < v then (t, None) else get_time ds (drop (length n) s) (store (int v) t))"

definition iso_format :: "directive list" where
  "iso_format =
     [Number 4 0 9999 (\<lambda>v t. t\<lparr>tm_year := v - 1900\<rparr>), Literal (CHR ''-''),
      Number 2 1 12 (\<lambda>v t. t\<lparr>tm_mon := v - 1\<rparr>), Literal (CHR ''-''),
      Number 2 1 31 (\<lambda>v t. t\<lparr>tm_mday := v\<rparr>), Literal (CHR ''T''),
      Number 2 0 23 (\<lambda>v t. t\<lparr>tm_hour := v\<rparr>), Literal (CHR '':''),
      Number 2 0 59 (\<lambda>v t. t\<lparr>tm_min := v\<rparr>), Literal (CHR '':''),
      Number 2 0 60 (\<lambda>v t. t\<lparr>tm_sec := v\<rparr>)]"

definition parse_iso8601_to_nanos :: "(int \<Rightarrow> int) \<Rightarrow> string \<Rightarrow> u64" where
  "parse_iso8601_to_nanos local_offset iso_timestamp =
     (let (t, rest) = get_time iso_format (dropWhile is_space iso_timestamp) tm_zero;
          nanos = of_int (mktime local_offset t) * 1000000000
      in case rest of
           Some (c # r) \<Rightarrow>
             if c = CHR ''.''
             then (let fraction = takeWhile is_digit r;
                       padded = (if length fraction < 9 then fraction @ replicate (9 - length fraction) (CHR ''0'')
                         else take 9 fraction)
                   in nanos + of_nat (digits_val 10 padded))
             else nanos
         | _ \<Rightarrow> nanos)"

definition put_time :: "tm \<Rightarrow> string" where
  "put_time t = show_nat (nat (tm_year t + 1900)) @ ''-'' @ pad_digits 2 (nat (tm_mon t + 1)) @ ''-'' @ pad_digits 2 (nat (tm_mday t)) @
     ''T'' @ pad_digits 2 (nat (tm_hour t)) @ '':'' @ pad_digits 2 (nat (tm_min t)) @ '':'' @ pad_digits 2 (nat (tm_sec t))"

definition nanos_to_iso8601 :: "u64 \<Rightarrow> string" where
  "nanos_to_iso8601 nanos =
     (let seconds = unat (nanos div 1000000000); nano_remainder = unat (nanos mod 1000000000)
      in put_time (gmtime seconds) @ ''.'' @ pad_digits 9 nano_remainder @ ''Z'')"

section \<open>The calendar runs back and forth\<close>

lemma div_pred: "0 < k \<Longrightarrow> int y div int k = (int y - 1) div int k + (if y mod k = 0 then 1 else 0)"
proof -
  assume k: "0 < k"
  have y: "int y = int k * int (y div k) + int (y mod k)" by (simp flip: of_nat_mult of_nat_add)
  have "int y div int k = int (y div k)" by (simp add: zdiv_int)
  moreover have "(int y - 1) div int k = (if y mod k = 0 then int (y div k) - 1 else int (y div k))"
  proof (cases "y mod k = 0")
    case True
    then have "int y - 1 = int k * (int (y div k) - 1) + (int k - 1)" using y by (simp add: algebra_simps)
    from int_div_pos_eq [OF this] k True show ?thesis by simp
  next
    case False
    then have "int y - 1 = int k * int (y div k) + (int (y mod k) - 1)" using y by simp
    moreover have "int (y mod k) - 1 < int k" using mod_less_divisor [OF k, of y] by linarith
    ultimately have "(int y - 1) div int k = int (y div k)" using False by (intro int_div_pos_eq [where r = "int (y mod k) - 1"]) simp_all
    with False show ?thesis by simp
  qed
  ultimately show ?thesis by simp
qed

lemma leap_days: "(r \<Longrightarrow> q) \<Longrightarrow> (q \<Longrightarrow> p) \<Longrightarrow> int (if p \<and> \<not> q \<or> r then 366 else 365) =
    365 + ((if p then 1 else 0) - (if q then 1 else 0) + (if r then 1 else 0))"
  by (cases p; cases q; cases r) simp_all

lemma leap_sum: "int (year_days y) = 365 + ((if y mod 4 = 0 then 1 else 0) - (if y mod 100 = 0 then 1 else 0) + (if y mod 400 = 0 then 1 else 0))"
  unfolding year_days_def is_leap_def
proof (rule leap_days)
  show "y mod 400 = 0 \<Longrightarrow> y mod 100 = 0" using dvd_trans [of 100 400 y] by (simp add: mod_eq_0_iff_dvd)
  show "y mod 100 = 0 \<Longrightarrow> y mod 4 = 0" using dvd_trans [of 4 100 y] by (simp add: mod_eq_0_iff_dvd)
qed

lemma year_start_Suc: "year_start (int (Suc y)) = year_start (int y) + int (year_days y)"
proof -
  define a b c where "a = (int y - 1) div 4" and "b = (int y - 1) div 100" and "c = (int y - 1) div 400"
  have d: "int y div 4 = a + (if y mod 4 = 0 then 1 else 0)" "int y div 100 = b + (if y mod 100 = 0 then 1 else 0)"
    "int y div 400 = c + (if y mod 400 = 0 then 1 else 0)"
    unfolding a_def b_def c_def using div_pred [of 4 y] div_pred [of 100 y] div_pred [of 400 y]
    by (simp_all only: of_nat_numeral zero_less_numeral)
  have "int (Suc y) - 1 = int y" by simp
  then have "year_start (int (Suc y)) = 365 * (int y + 1 - 1970) + (int y div 4 - int y div 100 + int y div 400) - 477"
    unfolding year_start_def by simp
  moreover have "year_start (int y) = 365 * (int y - 1970) + (a - b + c) - 477"
    unfolding year_start_def a_def b_def c_def by simp
  ultimately show ?thesis unfolding leap_sum d by simp
qed

lemma year_of_start:
  "year_of d y = (y', d') \<Longrightarrow> y \<le> y' \<and> d' < year_days y' \<and> year_start (int y') + int d' = year_start (int y) + int d"
proof (induction d y rule: year_of.induct)
  case (1 d y)
  show ?case
  proof (cases "d < year_days y")
    case True
    then show ?thesis using 1(2) by (simp add: year_of.simps [of d y])
  next
    case False
    then show ?thesis using 1 year_start_Suc [of y] by (simp add: year_of.simps [of d y])
  qed
qed

lemma year_of_bound: "year_of d y = (y', d') \<Longrightarrow> 365 * (y' - y) \<le> d"
proof (induction d y rule: year_of.induct)
  case (1 d y)
  show ?case
  proof (cases "d < year_days y")
    case True
    then show ?thesis using 1(2) by (simp add: year_of.simps [of d y])
  next
    case False
    then have "365 * (y' - Suc y) \<le> d - year_days y" using 1 by (simp add: year_of.simps [of d y])
    moreover have "365 \<le> year_days y" by (simp add: year_days_def)
    ultimately show ?thesis using False by simp
  qed
qed

lemma month_of_start: "month_of d ns = (m, r) \<Longrightarrow> d < sum_list ns \<Longrightarrow> m < length ns \<and> r < ns ! m \<and> sum_list (take m ns) + r = d"
proof (induction d ns arbitrary: m rule: month_of.induct)
  case (2 d n ns)
  show ?case
  proof (cases "d < n")
    case False
    then obtain m' where "month_of (d - n) ns = (m', r)" "m = Suc m'" using 2(2) by (auto split: prod.splits)
    moreover have "d - n < sum_list ns" using False 2(3) by simp
    ultimately have "m' < length ns \<and> r < ns ! m' \<and> sum_list (take m' ns) + r = d - n" using 2(1) [OF False, of m'] by blast
    with \<open>m = Suc m'\<close> False show ?thesis by (simp, linarith)
  qed (use 2 in auto)
qed simp

lemma month_lengths_facts: "sum_list (month_lengths y) = year_days y" "length (month_lengths y) = 12"
    "m < 12 \<Longrightarrow> month_lengths y ! m \<le> 31"
proof -
  show "m < 12 \<Longrightarrow> month_lengths y ! m \<le> 31"
    by (auto simp: month_lengths_def nth_Cons' numeral_eq_Suc less_Suc_eq)
qed (simp_all add: month_lengths_def year_days_def)

lemma gmtime_fields:
  assumes "t < 2 ^ 35"
  obtains y m d h n s where "gmtime t = \<lparr>tm_year = int y - 1900, tm_mon = int m, tm_mday = int d, tm_hour = int h, tm_min = int n, tm_sec = int s\<rparr>"
    "1970 \<le> y" "y < 9999" "m < 12" "1 \<le> d" "d \<le> 31" "h < 24" "n < 60" "s < 60" "timegm (gmtime t) = int t"
proof -
  obtain y d where y: "year_of (t div 86400) 1970 = (y, d)" by fastforce
  obtain m r where m: "month_of d (month_lengths y) = (m, r)" by fastforce
  note ys = year_of_start [OF y]
  then have ms: "m < 12" "r < month_lengths y ! m" "sum_list (take m (month_lengths y)) + r = d"
    using month_of_start [OF m] by (simp_all add: month_lengths_facts)
  have "365 * (y - 1970) \<le> t div 86400" by (rule year_of_bound [OF y])
  moreover have "t div 86400 < 400000" using assms by simp
  ultimately have "y < 9999" by linarith
  define s where "s = t mod 86400"
  have s: "s < 86400" "t = t div 86400 * 86400 + s" by (simp_all add: s_def)
  have g: "gmtime t = \<lparr>tm_year = int y - 1900, tm_mon = int m, tm_mday = int (Suc r), tm_hour = int (s div 3600),
      tm_min = int (s div 60 mod 60), tm_sec = int (s mod 60)\<rparr>"
    by (simp add: gmtime_def y m s_def Let_def)
  have "year_start 1970 = 0" by (simp add: year_start_def)
  then have "year_start (int y) + int (sum_list (take m (month_lengths y))) + int r = int (t div 86400)"
    using ys ms(3) by (simp add: algebra_simps)
  moreover have "s div 3600 = s div 60 div 60" by (simp flip: div_mult2_eq)
  then have "s div 3600 * 3600 + s div 60 mod 60 * 60 + s mod 60 = s"
    using div_mult_mod_eq [of "s div 60" 60] div_mult_mod_eq [of s 60] by linarith
  then have "int (s div 3600) * 3600 + int (s div 60 mod 60) * 60 + int (s mod 60) = int s" by linarith
  ultimately have "timegm (gmtime t) = int (t div 86400) * 86400 + int s"
    by (simp add: timegm_def g Let_def algebra_simps)
  also have "\<dots> = int t" using s(2) by linarith
  finally have "timegm (gmtime t) = int t" .
  moreover have "Suc r \<le> 31" using month_lengths_facts(3) [OF ms(1), of y] ms(2) by simp
  moreover have "s div 3600 < 24" using s(1) by (simp add: less_mult_imp_div_less)
  ultimately show thesis
    using that [OF g] ys ms(1) \<open>y < 9999\<close> by simp
qed

section \<open>Time stamps as text\<close>

lemma show_nat_length: "1000 \<le> n \<Longrightarrow> n < 10000 \<Longrightarrow> length (show_nat n) = 4"
proof -
  assume n: "1000 \<le> n" "n < 10000"
  have "10 \<le> n div 10" "10 \<le> n div 10 div 10" "n div 10 div 10 div 10 < 10"
    using n div_le_mono [of 1000 n 10] div_le_mono [of 1000 n 100] by (simp_all flip: div_mult2_eq add: less_mult_imp_div_less)
  then have "show_nat n = ([char_of (48 + n div 10 div 10 div 10)] @ [char_of (48 + n div 10 div 10 mod 10)]) @ [char_of (48 + n div 10 mod 10)]
      @ [char_of (48 + n mod 10)]"
    using n by (simp add: show_nat.simps [of n] show_nat.simps [of "n div 10"] show_nat.simps [of "n div 10 div 10"]
      show_nat.simps [of "n div 10 div 10 div 10"])
  then show ?thesis by simp
qed

lemma get_time_number:
  assumes "list_all is_digit n" and "length n = w" and "n \<noteq> []" and "lo \<le> digits_val 10 n" and "digits_val 10 n \<le> hi"
  shows "get_time (Number w lo hi store # ds) (n @ s) t = get_time ds s (store (int (digits_val 10 n)) t)"
proof -
  have "takeWhile is_digit (take w (n @ s)) = n" using assms(2) all_digits [OF assms(1)] by simp
  then show ?thesis using assms(3-5) by (simp add: Let_def)
qed

lemma get_time_pad:
  assumes "v < 100" and "lo \<le> v" and "v \<le> hi"
  shows "get_time (Number 2 lo hi store # ds) (pad_digits 2 v @ s) t = get_time ds s (store (int v) t)"
  using get_time_number [of "pad_digits 2 v" 2 lo hi store ds s t] pad_digits_digits [of 2 v] assms by fastforce

lemma get_time_put_time:
  assumes "t < 2 ^ 35"
  shows "get_time iso_format (put_time (gmtime t) @ r) tm_zero = (gmtime t, Some r)"
proof -
  obtain y m d h n s where g: "gmtime t = \<lparr>tm_year = int y - 1900, tm_mon = int m, tm_mday = int d, tm_hour = int h,
      tm_min = int n, tm_sec = int s\<rparr>"
    "1970 \<le> y" "y < 9999" "m < 12" "1 \<le> d" "d \<le> 31" "h < 24" "n < 60" "s < 60"
    using gmtime_fields [OF assms] by metis
  have y: "list_all is_digit (show_nat y)" "digits_val 10 (show_nat y) = y" "show_nat y \<noteq> []" "length (show_nat y) = 4"
    using show_nat_digits [of y] show_nat_length [of y] g by simp_all
  have n: "nat (int m + 1) = Suc m" by simp
  show ?thesis
    using y g get_time_number [of "show_nat y" 4 0 9999]
    by (simp add: iso_format_def put_time_def get_time_pad n tm_zero_def del: get_time.simps(3))
qed

lemma put_time_start: "t < 2 ^ 35 \<Longrightarrow> dropWhile is_space (put_time (gmtime t) @ r) = put_time (gmtime t) @ r"
  using show_nat_digits [of "nat (tm_year (gmtime t) + 1900)"] digit_not_space
  by (cases "show_nat (nat (tm_year (gmtime t) + 1900))") (auto simp: put_time_def)

text \<open>
  C28. Every 64-bit time stamp that is written in ISO 8601 and read back comes back shifted by the offset of the
  local time zone, because the writer uses UTC (\<open>gmtime\<close>, suffix \<open>Z\<close>) and the reader local time (\<open>mktime\<close>): unchanged exactly
  where that offset is zero.
\<close>

theorem iso8601_roundtrip:
  "parse_iso8601_to_nanos local_offset (nanos_to_iso8601 nanos) =
     nanos - of_int (local_offset (int (unat nanos div 1000000000))) * 1000000000 \<and>
   parse_iso8601_to_nanos (\<lambda>_. 0) (nanos_to_iso8601 nanos) = nanos"
proof -
  define t where "t = unat nanos div 1000000000"
  define f where "f = unat nanos mod 1000000000"
  have b: "t < 2 ^ 35" using u64_bound [of nanos] by (simp add: t_def less_mult_imp_div_less)
  have f: "list_all is_digit (pad_digits 9 f)" "length (pad_digits 9 f) = 9" "digits_val 10 (pad_digits 9 f) = f"
    using pad_digits_digits [of 9 f] by (simp_all add: f_def)
  have s: "nanos_to_iso8601 nanos = put_time (gmtime t) @ CHR ''.'' # pad_digits 9 f @ ''Z''"
    by (simp add: nanos_to_iso8601_def t_def f_def unat_div unat_mod)
  have tz: "timegm (gmtime t) = int t" using gmtime_fields [OF b] by metis
  have "takeWhile is_digit (pad_digits 9 f @ ''Z'') = pad_digits 9 f"
    by (rule takeWhile_digits [OF f(1)]) (simp add: is_digit_def)
  then have p: "parse_iso8601_to_nanos off (nanos_to_iso8601 nanos) = of_nat t * 1000000000 + of_nat f - of_int (off (int t)) * 1000000000" for off
    using f by (simp add: parse_iso8601_to_nanos_def s put_time_start [OF b] get_time_put_time [OF b] mktime_def tz algebra_simps)
  have "t * 1000000000 + f = unat nanos" by (simp only: t_def f_def div_mult_mod_eq)
  then have "of_nat (t * 1000000000 + f) = nanos" by simp
  then have "of_nat t * 1000000000 + of_nat f = nanos" by simp
  then show ?thesis unfolding p t_def [symmetric] by simp
qed

text \<open>
  A text that does not start with a digit is not reported as unparsable: the result is the last
  second of 1899 as an unsigned number of nanoseconds, a time stamp in the year 2484.
\<close>

theorem unparsable_timestamp:
  assumes "case dropWhile is_space s of [] \<Rightarrow> True | c # _ \<Rightarrow> \<not> is_digit c"
  shows "parse_iso8601_to_nanos (\<lambda>_. 0) s = 16237668873709551616"
proof -
  have "takeWhile is_digit (take 4 (dropWhile is_space s)) = []"
    using assms by (cases "dropWhile is_space s") (simp_all add: numeral_eq_Suc del: dropWhile_eq_Nil_conv)
  then have "get_time iso_format (dropWhile is_space s) tm_zero = (tm_zero, None)"
    by (simp add: iso_format_def)
  then show ?thesis
    by (simp add: parse_iso8601_to_nanos_def mktime_def timegm_def tm_zero_def year_start_def)
qed

text \<open>A concrete instance.\<close>

theorem unparsable_timestamp_witness: "parse_iso8601_to_nanos (\<lambda>_. 0) ''yesterday'' = 16237668873709551616"
  by (rule unparsable_timestamp) (simp add: is_space_def is_digit_def)

end
