(* ===== verification/Json_Text.thy ===== *)
theory Json_Text
  imports String_Ops
begin

text \<open>
  JSON documents as the program writes them: without white space and without escape sequences.

  \<^item> \<open>jval\<close> is a document, a number being its text; \<open>show_json\<close> prints it, \<open>json_read\<close> reads it. The reader accepts a part of what
    RFC 8259 allows: strings hold neither quotes nor backslashes nor control characters, numbers have no exponent. What it
    accepts is JSON with that meaning for every reader.
  \<^item> Its first argument bounds the depth of calls; the length of the text is enough, because each call but the
    last consumes a character (\<open>read_show\<close>).
  \<^item> The messages of the servers are compared with documents of this type.
\<close>

datatype jval = Jobj "(string \<times> jval) list" | Jarr "jval list" | Jstr string | Jnum string | Jbool bool

section \<open>Printing\<close>

fun join :: "string list \<Rightarrow> string" where
  "join [] = []"
| "join (s # ss) = s @ (if ss = [] then [] else CHR '','' # join ss)"

text \<open>The loop that writes a comma before every element but the first.\<close>

fun comma_loop :: "('a \<Rightarrow> string) \<Rightarrow> nat \<Rightarrow> 'a list \<Rightarrow> string" where
  "comma_loop f i [] = []"
| "comma_loop f i (x # xs) = (if i > 0 then '','' else []) @ f x @ comma_loop f (Suc i) xs"

lemma comma_loop_join: "comma_loop f i xs = (if 0 < i \<and> xs \<noteq> [] then '','' else []) @ join (map f xs)"
  by (induction xs arbitrary: i) simp_all

definition quoted :: "string \<Rightarrow> string" where
  \<open>quoted s = ''"'' @ s @ ''"''\<close>

definition show_field :: "string \<times> string \<Rightarrow> string" where
  "show_field f = quoted (fst f) @ '':'' @ snd f"

lemma show_field_append: "show_field (k, t) @ r = CHR 0x22 # k @ CHR 0x22 # CHR '':'' # t @ r"
  by (simp add: show_field_def quoted_def)

primrec show_json :: "jval \<Rightarrow> string" where
  "show_json (Jobj fs) = ''{'' @ join (map show_field (map (map_prod id show_json) fs)) @ ''}''"
| "show_json (Jarr vs) = ''['' @ join (map show_json vs) @ '']''"
| "show_json (Jstr s) = quoted s"
| "show_json (Jnum s) = s"
| "show_json (Jbool b) = (if b then ''true'' else ''false'')"

section \<open>Reading\<close>

definition plain :: "string \<Rightarrow> bool" where
  \<open>plain s \<longleftrightarrow> list_all (\<lambda>c. c \<noteq> CHR 0x22 \<and> c \<noteq> CHR 0x5C \<and> 32 \<le> (of_char c :: nat)) s\<close>

lemma plain_simps [simp]: "plain []"
  "plain (c # s) \<longleftrightarrow> c \<noteq> CHR 0x22 \<and> c \<noteq> CHR 0x5C \<and> 32 \<le> (of_char c :: nat) \<and> plain s"
  "plain (s @ t) \<longleftrightarrow> plain s \<and> plain t"
  by (auto simp: plain_def)

definition num_char :: "char \<Rightarrow> bool" where
  "num_char c \<longleftrightarrow> is_digit c \<or> c \<in> {CHR ''+'', CHR ''-'', CHR ''.'', CHR ''e'', CHR ''E''}"

definition json_number :: "string \<Rightarrow> bool" where
  "json_number t = (let u = (case t of [] \<Rightarrow> [] | c # r \<Rightarrow> if c = CHR ''-'' then r else t);
       ip = takeWhile is_digit u; r = dropWhile is_digit u
     in ip \<noteq> [] \<and> (tl ip = [] \<or> hd ip \<noteq> CHR ''0'') \<and>
        (case r of [] \<Rightarrow> True | c # fp \<Rightarrow> c = CHR ''.'' \<and> fp \<noteq> [] \<and> list_all is_digit fp))"

definition read_string :: "string \<Rightarrow> (string \<times> string) option" where
  "read_string s = (let t = takeWhile (\<lambda>c. c \<noteq> CHR 0x22) s
     in case dropWhile (\<lambda>c. c \<noteq> CHR 0x22) s of [] \<Rightarrow> None | _ # r \<Rightarrow> if plain t then Some (t, r) else None)"

definition read_number :: "string \<Rightarrow> (jval \<times> string) option" where
  "read_number s = (let t = takeWhile num_char s in if json_number t then Some (Jnum t, dropWhile num_char s) else None)"

fun read_value :: "nat \<Rightarrow> string \<Rightarrow> (jval \<times> string) option"
  and read_elems :: "nat \<Rightarrow> string \<Rightarrow> (jval list \<times> string) option"
  and read_fields :: "nat \<Rightarrow> string \<Rightarrow> ((string \<times> jval) list \<times> string) option" where
  "read_value 0 s = None"
| "read_value (Suc n) s = (case s of [] \<Rightarrow> None | c # r \<Rightarrow>
     if c = CHR ''{'' then (if take 1 r = ''}'' then Some (Jobj [], drop 1 r)
       else map_option (\<lambda>(fs, r1). (Jobj fs, r1)) (read_fields n r))
     else if c = CHR ''['' then (if take 1 r = '']'' then Some (Jarr [], drop 1 r)
       else map_option (\<lambda>(vs, r1). (Jarr vs, r1)) (read_elems n r))
     else if c = CHR 0x22 then map_option (\<lambda>(t, r1). (Jstr t, r1)) (read_string r)
     else if take 4 s = ''true'' then Some (Jbool True, drop 4 s)
     else if take 5 s = ''false'' then Some (Jbool False, drop 5 s)
     else read_number s)"
| "read_elems 0 s = None"
| "read_elems (Suc n) s = (case read_value n s of
       Some (v, c # r) \<Rightarrow>
         if c = CHR '']'' then Some ([v], r)
         else if c = CHR '','' then map_option (\<lambda>(vs, r1). (v # vs, r1)) (read_elems n r)
         else None
     | _ \<Rightarrow> None)"
| "read_fields 0 s = None"
| "read_fields (Suc n) s = (case s of [] \<Rightarrow> None | q # s1 \<Rightarrow> if q \<noteq> CHR 0x22 then None else
     (case read_string s1 of
       Some (k, c # s2) \<Rightarrow> if c \<noteq> CHR '':'' then None else
         (case read_value n s2 of
           Some (v, c # r) \<Rightarrow>
             if c = CHR ''}'' then Some ([(k, v)], r)
             else if c = CHR '','' then map_option (\<lambda>(fs, r1). ((k, v) # fs, r1)) (read_fields n r)
             else None
         | _ \<Rightarrow> None)
     | _ \<Rightarrow> None))"

definition json_read :: "string \<Rightarrow> jval option" where
  "json_read s = (case read_value (length s) s of Some (v, []) \<Rightarrow> Some v | _ \<Rightarrow> None)"

section \<open>What is printed is read back\<close>

primrec wf_json :: "jval \<Rightarrow> bool" where
  "wf_json (Jobj fs) \<longleftrightarrow> list_all (\<lambda>(k, b). plain k \<and> b) (map (map_prod id wf_json) fs)"
| "wf_json (Jarr vs) \<longleftrightarrow> list_all id (map wf_json vs)"
| "wf_json (Jstr s) \<longleftrightarrow> plain s"
| "wf_json (Jnum s) \<longleftrightarrow> json_number s"
| "wf_json (Jbool b) \<longleftrightarrow> True"

lemma wf_json_list: "wf_json (Jarr vs) \<longleftrightarrow> (\<forall>v \<in> set vs. wf_json v)"
  by (induction vs) simp_all

lemma wf_json_object: "wf_json (Jobj fs) \<longleftrightarrow> list_all (\<lambda>(k, v). plain k \<and> wf_json v) fs"
  by (induction fs) auto

lemma plain_read_string: "plain s \<Longrightarrow> read_string (s @ CHR 0x22 # r) = Some (s, r)"
proof -
  assume p: "plain s"
  then have n: "\<forall>c \<in> set s. c \<noteq> CHR 0x22" by (simp add: plain_def list_all_iff)
  then have "takeWhile (\<lambda>c. c \<noteq> CHR 0x22) (s @ CHR 0x22 # r) = s" "dropWhile (\<lambda>c. c \<noteq> CHR 0x22) (s @ CHR 0x22 # r) = CHR 0x22 # r"
    by (induction s) auto
  with p show ?thesis by (simp add: read_string_def)
qed

lemma json_number_facts:
  assumes "json_number t"
  shows "list_all num_char t" and "t \<noteq> []" and "hd t = CHR ''-'' \<or> is_digit (hd t)"
proof -
  define u where "u = (case t of [] \<Rightarrow> [] | c # r \<Rightarrow> if c = CHR ''-'' then r else t)"
  have u: "takeWhile is_digit u \<noteq> []"
    "case dropWhile is_digit u of [] \<Rightarrow> True | c # fp \<Rightarrow> c = CHR ''.'' \<and> fp \<noteq> [] \<and> list_all is_digit fp"
    using assms unfolding json_number_def u_def [symmetric] Let_def by blast+
  have "list_all num_char (takeWhile is_digit u)"
    by (auto simp: list_all_iff num_char_def dest: set_takeWhileD)
  moreover have "list_all num_char (dropWhile is_digit u)"
  proof (cases "dropWhile is_digit u")
    case (Cons c fp)
    with u(2) have "c = CHR ''.''" "list_all is_digit fp" by simp_all
    then show ?thesis unfolding Cons by (auto simp: num_char_def list_all_iff)
  qed (simp only: list.pred_inject(1))
  ultimately have "list_all num_char (takeWhile is_digit u @ dropWhile is_digit u)" by (simp only: list_all_append)
  then have n: "list_all num_char u" by simp
  have h: "is_digit (hd u)" "u \<noteq> []" using u(1) by (cases u; auto split: if_splits)+
  show "t \<noteq> []" using h(2) by (auto simp: u_def)
  then show "list_all num_char t" "hd t = CHR ''-'' \<or> is_digit (hd t)"
    using n h by (auto simp: u_def num_char_def split: list.splits if_splits)
qed

lemma num_char_distinct:
  "num_char c \<Longrightarrow> c \<noteq> CHR ''{'' \<and> c \<noteq> CHR ''['' \<and> c \<noteq> CHR 0x22 \<and> c \<noteq> CHR ''t'' \<and> c \<noteq> CHR ''f''"
  by (auto simp: num_char_def is_digit_def)

lemma json_number_reads:
  assumes "json_number t" and "r = [] \<or> \<not> num_char (hd r)"
  shows "read_number (t @ r) = Some (Jnum t, r)"
proof -
  have t: "\<forall>c \<in> set t. num_char c" using json_number_facts(1) [OF assms(1)] by (simp add: list_all_iff)
  with assms(2) have "takeWhile num_char (t @ r) = t \<and> dropWhile num_char (t @ r) = r"
    by (induction t) (cases r; auto)+
  with assms(1) show ?thesis by (simp add: read_number_def)
qed

definition reads_back :: "jval \<Rightarrow> bool" where
  "reads_back v \<longleftrightarrow> (\<forall>n r. length (show_json v) \<le> n \<longrightarrow> (r = [] \<or> \<not> num_char (hd r)) \<longrightarrow>
     read_value n (show_json v @ r) = Some (v, r))"

lemma closing_not_digit [simp]: "\<not> is_digit (CHR '']'')"
  by (simp add: is_digit_def)

lemma closing_not_num [simp]: "\<not> num_char (CHR '','')" "\<not> num_char (CHR '']'')" "\<not> num_char (CHR ''}'')"
  by (simp_all add: num_char_def is_digit_def)

lemma show_json_head: "wf_json v \<Longrightarrow> show_json v \<noteq> [] \<and> hd (show_json v) \<noteq> CHR '']''"
  by (cases v) (auto simp: quoted_def dest: json_number_facts(2,3))

lemma elems_read_back:
  assumes "\<forall>v \<in> set vs. reads_back v" and "vs \<noteq> []" and "length (join (map show_json vs)) < n"
  shows "read_elems n (join (map show_json vs) @ CHR '']'' # r) = Some (vs, r)"
  using assms
proof (induction vs arbitrary: n)
  case (Cons v vs)
  then obtain m where n: "n = Suc m" by (cases n) auto
  have "length (show_json v) \<le> m" using Cons.prems(3) n by simp
  then have v: "read_value m (show_json v @ c # r') = Some (v, c # r')" if "\<not> num_char c" for c r'
    using Cons.prems(1) that by (simp add: reads_back_def)
  show ?case
  proof (cases "vs = []")
    case True
    then show ?thesis using v [of "CHR '']''"] by (simp add: n)
  next
    case False
    with Cons.prems(1,3) n have "read_elems m (join (map show_json vs) @ CHR '']'' # r) = Some (vs, r)"
      by (intro Cons.IH) auto
    then show ?thesis using v [of "CHR '',''"] False by (simp add: n)
  qed
qed simp

lemma fields_read_back:
  assumes "\<forall>f \<in> set fs. plain (fst f) \<and> reads_back (snd f)" and "fs \<noteq> []"
    and "length (join (map show_field (map (map_prod id show_json) fs))) < n"
  shows "read_fields n (join (map show_field (map (map_prod id show_json) fs)) @ CHR ''}'' # r) = Some (fs, r)"
  using assms
proof (induction fs arbitrary: n)
  case (Cons f fs)
  then obtain m where n: "n = Suc m" by (cases n) auto
  obtain k v where f: "f = (k, v)" by (cases f)
  have k: "read_string (k @ CHR 0x22 # r') = Some (k, r')" for r'
    using Cons.prems(1) plain_read_string by (simp add: f)
  have "length (show_json v) \<le> m" using Cons.prems(3) n by (simp add: f show_field_def)
  then have v: "read_value m (show_json v @ c # r') = Some (v, c # r')" if "\<not> num_char c" for c r'
    using Cons.prems(1) that by (simp add: reads_back_def f)
  show ?case
  proof (cases "fs = []")
    case True
    then show ?thesis using v [of "CHR ''}''"] k by (simp add: n f show_field_append)
  next
    case False
    with Cons.prems(1,3) n have "read_fields m (join (map show_field (map (map_prod id show_json) fs)) @ CHR ''}'' # r) = Some (fs, r)"
      by (intro Cons.IH) auto
    then show ?thesis using v [of "CHR '',''"] k False by (simp add: n f show_field_append id_def)
  qed
qed simp

lemma read_show: "wf_json v \<Longrightarrow> reads_back v"
proof (induction v)
  case (Jobj fs)
  have f: "\<forall>f \<in> set fs. plain (fst f) \<and> reads_back (snd f)"
    using Jobj by (auto simp: list_all_iff)
  have "read_value n (show_json (Jobj fs) @ r) = Some (Jobj fs, r)" if n: "length (show_json (Jobj fs)) \<le> n" for n r
  proof -
    obtain m where m: "n = Suc m" using n by (cases n) auto
    show ?thesis
    proof (cases fs)
      case Nil
      then show ?thesis by (simp add: m)
    next
      case (Cons a as)
      have "take 1 (join (map show_field (map (map_prod id show_json) fs)) @ CHR ''}'' # r) \<noteq> ''}''"
        by (simp add: Cons show_field_def quoted_def)
      then show ?thesis using fields_read_back [OF f, of m r] n by (simp add: m Cons)
    qed
  qed
  then show ?case by (simp add: reads_back_def)
next
  case (Jarr vs)
  have f: "\<forall>v \<in> set vs. reads_back v" using Jarr by (auto simp: list_all_iff)
  have "read_value n (show_json (Jarr vs) @ r) = Some (Jarr vs, r)" if n: "length (show_json (Jarr vs)) \<le> n" for n r
  proof -
    obtain m where m: "n = Suc m" using n by (cases n) auto
    show ?thesis
    proof (cases vs)
      case Nil
      then show ?thesis by (simp add: m)
    next
      case (Cons a as)
      have "show_json a \<noteq> [] \<and> hd (show_json a) \<noteq> CHR '']''" using Jarr.prems by (intro show_json_head) (simp add: Cons)
      then have "take 1 (join (map show_json vs) @ CHR '']'' # r) \<noteq> '']''"
        by (cases "show_json a") (simp_all add: Cons)
      then show ?thesis using elems_read_back [OF f, of m r] n by (simp add: m Cons)
    qed
  qed
  then show ?case by (simp add: reads_back_def)
next
  case (Jstr s)
  then have "read_value n (quoted s @ r) = Some (Jstr s, r)" if "length (quoted s) \<le> n" for n r
    using that plain_read_string [of s r] by (cases n) (simp_all add: quoted_def)
  then show ?case by (simp add: reads_back_def)
next
  case (Jnum t)
  have "read_value n (t @ r) = Some (Jnum t, r)" if n: "length t \<le> n" and r: "r = [] \<or> \<not> num_char (hd r)" for n r
  proof -
    obtain c t' where t: "t = c # t'" using json_number_facts(2) Jnum by (cases t) auto
    obtain m where m: "n = Suc m" using n t by (cases n) auto
    have "num_char c" using json_number_facts(1) [of t] Jnum by (simp add: t)
    then show ?thesis using num_char_distinct [of c] json_number_reads [of t r] Jnum r by (simp add: m t)
  qed
  then show ?case by (simp add: reads_back_def)
next
  case (Jbool b)
  have "read_value n (show_json (Jbool b) @ r) = Some (Jbool b, r)" if "length (show_json (Jbool b)) \<le> n" for n r
    using that by (cases n; cases b) simp_all
  then show ?case by (simp add: reads_back_def)
qed

lemma json_read_show: "wf_json v \<Longrightarrow> json_read (show_json v) = Some v"
  using read_show [of v] by (simp add: reads_back_def json_read_def)

declare wf_json.simps(1,2) [simp del]
declare wf_json_list [simp] wf_json_object [simp]

section \<open>Numbers\<close>

lemma show_nat_head: "10 \<le> n \<Longrightarrow> hd (show_nat n) \<noteq> CHR ''0''"
proof (induction n rule: show_nat.induct)
  case (1 n)
  have "show_nat n = show_nat (n div 10) @ [char_of (48 + n mod 10)]" using 1(2) by (simp add: show_nat.simps [of n])
  moreover have "show_nat (n div 10) \<noteq> []" using show_nat_digits by blast
  moreover have "hd (show_nat (n div 10)) \<noteq> CHR ''0''"
  proof (cases "10 \<le> n div 10")
    case False
    then have "show_nat (n div 10) = [char_of (48 + n div 10)]" by (simp add: show_nat.simps [of "n div 10"])
    moreover have "digit_val (char_of (48 + n div 10)) = n div 10" using False by (intro digit_char) simp
    moreover have "n div 10 \<noteq> 0" using 1(2) by (simp add: div_eq_0_iff)
    moreover have "digit_val (CHR ''0'') = 0" by (simp add: digit_val_def)
    ultimately show ?thesis by auto
  qed (use 1 in simp)
  ultimately show ?case by simp
qed

lemma show_nat_int: "tl (show_nat n) = [] \<or> hd (show_nat n) \<noteq> CHR ''0''"
  using show_nat_head [of n] by (cases "n < 10") (auto simp: show_nat.simps [of n])

lemma digits_not_minus: "list_all is_digit ip \<Longrightarrow> ip \<noteq> [] \<Longrightarrow> hd (ip @ r) \<noteq> CHR ''-''"
  by (cases ip) auto

lemma json_number_nat [simp]: "json_number (show_nat n)"
proof -
  have d: "list_all is_digit (show_nat n)" "show_nat n \<noteq> []" using show_nat_digits by blast+
  have "(case show_nat n of [] \<Rightarrow> [] | c # r \<Rightarrow> if c = CHR ''-'' then r else show_nat n) = show_nat n"
    using digits_not_minus [OF d, of "[]"] by (auto split: list.splits)
  then show ?thesis using all_digits [OF d(1)] d(2) show_nat_int [of n] unfolding json_number_def Let_def by (metis list.simps(4))
qed

lemma json_number_decimal:
  assumes "list_all is_digit fp" and "fp \<noteq> []"
  shows "json_number (show_nat n @ CHR ''.'' # fp)" and "json_number (CHR ''-'' # show_nat n @ CHR ''.'' # fp)"
proof -
  have d: "list_all is_digit (show_nat n)" "show_nat n \<noteq> []" using show_nat_digits by blast+
  let ?u = "show_nat n @ CHR ''.'' # fp"
  have t: "takeWhile is_digit ?u = show_nat n" "dropWhile is_digit ?u = CHR ''.'' # fp"
    using takeWhile_digits [OF d(1)] by simp_all
  have "(case ?u of [] \<Rightarrow> [] | c # r \<Rightarrow> if c = CHR ''-'' then r else ?u) = ?u"
    using digits_not_minus [OF d, of "CHR ''.'' # fp"] by (auto split: list.splits)
  then show "json_number ?u" using t assms d(2) show_nat_int [of n] by (simp add: json_number_def)
  show "json_number (CHR ''-'' # ?u)" using t assms d(2) show_nat_int [of n] by (simp add: json_number_def)
qed

lemma json_number_fixed: "is_fin d \<Longrightarrow> 0 < k \<Longrightarrow> json_number (show_fixed k d)"
proof -
  assume "is_fin d" "0 < k"
  then obtain x where d: "d = Fin x" by (cases d) auto
  have p: "list_all is_digit (pad_digits k m)" "pad_digits k m \<noteq> []" for m
    using pad_digits_digits [of k m] \<open>0 < k\<close> by auto
  show ?thesis using json_number_decimal [OF p] by (simp add: d show_fixed_def Let_def)
qed

lemma json_number_fixed8 [simp]: "is_fin d \<Longrightarrow> json_number (show_fixed8 d)"
  by (simp add: show_fixed8_def json_number_fixed)

end
