(* ===== verification/Message_Formatter.thy ===== *)
theory Message_Formatter
  imports Json_Text
begin

text \<open>
  The class \<open>MessageFormatter\<close> of \<open>include/network/message_formatter.hpp\<close>: the messages to the frontend as JSON text.

  \<^item> Each function is the text it streams; doubles are printed with eight decimals, except in \<open>format_metrics\<close>, which
    has none. The side of a trade is the taker's.
  \<^item> The \<open>_json\<close> definitions are the documents the frontend is meant to see. The theorems say that it does when strings need no
    escapes and numbers are finite; the code neither escapes strings nor checks numbers.
\<close>

section \<open>Texts\<close>

fun mf_exchange_to_string :: "Exchange \<Rightarrow> string" where
  "mf_exchange_to_string BINANCE = ''binance''"
| "mf_exchange_to_string COINBASE = ''coinbase''"
| "mf_exchange_to_string KRAKEN = ''kraken''"
| "mf_exchange_to_string UNKNOWN = ''unknown''"

definition side_to_string :: "Side \<Rightarrow> string" where
  "side_to_string side = (if side = BID then ''buy'' else ''sell'')"

definition format_level :: "PriceLevelSnapshot \<Rightarrow> string" where
  "format_level l = ''['' @ show_fixed8 (ps_price l) @ '','' @ show_fixed8 (ps_quantity l) @
     (if ps_order_count l > 0 then '','' @ show_nat (unat (ps_order_count l)) else []) @ '']''"

definition format_order_book_update :: "NormalizedOrderBookUpdate \<Rightarrow> u64 \<Rightarrow> string" where
  \<open>format_order_book_update update seqno =
     ''{'' @ ''"type":"order_book_update",'' @ ''"exchange":"'' @ mf_exchange_to_string (up_exchange update) @ ''",'' @
     ''"symbol":"'' @ up_symbol update @ ''",'' @ ''"timestamp":'' @ show_nat (unat (up_timestamp update)) @ '','' @
     ''"sequence":'' @ show_nat (unat seqno) @ '','' @ ''"bids":['' @ comma_loop format_level 0 (up_bids update) @
     ''],"asks":['' @ comma_loop format_level 0 (up_asks update) @ '']}''\<close>

definition format_trade :: "Trade \<Rightarrow> string" where
  \<open>format_trade trade =
     ''{'' @ ''"type":"trade",'' @ ''"exchange":"'' @ mf_exchange_to_string (tr_exchange trade) @ ''",'' @
     ''"symbol":"'' @ tr_symbol trade @ ''",'' @ ''"price":'' @ show_fixed8 (tr_price trade) @ '','' @
     ''"quantity":'' @ show_fixed8 (tr_quantity trade) @ '','' @ ''"timestamp":'' @ show_nat (unat (tr_timestamp trade)) @ '','' @
     ''"side":"'' @ (if tr_is_buyer_maker trade then ''sell'' else ''buy'') @ ''"'' @
     (if tr_trade_id trade \<noteq> [] then '',"id":"'' @ tr_trade_id trade @ ''"'' else []) @
     '',"isBuyerMaker":'' @ (if tr_is_buyer_maker trade then ''true'' else ''false'') @ ''}''\<close>

definition format_metrics :: "u64 \<Rightarrow> u64 \<Rightarrow> u64 \<Rightarrow> u64 \<Rightarrow> u64 \<Rightarrow> u64 \<Rightarrow> string \<Rightarrow> u32 \<Rightarrow> string" where
  \<open>format_metrics latency_p50 latency_p95 latency_p99 latency_p999 messages_per_sec bytes_per_sec status reconnect_attempts =
     ''{'' @ ''"type":"metrics",'' @ ''"latency":{'' @ ''"p50":'' @ show_nat (unat latency_p50) @ '','' @
     ''"p95":'' @ show_nat (unat latency_p95) @ '','' @ ''"p99":'' @ show_nat (unat latency_p99) @ '','' @
     ''"p999":'' @ show_nat (unat latency_p999) @ ''},'' @ ''"throughput":{'' @
     ''"messagesPerSecond":'' @ show_nat (unat messages_per_sec) @ '','' @ ''"bytesPerSecond":'' @ show_nat (unat bytes_per_sec) @ ''},'' @
     ''"websocket":{'' @ ''"status":"'' @ status @ ''",'' @ ''"reconnectAttempts":'' @ show_nat (unat reconnect_attempts) @ ''}'' @ ''}''\<close>

definition format_stats :: "string \<Rightarrow> double \<Rightarrow> double \<Rightarrow> double \<Rightarrow> double \<Rightarrow> double \<Rightarrow> double \<Rightarrow> double \<Rightarrow> u64 \<Rightarrow> string" where
  \<open>format_stats symbol last_price price_change_24h price_change_pct_24h high_24h low_24h volume_24h quote_volume_24h timestamp =
     ''{'' @ ''"type":"stats",'' @ ''"symbol":"'' @ symbol @ ''",'' @ ''"lastPrice":'' @ show_fixed8 last_price @ '','' @
     ''"priceChange24h":'' @ show_fixed8 price_change_24h @ '','' @ ''"priceChangePercent24h":'' @ show_fixed8 price_change_pct_24h @ '','' @
     ''"high24h":'' @ show_fixed8 high_24h @ '','' @ ''"low24h":'' @ show_fixed8 low_24h @ '','' @
     ''"volume24h":'' @ show_fixed8 volume_24h @ '','' @ ''"quoteVolume24h":'' @ show_fixed8 quote_volume_24h @ '','' @
     ''"timestamp":'' @ show_nat (unat timestamp) @ ''}''\<close>

section \<open>Documents\<close>

definition Jnat :: "nat \<Rightarrow> jval" where
  "Jnat n = Jnum (show_nat n)"

definition level_json :: "PriceLevelSnapshot \<Rightarrow> jval" where
  "level_json l = Jarr ([Jnum (show_fixed8 (ps_price l)), Jnum (show_fixed8 (ps_quantity l))] @
     (if ps_order_count l > 0 then [Jnat (unat (ps_order_count l))] else []))"

definition order_book_json :: "NormalizedOrderBookUpdate \<Rightarrow> u64 \<Rightarrow> jval" where
  "order_book_json u seqno = Jobj
     [(''type'', Jstr ''order_book_update''), (''exchange'', Jstr (mf_exchange_to_string (up_exchange u))), (''symbol'', Jstr (up_symbol u)),
      (''timestamp'', Jnat (unat (up_timestamp u))), (''sequence'', Jnat (unat seqno)),
      (''bids'', Jarr (map level_json (up_bids u))), (''asks'', Jarr (map level_json (up_asks u)))]"

text \<open>\<open>extra\<close>: fields between the side and the last one.\<close>

definition trade_json :: "Trade \<Rightarrow> (string \<times> jval) list \<Rightarrow> jval" where
  "trade_json t extra = Jobj
     ([(''type'', Jstr ''trade''), (''exchange'', Jstr (mf_exchange_to_string (tr_exchange t))), (''symbol'', Jstr (tr_symbol t)),
       (''price'', Jnum (show_fixed8 (tr_price t))), (''quantity'', Jnum (show_fixed8 (tr_quantity t))),
       (''timestamp'', Jnat (unat (tr_timestamp t))), (''side'', Jstr (side_to_string (if tr_is_buyer_maker t then ASK else BID)))] @
      extra @ [(''isBuyerMaker'', Jbool (tr_is_buyer_maker t))])"

definition level_finite :: "PriceLevelSnapshot \<Rightarrow> bool" where
  "level_finite l \<longleftrightarrow> is_fin (ps_price l) \<and> is_fin (ps_quantity l)"

lemma show_level_json: "show_json (level_json l) = format_level l"
  by (simp add: level_json_def format_level_def Jnat_def)

lemma show_order_book_json: "show_json (order_book_json u seqno) = format_order_book_update u seqno"
  by (simp add: order_book_json_def format_order_book_update_def comma_loop_join show_field_def quoted_def Jnat_def show_level_json comp_def)

lemma plain_exchange [simp]: "plain (mf_exchange_to_string e)"
  by (cases e) simp_all

lemma wf_level_json: "level_finite l \<Longrightarrow> wf_json (level_json l)"
  by (simp add: level_json_def level_finite_def Jnat_def)

lemma order_book_message_read:
  assumes "plain (up_symbol u)" and "\<forall>l \<in> set (up_bids u @ up_asks u). level_finite l"
  shows "json_read (format_order_book_update u seqno) = Some (order_book_json u seqno)"
proof -
  have "wf_json (order_book_json u seqno)"
    using assms wf_level_json by (simp add: order_book_json_def Jnat_def)
  from json_read_show [OF this] show ?thesis by (simp only: show_order_book_json)
qed

text \<open>
  The frontend can read an order book message and sees in it the update: type, exchange,
  symbol, time stamp, sequence number and all levels of both sides in order, each with its order count when there is one; if
  the symbol needs no escape and prices and quantities are finite.
\<close>

theorem order_book_message_readable:
  assumes "plain (up_symbol u)" and "\<forall>l \<in> set (up_bids u @ up_asks u). level_finite l"
  shows "json_read (format_order_book_update u seqno) = Some (order_book_json u seqno)"
  using assms by (rule order_book_message_read)

text \<open>Instance: an update with one bid.\<close>

theorem order_book_message_readable_witness:
  "json_read (format_order_book_update \<lparr>up_exchange = KRAKEN, up_symbol = ''XBT/USD'', up_timestamp = 7, up_update_id = 1,
      up_bids = [\<lparr>ps_price = Fin 1, ps_quantity = Fin 2, ps_order_count = 3\<rparr>], up_asks = []\<rparr> 9) =
   Some (order_book_json \<lparr>up_exchange = KRAKEN, up_symbol = ''XBT/USD'', up_timestamp = 7, up_update_id = 1,
      up_bids = [\<lparr>ps_price = Fin 1, ps_quantity = Fin 2, ps_order_count = 3\<rparr>], up_asks = []\<rparr> 9)"
  by (rule order_book_message_readable) (simp_all add: level_finite_def)

lemma show_trade_json:
  "show_json (trade_json t (if tr_trade_id t \<noteq> [] then [(''id'', Jstr (tr_trade_id t))] else [])) = format_trade t"
  by (simp add: trade_json_def format_trade_def show_field_def quoted_def Jnat_def side_to_string_def)

lemma wf_trade_json:
  assumes "plain (tr_symbol t)" and "is_fin (tr_price t)" and "is_fin (tr_quantity t)" and "list_all (\<lambda>(k, v). plain k \<and> wf_json v) extra"
  shows "wf_json (trade_json t extra)"
  using assms by (simp add: trade_json_def Jnat_def side_to_string_def)

text \<open>
  The same for a trade, whose side is \<open>sell\<close> exactly when the buyer was the maker.
\<close>

theorem trade_message_readable:
  assumes "plain (tr_symbol t)" and "plain (tr_trade_id t)" and "is_fin (tr_price t)" and "is_fin (tr_quantity t)"
  shows "json_read (format_trade t) = Some (trade_json t (if tr_trade_id t \<noteq> [] then [(''id'', Jstr (tr_trade_id t))] else []))"
proof -
  have "wf_json (trade_json t (if tr_trade_id t \<noteq> [] then [(''id'', Jstr (tr_trade_id t))] else []))"
    using assms by (intro wf_trade_json) simp_all
  from json_read_show [OF this] show ?thesis by (simp only: show_trade_json)
qed

text \<open>A concrete instance.\<close>

theorem trade_message_readable_witness:
  "json_read (format_trade \<lparr>tr_exchange = COINBASE, tr_symbol = ''BTC-USD'', tr_timestamp = 7, tr_trade_id = [], tr_price = Fin 1,
      tr_quantity = Fin 2, tr_is_buyer_maker = True\<rparr>) =
   Some (trade_json \<lparr>tr_exchange = COINBASE, tr_symbol = ''BTC-USD'', tr_timestamp = 7, tr_trade_id = [], tr_price = Fin 1,
      tr_quantity = Fin 2, tr_is_buyer_maker = True\<rparr> [])"
  using trade_message_readable [of "\<lparr>tr_exchange = COINBASE, tr_symbol = ''BTC-USD'', tr_timestamp = 7, tr_trade_id = [], tr_price = Fin 1,
      tr_quantity = Fin 2, tr_is_buyer_maker = True\<rparr>"]
  by simp

text \<open>
  Strings are not escaped: a trade whose id contains quotes puts fields of its own into the
  message, here a second price.
\<close>

theorem trade_id_injection:
  assumes "plain (tr_symbol t)" and "is_fin (tr_price t)" and "is_fin (tr_quantity t)"
    and \<open>tr_trade_id t = ''1","price":0,"x":"''\<close>
  shows "json_read (format_trade t) = Some (trade_json t [(''id'', Jstr ''1''), (''price'', Jnum ''0''), (''x'', Jstr [])])"
proof -
  let ?j = "trade_json t [(''id'', Jstr ''1''), (''price'', Jnum ''0''), (''x'', Jstr [])]"
  have "json_number ''0''" by (simp add: json_number_def is_digit_def)
  then have "wf_json ?j" using assms by (intro wf_trade_json) simp_all
  moreover have "show_json ?j = format_trade t"
    by (simp add: trade_json_def format_trade_def show_field_def quoted_def Jnat_def side_to_string_def assms(4))
  ultimately show ?thesis using json_read_show by metis
qed

text \<open>A concrete instance.\<close>

theorem trade_id_injection_witness:
  \<open>\<exists>t extra. tr_trade_id t = ''1","price":0,"x":"'' \<and> tr_price t = Fin 5 \<and> json_read (format_trade t) = Some (trade_json t extra) \<and>
     (''price'', Jnum ''0'') \<in> set extra\<close>
proof -
  let ?t = \<open>\<lparr>tr_exchange = COINBASE, tr_symbol = ''BTC-USD'', tr_timestamp = 7, tr_trade_id = ''1","price":0,"x":"'', tr_price = Fin 5,
      tr_quantity = Fin 2, tr_is_buyer_maker = True\<rparr>\<close>
  have "json_read (format_trade ?t) = Some (trade_json ?t [(''id'', Jstr ''1''), (''price'', Jnum ''0''), (''x'', Jstr [])])"
    by (rule trade_id_injection) simp_all
  then show ?thesis by (intro exI [of _ ?t] exI [of _ "[(''id'', Jstr ''1''), (''price'', Jnum ''0''), (''x'', Jstr [])]"]) simp
qed

section \<open>The other messages\<close>

definition metrics_json :: "u64 \<Rightarrow> u64 \<Rightarrow> u64 \<Rightarrow> u64 \<Rightarrow> u64 \<Rightarrow> u64 \<Rightarrow> string \<Rightarrow> u32 \<Rightarrow> jval" where
  "metrics_json p50 p95 p99 p999 msgs bytes status attempts = Jobj
     [(''type'', Jstr ''metrics''),
      (''latency'', Jobj [(''p50'', Jnat (unat p50)), (''p95'', Jnat (unat p95)), (''p99'', Jnat (unat p99)), (''p999'', Jnat (unat p999))]),
      (''throughput'', Jobj [(''messagesPerSecond'', Jnat (unat msgs)), (''bytesPerSecond'', Jnat (unat bytes))]),
      (''websocket'', Jobj [(''status'', Jstr status), (''reconnectAttempts'', Jnat (unat attempts))])]"

lemma metrics_message_readable:
  assumes "plain status"
  shows "json_read (format_metrics p50 p95 p99 p999 msgs bytes status attempts) = Some (metrics_json p50 p95 p99 p999 msgs bytes status attempts)"
proof -
  have "wf_json (metrics_json p50 p95 p99 p999 msgs bytes status attempts)"
    using assms by (simp add: metrics_json_def Jnat_def)
  moreover have "show_json (metrics_json p50 p95 p99 p999 msgs bytes status attempts) = format_metrics p50 p95 p99 p999 msgs bytes status attempts"
    by (simp add: metrics_json_def format_metrics_def show_field_def quoted_def Jnat_def)
  ultimately show ?thesis using json_read_show by metis
qed

definition stats_json :: "string \<Rightarrow> double list \<Rightarrow> u64 \<Rightarrow> jval" where
  "stats_json symbol ds timestamp = Jobj ([(''type'', Jstr ''stats''), (''symbol'', Jstr symbol)] @
     zip [''lastPrice'', ''priceChange24h'', ''priceChangePercent24h'', ''high24h'', ''low24h'', ''volume24h'', ''quoteVolume24h'']
       (map (\<lambda>d. Jnum (show_fixed8 d)) ds) @ [(''timestamp'', Jnat (unat timestamp))])"

lemma stats_message_readable:
  assumes "plain symbol" and "list_all is_fin [a, b, c, d, e, f, g]"
  shows "json_read (format_stats symbol a b c d e f g timestamp) = Some (stats_json symbol [a, b, c, d, e, f, g] timestamp)"
proof -
  have "wf_json (stats_json symbol [a, b, c, d, e, f, g] timestamp)"
    using assms by (simp add: stats_json_def Jnat_def)
  moreover have "show_json (stats_json symbol [a, b, c, d, e, f, g] timestamp) = format_stats symbol a b c d e f g timestamp"
    by (simp add: stats_json_def format_stats_def show_field_def quoted_def Jnat_def)
  ultimately show ?thesis using json_read_show by metis
qed

end
