(* ===== verification/Http_Text.thy ===== *)
theory Http_Text
  imports Json_Text
begin

text \<open>
  HTTP responses as the two REST servers write them, and how a client reads them.

  \<^item> \<open>http_head\<close> is the part of a response before its body: a status line, header fields, an empty line, each ended by \<open>crlf\<close>.
  \<^item> \<open>read_response\<close> is the client: it reads lines up to the empty one, splits every header at its first colon and
    space, and takes as many characters of body as \<open>Content-Length\<close> says, which must be all there are.
  \<^item> \<open>received\<close> is what a server makes of the bytes a client sent: the buffer has 4096 bytes, and the string ends at the first zero
    byte.
\<close>

definition crlf :: string where
  "crlf = [CHR 0x0D, CHR 0x0A]"

definition received :: "string \<Rightarrow> string" where
  "received bytes = takeWhile (\<lambda>c. c \<noteq> CHR 0x00) (take 4095 bytes)"

fun read_line :: "string \<Rightarrow> (string \<times> string) option" where
  "read_line [] = None"
| "read_line (c # s) = (if prefix crlf (c # s) then Some ([], drop 1 s) else map_option (\<lambda>(l, r). (c # l, r)) (read_line s))"

fun read_head :: "nat \<Rightarrow> string \<Rightarrow> (string list \<times> string) option" where
  "read_head 0 s = None"
| "read_head (Suc n) s = (case read_line s of None \<Rightarrow> None | Some (l, r) \<Rightarrow>
     if l = [] then Some ([], r) else map_option (\<lambda>(ls, r1). (l # ls, r1)) (read_head n r))"

definition header_field :: "string \<Rightarrow> string \<times> string" where
  "header_field l = (let name = takeWhile (\<lambda>c. c \<noteq> CHR '':'') l in (name, drop (length name + 2) l))"

definition read_response :: "string \<Rightarrow> (string \<times> (string \<times> string) list \<times> string) option" where
  "read_response s = (case read_head (length s) s of
       Some (status # hs, body) \<Rightarrow>
         (case map_of (map header_field hs) ''Content-Length'' of
            Some n \<Rightarrow> if n = show_nat (length body) then Some (status, map header_field hs, body) else None
          | None \<Rightarrow> None)
     | _ \<Rightarrow> None)"

definition http_head :: "string list \<Rightarrow> string" where
  "http_head ls = concat (map (\<lambda>l. l @ crlf) ls) @ crlf"

definition is_line :: "string \<Rightarrow> bool" where
  "is_line l \<longleftrightarrow> l \<noteq> [] \<and> CHR 0x0D \<notin> set l"

lemma read_line_crlf: "CHR 0x0D \<notin> set l \<Longrightarrow> read_line (l @ crlf @ r) = Some (l, r)"
proof (induction l)
  case Nil
  then show ?case by (simp add: crlf_def)
next
  case (Cons c l)
  then show ?case by (auto simp: crlf_def)
qed

lemma read_http_head:
  assumes "list_all is_line ls" and "length ls < n"
  shows "read_head n (http_head ls @ body) = Some (ls, body)"
  using assms
proof (induction ls arbitrary: n)
  case Nil
  then show ?case using read_line_crlf [of "[]" body] by (cases n) (auto simp: http_head_def)
next
  case (Cons l ls)
  then obtain m where n: "n = Suc m" by (cases n) auto
  have "read_line (http_head (l # ls) @ body) = Some (l, http_head ls @ body)"
    using read_line_crlf [of l "http_head ls @ body"] Cons.prems(1) by (simp add: http_head_def is_line_def)
  moreover have "l \<noteq> []" using Cons.prems(1) by (simp add: is_line_def)
  moreover have "read_head m (http_head ls @ body) = Some (ls, body)" using Cons.prems n by (intro Cons.IH) simp_all
  ultimately show ?case by (simp add: n)
qed

lemma length_http_head: "length ls < length (http_head ls @ body)"
proof -
  have "length ls \<le> length (concat (map (\<lambda>l. l @ crlf) ls))" by (induction ls) (auto simp: crlf_def)
  then show ?thesis by (simp add: http_head_def crlf_def)
qed

lemma read_http_response:
  assumes "list_all is_line (status # hs)" and "map_of (map header_field hs) ''Content-Length'' = Some (show_nat (length body))"
  shows "read_response (http_head (status # hs) @ body) = Some (status, map header_field hs, body)"
  using read_http_head [OF assms(1) length_http_head, of body body] assms(2) by (simp add: read_response_def)

lemma digits_line: "list_all is_digit ds \<Longrightarrow> CHR 0x0D \<notin> set ds"
  by (auto simp: list_all_iff is_digit_def)

lemma show_nat_line [simp]: "CHR 0x0D \<notin> set (show_nat n)"
  using show_nat_digits digits_line by blast

end
