(* ===== verification/Rest_Api_Server.thy ===== *)
theory Rest_Api_Server
  imports Http_Text Time_Utils Market_Analytics Arbitrage_Monitor
begin

text \<open>
  The class \<open>RestAPIServer\<close> of \<open>include/network/rest_api_server.hpp\<close> and \<open>src/network/rest_api_server.cpp\<close>.

  \<^item> The registered books, analytics and monitor are shared with the rest of the program: the server keeps their
    addresses, and \<open>data_sources\<close> gives the objects as they are when a request is handled.
  \<^item> The socket calls are not modelled. \<open>ra_loop_start\<close> is the beginning of the server thread, told whether the socket could
    be bound; \<open>ra_serve\<close> handles one connection.
  \<^item> \<open>data_mutex_\<close> is held in every handler, so that handlers are atomic.
\<close>

section \<open>State and life cycle\<close>

record RestAPIServer =
  ra_port :: nat
  ra_host :: string
  ra_running :: bool
  ra_start_time_ns :: u64
  ra_server_thread :: "io_thread option"
  ra_socket_open :: bool
  ra_orderbooks :: "(string, nat) omap"
  ra_analytics :: "(string, nat) omap"
  ra_arbitrage_monitor :: "nat option"

record data_sources =
  ds_book :: "nat \<Rightarrow> AggregatedOrderBook"
  ds_analytics :: "nat \<Rightarrow> MarketAnalytics"
  ds_monitor :: "nat \<Rightarrow> ArbitrageMonitor"

definition RestAPIServer_new :: "nat \<Rightarrow> string \<Rightarrow> RestAPIServer" where
  "RestAPIServer_new port host = \<lparr>ra_port = port, ra_host = host, ra_running = False, ra_start_time_ns = 0, ra_server_thread = None,
     ra_socket_open = False, ra_orderbooks = [], ra_analytics = [], ra_arbitrage_monitor = None\<rparr>"

text \<open>The new thread object takes the place of the old one.\<close>

definition ra_start :: "u64 \<Rightarrow> RestAPIServer \<Rightarrow> (bool \<times> RestAPIServer) result" where
  "ra_start now s =
     (if ra_running s then Inr (False, s)
      else if joinable (ra_server_thread s) then Inl Std_terminate
      else Inr (True, s\<lparr>ra_running := True, ra_start_time_ns := now, ra_server_thread := Some Looping\<rparr>))"

definition ra_stop :: "RestAPIServer \<Rightarrow> RestAPIServer" where
  "ra_stop s =
     (if \<not> ra_running s then s
      else s\<lparr>ra_running := False, ra_socket_open := False,
             ra_server_thread := (if joinable (ra_server_thread s) then Some Joined else ra_server_thread s)\<rparr>)"

text \<open>The destructor, and then that of the thread object.\<close>

definition ra_destroy :: "RestAPIServer \<Rightarrow> unit result" where
  "ra_destroy s = (let s1 = (if ra_running s then ra_stop s else s)
     in if joinable (ra_server_thread s1) then Inl Std_terminate else Inr ())"

text \<open>What the new thread does before its loop: without a listening socket it resets the flag and returns.\<close>

definition ra_loop_start :: "bool \<Rightarrow> bool \<Rightarrow> RestAPIServer \<Rightarrow> RestAPIServer" where
  "ra_loop_start created listening s =
     (if created \<and> listening then s\<lparr>ra_socket_open := True\<rparr>
      else s\<lparr>ra_running := False, ra_socket_open := created, ra_server_thread := Some Left_loop\<rparr>)"


definition register_analytics :: "string \<Rightarrow> nat \<Rightarrow> RestAPIServer \<Rightarrow> RestAPIServer" where
  "register_analytics symbol analytics s = s\<lparr>ra_analytics := omap_put symbol analytics (ra_analytics s)\<rparr>"

definition register_arbitrage_monitor :: "nat option \<Rightarrow> RestAPIServer \<Rightarrow> RestAPIServer" where
  "register_arbitrage_monitor monitor s = s\<lparr>ra_arbitrage_monitor := monitor\<rparr>"

section \<open>Handlers\<close>

fun exchange_name_str :: "Exchange \<Rightarrow> string" where
  "exchange_name_str BINANCE = ''Binance''"
| "exchange_name_str COINBASE = ''Coinbase''"
| "exchange_name_str KRAKEN = ''Kraken''"
| "exchange_name_str UNKNOWN = ''Unknown''"

definition ra_level :: "AggregatedPriceLevel \<Rightarrow> string" where
  \<open>ra_level l = ''['' @ show_fixed8 (al_price l) @ '','' @ show_fixed8 (al_quantity l) @ '',"'' @ exchange_name_str (al_exchange l) @ ''"]''\<close>

definition handle_orderbook :: "data_sources \<Rightarrow> u64 \<Rightarrow> string \<Rightarrow> string \<Rightarrow> RestAPIServer \<Rightarrow> string" where
  \<open>handle_orderbook ds now symbol query s = (case map_of (ra_orderbooks s) symbol of
       None \<Rightarrow> ''{"error":"Symbol not found"}''
     | Some b \<Rightarrow>
         let snapshot = agg_get_snapshot 10 now (ds_book ds b)
         in ''{"symbol":"'' @ symbol @ ''",'' @ ''"timestamp":'' @ show_nat (unat (as_timestamp_ns snapshot)) @ '','' @
            (case as_get_mid_price snapshot of None \<Rightarrow> [] | Some mid \<Rightarrow> ''"mid_price":'' @ show_fixed8 mid @ '','') @
            (case as_get_spread snapshot of None \<Rightarrow> [] | Some spread \<Rightarrow> ''"spread":'' @ show_fixed8 spread @ '','') @
            ''"bids":['' @ comma_loop ra_level 0 (as_bids snapshot) @ ''],'' @
            ''"asks":['' @ comma_loop ra_level 0 (as_asks snapshot) @ '']}'')\<close>

definition handle_analytics :: "data_sources \<Rightarrow> string \<Rightarrow> RestAPIServer \<Rightarrow> string" where
  \<open>handle_analytics ds symbol s = (case map_of (ra_analytics s) symbol of
       None \<Rightarrow> ''{"error":"Symbol not found"}''
     | Some a \<Rightarrow>
         let m = ds_analytics ds a; stats = calculate_stats (ma_spread m)
         in ''{"symbol":"'' @ symbol @ ''",'' @ ''"vwap":'' @ show_fixed 2 (get_vwap (ma_vwap m)) @ '','' @
            ''"twap":'' @ show_fixed 2 (get_twap (ma_twap m)) @ '','' @ ''"imbalance":'' @ show_fixed 4 (get_imbalance (ma_imbalance m)) @ '','' @
            ''"spread":{'' @ ''"current":'' @ show_fixed 2 (ss_current_spread stats) @ '','' @
            ''"average":'' @ show_fixed 2 (ss_average_spread stats) @ '','' @ ''"min":'' @ show_fixed 2 (ss_min_spread stats) @ '','' @
            ''"max":'' @ show_fixed 2 (ss_max_spread stats) @ ''}}'')\<close>

definition ra_opportunity :: "TrackedArbitrage \<Rightarrow> string" where
  \<open>ra_opportunity t = (let opp = ta_opportunity t in
     ''{'' @ ''"symbol":"'' @ ao_symbol opp @ ''",'' @ ''"buy_exchange":"'' @ exchange_name_str (ao_buy_exchange opp) @ ''",'' @
     ''"sell_exchange":"'' @ exchange_name_str (ao_sell_exchange opp) @ ''",'' @
     ''"profit_percent":'' @ show_fixed 2 (ao_profit_percentage opp) @ ''}'')\<close>

definition handle_arbitrage :: "data_sources \<Rightarrow> RestAPIServer \<Rightarrow> string" where
  \<open>handle_arbitrage ds s = (case ra_arbitrage_monitor s of
       None \<Rightarrow> ''{"error":"Arbitrage monitor not registered"}''
     | Some m \<Rightarrow> ''{"opportunities":['' @ comma_loop ra_opportunity 0 (get_active_opportunities (ds_monitor ds m)) @ '']}'')\<close>

definition handle_health :: "u64 \<Rightarrow> RestAPIServer \<Rightarrow> string" where
  \<open>handle_health now s = (let uptime_ns = now - ra_start_time_ns s; uptime_sec = uptime_ns div 1000000000
     in ''{"status":"healthy",'' @ ''"uptime_seconds":'' @ show_nat (unat uptime_sec) @ ''}'')\<close>

definition handle_status :: "RestAPIServer \<Rightarrow> string" where
  \<open>handle_status s = ''{"orderbooks":'' @ show_nat (length (ra_orderbooks s)) @ '','' @ ''"analytics":'' @ show_nat (length (ra_analytics s)) @ '','' @
     ''"arbitrage_enabled":'' @ (if ra_arbitrage_monitor s = None then ''false'' else ''true'') @ ''}''\<close>

definition create_http_response :: "nat \<Rightarrow> string \<Rightarrow> string \<Rightarrow> string" where
  "create_http_response status_code body content_type =
     ''HTTP/1.1 '' @ show_nat status_code @ '' '' @ (if status_code = 200 then ''OK'' else ''Error'') @ crlf @
     ''Content-Type: '' @ content_type @ crlf @
     ''Content-Length: '' @ show_nat (length body) @ crlf @
     ''Access-Control-Allow-Origin: *'' @ crlf @
     ''Connection: close'' @ crlf @
     crlf @
     body"

definition create_error_response :: "nat \<Rightarrow> string \<Rightarrow> string" where
  \<open>create_error_response status_code message =
     create_http_response status_code (''{"error":"'' @ message @ ''","code":'' @ show_nat status_code @ ''}'') ''application/json''\<close>

definition parse_url :: "string \<Rightarrow> string \<times> string" where
  "parse_url url = (case str_find ''?'' url 0 of
       Some query_pos \<Rightarrow> (substr url 0 (Some query_pos), substr url (query_pos + 1) None)
     | None \<Rightarrow> (url, []))"

definition ra_handle_request :: "data_sources \<Rightarrow> u64 \<Rightarrow> string \<Rightarrow> RestAPIServer \<Rightarrow> string" where
  "ra_handle_request ds now request s =
     (let (verb, r1) = token request; (url, r2) = token r1 in
      if verb \<noteq> ''GET'' then create_error_response 405 ''Method Not Allowed''
      else let (path, query) = parse_url url in
        if path = ''/api/v1/health'' then create_http_response 200 (handle_health now s) ''application/json''
        else if path = ''/api/v1/status'' then create_http_response 200 (handle_status s) ''application/json''
        else if path = ''/api/v1/arbitrage'' then create_http_response 200 (handle_arbitrage ds s) ''application/json''
        else if str_starts ''/api/v1/orderbook/'' path
          then create_http_response 200 (handle_orderbook ds now (substr path 18 None) query s) ''application/json''
        else if str_starts ''/api/v1/analytics/'' path
          then create_http_response 200 (handle_analytics ds (substr path 18 None) s) ''application/json''
        else create_error_response 404 ''Not Found'')"

text \<open>One connection: what is sent back for the bytes that arrived, if any.\<close>

definition ra_serve :: "data_sources \<Rightarrow> u64 \<Rightarrow> string \<Rightarrow> RestAPIServer \<Rightarrow> string option" where
  "ra_serve ds now bytes s = (if bytes = [] then None else Some (ra_handle_request ds now (received bytes) s))"

text \<open>The loop of the server thread: an error of \<open>accept\<close> (\<open>None\<close>) is passed over. \<open>now k\<close>: the clock at the \<open>k\<close>-th turn.\<close>

fun ra_server_loop :: "data_sources \<Rightarrow> (nat \<Rightarrow> u64) \<Rightarrow> nat \<Rightarrow> string option list \<Rightarrow> RestAPIServer \<Rightarrow> string option list" where
  "ra_server_loop ds now k [] s = []"
| "ra_server_loop ds now k (client # clients) s =
     (if \<not> ra_running s then []
      else case client of
        None \<Rightarrow> ra_server_loop ds now (Suc k) clients s
      | Some bytes \<Rightarrow> ra_serve ds (now k) bytes s # ra_server_loop ds now (Suc k) clients s)"

section \<open>Responses\<close>

lemma read_http_created:
  "read_response (create_http_response code body ''application/json'') =
     Some (''HTTP/1.1 '' @ show_nat code @ (if code = 200 then '' OK'' else '' Error''),
       [(''Content-Type'', ''application/json''), (''Content-Length'', show_nat (length body)),
        (''Access-Control-Allow-Origin'', ''*''), (''Connection'', ''close'')], body)"
proof -
  let ?status = "''HTTP/1.1 '' @ show_nat code @ (if code = 200 then '' OK'' else '' Error'')"
  let ?hs = "[''Content-Type: application/json'', ''Content-Length: '' @ show_nat (length body), ''Access-Control-Allow-Origin: *'', ''Connection: close'']"
  have h: "map header_field ?hs = [(''Content-Type'', ''application/json''), (''Content-Length'', show_nat (length body)),
      (''Access-Control-Allow-Origin'', ''*''), (''Connection'', ''close'')]"
    by (simp add: header_field_def)
  have "create_http_response code body ''application/json'' = http_head (?status # ?hs) @ body"
    by (simp add: create_http_response_def http_head_def)
  moreover have "list_all is_line (?status # ?hs)" by (simp add: is_line_def)
  moreover have "map_of (map header_field ?hs) ''Content-Length'' = Some (show_nat (length body))" unfolding h by simp
  ultimately show ?thesis using read_http_response h by metis
qed

lemma handle_request_created:
  "\<exists>code body. ra_handle_request ds now request s = create_http_response code body ''application/json'' \<and>
     (code = 200 \<or> code = 404 \<or> code = 405) \<and> (code = 405 \<longleftrightarrow> fst (token request) \<noteq> ''GET'')"
proof -
  obtain verb r1 where t: "token request = (verb, r1)" by fastforce
  obtain url r2 where u: "token r1 = (url, r2)" by fastforce
  obtain path query where p: "parse_url url = (path, query)" by fastforce
  define P where "P r \<longleftrightarrow> (\<exists>code body. r = create_http_response code body ''application/json'' \<and> (code = 200 \<or> code = 404))" for r
  have ok: "P (create_http_response 200 body ''application/json'')" for body unfolding P_def by blast
  have nf: "P (create_error_response 404 m)" for m unfolding P_def create_error_response_def by blast
  show ?thesis
  proof (cases "verb = ''GET''")
    case True
    have "P (ra_handle_request ds now request s)"
      unfolding ra_handle_request_def t u p prod.case Let_def True by (simp add: ok nf)
    then show ?thesis unfolding P_def t True by auto
  next
    case False
    then have "ra_handle_request ds now request s = create_error_response 405 ''Method Not Allowed''"
      by (simp add: ra_handle_request_def t u)
    then show ?thesis using False unfolding create_error_response_def t by auto
  qed
qed

text \<open>
  C27. Whatever bytes arrive on a connection, the server sends nothing, when there are none, or one
  well-formed HTTP response whose \<open>Content-Length\<close> is the length of its body; its status is 405 exactly for a request other than
  \<open>GET\<close>, and 200 or 404 otherwise.
\<close>

theorem rest_response_wellformed:
  "case ra_serve ds now bytes s of
     None \<Rightarrow> bytes = []
   | Some response \<Rightarrow> bytes \<noteq> [] \<and> (\<exists>code body. (code = (200::nat) \<or> code = 404 \<or> code = 405) \<and>
       (code = 405 \<longleftrightarrow> fst (token (received bytes)) \<noteq> ''GET'') \<and>
       read_response response = Some (''HTTP/1.1 '' @ show_nat code @ (if code = 200 then '' OK'' else '' Error''),
         [(''Content-Type'', ''application/json''), (''Content-Length'', show_nat (length body)),
          (''Access-Control-Allow-Origin'', ''*''), (''Connection'', ''close'')], body))"
proof (cases "bytes = []")
  case False
  obtain code body where c: "ra_handle_request ds now (received bytes) s = create_http_response code body ''application/json''"
    "code = 200 \<or> code = 404 \<or> code = 405" "code = 405 \<longleftrightarrow> fst (token (received bytes)) \<noteq> ''GET''"
    using handle_request_created [of ds now "received bytes" s] by metis
  then show ?thesis using False read_http_created [of code body] by (simp only: ra_serve_def if_False option.case) blast
qed (simp add: ra_serve_def)

section \<open>The document of a book\<close>





lemma plain_name [simp]: "plain (exchange_name_str e)"
  by (cases e) simp_all









text \<open>
  A symbol that is not registered gets an error document under status 200, where an unknown path gets 404.
\<close>

theorem rest_unknown_symbol:
  assumes "map_of (ra_orderbooks s) symbol = None"
  shows \<open>handle_orderbook ds now symbol query s = ''{"error":"Symbol not found"}''\<close>
  using assms by (simp add: handle_orderbook_def)

section \<open>Life cycle\<close>

inductive ra_reachable :: "RestAPIServer \<Rightarrow> bool" where
  ra_new: "ra_reachable (RestAPIServer_new port host)"
| ra_started: "ra_reachable s \<Longrightarrow> ra_start now s = Inr (r, s') \<Longrightarrow> ra_reachable s'"
| ra_loop: "ra_reachable s \<Longrightarrow> ra_server_thread s = Some Looping \<Longrightarrow> ra_reachable (ra_loop_start created listening s)"
| ra_stopped: "ra_reachable s \<Longrightarrow> ra_reachable (ra_stop s)"

lemma ra_running_thread: "ra_reachable s \<Longrightarrow> ra_running s \<longleftrightarrow> ra_server_thread s = Some Looping"
  by (induction rule: ra_reachable.induct)
    (auto simp: RestAPIServer_new_def ra_start_def ra_loop_start_def ra_stop_def joinable_def split: if_splits)

text \<open>
  When the port is taken the server thread ends by itself, and nothing joins it any more: \<open>stop\<close> sees
  the cleared flag and returns, and a later \<open>start\<close> as well as the destructor destroy a joinable thread, which ends the program. In
  every other reachable state both are safe.
\<close>

theorem rest_bind_failure_terminates:
  assumes "ra_reachable s"
  shows "(ra_destroy s = Inl Std_terminate \<longleftrightarrow> ra_server_thread s = Some Left_loop) \<and>
    (ra_start now s = Inl Std_terminate \<longleftrightarrow> ra_server_thread s = Some Left_loop) \<and>
    (ra_server_thread s = Some Left_loop \<longrightarrow> ra_stop s = s) \<and>
    (ra_server_thread s = Some Looping \<longrightarrow> ra_server_thread (ra_loop_start created False s) = Some Left_loop)"
  using ra_running_thread [OF assms] by (auto simp: ra_destroy_def ra_start_def ra_stop_def joinable_def ra_loop_start_def Let_def)

text \<open>Instance: a server whose port is taken.\<close>

theorem rest_bind_failure_terminates_witness:
  "\<exists>s. ra_reachable s \<and> ra_server_thread s = Some Left_loop \<and> ra_destroy s = Inl Std_terminate \<and> ra_start 9 s = Inl Std_terminate"
proof -
  let ?s = "(RestAPIServer_new 8081 ''0.0.0.0'')\<lparr>ra_running := True, ra_start_time_ns := 7, ra_server_thread := Some Looping\<rparr>"
  have "ra_start 7 (RestAPIServer_new 8081 ''0.0.0.0'') = Inr (True, ?s)" by (simp add: ra_start_def RestAPIServer_new_def joinable_def)
  from ra_started [OF ra_new this] have r: "ra_reachable ?s" .
  have t: "ra_server_thread (ra_loop_start True False ?s) = Some Left_loop" by (simp add: ra_loop_start_def)
  have l: "ra_reachable (ra_loop_start True False ?s)" by (rule ra_loop [OF r]) simp
  from rest_bind_failure_terminates [OF l, of 9] l t show ?thesis by blast
qed

end
