(* ===== verification/Frontend_Rest_Server.thy ===== *)
theory Frontend_Rest_Server
  imports Http_Text
begin

text \<open>
  The class \<open>FrontendRestServer\<close> of \<open>include/network/frontend_rest_server.hpp\<close> and \<open>src/network/frontend_rest_server.cpp\<close>.

  \<^item> The two handlers are functions the program installs; they are fields of the state.
  \<^item> The socket calls are not modelled: \<open>fr_start\<close> is told whether they succeed, \<open>fr_accept_fails\<close> is the end of the loop at an
    error of \<open>accept\<close>, after which no request is answered (\<open>fr_loop_serves\<close>), and what \<open>send_response\<close> sends is the result of \<open>fr_handle_request\<close>.
\<close>

section \<open>State and life cycle\<close>

record FrontendRestServer =
  fr_port :: nat
  fr_running :: bool
  fr_server_thread :: "io_thread option"
  fr_socket_open :: bool
  fr_orderbook_handler :: "(string \<Rightarrow> string) option"
  fr_symbols_handler :: "(string \<Rightarrow> string) option"

definition FrontendRestServer_new :: "nat \<Rightarrow> FrontendRestServer" where
  "FrontendRestServer_new port = \<lparr>fr_port = port, fr_running = False, fr_server_thread = None, fr_socket_open = False,
     fr_orderbook_handler = None, fr_symbols_handler = None\<rparr>"

definition fr_start :: "bool \<Rightarrow> FrontendRestServer \<Rightarrow> (bool \<times> FrontendRestServer) result" where
  "fr_start listening s =
     (if fr_running s then Inr (False, s)
      else if \<not> listening then Inr (False, s\<lparr>fr_running := False, fr_socket_open := False\<rparr>)
      else if joinable (fr_server_thread s) then Inl Std_terminate
      else Inr (True, s\<lparr>fr_running := True, fr_socket_open := True, fr_server_thread := Some Looping\<rparr>))"

definition fr_stop :: "FrontendRestServer \<Rightarrow> FrontendRestServer" where
  "fr_stop s =
     (if \<not> fr_running s then s
      else s\<lparr>fr_running := False, fr_socket_open := False,
             fr_server_thread := (if joinable (fr_server_thread s) then Some Joined else fr_server_thread s)\<rparr>)"

definition fr_destroy :: "FrontendRestServer \<Rightarrow> unit result" where
  "fr_destroy s = (let s1 = (if fr_running s then fr_stop s else s)
     in if joinable (fr_server_thread s1) then Inl Std_terminate else Inr ())"

definition fr_accept_fails :: "FrontendRestServer \<Rightarrow> FrontendRestServer" where
  "fr_accept_fails s = s\<lparr>fr_server_thread := Some Left_loop\<rparr>"

definition set_orderbook_handler :: "(string \<Rightarrow> string) option \<Rightarrow> FrontendRestServer \<Rightarrow> FrontendRestServer" where
  "set_orderbook_handler handler s = s\<lparr>fr_orderbook_handler := handler\<rparr>"

definition set_symbols_handler :: "(string \<Rightarrow> string) option \<Rightarrow> FrontendRestServer \<Rightarrow> FrontendRestServer" where
  "set_symbols_handler handler s = s\<lparr>fr_symbols_handler := handler\<rparr>"

section \<open>Requests\<close>

definition parse_request_path :: "string \<Rightarrow> string" where
  "parse_request_path request =
     (case (case str_find ''GET '' request 0 of None \<Rightarrow> str_find ''POST '' request 0 | r \<Rightarrow> r) of
        None \<Rightarrow> []
      | Some start0 \<Rightarrow>
          let start = start0 + 4
          in case str_find '' '' request start of
               None \<Rightarrow> []
             | Some end \<Rightarrow>
                 let path = substr request start (Some (end - start))
                 in case str_find ''?'' path 0 of None \<Rightarrow> path | Some query_pos \<Rightarrow> substr path 0 (Some query_pos))"

definition get_cors_headers :: string where
  "get_cors_headers = ''Access-Control-Allow-Origin: *'' @ crlf @ ''Access-Control-Allow-Methods: GET, POST, OPTIONS'' @ crlf @
     ''Access-Control-Allow-Headers: Content-Type'' @ crlf"

definition status_name :: "nat \<Rightarrow> string" where
  "status_name status_code = (if status_code = 200 then ''OK'' else if status_code = 404 then ''Not Found''
     else if status_code = 500 then ''Internal Server Error'' else ''Unknown'')"

definition send_response :: "nat \<Rightarrow> string \<Rightarrow> string \<Rightarrow> string" where
  "send_response status_code content_type body =
     ''HTTP/1.1 '' @ show_nat status_code @ '' '' @ status_name status_code @ crlf @
     ''Content-Type: '' @ content_type @ crlf @ ''Content-Length: '' @ show_nat (length body) @ crlf @
     get_cors_headers @ ''Connection: close'' @ crlf @ crlf @ body"

definition fr_handle_request :: "string \<Rightarrow> FrontendRestServer \<Rightarrow> string" where
  \<open>fr_handle_request request s =
     (let path = parse_request_path request in
      if path = ''/api/v1/health''
      then send_response 200 ''application/json'' ''{"status":"healthy","service":"crypto-orderbook-engine"}''
      else if path = ''/api/v1/symbols''
      then (case fr_symbols_handler s of
              Some h \<Rightarrow> send_response 200 ''application/json'' (h [])
            | None \<Rightarrow> send_response 200 ''application/json'' ''{"symbols":["BTC-USD","ETH-USD"]}'')
      else if str_starts ''/api/v1/orderbook/'' path
      then (case fr_orderbook_handler s of
              Some h \<Rightarrow> send_response 200 ''application/json'' (h (substr path 18 None))
            | None \<Rightarrow> send_response 500 ''application/json'' ''{"error":"Order book handler not configured"}'')
      else send_response 404 ''application/json'' ''{"error":"Endpoint not found"}'')\<close>

text \<open>One connection: what is sent back for the bytes that arrived, if any.\<close>

definition fr_serve :: "string \<Rightarrow> FrontendRestServer \<Rightarrow> string option" where
  "fr_serve bytes s = (if bytes = [] then None else Some (fr_handle_request (received bytes) s))"

text \<open>The loop of the server thread, for what \<open>accept\<close> returns one time after the other (\<open>None\<close>: an error), and then waits.\<close>

fun fr_server_loop :: "string option list \<Rightarrow> FrontendRestServer \<Rightarrow> string option list \<times> FrontendRestServer" where
  "fr_server_loop [] s = ([], if fr_running s then s else s\<lparr>fr_server_thread := Some Left_loop\<rparr>)"
| "fr_server_loop (client # clients) s =
     (if \<not> fr_running s then ([], s\<lparr>fr_server_thread := Some Left_loop\<rparr>)
      else case client of
        None \<Rightarrow> ([], fr_accept_fails s)
      | Some bytes \<Rightarrow> let (answers, s1) = fr_server_loop clients s in (fr_serve bytes s # answers, s1))"

lemma fr_loop_serves:
  assumes "fr_running s"
  shows "fr_server_loop clients s = (map (\<lambda>client. fr_serve (the client) s) (takeWhile (\<lambda>client. client \<noteq> None) clients),
    if None \<in> set clients then fr_accept_fails s else s)"
  using assms by (induction clients) (auto split: option.split)

section \<open>Responses\<close>

definition response_fields :: "string \<Rightarrow> (string \<times> string) list" where
  "response_fields body = [(''Content-Type'', ''application/json''), (''Content-Length'', show_nat (length body)),
     (''Access-Control-Allow-Origin'', ''*''), (''Access-Control-Allow-Methods'', ''GET, POST, OPTIONS''),
     (''Access-Control-Allow-Headers'', ''Content-Type''), (''Connection'', ''close'')]"

lemma read_sent:
  "read_response (send_response code ''application/json'' body) =
     Some (''HTTP/1.1 '' @ show_nat code @ '' '' @ status_name code, response_fields body, body)"
proof -
  let ?status = "''HTTP/1.1 '' @ show_nat code @ '' '' @ status_name code"
  let ?hs = "[''Content-Type: application/json'', ''Content-Length: '' @ show_nat (length body), ''Access-Control-Allow-Origin: *'',
    ''Access-Control-Allow-Methods: GET, POST, OPTIONS'', ''Access-Control-Allow-Headers: Content-Type'', ''Connection: close'']"
  have h: "map header_field ?hs = response_fields body"
    by (simp add: header_field_def response_fields_def)
  have "send_response code ''application/json'' body = http_head (?status # ?hs) @ body"
    by (simp add: send_response_def http_head_def get_cors_headers_def)
  moreover have "list_all is_line (?status # ?hs)" by (simp add: is_line_def status_name_def)
  moreover have "map_of (map header_field ?hs) ''Content-Length'' = Some (show_nat (length body))" unfolding h by (simp add: response_fields_def)
  ultimately show ?thesis using read_http_response h by metis
qed

lemma parse_get_path:
  assumes "CHR '' '' \<notin> set path" and "CHR ''?'' \<notin> set path" and "CHR '' '' \<notin> set query" and "query = [] \<or> hd query = CHR ''?''"
  shows "parse_request_path (''GET '' @ path @ query @ '' '' @ rest) = path"
proof -
  let ?r = "''GET '' @ (path @ query) @ CHR '' '' # rest"
  have g: "str_find ''GET '' ?r 0 = Some 0" by (simp add: str_find_Some)
  have "CHR '' '' \<notin> set (path @ query)" using assms by simp
  have "length ''GET '' = 4" by simp
  from find_char_append [OF \<open>CHR '' '' \<notin> set (path @ query)\<close>, of "''GET ''" rest, unfolded this]
  have e: "str_find '' '' ?r 4 = Some (4 + length (path @ query))" .
  have p: "substr ?r 4 (Some (4 + length (path @ query) - 4)) = path @ query" by (simp add: substr_def)
  have q: "(case str_find ''?'' (path @ query) 0 of None \<Rightarrow> path @ query | Some query_pos \<Rightarrow> substr (path @ query) 0 (Some query_pos)) = path"
  proof (cases query)
    case Nil
    then show ?thesis using find_char_none [OF assms(2)] by simp
  next
    case (Cons c r)
    then show ?thesis using assms(4) find_char_append [OF assms(2), of "[]" r] by (simp add: substr_def)
  qed
  have "parse_request_path ?r = path" unfolding parse_request_path_def g option.case Let_def add_0 e p q ..
  then show ?thesis by simp
qed

text \<open>
  A \<open>GET\<close> request, with or without a query string, is answered by its path alone with one well-formed HTTP
  response of the right length: health and symbols with 200, a book with what the installed handler says for the symbol
  or 500 when there is none, anything else with 404.
\<close>

theorem frontend_rest_routes:
  assumes "CHR '' '' \<notin> set path" and "CHR ''?'' \<notin> set path" and "CHR '' '' \<notin> set query" and "query = [] \<or> hd query = CHR ''?''"
  shows \<open>\<exists>code body. read_response (fr_handle_request (''GET '' @ path @ query @ '' '' @ rest) s) =
      Some (''HTTP/1.1 '' @ show_nat code @ '' '' @ status_name code, response_fields body, body) \<and>
    (code, body) =
      (if path = ''/api/v1/health'' then (200, ''{"status":"healthy","service":"crypto-orderbook-engine"}'')
       else if path = ''/api/v1/symbols''
       then (200, case fr_symbols_handler s of Some h \<Rightarrow> h [] | None \<Rightarrow> ''{"symbols":["BTC-USD","ETH-USD"]}'')
       else if prefix ''/api/v1/orderbook/'' path
       then (case fr_orderbook_handler s of Some h \<Rightarrow> (200, h (drop 18 path)) | None \<Rightarrow> (500, ''{"error":"Order book handler not configured"}''))
       else (404, ''{"error":"Endpoint not found"}''))\<close>
proof -
  define P where "P r c \<longleftrightarrow> (\<exists>code body. read_response r =
      Some (''HTTP/1.1 '' @ show_nat code @ '' '' @ status_name code, response_fields body, body) \<and> (code, body) = c)" for r c
  have sent: "P (send_response code ''application/json'' body) (code, body)" for code body
    unfolding P_def using read_sent by blast
  show ?thesis
    unfolding fr_handle_request_def parse_get_path [OF assms] Let_def P_def [symmetric]
    by (auto simp: sent substr_def split: option.splits)
qed

text \<open>Instance: the book of a symbol, with a query and no handler.\<close>

theorem frontend_rest_routes_witness:
  \<open>\<exists>body. read_response (fr_handle_request (''GET '' @ ''/api/v1/orderbook/BTC'' @ ''?depth=5'' @ '' '' @ ''HTTP/1.1'') (FrontendRestServer_new 8080)) =
     Some (''HTTP/1.1 '' @ show_nat 500 @ '' '' @ status_name 500, response_fields body, body)\<close>
  using frontend_rest_routes [of "''/api/v1/orderbook/BTC''" "''?depth=5''" "''HTTP/1.1''" "FrontendRestServer_new 8080"]
  by (simp add: FrontendRestServer_new_def)

text \<open>
  A \<open>POST\<close> request is never routed, although the code looks for it and the CORS headers allow it: four
  characters are skipped where \<open>POST\<close> and its space are five, so that the path is empty and the answer 404.
\<close>

theorem frontend_post_not_found:
  assumes "str_find ''GET '' request 0 = None" and "str_find ''POST '' request 0 = Some j"
  shows \<open>read_response (fr_handle_request request s) = Some (''HTTP/1.1 '' @ show_nat 404 @ '' '' @ status_name 404,
      response_fields ''{"error":"Endpoint not found"}'', ''{"error":"Endpoint not found"}'')\<close>
proof -
  obtain r where r: "drop j request = ''POST '' @ r" using assms(2) by (auto simp: str_find_Some prefix_def)
  have "drop 4 (drop j request) = CHR '' '' # r" unfolding r by simp
  then have "drop (j + 4) request = CHR '' '' # r" by (simp only: drop_drop add.commute)
  moreover have "j + 4 \<le> length request" using arg_cong [OF r, of length] by simp
  ultimately have e: "str_find '' '' request (j + 4) = Some (j + 4)" by (simp add: str_find_Some)
  have "str_find ''?'' [] 0 = None" by (simp add: str_find_None)
  then have "parse_request_path request = []"
    unfolding parse_request_path_def assms option.case Let_def e by (simp add: substr_def)
  then show ?thesis using read_sent [of 404] by (simp add: fr_handle_request_def)
qed

text \<open>Instance: a health check by \<open>POST\<close>.\<close>

theorem frontend_post_not_found_witness:
  \<open>read_response (fr_handle_request ''POST /api/v1/health HTTP/1.1'' (FrontendRestServer_new 8081)) =
     Some (''HTTP/1.1 '' @ show_nat 404 @ '' '' @ status_name 404, response_fields ''{"error":"Endpoint not found"}'', ''{"error":"Endpoint not found"}'')\<close>
  by (rule frontend_post_not_found [where j = 0]) (simp_all add: str_find_def)

section \<open>Life cycle\<close>

inductive fr_reachable :: "FrontendRestServer \<Rightarrow> bool" where
  fr_new: "fr_reachable (FrontendRestServer_new port)"
| fr_started: "fr_reachable s \<Longrightarrow> fr_start listening s = Inr (r, s') \<Longrightarrow> fr_reachable s'"
| fr_stopped: "fr_reachable s \<Longrightarrow> fr_reachable (fr_stop s)"
| fr_accept: "fr_reachable s \<Longrightarrow> fr_server_thread s = Some Looping \<Longrightarrow> fr_reachable (fr_accept_fails s)"
| fr_orderbook: "fr_reachable s \<Longrightarrow> fr_reachable (set_orderbook_handler h s)"
| fr_symbols: "fr_reachable s \<Longrightarrow> fr_reachable (set_symbols_handler h s)"

lemma fr_running_joinable: "fr_reachable s \<Longrightarrow> fr_running s \<longleftrightarrow> joinable (fr_server_thread s)"
  by (induction rule: fr_reachable.induct)
    (auto simp: FrontendRestServer_new_def fr_start_def fr_accept_fails_def fr_stop_def joinable_def set_orderbook_handler_def
      set_symbols_handler_def split: if_splits)

text \<open>
  The frontend server joins its thread in every case, also when the accept loop has ended by itself:
  in no reachable state do \<open>start\<close> or the destructor destroy a joinable thread, and after \<open>stop\<close> no thread runs.
\<close>

theorem frontend_rest_no_terminate:
  assumes "fr_reachable s"
  shows "fr_destroy s = Inr () \<and> (\<exists>r s'. fr_start listening s = Inr (r, s')) \<and> \<not> joinable (fr_server_thread (fr_stop s))"
  using fr_running_joinable [OF assms] by (auto simp: fr_destroy_def fr_start_def fr_stop_def joinable_def Let_def)

text \<open>A concrete instance.\<close>

theorem frontend_rest_no_terminate_witness: "fr_reachable (FrontendRestServer_new 8081) \<and> fr_destroy (FrontendRestServer_new 8081) = Inr ()"
  using frontend_rest_no_terminate [OF fr_new, of 8081] fr_new by blast

end
