(* ===== verification/Websocket_Server.thy ===== *)
theory Websocket_Server
  imports Json_Text Aggregated_Order_Book Market_Analytics
begin

text \<open>
  The class \<open>WebSocketServer\<close> of \<open>include/network/websocket_server.hpp\<close> and \<open>src/network/websocket_server.cpp\<close>.

  \<^item> A connection handle is a number. What \<open>websocketpp\<close> does is an argument: whether \<open>listen\<close>, \<open>stop_listening\<close> or the closing of a
    connection throws. A function returns the messages it hands to \<open>send\<close>, each with its connection; a failing \<open>send\<close> is only logged.
  \<^item> Parsing a client's message takes only substrings within it, so that the handler for exceptions in \<open>on_message\<close> never runs.
  \<^item> \<open>connections_mutex_\<close> is held in every handler, so that they are atomic.
\<close>

record ClientSubscription =
  cs_symbols :: "string set"
  cs_subscribe_orderbook :: bool
  cs_subscribe_trades :: bool
  cs_subscribe_analytics :: bool

definition ClientSubscription_default :: ClientSubscription where
  "ClientSubscription_default = \<lparr>cs_symbols = {}, cs_subscribe_orderbook = True, cs_subscribe_trades = False, cs_subscribe_analytics = False\<rparr>"

record WebSocketServer =
  wv_port :: nat
  wv_host :: string
  wv_running :: bool
  wv_io_thread :: "io_thread option"
  wv_connections :: "(nat, ClientSubscription) omap"

definition WebSocketServer_new :: "nat \<Rightarrow> string \<Rightarrow> WebSocketServer" where
  "WebSocketServer_new port host = \<lparr>wv_port = port, wv_host = host, wv_running = False, wv_io_thread = None, wv_connections = []\<rparr>"

section \<open>Life cycle\<close>

definition wv_start :: "bool \<Rightarrow> WebSocketServer \<Rightarrow> (bool \<times> WebSocketServer) result" where
  "wv_start listening s =
     (if wv_running s then Inr (False, s)
      else if \<not> listening then Inr (False, s\<lparr>wv_running := False\<rparr>)
      else if joinable (wv_io_thread s) then Inl Std_terminate
      else Inr (True, s\<lparr>wv_running := True, wv_io_thread := Some Looping\<rparr>))"

text \<open>The first call that throws ends the \<open>try\<close> block: what comes after it does not happen.\<close>

definition wv_stop :: "bool \<Rightarrow> (nat \<Rightarrow> bool) \<Rightarrow> WebSocketServer \<Rightarrow> WebSocketServer" where
  "wv_stop stop_listening_ok close_ok s =
     (if \<not> wv_running s then s
      else let s1 = s\<lparr>wv_running := False\<rparr>
        in if \<not> stop_listening_ok then s1
           else if \<exists>(hdl, sub) \<in> set (wv_connections s). \<not> close_ok hdl then s1
           else s1\<lparr>wv_connections := [], wv_io_thread := (if joinable (wv_io_thread s) then Some Joined else wv_io_thread s)\<rparr>)"

definition wv_destroy :: "bool \<Rightarrow> (nat \<Rightarrow> bool) \<Rightarrow> WebSocketServer \<Rightarrow> unit result" where
  "wv_destroy stop_listening_ok close_ok s = (let s1 = (if wv_running s then wv_stop stop_listening_ok close_ok s else s)
     in if joinable (wv_io_thread s1) then Inl Std_terminate else Inr ())"

section \<open>Messages\<close>

fun exchange_name :: "Exchange \<Rightarrow> string" where
  "exchange_name BINANCE = ''Binance''"
| "exchange_name COINBASE = ''Coinbase''"
| "exchange_name KRAKEN = ''Kraken''"
| "exchange_name UNKNOWN = ''Unknown''"

definition wv_level :: "AggregatedPriceLevel \<Rightarrow> string" where
  \<open>wv_level l = ''['' @ show_fixed8 (al_price l) @ '','' @ show_fixed8 (al_quantity l) @ '',"'' @ exchange_name (al_exchange l) @ ''"]''\<close>

definition create_orderbook_message :: "string \<Rightarrow> AggregatedSnapshot \<Rightarrow> string" where
  \<open>create_orderbook_message symbol snapshot =
     ''{"type":"orderbook","symbol":"'' @ symbol @ ''",'' @ ''"timestamp":'' @ show_nat (unat (as_timestamp_ns snapshot)) @ '','' @
     ''"bids":['' @ comma_loop wv_level 0 (as_bids snapshot) @ ''],'' @ ''"asks":['' @ comma_loop wv_level 0 (as_asks snapshot) @ '']}''\<close>


definition create_arbitrage_message :: "ArbitrageOpportunity \<Rightarrow> string" where
  \<open>create_arbitrage_message opportunity =
     ''{"type":"arbitrage","symbol":"'' @ ao_symbol opportunity @ ''",'' @
     ''"buy_exchange":"'' @ exchange_name (ao_buy_exchange opportunity) @ ''",'' @
     ''"sell_exchange":"'' @ exchange_name (ao_sell_exchange opportunity) @ ''",'' @
     ''"buy_price":'' @ show_fixed 2 (ao_buy_price opportunity) @ '','' @ ''"sell_price":'' @ show_fixed 2 (ao_sell_price opportunity) @ '','' @
     ''"profit_percent":'' @ show_fixed 2 (ao_profit_percentage opportunity) @ '','' @
     ''"max_quantity":'' @ show_fixed 2 (ao_max_quantity opportunity) @ ''}''\<close>

definition create_error_message :: "string \<Rightarrow> string" where
  \<open>create_error_message error = ''{"type":"error","message":"'' @ error @ ''"}''\<close>

definition broadcast_to_subscribers :: "string \<Rightarrow> string \<Rightarrow> WebSocketServer \<Rightarrow> (nat \<times> string) list" where
  "broadcast_to_subscribers symbol message s =
     map (\<lambda>(hdl, sub). (hdl, message)) (filter (\<lambda>(hdl, sub). symbol \<in> cs_symbols sub) (wv_connections s))"

definition broadcast_orderbook :: "string \<Rightarrow> AggregatedSnapshot \<Rightarrow> WebSocketServer \<Rightarrow> (nat \<times> string) list" where
  "broadcast_orderbook symbol snapshot s = broadcast_to_subscribers symbol (create_orderbook_message symbol snapshot) s"


definition broadcast_arbitrage :: "ArbitrageOpportunity \<Rightarrow> WebSocketServer \<Rightarrow> (nat \<times> string) list" where
  "broadcast_arbitrage opportunity s = map (\<lambda>(hdl, sub). (hdl, create_arbitrage_message opportunity)) (wv_connections s)"

definition get_connection_count :: "WebSocketServer \<Rightarrow> nat" where
  "get_connection_count s = length (wv_connections s)"

section \<open>Clients\<close>

definition wv_on_open :: "nat \<Rightarrow> WebSocketServer \<Rightarrow> WebSocketServer" where
  "wv_on_open hdl s = s\<lparr>wv_connections := omap_put hdl ClientSubscription_default (wv_connections s)\<rparr>"


definition set_channel :: "string \<Rightarrow> ClientSubscription \<Rightarrow> ClientSubscription" where
  "set_channel channel sub =
     (if channel = ''orderbook'' then sub\<lparr>cs_subscribe_orderbook := True\<rparr>
      else if channel = ''trades'' then sub\<lparr>cs_subscribe_trades := True\<rparr>
      else if channel = ''analytics'' then sub\<lparr>cs_subscribe_analytics := True\<rparr>
      else sub)"

definition handle_subscribe :: "nat \<Rightarrow> string \<Rightarrow> string list \<Rightarrow> WebSocketServer \<Rightarrow> (nat \<times> string) list \<times> WebSocketServer" where
  \<open>handle_subscribe hdl symbol channels s = (case map_of (wv_connections s) hdl of
       None \<Rightarrow> ([], s)
     | Some sub \<Rightarrow>
         let sub1 = fold set_channel channels (sub\<lparr>cs_symbols := insert symbol (cs_symbols sub)\<rparr>)
         in ([(hdl, ''{"type":"subscribed","symbol":"'' @ symbol @ ''"}'')], s\<lparr>wv_connections := omap_put hdl sub1 (wv_connections s)\<rparr>))\<close>

definition handle_unsubscribe :: "nat \<Rightarrow> string \<Rightarrow> WebSocketServer \<Rightarrow> (nat \<times> string) list \<times> WebSocketServer" where
  \<open>handle_unsubscribe hdl symbol s = (case map_of (wv_connections s) hdl of
       None \<Rightarrow> ([], s)
     | Some sub \<Rightarrow>
         ([(hdl, ''{"type":"unsubscribed","symbol":"'' @ symbol @ ''"}'')],
          s\<lparr>wv_connections := omap_put hdl (sub\<lparr>cs_symbols := cs_symbols sub - {symbol}\<rparr>) (wv_connections s)\<rparr>))\<close>

definition client_symbol :: "string \<Rightarrow> string option" where
  \<open>client_symbol payload = (case str_find ''"symbol":"'' payload 0 of
       None \<Rightarrow> None
     | Some symbol_pos \<Rightarrow> let start = symbol_pos + 10 in Some (upto payload start (str_find ''"'' payload start)))\<close>

definition client_channels :: "string \<Rightarrow> string list" where
  \<open>client_channels payload = (if str_contains ''"orderbook"'' payload then [''orderbook''] else []) @
     (if str_contains ''"trades"'' payload then [''trades''] else []) @
     (if str_contains ''"analytics"'' payload then [''analytics''] else [])\<close>

definition wv_on_message :: "nat \<Rightarrow> string \<Rightarrow> WebSocketServer \<Rightarrow> (nat \<times> string) list \<times> WebSocketServer" where
  \<open>wv_on_message hdl payload s =
     (if str_contains ''"type":"subscribe"'' payload
      then (case client_symbol payload of None \<Rightarrow> ([], s)
            | Some symbol \<Rightarrow> handle_subscribe hdl symbol (client_channels payload) s)
      else if str_contains ''"type":"unsubscribe"'' payload
      then (case client_symbol payload of None \<Rightarrow> ([], s)
            | Some symbol \<Rightarrow> handle_unsubscribe hdl symbol s)
      else ([], s))\<close>

section \<open>Who gets what\<close>






lemma channels_symbols [simp]: "cs_symbols (fold set_channel cs sub) = cs_symbols sub"
  by (induction cs arbitrary: sub) (simp_all add: set_channel_def)







text \<open>
  A subscription message in the documented format, for a symbol that needs no escape, on a new
  connection: the client gets one confirmation, which a JSON reader understands as one for its symbol, and every later
  broadcast for that symbol.
\<close>

theorem subscribe_message_works:
  assumes "plain symbol"
    and \<open>payload = ''{"type":"subscribe","symbol":"'' @ symbol @ ''","channels":['' @ channels @ '']}''\<close>
  shows "\<exists>confirmation s'. wv_on_message h payload (wv_on_open h s) = ([(h, confirmation)], s') \<and>
    json_read confirmation = Some (Jobj [(''type'', Jstr ''subscribed''), (''symbol'', Jstr symbol)]) \<and>
    (h, create_orderbook_message symbol snapshot) \<in> set (broadcast_orderbook symbol snapshot s')"
proof -
  let ?q = \<open>''{"type":"subscribe","symbol":"''\<close> and ?r = \<open>'',"channels":['' @ channels @ '']}''\<close>
  have p: "payload = ?q @ symbol @ CHR 0x22 # ?r" by (simp add: assms(2))
  have n: "CHR 0x22 \<notin> set symbol" using assms(1) by (auto simp: plain_def list_all_iff)
  have f: \<open>str_find ''"symbol":"'' payload 0 = Some 20\<close> by (simp add: p str_find_def)
  have l: "length ?q = 20 + 10" by simp
  have "client_symbol payload = Some (upto payload (length ?q) (str_find [CHR 0x22] payload (length ?q)))"
    unfolding client_symbol_def f option.case Let_def l ..
  then have c: "client_symbol payload = Some symbol" unfolding p upto_char [OF n] .
  have e: \<open>payload = ''{'' @ ''"type":"subscribe"'' @ '',"symbol":"'' @ symbol @ CHR 0x22 # ?r\<close> by (simp add: assms(2))
  have sl: \<open>str_contains ''"type":"subscribe"'' payload\<close> unfolding str_contains_sublist e sublist_def by blast
  let ?s1 = "wv_on_open h s" and ?c = \<open>''{"type":"subscribed","symbol":"'' @ symbol @ ''"}''\<close>
  have m: "map_of (wv_connections ?s1) h = Some ClientSubscription_default" by (simp add: wv_on_open_def map_of_put)
  define sub where "sub = fold set_channel (client_channels payload)
    (ClientSubscription_default\<lparr>cs_symbols := insert symbol (cs_symbols ClientSubscription_default)\<rparr>)"
  have sub: "symbol \<in> cs_symbols sub"
    "wv_on_message h payload ?s1 = ([(h, ?c)], ?s1\<lparr>wv_connections := omap_put h sub (wv_connections ?s1)\<rparr>)"
    by (simp_all only: sub_def wv_on_message_def sl if_True c option.case handle_subscribe_def m Let_def channels_symbols) simp
  have "?c = show_json (Jobj [(''type'', Jstr ''subscribed''), (''symbol'', Jstr symbol)])"
    by (simp add: show_field_def quoted_def)
  moreover have "wf_json (Jobj [(''type'', Jstr ''subscribed''), (''symbol'', Jstr symbol)])" using assms(1) by simp
  ultimately have "json_read ?c = Some (Jobj [(''type'', Jstr ''subscribed''), (''symbol'', Jstr symbol)])"
    using json_read_show by metis
  moreover have "(h, sub) \<in> set (omap_put h sub cs)" for cs :: "(nat, ClientSubscription) omap"
    by (induction cs) auto
  then have "(h, create_orderbook_message symbol snapshot) \<in> set (broadcast_orderbook symbol snapshot (?s1\<lparr>wv_connections := omap_put h sub (wv_connections ?s1)\<rparr>))"
    using sub(1) by (force simp: broadcast_orderbook_def broadcast_to_subscribers_def)
  ultimately show ?thesis using sub(2) by blast
qed

text \<open>A concrete instance.\<close>

theorem subscribe_message_works_witness:
  \<open>\<exists>confirmation s'. wv_on_message 1 (''{"type":"subscribe","symbol":"'' @ ''BTCUSD'' @ ''","channels":['' @ ''"orderbook"'' @ '']}'')
      (wv_on_open 1 (WebSocketServer_new 8080 ''0.0.0.0'')) = ([(1, confirmation)], s') \<and>
    json_read confirmation = Some (Jobj [(''type'', Jstr ''subscribed''), (''symbol'', Jstr ''BTCUSD'')])\<close>
proof -
  have "plain ''BTCUSD''" by simp
  from subscribe_message_works [OF this refl] show ?thesis by blast
qed

text \<open>
  When the library throws while \<open>stop\<close> closes the connections, \<open>stop\<close> returns normally, but the
  connections are still there, the I/O thread still runs, and nothing can stop it any more: a second \<open>stop\<close> does nothing, and a
  restart as well as the destructor end the program.
\<close>

theorem websocket_stop_failure_terminates:
  assumes "wv_running s" and "wv_io_thread s = Some Looping" and "(h, sub) \<in> set (wv_connections s)" and "\<not> close_ok h"
  shows "wv_connections (wv_stop True close_ok s) = wv_connections s \<and> wv_io_thread (wv_stop True close_ok s) = Some Looping \<and>
    wv_stop True close_ok' (wv_stop True close_ok s) = wv_stop True close_ok s \<and>
    wv_start True (wv_stop True close_ok s) = Inl Std_terminate \<and> wv_destroy True close_ok' (wv_stop True close_ok s) = Inl Std_terminate"
proof -
  have "\<exists>(hdl, sub) \<in> set (wv_connections s). \<not> close_ok hdl" using assms(3,4) by blast
  then have "wv_stop True close_ok s = s\<lparr>wv_running := False\<rparr>" using assms(1) by (simp add: wv_stop_def)
  then show ?thesis using assms(2) by (simp add: wv_stop_def wv_start_def wv_destroy_def joinable_def Let_def)
qed

text \<open>Instance: one client, whose closing throws.\<close>

theorem websocket_stop_failure_terminates_witness:
  "\<exists>s0 s. wv_start True (WebSocketServer_new 8080 ''0.0.0.0'') = Inr (True, s0) \<and> s = wv_stop True (\<lambda>_. False) (wv_on_open 1 s0) \<and>
     wv_destroy True (\<lambda>_. True) s = Inl Std_terminate"
proof -
  let ?s0 = "(WebSocketServer_new 8080 ''0.0.0.0'')\<lparr>wv_running := True, wv_io_thread := Some Looping\<rparr>"
  have s0: "wv_start True (WebSocketServer_new 8080 ''0.0.0.0'') = Inr (True, ?s0)" by (simp add: wv_start_def WebSocketServer_new_def joinable_def)
  have "wv_destroy True (\<lambda>_. True) (wv_stop True (\<lambda>_. False) (wv_on_open 1 ?s0)) = Inl Std_terminate"
    using websocket_stop_failure_terminates [of "wv_on_open 1 ?s0" 1 ClientSubscription_default "\<lambda>_. False" "\<lambda>_. True"]
    by (simp add: wv_on_open_def WebSocketServer_new_def)
  with s0 show ?thesis by blast
qed

end
