(* ===== verification/Frontend_Websocket_Server.thy ===== *)
theory Frontend_Websocket_Server
  imports String_Ops
begin

text \<open>
  The classes \<open>WebSocketSession\<close> and \<open>FrontendWebSocketServer\<close> of \<open>include/network/frontend_websocket_server.hpp\<close> and
  \<open>src/network/frontend_websocket_server.cpp\<close>.

  \<^item> The asynchronous operations of the stream are state: a session knows which writes it has started that have not completed, and
    whether a handshake or a read is pending. Each pending operation holds a \<open>shared_ptr\<close> to the session, and so does its place in
    \<open>sessions_\<close>; the session is destroyed when the last of them is gone.
  \<^item> \<open>close\<close> asks the stream to close; what completes because of it are later events.
  \<^item> The destructor of a session calls \<open>shared_from_this()\<close>, which throws \<open>std::bad_weak_ptr\<close> once the last owner is gone; an exception
    that leaves a destructor is \<open>Std_terminate\<close>.
  \<^item> An operation of a session returns the texts whose writing it starts. The stream allows one write at a time, which the
    library's documentation leaves to its user. The library also wants the bytes of a write to live until it completes; the text of the
    welcome and of the answer to a ping are local variables of the function that starts the write, and the string object of a
    queued text moves when the queue grows. The model has the texts as they are when the write starts.
\<close>

section \<open>Sessions\<close>

datatype ws_write = Welcome_write | Queue_write | Pong_write

record WebSocketSession =
  se_accepting :: bool
  se_reading :: bool
  se_writes :: "ws_write list"
  se_write_queue :: "string list"

definition WebSocketSession_new :: WebSocketSession where
  "WebSocketSession_new = \<lparr>se_accepting = False, se_reading = False, se_writes = [], se_write_queue = []\<rparr>"

definition se_run :: "WebSocketSession \<Rightarrow> WebSocketSession" where
  "se_run s = s\<lparr>se_accepting := True\<rparr>"

definition se_on_accept :: "bool \<Rightarrow> nat \<Rightarrow> WebSocketSession \<Rightarrow> string list \<times> WebSocketSession" where
  \<open>se_on_accept ok timestamp s = (let s1 = s\<lparr>se_accepting := False\<rparr>
     in if \<not> ok then ([], s1)
        else ([''{"type":"connected","message":"Connected to Crypto Order Book Engine","timestamp":'' @ show_nat timestamp @ ''}''],
              s1\<lparr>se_writes := Welcome_write # se_writes s1\<rparr>))\<close>

definition se_do_read :: "WebSocketSession \<Rightarrow> WebSocketSession" where
  "se_do_read s = s\<lparr>se_reading := True\<rparr>"

definition se_welcome_written :: "bool \<Rightarrow> WebSocketSession \<Rightarrow> WebSocketSession" where
  "se_welcome_written ok s = (let s1 = s\<lparr>se_writes := remove1 Welcome_write (se_writes s)\<rparr> in if ok then se_do_read s1 else s1)"

text \<open>\<open>None\<close>: the read ended with an error or with the end of the connection.\<close>

definition se_on_read :: "string option \<Rightarrow> WebSocketSession \<Rightarrow> string list \<times> WebSocketSession" where
  \<open>se_on_read message s = (let s1 = s\<lparr>se_reading := False\<rparr>
     in case message of
          None \<Rightarrow> ([], s1)
        | Some m \<Rightarrow>
            if str_contains ''"type":"ping"'' m
            then ([''{"type":"pong"}''], s1\<lparr>se_writes := Pong_write # se_writes s1\<rparr>)
            else ([], se_do_read s1))\<close>

definition se_pong_written :: "WebSocketSession \<Rightarrow> WebSocketSession" where
  "se_pong_written s = se_do_read (s\<lparr>se_writes := remove1 Pong_write (se_writes s)\<rparr>)"

definition se_send :: "string \<Rightarrow> WebSocketSession \<Rightarrow> string list \<times> WebSocketSession" where
  "se_send message s = (let q = se_write_queue s @ [message]; s1 = s\<lparr>se_write_queue := q\<rparr>
     in if length q = 1 then ([hd q], s1\<lparr>se_writes := Queue_write # se_writes s1\<rparr>) else ([], s1))"

definition se_on_write :: "bool \<Rightarrow> WebSocketSession \<Rightarrow> (string list \<times> WebSocketSession) result" where
  "se_on_write ok s = (let s1 = s\<lparr>se_writes := remove1 Queue_write (se_writes s)\<rparr>
     in if \<not> ok then Inr ([], s1)
        else case se_write_queue s1 of
               [] \<Rightarrow> Inl UB_end_iterator
             | _ # q \<Rightarrow> (let s2 = s1\<lparr>se_write_queue := q\<rparr>
                 in if q \<noteq> [] then Inr ([hd q], s2\<lparr>se_writes := Queue_write # se_writes s2\<rparr>) else Inr ([], s2)))"

section \<open>Runs of a session\<close>

datatype se_event = Accepted bool nat | Welcome_done bool | Read_done "string option" | Pong_done | Send string | Write_done bool

text \<open>A completion can only happen while its operation is pending.\<close>

fun enabled :: "se_event \<Rightarrow> WebSocketSession \<Rightarrow> bool" where
  "enabled (Accepted ok t) s \<longleftrightarrow> se_accepting s"
| "enabled (Welcome_done ok) s \<longleftrightarrow> Welcome_write \<in> set (se_writes s)"
| "enabled (Read_done m) s \<longleftrightarrow> se_reading s"
| "enabled Pong_done s \<longleftrightarrow> Pong_write \<in> set (se_writes s)"
| "enabled (Send m) s \<longleftrightarrow> True"
| "enabled (Write_done ok) s \<longleftrightarrow> Queue_write \<in> set (se_writes s)"

fun se_step :: "se_event \<Rightarrow> WebSocketSession \<Rightarrow> (string list \<times> WebSocketSession) result" where
  "se_step (Accepted ok t) s = Inr (se_on_accept ok t s)"
| "se_step (Welcome_done ok) s = Inr ([], se_welcome_written ok s)"
| "se_step (Read_done m) s = Inr (se_on_read m s)"
| "se_step Pong_done s = Inr ([], se_pong_written s)"
| "se_step (Send m) s = Inr (se_send m s)"
| "se_step (Write_done ok) s = se_on_write ok s"

text \<open>The texts of the queue whose writing a step starts.\<close>

fun queue_texts :: "se_event \<Rightarrow> string list \<Rightarrow> string list" where
  "queue_texts (Send m) ts = ts"
| "queue_texts (Write_done ok) ts = ts"
| "queue_texts _ ts = []"

text \<open>A run: what was sent, whether a write of the queue has failed, and the texts of the queue whose writing was started.\<close>

inductive se_run_to :: "string list \<Rightarrow> bool \<Rightarrow> string list \<Rightarrow> WebSocketSession \<Rightarrow> bool" where
  run_new: "se_run_to [] False [] (se_run WebSocketSession_new)"
| run_step: "se_run_to sent failed started s \<Longrightarrow> enabled e s \<Longrightarrow> se_step e s = Inr (ts, s') \<Longrightarrow>
    se_run_to (case e of Send m \<Rightarrow> sent @ [m] | _ \<Rightarrow> sent) (failed \<or> e = Write_done False) (started @ queue_texts e ts) s'"

definition se_inv :: "string list \<Rightarrow> bool \<Rightarrow> string list \<Rightarrow> WebSocketSession \<Rightarrow> bool" where
  "se_inv sent failed started s \<longleftrightarrow>
     (failed \<longrightarrow> se_write_queue s \<noteq> [] \<and> Queue_write \<notin> set (se_writes s)) \<and>
     (\<not> failed \<longrightarrow> count_list (se_writes s) Queue_write = (if se_write_queue s = [] then 0 else 1)) \<and>
     started @ tl (se_write_queue s) = sent"

lemma count_remove1: "count_list (remove1 x xs) y = (if x = y then count_list xs y - 1 else count_list xs y)"
  by (induction xs) (auto simp: count_list_0_iff dest: gr0_implies_Suc)

lemma se_run_inv: "se_run_to sent failed started s \<Longrightarrow> se_inv sent failed started s"
proof (induction rule: se_run_to.induct)
  case run_new
  then show ?case by (simp add: se_inv_def se_run_def WebSocketSession_new_def)
next
  case (run_step sent failed started s e ts s')
  note inv = run_step.IH [unfolded se_inv_def] and step = run_step.hyps(2,3)
  show ?case
  proof (cases e)
    case (Write_done ok)
    then have q: "Queue_write \<in> set (se_writes s)" using step(1) by simp
    then have nf: "\<not> failed" using inv by blast
    moreover have "count_list (se_writes s) Queue_write \<noteq> 0" using q by (simp add: count_list_0_iff)
    ultimately obtain m ms where ms: "se_write_queue s = m # ms" "count_list (se_writes s) Queue_write = 1"
      using inv by (cases "se_write_queue s") auto
    show ?thesis
    proof (cases ok)
      case True
      then show ?thesis using step(2) inv nf ms by (cases ms) (auto simp: Write_done se_on_write_def se_inv_def count_remove1)
    next
      case False
      have "Queue_write \<notin> set (remove1 Queue_write (se_writes s))" using ms(2) by (simp add: count_list_0_iff [symmetric] count_remove1)
      then show ?thesis using False step(2) inv nf ms by (auto simp: Write_done se_on_write_def se_inv_def)
    qed
  qed (use inv step in \<open>auto simp: se_inv_def se_on_accept_def se_welcome_written_def se_do_read_def se_on_read_def se_pong_written_def
      se_send_def count_remove1 Let_def split: if_splits option.splits\<close>)
qed



text \<open>
  One failed write silences a session for good: from then on every message is put behind the others in
  its queue, none is written, and no event ever takes one out.
\<close>

theorem session_stuck_after_error:
  assumes "se_run_to sent True started s" and "enabled e s" and "se_step e s = Inr (ts, s')"
  shows "queue_texts e ts = [] \<and> se_write_queue s' = se_write_queue s @ (case e of Send m \<Rightarrow> [m] | _ \<Rightarrow> []) \<and>
    se_run_to (case e of Send m \<Rightarrow> sent @ [m] | _ \<Rightarrow> sent) True started s'"
proof -
  have inv: "se_write_queue s \<noteq> []" "Queue_write \<notin> set (se_writes s)" using se_run_inv [OF assms(1)] by (simp_all add: se_inv_def)
  have "queue_texts e ts = [] \<and> se_write_queue s' = se_write_queue s @ (case e of Send m \<Rightarrow> [m] | _ \<Rightarrow> [])"
    using inv assms(2,3)
    by (cases e) (auto simp: se_on_accept_def se_welcome_written_def se_do_read_def se_on_read_def se_pong_written_def se_send_def Let_def
      split: if_splits option.splits)
  with run_step [OF assms] show ?thesis by simp
qed

text \<open>Instance: a message whose write fails, then another one.\<close>

theorem session_stuck_after_error_witness:
  "\<exists>s s'. se_run_to [''a''] True [''a''] s \<and> se_step (Send ''b'') s = Inr ([], s') \<and> se_run_to [''a'', ''b''] True [''a''] s' \<and>
     se_write_queue s' = [''a'', ''b'']"
proof -
  let ?s0 = "se_run WebSocketSession_new"
  let ?s1 = "?s0\<lparr>se_write_queue := [''a''], se_writes := [Queue_write]\<rparr>"
  let ?s2 = "?s0\<lparr>se_write_queue := [''a''], se_writes := []\<rparr>"
  let ?s3 = "?s0\<lparr>se_write_queue := [''a'', ''b''], se_writes := []\<rparr>"
  note d = se_run_def WebSocketSession_new_def se_send_def se_on_write_def Let_def
  have "se_run_to [''a''] False [''a''] ?s1"
    using run_step [OF run_new, of "Send ''a''" "[''a'']" ?s1] by (simp add: d)
  from run_step [OF this, of "Write_done False" "[]" ?s2]
  have s2: "se_run_to [''a''] True [''a''] ?s2" by (simp add: d)
  have s3: "se_step (Send ''b'') ?s2 = Inr ([], ?s3)" by (simp add: d)
  from session_stuck_after_error [OF s2 _ s3] s2 s3 show ?thesis by (intro exI [of _ ?s2] exI [of _ ?s3]) simp
qed

text \<open>
  Two writes of one session can be under way at once, which the stream forbids: the answer to a ping does not
  go through the queue. And a message can be written while the handshake is still under way, since a session is in the
  server's set before it has accepted.
\<close>

theorem session_writes_overlap:
  "(\<exists>sent started s. se_run_to sent False started s \<and> Queue_write \<in> set (se_writes s) \<and> Pong_write \<in> set (se_writes s)) \<and>
   (\<exists>sent started s. se_run_to sent False started s \<and> Queue_write \<in> set (se_writes s) \<and> se_accepting s)"
proof -
  let ?s0 = "se_run WebSocketSession_new"
  note d = se_run_def WebSocketSession_new_def se_send_def se_on_accept_def se_welcome_written_def se_do_read_def se_on_read_def Let_def
  let ?h = "?s0\<lparr>se_write_queue := [''a''], se_writes := [Queue_write]\<rparr>"
  have h: "se_run_to [''a''] False [''a''] ?h"
    using run_step [OF run_new, of "Send ''a''" "[''a'']" ?h] by (simp add: d)
  let ?a = "?s0\<lparr>se_accepting := False, se_writes := [Welcome_write]\<rparr>"
  obtain t where "se_on_accept True 0 ?s0 = (t, ?a)" by (simp add: d)
  with run_step [OF run_new, of "Accepted True 0" t ?a] have a: "se_run_to [] False [] ?a" by (simp add: d)
  let ?b = "?s0\<lparr>se_accepting := False, se_reading := True, se_writes := []\<rparr>"
  from run_step [OF a, of "Welcome_done True" "[]" ?b] have b: "se_run_to [] False [] ?b" by (simp add: d)
  let ?ping = \<open>''"type":"ping"''\<close>
  let ?c = "?s0\<lparr>se_accepting := False, se_reading := False, se_writes := [Pong_write]\<rparr>"
  obtain u where "se_on_read (Some ?ping) ?b = (u, ?c)" by (simp add: d)
  with run_step [OF b, of "Read_done (Some ?ping)" u ?c] have c: "se_run_to [] False [] ?c" by (simp add: d)
  let ?d = "?c\<lparr>se_write_queue := [''a''], se_writes := [Queue_write, Pong_write]\<rparr>"
  from run_step [OF c, of "Send ''a''" "[''a'']" ?d] have e: "se_run_to [''a''] False [''a''] ?d" by (simp add: d)
  have "Queue_write \<in> set (se_writes ?d) \<and> Pong_write \<in> set (se_writes ?d)" by simp
  moreover have "Queue_write \<in> set (se_writes ?h) \<and> se_accepting ?h" by (simp add: d)
  ultimately show ?thesis using e h by blast
qed

section \<open>The server\<close>

record FrontendWebSocketServer =
  fw_port :: nat
  fw_running :: bool
  fw_server_thread :: "io_thread option"
  fw_sessions :: "WebSocketSession list"
  fw_orphans :: nat
  fw_acceptor :: bool
  fw_message_count :: nat

text \<open>
  \<open>fw_orphans\<close>: the sessions out of the set that pending operations of the I/O context still own. \<open>fw_acceptor\<close>: the acceptor and
  the I/O context exist.
\<close>

definition FrontendWebSocketServer_new :: "nat \<Rightarrow> FrontendWebSocketServer" where
  "FrontendWebSocketServer_new port = \<lparr>fw_port = port, fw_running = False, fw_server_thread = None, fw_sessions = [], fw_orphans = 0,
     fw_acceptor = False, fw_message_count = 0\<rparr>"

text \<open>
  The new thread first replaces the I/O context, which ends the operations that are still pending in the old one, and only then the acceptor,
  whose destructor works on the context that is gone.
\<close>

definition fw_start :: "FrontendWebSocketServer \<Rightarrow> (bool \<times> FrontendWebSocketServer) result" where
  "fw_start s =
     (if fw_running s then Inr (False, s)
      else if joinable (fw_server_thread s) then Inl Std_terminate
      else if fw_orphans s > 0 then Inl Std_terminate
      else if fw_acceptor s then Inl UB_use_after_free
      else Inr (True, s\<lparr>fw_running := True, fw_server_thread := Some Looping, fw_acceptor := True\<rparr>))"

text \<open>An exception in the server thread, as from a port that is taken.\<close>

definition fw_thread_fails :: "FrontendWebSocketServer \<Rightarrow> FrontendWebSocketServer" where
  "fw_thread_fails s = s\<lparr>fw_running := False, fw_server_thread := Some Left_loop\<rparr>"

definition se_pending :: "WebSocketSession \<Rightarrow> bool" where
  "se_pending s \<longleftrightarrow> se_accepting s \<or> se_reading s \<or> se_writes s \<noteq> []"

definition fw_accept :: "FrontendWebSocketServer \<Rightarrow> FrontendWebSocketServer" where
  "fw_accept s = s\<lparr>fw_sessions := fw_sessions s @ [se_run WebSocketSession_new]\<rparr>"

definition fw_session_event :: "nat \<Rightarrow> se_event \<Rightarrow> FrontendWebSocketServer \<Rightarrow> (string list \<times> FrontendWebSocketServer) result" where
  "fw_session_event i e s = bindE (se_step e (fw_sessions s ! i)) (\<lambda>(ts, se). Inr (ts, s\<lparr>fw_sessions := (fw_sessions s)[i := se]\<rparr>))"

definition fw_broadcast :: "string \<Rightarrow> FrontendWebSocketServer \<Rightarrow> string list list \<times> FrontendWebSocketServer" where
  "fw_broadcast message s =
     (if \<not> fw_running s then ([], s)
      else let rs = map (se_send message) (fw_sessions s)
        in (map fst rs, s\<lparr>fw_message_count := fw_message_count s + 1, fw_sessions := map snd rs\<rparr>))"

text \<open>\<open>remove_session\<close>, called with the only other pointer to a session: what is not pending is destroyed.\<close>

definition fw_remove_session :: "nat \<Rightarrow> FrontendWebSocketServer \<Rightarrow> FrontendWebSocketServer result" where
  "fw_remove_session i s =
     (if \<not> se_pending (fw_sessions s ! i) then Inl Std_terminate
      else Inr (s\<lparr>fw_sessions := take i (fw_sessions s) @ drop (Suc i) (fw_sessions s), fw_orphans := fw_orphans s + 1\<rparr>))"

definition fw_get_connection_count :: "FrontendWebSocketServer \<Rightarrow> nat" where
  "fw_get_connection_count s = length (fw_sessions s)"

text \<open>Clearing the set destroys the sessions that nothing else owns.\<close>

definition fw_clear_sessions :: "FrontendWebSocketServer \<Rightarrow> FrontendWebSocketServer result" where
  "fw_clear_sessions s =
     (if \<exists>se \<in> set (fw_sessions s). \<not> se_pending se then Inl Std_terminate
      else Inr (s\<lparr>fw_sessions := [], fw_orphans := fw_orphans s + length (fw_sessions s)\<rparr>))"

definition fw_stop :: "FrontendWebSocketServer \<Rightarrow> FrontendWebSocketServer result" where
  "fw_stop s =
     (if \<not> fw_running s then Inr s
      else bindE (fw_clear_sessions (s\<lparr>fw_running := False\<rparr>)) (\<lambda>s1.
        Inr (s1\<lparr>fw_server_thread := (if joinable (fw_server_thread s1) then Some Joined else fw_server_thread s1)\<rparr>)))"

text \<open>The destructor, then the members in reverse order: the set, the thread, the I/O context with its pending operations.\<close>

definition fw_destroy :: "FrontendWebSocketServer \<Rightarrow> unit result" where
  "fw_destroy s = bindE (if fw_running s then fw_stop s else Inr s) (\<lambda>s1.
     bindE (fw_clear_sessions s1) (\<lambda>s2.
       if joinable (fw_server_thread s2) then Inl Std_terminate
       else if fw_orphans s2 > 0 then Inl Std_terminate
       else Inr ()))"

inductive fw_reachable :: "FrontendWebSocketServer \<Rightarrow> bool" where
  fw_new: "fw_reachable (FrontendWebSocketServer_new port)"
| fw_started: "fw_reachable s \<Longrightarrow> fw_start s = Inr (r, s') \<Longrightarrow> fw_reachable s'"
| fw_failed: "fw_reachable s \<Longrightarrow> fw_server_thread s = Some Looping \<Longrightarrow> fw_reachable (fw_thread_fails s)"
| fw_accepted: "fw_reachable s \<Longrightarrow> fw_server_thread s = Some Looping \<Longrightarrow> fw_reachable (fw_accept s)"
| fw_event: "fw_reachable s \<Longrightarrow> fw_server_thread s = Some Looping \<Longrightarrow> i < length (fw_sessions s) \<Longrightarrow> enabled e (fw_sessions s ! i) \<Longrightarrow>
    fw_session_event i e s = Inr (ts, s') \<Longrightarrow> fw_reachable s'"
| fw_broadcasted: "fw_reachable s \<Longrightarrow> fw_reachable (snd (fw_broadcast m s))"
| fw_removed: "fw_reachable s \<Longrightarrow> i < length (fw_sessions s) \<Longrightarrow> fw_remove_session i s = Inr s' \<Longrightarrow> fw_reachable s'"
| fw_stopped: "fw_reachable s \<Longrightarrow> fw_stop s = Inr s' \<Longrightarrow> fw_reachable s'"

lemma fw_running_thread: "fw_reachable s \<Longrightarrow> fw_running s \<longleftrightarrow> fw_server_thread s = Some Looping"
  by (induction rule: fw_reachable.induct)
    (auto simp: FrontendWebSocketServer_new_def fw_start_def fw_thread_fails_def fw_accept_def fw_session_event_def fw_broadcast_def
      fw_remove_session_def
      fw_stop_def fw_clear_sessions_def joinable_def bindE_eq_Inr Let_def split: if_splits)

text \<open>\<open>start\<close> succeeds once in the life of a server: after a \<open>stop\<close> it is undefined behaviour or the end of the program.\<close>

lemma fw_acceptor_thread: "fw_reachable s \<Longrightarrow> fw_acceptor s \<longleftrightarrow> fw_server_thread s \<noteq> None"
  by (induction rule: fw_reachable.induct)
    (auto simp: FrontendWebSocketServer_new_def fw_start_def fw_thread_fails_def fw_accept_def fw_session_event_def fw_broadcast_def
      fw_remove_session_def fw_stop_def fw_clear_sessions_def joinable_def bindE_eq_Inr Let_def
      dest: fw_running_thread split: if_splits)

lemma frontend_no_restart:
  assumes "fw_reachable s"
  shows "fw_server_thread s \<noteq> None \<Longrightarrow> fw_start s = Inr (r, s') \<Longrightarrow> \<not> r"
  using fw_acceptor_thread [OF assms] by (auto simp: fw_start_def split: if_splits)

text \<open>
  The end of a server that has had a client is \<open>std::terminate\<close>: nothing but the destructor of a session takes
  it out of the set, and that destructor throws. In every reachable state the destruction of the server ends the program exactly
  when it holds a session, or one is left over from a \<open>stop\<close>, or its thread has ended by an exception.
\<close>

theorem frontend_client_terminates:
  assumes "fw_reachable s"
  shows "(fw_destroy s = Inl Std_terminate \<longleftrightarrow> fw_sessions s \<noteq> [] \<or> fw_orphans s > 0 \<or> fw_server_thread s = Some Left_loop) \<and>
    (\<forall>s'. fw_stop s = Inr s' \<longrightarrow> fw_running s \<longrightarrow> fw_orphans s' = fw_orphans s + length (fw_sessions s)) \<and>
    (\<forall>i e ts s'. i < length (fw_sessions s) \<longrightarrow> fw_session_event i e s = Inr (ts, s') \<longrightarrow> length (fw_sessions s') = length (fw_sessions s))"
proof -
  have r: "fw_running s \<longleftrightarrow> fw_server_thread s = Some Looping" by (rule fw_running_thread [OF assms])
  have "fw_destroy s = Inl Std_terminate \<longleftrightarrow> fw_sessions s \<noteq> [] \<or> fw_orphans s > 0 \<or> fw_server_thread s = Some Left_loop"
  proof (cases "\<exists>se \<in> set (fw_sessions s). \<not> se_pending se")
    case True
    then show ?thesis by (auto simp: fw_destroy_def fw_stop_def fw_clear_sessions_def)
  next
    case False
    then show ?thesis using r
      by (cases "fw_server_thread s") (auto simp: fw_destroy_def fw_stop_def fw_clear_sessions_def joinable_def split: io_thread.splits)
  qed
  then show ?thesis by (auto simp: fw_stop_def fw_clear_sessions_def fw_session_event_def bindE_eq_Inr split: if_splits)
qed

text \<open>Instance: a server that has accepted one client.\<close>

theorem frontend_client_terminates_witness:
  "\<exists>s. fw_reachable s \<and> length (fw_sessions s) = 1 \<and> fw_destroy s = Inl Std_terminate"
proof -
  let ?s = "(FrontendWebSocketServer_new 8080)\<lparr>fw_running := True, fw_server_thread := Some Looping, fw_acceptor := True\<rparr>"
  have "fw_start (FrontendWebSocketServer_new 8080) = Inr (True, ?s)" by (simp add: fw_start_def FrontendWebSocketServer_new_def joinable_def)
  from fw_started [OF fw_new this] have "fw_reachable ?s" .
  then have r: "fw_reachable (fw_accept ?s)" by (rule fw_accepted) simp
  have l: "length (fw_sessions (fw_accept ?s)) = 1" by (simp add: fw_accept_def FrontendWebSocketServer_new_def)
  then have "fw_sessions (fw_accept ?s) \<noteq> []" by auto
  with frontend_client_terminates [OF r] have "fw_destroy (fw_accept ?s) = Inl Std_terminate" by blast
  with r l show ?thesis by blast
qed

end
