(* ===== verification/Configuration_Manager.thy ===== *)
theory Configuration_Manager
  imports String_Ops Types "HOL-Library.Monad_Syntax"
begin

text \<open>
  The class \<open>ConfigurationManager\<close> of \<open>include/config/configuration_manager.hpp\<close> and \<open>src/config/configuration_manager.cpp\<close>.

  \<^item> The YAML library is a parameter. A value of \<open>yaml\<close> has its functions on nodes: loading, \<open>operator[]\<close>, the test for a
    defined node, and the conversions. \<open>None\<close> is a thrown exception for the first two and a failed conversion for the others:
    \<open>as<T>(fallback)\<close> then returns the fallback, \<open>as<T>()\<close> throws.
  \<^item> \<open>parse_yaml\<close> writes into the current configuration as it goes, and catches what is thrown: a pair of the returned flag and the
    configuration as it is by then.
  \<^item> The environment, whether files open and their contents are parameters. \<open>mutex_\<close> is held for a whole function.
\<close>

section \<open>The configuration\<close>

record ExchangeConfig =
  ec_exchange :: Exchange
  ec_enabled :: bool
  ec_websocket_url :: string
  ec_rest_url :: string
  ec_use_testnet :: bool
  ec_depth :: u32
  ec_reconnect_delay_ms :: u32
  ec_max_reconnect_attempts :: u32
  ec_rate_limit_per_sec :: double
  ec_symbols :: "string list"

definition ExchangeConfig_new :: "Exchange \<Rightarrow> ExchangeConfig" where
  "ExchangeConfig_new exchange = \<lparr>ec_exchange = exchange, ec_enabled = True, ec_websocket_url = [], ec_rest_url = [], ec_use_testnet = False,
     ec_depth = 10, ec_reconnect_delay_ms = 5000, ec_max_reconnect_attempts = 10, ec_rate_limit_per_sec = Fin 20, ec_symbols = []\<rparr>"

record ServerConfig =
  sv_host :: string
  sv_websocket_port :: "16 word"
  sv_rest_port :: "16 word"
  sv_max_connections :: u64
  sv_heartbeat_interval_ms :: u32

definition ServerConfig_new :: ServerConfig where
  "ServerConfig_new = \<lparr>sv_host = ''0.0.0.0'', sv_websocket_port = 8080, sv_rest_port = 8081, sv_max_connections = 1000,
     sv_heartbeat_interval_ms = 30000\<rparr>"

record PerformanceConfig =
  pf_enable_cpu_pinning :: bool
  pf_cpu_cores :: "int list"
  pf_enable_huge_pages :: bool
  pf_enable_numa :: bool
  pf_memory_pool_size :: u64
  pf_queue_size :: u64

definition PerformanceConfig_new :: PerformanceConfig where
  "PerformanceConfig_new = \<lparr>pf_enable_cpu_pinning = False, pf_cpu_cores = [], pf_enable_huge_pages = False, pf_enable_numa = False,
     pf_memory_pool_size = 100000, pf_queue_size = 100000\<rparr>"

record LoggingConfig =
  lg_level :: string
  lg_pattern :: string
  lg_async :: bool
  lg_log_file :: string
  lg_max_file_size :: u64
  lg_max_files :: u64

definition default_pattern :: string where
  "default_pattern = ''[%Y-%m-%d %H:%M:%S.%e] [%^%l%$] %v''"

definition LoggingConfig_new :: LoggingConfig where
  "LoggingConfig_new = \<lparr>lg_level = ''info'', lg_pattern = default_pattern, lg_async = True, lg_log_file = [],
     lg_max_file_size = 10485760, lg_max_files = 5\<rparr>"

record RecordingConfig =
  rg_enabled :: bool
  rg_output_dir :: string
  rg_format :: string
  rg_buffer_size :: u64

definition RecordingConfig_new :: RecordingConfig where
  "RecordingConfig_new = \<lparr>rg_enabled = False, rg_output_dir = ''./data'', rg_format = ''binary'', rg_buffer_size = 100000\<rparr>"

record AnalyticsConfig =
  an_vwap_window_ns :: u64
  an_twap_window_ns :: u64
  an_imbalance_window_ns :: u64
  an_spread_window_ns :: u64

definition AnalyticsConfig_new :: AnalyticsConfig where
  "AnalyticsConfig_new = \<lparr>an_vwap_window_ns = 60000000000, an_twap_window_ns = 300000000000, an_imbalance_window_ns = 10000000000,
     an_spread_window_ns = 60000000000\<rparr>"

record ArbitrageConfig =
  ar_enabled :: bool
  ar_min_profit_percent :: double
  ar_history_size :: u64

definition ArbitrageConfig_new :: ArbitrageConfig where
  "ArbitrageConfig_new = \<lparr>ar_enabled = True, ar_min_profit_percent = fl (1 / 10), ar_history_size = 1000\<rparr>"

record SystemConfig =
  sy_exchanges :: "(Exchange, ExchangeConfig) omap"
  sy_server :: ServerConfig
  sy_performance :: PerformanceConfig
  sy_logging :: LoggingConfig
  sy_recording :: RecordingConfig
  sy_analytics :: AnalyticsConfig
  sy_arbitrage :: ArbitrageConfig

definition SystemConfig_new :: SystemConfig where
  "SystemConfig_new = \<lparr>sy_exchanges = [], sy_server = ServerConfig_new, sy_performance = PerformanceConfig_new,
     sy_logging = LoggingConfig_new, sy_recording = RecordingConfig_new, sy_analytics = AnalyticsConfig_new,
     sy_arbitrage = ArbitrageConfig_new\<rparr>"

definition create_default :: SystemConfig where
  "create_default =
     (let binance = (ExchangeConfig_new BINANCE)\<lparr>ec_enabled := True, ec_websocket_url := ''wss://stream.binance.com:9443/ws'',
            ec_rest_url := ''https://api.binance.com'', ec_rate_limit_per_sec := Fin 20, ec_symbols := [''btcusdt'', ''ethusdt'']\<rparr>;
          coinbase = (ExchangeConfig_new COINBASE)\<lparr>ec_enabled := True, ec_websocket_url := ''wss://ws-feed.exchange.coinbase.com'',
            ec_rest_url := ''https://api.exchange.coinbase.com'', ec_rate_limit_per_sec := Fin 30, ec_symbols := [''BTC-USD'', ''ETH-USD'']\<rparr>;
          kraken = (ExchangeConfig_new KRAKEN)\<lparr>ec_enabled := True, ec_websocket_url := ''wss://ws.kraken.com'',
            ec_rest_url := ''https://api.kraken.com'', ec_rate_limit_per_sec := Fin 15, ec_depth := 10, ec_symbols := [''XBT/USD'', ''ETH/USD'']\<rparr>
      in SystemConfig_new\<lparr>sy_exchanges := omap_put KRAKEN kraken (omap_put COINBASE coinbase (omap_put BINANCE binance []))\<rparr>)"

section \<open>Environment variables\<close>

type_synonym environment = "string \<Rightarrow> string option"

text \<open>\<open>c_str()\<close>, as a C function sees it.\<close>

definition c_str :: "string \<Rightarrow> string" where
  "c_str s = takeWhile (\<lambda>c. c \<noteq> CHR 0x00) s"

lemma brace_bounds:
  assumes "str_find ''${'' res pos = Some p" and "str_find ''}'' res p = Some e"
  shows "pos \<le> p \<and> p + 2 \<le> e \<and> e < length res"
proof -
  have p: "pos \<le> p" "prefix ''${'' (drop p res)" using assms(1) by (simp_all add: str_find_Some)
  have e: "p \<le> e" "prefix ''}'' (drop e res)" using assms(2) by (simp_all add: str_find_Some)
  from p(2) obtain r where r: "drop p res = ''${'' @ r" by (auto simp: prefix_def)
  have "e \<noteq> p" using r e(2) by auto
  moreover have "e \<noteq> Suc p"
  proof
    assume "e = Suc p"
    then have "drop e res = drop 1 (drop p res)" by simp
    with r e(2) show False by simp
  qed
  moreover have "drop e res \<noteq> []" using e(2) by auto
  ultimately show ?thesis using p(1) e(1) by simp
qed

function substitute_loop :: "environment \<Rightarrow> string \<Rightarrow> nat \<Rightarrow> string" where
  "substitute_loop env res pos =
     (case str_find ''${'' res pos of
        None \<Rightarrow> res
      | Some pos1 \<Rightarrow>
          (case str_find ''}'' res pos1 of
             None \<Rightarrow> res
           | Some e \<Rightarrow>
               (case env (c_str (substr res (pos1 + 2) (Some (e - pos1 - 2)))) of
                  Some env_value \<Rightarrow> substitute_loop env (take pos1 res @ env_value @ drop (e + 1) res) (pos1 + length env_value)
                | None \<Rightarrow> substitute_loop env res (e + 1))))"
  by pat_completeness auto

termination
  by (relation "measure (\<lambda>(_, res, pos). length res - pos)") (use brace_bounds in \<open>fastforce+\<close>)

declare substitute_loop.simps [simp del]

definition substitute_env_vars :: "environment \<Rightarrow> string \<Rightarrow> string" where
  "substitute_env_vars env v = substitute_loop env v 0"

section \<open>Reading YAML\<close>

record 'n yaml =
  ym_load :: "string \<Rightarrow> 'n option"
  ym_at :: "'n \<Rightarrow> string \<Rightarrow> 'n option"
  ym_defined :: "'n \<Rightarrow> bool"
  ym_bool :: "'n \<Rightarrow> bool option"
  ym_string :: "'n \<Rightarrow> string option"
  ym_u16 :: "'n \<Rightarrow> 16 word option"
  ym_u32 :: "'n \<Rightarrow> u32 option"
  ym_u64 :: "'n \<Rightarrow> u64 option"
  ym_double :: "'n \<Rightarrow> double option"
  ym_strings :: "'n \<Rightarrow> string list option"
  ym_ints :: "'n \<Rightarrow> int list option"

text \<open>\<open>node[key].as<T>(fallback)\<close>\<close>

definition as_or :: "'n yaml \<Rightarrow> 'n \<Rightarrow> string \<Rightarrow> ('n \<Rightarrow> 'v option) \<Rightarrow> 'v \<Rightarrow> 'v option" where
  "as_or y node key conv fallback = (case ym_at y node key of
       None \<Rightarrow> None
     | Some m \<Rightarrow> Some (case conv m of None \<Rightarrow> fallback | Some v \<Rightarrow> v))"

text \<open>\<open>if (node[key]) x = node[key].as<T>();\<close> with the old value of \<open>x\<close>\<close>

definition as_if :: "'n yaml \<Rightarrow> 'n \<Rightarrow> string \<Rightarrow> ('n \<Rightarrow> 'v option) \<Rightarrow> 'v \<Rightarrow> 'v option" where
  "as_if y node key conv old = (case ym_at y node key of
       None \<Rightarrow> None
     | Some m \<Rightarrow> if ym_defined y m then conv m else Some old)"

text \<open>The part of an exchange; \<open>depth\<close> is read for two of the three exchanges.\<close>

definition parse_exchange :: "'n yaml \<Rightarrow> environment \<Rightarrow> Exchange \<Rightarrow> bool \<Rightarrow> double \<Rightarrow> 'n \<Rightarrow> ExchangeConfig option" where
  "parse_exchange y env exchange has_depth default_rate node = do {
     let cfg = ExchangeConfig_new exchange;
     enabled \<leftarrow> as_or y node ''enabled'' (ym_bool y) True;
     websocket_url \<leftarrow> as_or y node ''websocket_url'' (ym_string y) [];
     rest_url \<leftarrow> as_or y node ''rest_url'' (ym_string y) [];
     use_testnet \<leftarrow> as_or y node ''use_testnet'' (ym_bool y) False;
     depth \<leftarrow> (if has_depth then as_or y node ''depth'' (ym_u32 y) 10 else Some (ec_depth cfg));
     rate_limit_per_sec \<leftarrow> as_or y node ''rate_limit_per_sec'' (ym_double y) default_rate;
     symbols \<leftarrow> as_if y node ''symbols'' (ym_strings y) (ec_symbols cfg);
     Some (cfg\<lparr>ec_enabled := enabled, ec_websocket_url := substitute_env_vars env websocket_url,
       ec_rest_url := substitute_env_vars env rest_url, ec_use_testnet := use_testnet, ec_depth := depth,
       ec_rate_limit_per_sec := rate_limit_per_sec, ec_symbols := symbols\<rparr>)
   }"

text \<open>Statements that may throw, in order: the configuration keeps what was assigned before.\<close>

type_synonym 'c statement = "'c \<Rightarrow> bool \<times> 'c"

fun statements :: "'c statement list \<Rightarrow> 'c statement" where
  "statements [] c = (True, c)"
| "statements (f # fs) c = (case f c of (True, c1) \<Rightarrow> statements fs c1 | (False, c1) \<Rightarrow> (False, c1))"

definition assign :: "('v \<Rightarrow> 'c \<Rightarrow> 'c) \<Rightarrow> 'v option \<Rightarrow> 'c statement" where
  "assign upd r c = (case r of None \<Rightarrow> (False, c) | Some v \<Rightarrow> (True, upd v c))"

text \<open>\<open>if (node[key]) { ... }\<close>\<close>

definition in_section :: "'n yaml \<Rightarrow> 'n \<Rightarrow> string \<Rightarrow> ('n \<Rightarrow> 'c statement) \<Rightarrow> 'c statement" where
  "in_section y node key body c = (case ym_at y node key of
       None \<Rightarrow> (False, c)
     | Some m \<Rightarrow> if ym_defined y m then body m c else (True, c))"

definition put_exchange :: "Exchange \<Rightarrow> ExchangeConfig \<Rightarrow> SystemConfig \<Rightarrow> SystemConfig" where
  "put_exchange exchange cfg c = c\<lparr>sy_exchanges := omap_put exchange cfg (sy_exchanges c)\<rparr>"

definition parse_exchanges :: "'n yaml \<Rightarrow> environment \<Rightarrow> 'n \<Rightarrow> SystemConfig statement" where
  "parse_exchanges y env exchanges = statements [
     in_section y exchanges ''binance'' (\<lambda>node. assign (put_exchange BINANCE) (parse_exchange y env BINANCE True (Fin 20) node)),
     in_section y exchanges ''coinbase'' (\<lambda>node. assign (put_exchange COINBASE) (parse_exchange y env COINBASE False (Fin 30) node)),
     in_section y exchanges ''kraken'' (\<lambda>node. assign (put_exchange KRAKEN) (parse_exchange y env KRAKEN True (Fin 15) node))]"

definition parse_server :: "'n yaml \<Rightarrow> 'n \<Rightarrow> SystemConfig statement" where
  "parse_server y server = statements [
     assign (\<lambda>v c. c\<lparr>sy_server := (sy_server c)\<lparr>sv_host := v\<rparr>\<rparr>) (as_or y server ''host'' (ym_string y) ''0.0.0.0''),
     assign (\<lambda>v c. c\<lparr>sy_server := (sy_server c)\<lparr>sv_websocket_port := v\<rparr>\<rparr>) (as_or y server ''websocket_port'' (ym_u16 y) 8080),
     assign (\<lambda>v c. c\<lparr>sy_server := (sy_server c)\<lparr>sv_rest_port := v\<rparr>\<rparr>) (as_or y server ''rest_port'' (ym_u16 y) 8081),
     assign (\<lambda>v c. c\<lparr>sy_server := (sy_server c)\<lparr>sv_max_connections := v\<rparr>\<rparr>) (as_or y server ''max_connections'' (ym_u64 y) 1000)]"

definition parse_performance :: "'n yaml \<Rightarrow> 'n \<Rightarrow> SystemConfig statement" where
  "parse_performance y perf = statements [
     assign (\<lambda>v c. c\<lparr>sy_performance := (sy_performance c)\<lparr>pf_enable_cpu_pinning := v\<rparr>\<rparr>)
       (as_or y perf ''enable_cpu_pinning'' (ym_bool y) False),
     (\<lambda>c. assign (\<lambda>v c. c\<lparr>sy_performance := (sy_performance c)\<lparr>pf_cpu_cores := v\<rparr>\<rparr>)
       (as_if y perf ''cpu_cores'' (ym_ints y) (pf_cpu_cores (sy_performance c))) c),
     assign (\<lambda>v c. c\<lparr>sy_performance := (sy_performance c)\<lparr>pf_enable_huge_pages := v\<rparr>\<rparr>)
       (as_or y perf ''enable_huge_pages'' (ym_bool y) False),
     assign (\<lambda>v c. c\<lparr>sy_performance := (sy_performance c)\<lparr>pf_enable_numa := v\<rparr>\<rparr>) (as_or y perf ''enable_numa'' (ym_bool y) False)]"

definition parse_logging :: "'n yaml \<Rightarrow> 'n \<Rightarrow> SystemConfig statement" where
  "parse_logging y logs = statements [
     assign (\<lambda>v c. c\<lparr>sy_logging := (sy_logging c)\<lparr>lg_level := v\<rparr>\<rparr>) (as_or y logs ''level'' (ym_string y) ''info''),
     assign (\<lambda>v c. c\<lparr>sy_logging := (sy_logging c)\<lparr>lg_pattern := v\<rparr>\<rparr>) (as_or y logs ''pattern'' (ym_string y) default_pattern),
     assign (\<lambda>v c. c\<lparr>sy_logging := (sy_logging c)\<lparr>lg_async := v\<rparr>\<rparr>) (as_or y logs ''async'' (ym_bool y) True),
     assign (\<lambda>v c. c\<lparr>sy_logging := (sy_logging c)\<lparr>lg_log_file := v\<rparr>\<rparr>) (as_or y logs ''log_file'' (ym_string y) [])]"

definition parse_recording :: "'n yaml \<Rightarrow> 'n \<Rightarrow> SystemConfig statement" where
  "parse_recording y rec = statements [
     assign (\<lambda>v c. c\<lparr>sy_recording := (sy_recording c)\<lparr>rg_enabled := v\<rparr>\<rparr>) (as_or y rec ''enabled'' (ym_bool y) False),
     assign (\<lambda>v c. c\<lparr>sy_recording := (sy_recording c)\<lparr>rg_output_dir := v\<rparr>\<rparr>) (as_or y rec ''output_dir'' (ym_string y) ''./data''),
     assign (\<lambda>v c. c\<lparr>sy_recording := (sy_recording c)\<lparr>rg_format := v\<rparr>\<rparr>) (as_or y rec ''format'' (ym_string y) ''binary'')]"

definition parse_arbitrage :: "'n yaml \<Rightarrow> 'n \<Rightarrow> SystemConfig statement" where
  "parse_arbitrage y arb = statements [
     assign (\<lambda>v c. c\<lparr>sy_arbitrage := (sy_arbitrage c)\<lparr>ar_enabled := v\<rparr>\<rparr>) (as_or y arb ''enabled'' (ym_bool y) True),
     assign (\<lambda>v c. c\<lparr>sy_arbitrage := (sy_arbitrage c)\<lparr>ar_min_profit_percent := v\<rparr>\<rparr>)
       (as_or y arb ''min_profit_percent'' (ym_double y) (fl (1 / 10)))]"

definition parse_yaml :: "'n yaml \<Rightarrow> environment \<Rightarrow> string \<Rightarrow> SystemConfig statement" where
  "parse_yaml y env yaml_content c = (case ym_load y yaml_content of
       None \<Rightarrow> (False, c)
     | Some yroot \<Rightarrow> statements [
         in_section y yroot ''exchanges'' (parse_exchanges y env),
         in_section y yroot ''server'' (parse_server y),
         in_section y yroot ''performance'' (parse_performance y),
         in_section y yroot ''logging'' (parse_logging y),
         in_section y yroot ''recording'' (parse_recording y),
         in_section y yroot ''arbitrage'' (parse_arbitrage y)] c)"

section \<open>The manager\<close>

text \<open>What the program's callback does: return, throw, or call a function of the manager, whose mutex \<open>load\<close> holds.\<close>

datatype change_callback = Callback_returns | Callback_throws | Callback_calls_manager

record ConfigurationManager =
  cf_config :: SystemConfig
  cf_filename :: string
  cf_change_callback :: "change_callback option"

definition ConfigurationManager_new :: ConfigurationManager where
  "ConfigurationManager_new = \<lparr>cf_config = create_default, cf_filename = [], cf_change_callback = None\<rparr>"

text \<open>The configurations that were handed to the callback are part of the result. \<open>file\<close> is the content of the file, if it opens.\<close>

definition cf_load :: "'n yaml \<Rightarrow> environment \<Rightarrow> string option \<Rightarrow> string \<Rightarrow> ConfigurationManager \<Rightarrow>
    (bool \<times> SystemConfig list \<times> ConfigurationManager) result" where
  "cf_load y env file filename m = (case file of
       None \<Rightarrow> Inr (False, [], m)
     | Some content \<Rightarrow>
         let (ok, c) = parse_yaml y env content (cf_config m); m1 = m\<lparr>cf_config := c\<rparr>
         in if \<not> ok then Inr (False, [], m1)
            else let m2 = m1\<lparr>cf_filename := filename\<rparr>
              in case cf_change_callback m2 of
                   None \<Rightarrow> Inr (True, [], m2)
                 | Some Callback_returns \<Rightarrow> Inr (True, [c], m2)
                 | Some Callback_throws \<Rightarrow> Inr (False, [c], m2)
                 | Some Callback_calls_manager \<Rightarrow> Inl Self_deadlock)"

definition load_from_string :: "'n yaml \<Rightarrow> environment \<Rightarrow> string \<Rightarrow> ConfigurationManager \<Rightarrow> bool \<times> ConfigurationManager" where
  "load_from_string y env yaml_content m = (let (ok, c) = parse_yaml y env yaml_content (cf_config m) in (ok, m\<lparr>cf_config := c\<rparr>))"

definition cf_reload :: "'n yaml \<Rightarrow> environment \<Rightarrow> (string \<Rightarrow> string option) \<Rightarrow> ConfigurationManager \<Rightarrow>
    (bool \<times> SystemConfig list \<times> ConfigurationManager) result" where
  "cf_reload y env files m =
     (if cf_filename m = [] then Inr (False, [], m) else cf_load y env (files (cf_filename m)) (cf_filename m) m)"

definition set_change_callback :: "change_callback option \<Rightarrow> ConfigurationManager \<Rightarrow> ConfigurationManager" where
  "set_change_callback callback m = m\<lparr>cf_change_callback := callback\<rparr>"

definition get_config :: "ConfigurationManager \<Rightarrow> SystemConfig" where
  "get_config m = cf_config m"

definition get_exchange_config :: "Exchange \<Rightarrow> ConfigurationManager \<Rightarrow> ExchangeConfig" where
  "get_exchange_config exchange m = (case map_of (sy_exchanges (cf_config m)) exchange of
       Some cfg \<Rightarrow> cfg
     | None \<Rightarrow> ExchangeConfig_new exchange)"

definition get_enabled_exchanges :: "ConfigurationManager \<Rightarrow> Exchange list" where
  "get_enabled_exchanges m = map fst (filter (\<lambda>(exchange, cfg). ec_enabled cfg) (sy_exchanges (cf_config m)))"

definition validate_exchange :: "ExchangeConfig \<Rightarrow> string list" where
  "validate_exchange cfg =
     (if ec_enabled cfg then
        (if ec_websocket_url cfg = [] then [''Exchange websocket_url is empty''] else []) @
        (if ec_symbols cfg = [] then [''Exchange has no symbols configured''] else []) @
        (if dle (ec_rate_limit_per_sec cfg) (Fin 0) then [''Exchange rate_limit_per_sec must be > 0''] else [])
      else [])"

definition cf_validate :: "ConfigurationManager \<Rightarrow> string list" where
  "cf_validate m = (let config = cf_config m; server = sy_server config in
     concat (map (\<lambda>(exchange, cfg). validate_exchange cfg) (sy_exchanges config)) @
     (if sv_websocket_port server = 0 then [''Server websocket_port must be set''] else []) @
     (if sv_rest_port server = 0 then [''Server rest_port must be set''] else []) @
     (if sv_websocket_port server = sv_rest_port server then [''WebSocket and REST ports must be different''] else []))"

section \<open>Saving\<close>

text \<open>The document that \<open>save\<close> hands to the emitter of the library, whose text is a parameter.\<close>

datatype yval = Ymap "(string \<times> yval) list" | Ybool bool | Ystring string | Ynat nat | Ydouble double
  | Ystrings "string list" | Yints "int list"

fun exchange_key :: "Exchange \<Rightarrow> string" where
  "exchange_key BINANCE = ''binance''"
| "exchange_key COINBASE = ''coinbase''"
| "exchange_key KRAKEN = ''kraken''"
| "exchange_key UNKNOWN = []"

definition save_exchange :: "ExchangeConfig \<Rightarrow> yval" where
  "save_exchange cfg = Ymap [(''enabled'', Ybool (ec_enabled cfg)), (''websocket_url'', Ystring (ec_websocket_url cfg)),
     (''rest_url'', Ystring (ec_rest_url cfg)), (''use_testnet'', Ybool (ec_use_testnet cfg)), (''depth'', Ynat (unat (ec_depth cfg))),
     (''rate_limit_per_sec'', Ydouble (ec_rate_limit_per_sec cfg)), (''symbols'', Ystrings (ec_symbols cfg))]"

definition save_document :: "SystemConfig \<Rightarrow> yval" where
  "save_document c = Ymap [
     (''exchanges'', Ymap (map (\<lambda>(exchange, cfg). (exchange_key exchange, save_exchange cfg)) (sy_exchanges c))),
     (''server'', Ymap [(''host'', Ystring (sv_host (sy_server c))), (''websocket_port'', Ynat (unat (sv_websocket_port (sy_server c)))),
        (''rest_port'', Ynat (unat (sv_rest_port (sy_server c))))]),
     (''performance'', Ymap [(''enable_cpu_pinning'', Ybool (pf_enable_cpu_pinning (sy_performance c))),
        (''cpu_cores'', Yints (pf_cpu_cores (sy_performance c)))]),
     (''logging'', Ymap [(''level'', Ystring (lg_level (sy_logging c))), (''async'', Ybool (lg_async (sy_logging c)))])]"

text \<open>Nothing is written when the file does not open, and the result is the same.\<close>

definition cf_save :: "(yval \<Rightarrow> string) \<Rightarrow> bool \<Rightarrow> ConfigurationManager \<Rightarrow> bool \<times> string option" where
  "cf_save emit opens m = (True, if opens then Some (emit (save_document (cf_config m))) else None)"

definition create_example :: "(yval \<Rightarrow> string) \<Rightarrow> bool \<Rightarrow> bool \<times> string option" where
  "create_example emit opens = cf_save emit opens (ConfigurationManager_new\<lparr>cf_config := create_default\<rparr>)"

section \<open>What the substitution does\<close>

datatype piece = Plain string | Variable string

fun piece_text :: "piece \<Rightarrow> string" where
  "piece_text (Plain t) = t"
| "piece_text (Variable x) = ''${'' @ x @ ''}''"

fun piece_ok :: "piece \<Rightarrow> bool" where
  "piece_ok (Plain t) \<longleftrightarrow> CHR ''$'' \<notin> set t"
| "piece_ok (Variable x) \<longleftrightarrow> CHR ''}'' \<notin> set x \<and> CHR 0x00 \<notin> set x"

fun piece_value :: "environment \<Rightarrow> piece \<Rightarrow> string" where
  "piece_value env (Plain t) = t"
| "piece_value env (Variable x) = (case env x of Some v \<Rightarrow> v | None \<Rightarrow> ''${'' @ x @ ''}'')"

lemma find_skip_plain:
  assumes "CHR ''$'' \<notin> set t"
  shows "str_find ''${'' (d @ t @ r) (length d) = str_find ''${'' (d @ t @ r) (length d + length t)"
proof -
  have "\<not> prefix ''${'' (drop k (d @ t @ r))" if "length d \<le> k" "k < length d + length t" for k
  proof
    assume p: "prefix ''${'' (drop k (d @ t @ r))"
    have k: "k - length d < length t" using that by simp
    have "drop k (d @ t @ r) = drop (k - length d) t @ r" using that by simp
    with p k have "t ! (k - length d) = CHR ''$''" by (simp add: Cons_nth_drop_Suc [OF k, symmetric])
    with k assms show False by (metis nth_mem)
  qed
  then have "length d \<le> j \<and> (\<forall>k. length d \<le> k \<and> k < j \<longrightarrow> \<not> prefix ''${'' (drop k (d @ t @ r))) \<and> prefix ''${'' (drop j (d @ t @ r)) \<longleftrightarrow>
    length d + length t \<le> j \<and> (\<forall>k. length d + length t \<le> k \<and> k < j \<longrightarrow> \<not> prefix ''${'' (drop k (d @ t @ r))) \<and>
      prefix ''${'' (drop j (d @ t @ r))" for j
    by (meson dual_order.trans le_add1 linorder_not_less)
  then have "str_find ''${'' (d @ t @ r) (length d) = Some j \<longleftrightarrow> str_find ''${'' (d @ t @ r) (length d + length t) = Some j" for j
    unfolding str_find_Some by blast
  then show ?thesis by (metis option.exhaust)
qed

lemma c_str_id: "CHR 0x00 \<notin> set s \<Longrightarrow> c_str s = s"
  by (auto simp: c_str_def takeWhile_eq_all_conv)

lemma substitute_pieces:
  assumes "list_all piece_ok ps"
  shows "substitute_loop env (d @ concat (map piece_text ps)) (length d) = d @ concat (map (piece_value env) ps)"
  using assms
proof (induction ps arbitrary: d)
  case Nil
  have "str_find ''${'' d (length d) = None" by (simp add: str_find_None)
  then show ?case by (simp add: substitute_loop.simps [of env d])
next
  case (Cons p ps)
  let ?r = "concat (map piece_text ps)"
  show ?case
  proof (cases p)
    case (Plain t)
    have "substitute_loop env (d @ t @ ?r) (length d) = substitute_loop env (d @ t @ ?r) (length d + length t)"
      using find_skip_plain [of t d ?r] Cons.prems Plain by (subst (1 2) substitute_loop.simps) simp
    also have "\<dots> = (d @ t) @ concat (map (piece_value env) ps)" using Cons.IH [of "d @ t"] Cons.prems by simp
    finally show ?thesis by (simp add: Plain)
  next
    case (Variable x)
    let ?s = "d @ ''${'' @ x @ ''}'' @ ?r"
    have x: "CHR ''}'' \<notin> set (''${'' @ x)" "c_str x = x" using Cons.prems by (simp_all add: Variable c_str_id)
    define s where "s = ?s"
    have 1: "str_find ''${'' s (length d) = Some (length d)" by (simp add: s_def str_find_Some)
    have 2: "str_find ''}'' s (length d) = Some (length d + 2 + length x)"
      using find_char_append [OF x(1), of d ?r] by (simp add: s_def)
    have 3: "substr s (length d + 2) (Some (length d + 2 + length x - length d - 2)) = x" by (simp add: s_def substr_def)
    have 4: "take (length d) s = d" "drop (length d + 2 + length x + 1) s = ?r" by (simp_all add: s_def eval_nat_numeral)
    have "substitute_loop env s (length d) = (case env x of
        Some v \<Rightarrow> substitute_loop env (d @ v @ ?r) (length d + length v)
      | None \<Rightarrow> substitute_loop env s (length d + 2 + length x + 1))"
      by (subst substitute_loop.simps) (simp only: 1 2 3 4 x(2) option.case)
    then have "substitute_loop env ?s (length d) = (case env x of
        Some v \<Rightarrow> substitute_loop env (d @ v @ ?r) (length d + length v)
      | None \<Rightarrow> substitute_loop env ?s (length d + length x + 3))"
      by (simp add: s_def eval_nat_numeral cong: option.case_cong)
    moreover have "substitute_loop env (d @ v @ ?r) (length d + length v) = (d @ v) @ concat (map (piece_value env) ps)" for v
      using Cons.IH [of "d @ v"] Cons.prems by simp
    moreover have "substitute_loop env ?s (length d + length x + 3) = (d @ ''${'' @ x @ ''}'') @ concat (map (piece_value env) ps)"
      using Cons.IH [of "d @ ''${'' @ x @ ''}''"] Cons.prems by (simp add: add.commute add.left_commute eval_nat_numeral)
    ultimately show ?thesis by (simp add: Variable split: option.split)
  qed
qed

text \<open>
  Every variable of a setting is replaced by its value in the environment, one that is not set is left as it
  is, and a value is never looked at again, even if it contains something that looks like a variable: the loop ends on every input.
\<close>

theorem env_vars_expanded:
  assumes "list_all piece_ok ps"
  shows "substitute_env_vars env (concat (map piece_text ps)) = concat (map (piece_value env) ps)"
  using substitute_pieces [OF assms, of env "[]"] by (simp add: substitute_env_vars_def)

text \<open>Instance: a value that contains a variable.\<close>

theorem env_vars_expanded_witness:
  "substitute_env_vars [''HOST'' \<mapsto> ''${HOST}'', ''PORT'' \<mapsto> ''9443''] ''wss://${HOST}:${PORT}/${X}'' = ''wss://${HOST}:9443/${X}''"
  using env_vars_expanded [of "[Plain ''wss://'', Variable ''HOST'', Plain '':'', Variable ''PORT'', Plain ''/'', Variable ''X'']"
    "[''HOST'' \<mapsto> ''${HOST}'', ''PORT'' \<mapsto> ''9443'']"] by simp

section \<open>Validation\<close>

lemma default_config_valid: "cf_validate ConfigurationManager_new = []"
  by (simp add: cf_validate_def ConfigurationManager_new_def create_default_def ExchangeConfig_new_def validate_exchange_def
    SystemConfig_new_def ServerConfig_new_def dle_def
    less_Exchange_def Let_def deq_def)

section \<open>Saving and loading\<close>








text \<open>What comes back of an exchange: \<open>depth\<close> only for two of them, and of the reconnection settings the defaults.\<close>

definition reloaded :: "Exchange \<Rightarrow> ExchangeConfig \<Rightarrow> ExchangeConfig" where
  "reloaded exchange cfg = cfg\<lparr>ec_exchange := exchange, ec_depth := (if exchange = COINBASE then 10 else ec_depth cfg),
     ec_reconnect_delay_ms := 5000, ec_max_reconnect_attempts := 10\<rparr>"




definition put_reloaded :: "SystemConfig \<Rightarrow> Exchange \<Rightarrow> SystemConfig \<Rightarrow> SystemConfig" where
  "put_reloaded saved exchange c = (case map_of (sy_exchanges saved) exchange of
       None \<Rightarrow> c | Some cfg \<Rightarrow> put_exchange exchange (reloaded exchange cfg) c)"



lemma put_reloaded_rest [simp]:
  "sy_server (put_reloaded saved ex c) = sy_server c" "sy_performance (put_reloaded saved ex c) = sy_performance c"
  "sy_logging (put_reloaded saved ex c) = sy_logging c"
  by (simp_all add: put_reloaded_def put_exchange_def split: option.split)

lemma statements_parts: "statements fs c = (True, c1) \<Longrightarrow> statements (fs @ gs) c = statements gs c1"
  by (induction fs arbitrary: c) (auto split: prod.splits bool.splits)



text \<open>A reader of documents that are given as such, for the instances.\<close>

definition tree_yaml :: "yval \<Rightarrow> yval option yaml" where
  "tree_yaml document = \<lparr>ym_load = (\<lambda>text. Some (Some document)),
     ym_at = (\<lambda>n k. case n of None \<Rightarrow> Some None | Some (Ymap kvs) \<Rightarrow> Some (map_of kvs k) | _ \<Rightarrow> None),
     ym_defined = (\<lambda>n. n \<noteq> None),
     ym_bool = (\<lambda>n. case n of Some (Ybool b) \<Rightarrow> Some b | _ \<Rightarrow> None),
     ym_string = (\<lambda>n. case n of Some (Ystring s) \<Rightarrow> Some s | _ \<Rightarrow> None),
     ym_u16 = (\<lambda>n. case n of Some (Ynat k) \<Rightarrow> if k < 2 ^ 16 then Some (of_nat k) else None | _ \<Rightarrow> None),
     ym_u32 = (\<lambda>n. case n of Some (Ynat k) \<Rightarrow> if k < 2 ^ 32 then Some (of_nat k) else None | _ \<Rightarrow> None),
     ym_u64 = (\<lambda>n. case n of Some (Ynat k) \<Rightarrow> if k < 2 ^ 64 then Some (of_nat k) else None | _ \<Rightarrow> None),
     ym_double = (\<lambda>n. case n of Some (Ydouble d) \<Rightarrow> Some d | _ \<Rightarrow> None),
     ym_strings = (\<lambda>n. case n of Some (Ystrings l) \<Rightarrow> Some l | _ \<Rightarrow> None),
     ym_ints = (\<lambda>n. case n of Some (Yints l) \<Rightarrow> Some l | _ \<Rightarrow> None)\<rparr>"





text \<open>
  A failed load is not undone. In a document whose server section is not a map the sections before it
  have already been taken over when \<open>load\<close> returns \<open>false\<close>: the manager runs on a mixture of two configurations, the callback is
  not told, and the name of the file stays what it was.
\<close>

theorem failed_load_keeps_parts:
  "\<exists>m1. cf_load (tree_yaml (Ymap [(''exchanges'', Ymap [(''kraken'', Ymap [(''enabled'', Ybool False)])]), (''server'', Ystring ''local'')]))
       env (Some text) name ConfigurationManager_new = Inr (False, [], m1) \<and>
     cf_filename m1 = [] \<and> get_enabled_exchanges ConfigurationManager_new = [BINANCE, COINBASE, KRAKEN] \<and>
     get_enabled_exchanges m1 = [BINANCE, COINBASE] \<and> ec_websocket_url (get_exchange_config KRAKEN m1) = []"
  by (simp add: cf_load_def parse_yaml_def tree_yaml_def in_section_def parse_exchanges_def parse_exchange_def as_or_def as_if_def
    assign_def parse_server_def ConfigurationManager_new_def create_default_def SystemConfig_new_def ExchangeConfig_new_def
    put_exchange_def get_enabled_exchanges_def get_exchange_config_def less_Exchange_def substitute_env_vars_def
    substitute_loop.simps [of env "[]" 0] str_find_def Let_def)

text \<open>
  A load that fails leaves the file name as it was and tells nobody, unless what failed is the callback: then everything
  has been taken over all the same. A callback that asks the manager for anything never returns.
\<close>

theorem load_outcome:
  "case cf_load y env file name m of
     Inl e \<Rightarrow> e = Self_deadlock \<and> cf_change_callback m = Some Callback_calls_manager
   | Inr (ok, told, m1) \<Rightarrow>
       (cf_filename m1 = name \<and> (\<exists>text. file = Some text \<and> parse_yaml y env text (cf_config m) = (True, cf_config m1)) \<and>
         told = (if cf_change_callback m = None then [] else [cf_config m1]) \<and> (ok \<longleftrightarrow> cf_change_callback m \<noteq> Some Callback_throws)) \<or>
       (\<not> ok \<and> cf_filename m1 = cf_filename m \<and> told = [])"
proof (cases "file")
  case (Some content)
  obtain ok c where p: "parse_yaml y env content (cf_config m) = (ok, c)" by fastforce
  show ?thesis
    by (cases ok; cases "cf_change_callback m")
      (auto simp: cf_load_def Some p Let_def split: change_callback.splits)
qed (simp add: cf_load_def)

end
