(* ===== verification/Cpu_Affinity.thy ===== *)
theory Cpu_Affinity
  imports String_Ops
begin

text \<open>
  Masks of cores, the list of isolated cores, thread affinity and the guard: \<open>include/utils/cpu_affinity.hpp\<close> and
  \<open>src/utils/cpu_affinity.cpp\<close>, as they are compiled for Linux.

  \<^item> The system calls are parameters: \<open>affinity_os\<close> has those on the affinity of a thread, with the state of the kernel, and
    what is read from \<open>/proc\<close> and \<open>/sys\<close> is a map from paths to the contents of the files that open.
  \<^item> \<open>core_loop\<close> is the loop over a range of cores, which does not end when the range goes up to the greatest
    \<open>uint32_t\<close>; its vector then outgrows the memory.
  \<^item> Faults of a function are undefined behaviour or an exception that nothing catches.
\<close>

section \<open>Masks\<close>

record CPUAffinityMask =
  cores :: "u32 list"

definition CPUAffinityMask_new :: "u32 list \<Rightarrow> CPUAffinityMask" where
  "CPUAffinityMask_new cs = \<lparr>cores = remdups_adj (sort cs)\<rparr>"

definition has_core :: "u32 \<Rightarrow> CPUAffinityMask \<Rightarrow> bool" where
  "has_core core_id m \<longleftrightarrow> core_id \<in> set (cores m)"

definition add_core :: "u32 \<Rightarrow> CPUAffinityMask \<Rightarrow> CPUAffinityMask" where
  "add_core core_id m = (if \<not> has_core core_id m then m\<lparr>cores := sort (cores m @ [core_id])\<rparr> else m)"

definition remove_core :: "u32 \<Rightarrow> CPUAffinityMask \<Rightarrow> CPUAffinityMask" where
  "remove_core core_id m = m\<lparr>cores := filter (\<lambda>c. c \<noteq> core_id) (cores m)\<rparr>"

definition get_cores :: "CPUAffinityMask \<Rightarrow> u32 list" where
  "get_cores m = cores m"

definition mask_clear :: "CPUAffinityMask \<Rightarrow> CPUAffinityMask" where
  "mask_clear m = m\<lparr>cores := []\<rparr>"

definition mask_empty :: "CPUAffinityMask \<Rightarrow> bool" where
  "mask_empty m \<longleftrightarrow> cores m = []"

definition mask_size :: "CPUAffinityMask \<Rightarrow> nat" where
  "mask_size m = length (cores m)"

datatype mask_op = Add u32 | Remove u32 | Clear

fun mask_do :: "mask_op \<Rightarrow> CPUAffinityMask \<Rightarrow> CPUAffinityMask" where
  "mask_do (Add c) m = add_core c m"
| "mask_do (Remove c) m = remove_core c m"
| "mask_do Clear m = mask_clear m"

fun set_do :: "mask_op \<Rightarrow> u32 set \<Rightarrow> u32 set" where
  "set_do (Add c) S = insert c S"
| "set_do (Remove c) S = S - {c}"
| "set_do Clear S = {}"

definition mask_inv :: "CPUAffinityMask \<Rightarrow> bool" where
  "mask_inv m \<longleftrightarrow> sorted (cores m) \<and> distinct (cores m)"

lemma mask_inv_new: "mask_inv (CPUAffinityMask_new cs)"
proof -
  have "distinct (remdups_adj xs)" if "sorted xs" for xs :: "u32 list"
    using that by (induction xs rule: remdups_adj.induct) (auto simp: less_le)
  then show ?thesis by (simp add: mask_inv_def CPUAffinityMask_new_def)
qed

lemma mask_inv_do: "mask_inv m \<Longrightarrow> mask_inv (mask_do oper m)"
  by (cases oper) (auto simp: mask_inv_def add_core_def remove_core_def mask_clear_def has_core_def sorted_wrt_filter distinct_filter
    intro: sorted_filter [of id, simplified])

lemma mask_do_set: "set (cores (mask_do oper m)) = set_do oper (set (cores m))"
  by (cases oper) (auto simp: add_core_def remove_core_def mask_clear_def has_core_def)

text \<open>
  A mask is the set of its cores: whatever is done to it, it has the cores that were added and not removed
  since, once each and in increasing order, and its size is their number.
\<close>

theorem mask_refines_set:
  "set (get_cores (fold mask_do ops (CPUAffinityMask_new cs))) = fold set_do ops (set cs) \<and>
   sorted (get_cores (fold mask_do ops (CPUAffinityMask_new cs))) \<and>
   mask_size (fold mask_do ops (CPUAffinityMask_new cs)) = card (fold set_do ops (set cs)) \<and>
   (has_core c (fold mask_do ops (CPUAffinityMask_new cs)) \<longleftrightarrow> c \<in> fold set_do ops (set cs))"
proof -
  have "set (cores (fold mask_do ops m)) = fold set_do ops (set (cores m)) \<and> (mask_inv m \<longrightarrow> mask_inv (fold mask_do ops m))" for m
    by (induction ops arbitrary: m) (auto simp: mask_do_set mask_inv_do)
  from this [of "CPUAffinityMask_new cs"] have s: "set (cores (fold mask_do ops (CPUAffinityMask_new cs))) = fold set_do ops (set cs)"
    and i: "mask_inv (fold mask_do ops (CPUAffinityMask_new cs))" using mask_inv_new [of cs] by (simp_all add: CPUAffinityMask_new_def)
  from i have "card (set (cores (fold mask_do ops (CPUAffinityMask_new cs)))) = length (cores (fold mask_do ops (CPUAffinityMask_new cs)))"
    by (simp add: mask_inv_def distinct_card)
  with s i show ?thesis by (simp add: get_cores_def mask_size_def mask_inv_def has_core_def)
qed

section \<open>Isolated cores\<close>

datatype core_fault = Undefined cpp_error | Thrown stod_error | Bad_alloc

definition stoi :: "string \<Rightarrow> stod_error + int" where
  "stoi s = (let (neg, r) = parse_sign (dropWhile is_space s); ds = takeWhile is_digit r;
       v = (if neg then - int (digits_val 10 ds) else int (digits_val 10 ds))
     in if ds = [] then Inl Invalid_argument else if - (2 ^ 31) \<le> v \<and> v < 2 ^ 31 then Inr v else Inl Out_of_range)"

text \<open>\<open>for (uint32_t i = start; i <= end; i++) isolated.push_back(i);\<close>\<close>

partial_function (option) core_loop :: "u32 \<Rightarrow> u32 \<Rightarrow> u32 list \<Rightarrow> u32 list option" where
  "core_loop i end_core acc = (if i \<le> end_core then core_loop (i + 1) end_core (acc @ [i]) else Some acc)"

definition parse_core_token :: "string \<Rightarrow> core_fault + u32 list" where
  "parse_core_token tok = (case str_find ''-'' tok 0 of
       Some dash \<Rightarrow>
         (case stoi (substr tok 0 (Some dash)) of
            Inl e \<Rightarrow> Inl (Thrown e)
          | Inr a \<Rightarrow>
              (case stoi (substr tok (dash + 1) None) of
                 Inl e \<Rightarrow> Inl (Thrown e)
               | Inr b \<Rightarrow> (case core_loop (of_int a) (of_int b) [] of None \<Rightarrow> Inl Bad_alloc | Some l \<Rightarrow> Inr l)))
     | None \<Rightarrow> (case stoi tok of Inl e \<Rightarrow> Inl (Thrown e) | Inr a \<Rightarrow> Inr [of_int a]))"

fun parse_core_tokens :: "string list \<Rightarrow> u32 list \<Rightarrow> core_fault + u32 list" where
  "parse_core_tokens [] isolated = Inr isolated"
| "parse_core_tokens (t # ts) isolated = (case parse_core_token t of
       Inl e \<Rightarrow> Inl e
     | Inr l \<Rightarrow> parse_core_tokens ts (isolated @ l))"

type_synonym files = "string \<Rightarrow> string option"

definition first_line :: "string \<Rightarrow> string" where
  "first_line s = takeWhile (\<lambda>c. c \<noteq> CHR 0x0A) s"

definition parse_isolcpus :: "files \<Rightarrow> core_fault + u32 list" where
  "parse_isolcpus fs = (case fs ''/proc/cmdline'' of
       None \<Rightarrow> Inr []
     | Some content \<Rightarrow>
         let line = first_line content
         in case str_find ''isolcpus='' line 0 of
              None \<Rightarrow> Inr []
            | Some p \<Rightarrow>
                let pos = p + 9; e = str_find '' '' line pos; isolcpus_value = upto line pos e
                in parse_core_tokens (split_on (CHR '','') isolcpus_value) [])"

lemma core_loop_range:
  assumes "e \<noteq> - 1"
  shows "core_loop i e acc = Some (acc @ map of_nat [unat i..<Suc (unat e)])"
proof (induction "Suc (unat e) - unat i" arbitrary: i acc)
  case 0
  then have "\<not> i \<le> e" by (simp add: word_le_nat_alt)
  with 0 show ?case by (simp add: core_loop.simps [of i])
next
  case (Suc k)
  then have le: "unat i \<le> unat e" by simp
  have "unat e \<noteq> unat (- 1 :: u32)" using assms by (metis unsigned_word_eqI)
  moreover have "unat e \<le> unat (- 1 :: u32)" by (simp add: word_le_nat_alt [symmetric])
  ultimately have "unat i + 1 < 2 ^ 32" using le by (simp add: unsigned_minus_1_eq_mask mask_eq_exp_minus_1)
  then have s: "unat (i + 1) = Suc (unat i)" by (simp add: unat_word_ariths)
  have "core_loop i e acc = core_loop (i + 1) e (acc @ [i])" using le by (simp add: core_loop.simps [of i] word_le_nat_alt)
  also have "\<dots> = Some ((acc @ [i]) @ map of_nat [unat (i + 1)..<Suc (unat e)])" using Suc.hyps s by (intro Suc.hyps(1)) simp
  also have "\<dots> = Some (acc @ map of_nat (unat i # [Suc (unat i)..<Suc (unat e)]))" by (simp add: s)
  also have "unat i # [Suc (unat i)..<Suc (unat e)] = [unat i..<Suc (unat e)]" using le by (simp add: upt_conv_Cons)
  finally show ?case .
qed

lemma core_loop_endless: "core_loop i (- 1) acc = None"
proof -
  have "e \<noteq> - 1" if "core_loop i e acc = Some l" for i e acc l
    by (rule core_loop.raw_induct [where P = "\<lambda>i e acc l. e \<noteq> - 1", OF _ that]) (auto split: if_splits)
  then show ?thesis by (metis option.exhaust)
qed

lemma stoi_digits: "list_all is_digit ds \<Longrightarrow> ds \<noteq> [] \<Longrightarrow> digits_val 10 ds < 2 ^ 31 \<Longrightarrow> stoi ds = Inr (int (digits_val 10 ds))"
proof -
  assume d: "list_all is_digit ds" "ds \<noteq> []" "digits_val 10 ds < 2 ^ 31"
  from d(1,2) obtain c cs where c: "ds = c # cs" "is_digit c" by (rule digit_head)
  then have "dropWhile is_space ds = ds" "parse_sign ds = (False, ds)" by (auto simp: parse_sign_def digit_not_space)
  with d show ?thesis by (simp add: stoi_def all_digits)
qed

lemma stoi_nat: "n < 2 ^ 31 \<Longrightarrow> stoi (show_nat n) = Inr (int n)"
  using stoi_digits [of "show_nat n"] show_nat_digits [of n] by simp

datatype core_item = Core nat | Range nat nat

fun item_text :: "core_item \<Rightarrow> string" where
  "item_text (Core n) = show_nat n"
| "item_text (Range a b) = show_nat a @ ''-'' @ show_nat b"

fun item_ok :: "core_item \<Rightarrow> bool" where
  "item_ok (Core n) \<longleftrightarrow> n < 2 ^ 31"
| "item_ok (Range a b) \<longleftrightarrow> a < 2 ^ 31 \<and> b < 2 ^ 31"

fun item_cores :: "core_item \<Rightarrow> u32 list" where
  "item_cores (Core n) = [of_nat n]"
| "item_cores (Range a b) = map of_nat [a..<Suc b]"

lemma not_in_digits: "\<not> is_digit c \<Longrightarrow> c \<notin> set (show_nat n)"
  using show_nat_digits [of n] by (auto simp: list_all_iff)

lemma item_text_chars: "c \<in> set (item_text x) \<Longrightarrow> is_digit c \<or> c = CHR ''-''"
  using not_in_digits by (cases x) auto

lemma parse_item: "item_ok x \<Longrightarrow> parse_core_token (item_text x) = Inr (item_cores x)"
proof (cases x)
  case (Core n)
  assume "item_ok x"
  moreover have "str_find ''-'' (show_nat n) 0 = None" by (intro find_char_none not_in_digits) simp
  ultimately show ?thesis by (simp add: Core parse_core_token_def stoi_nat)
next
  case (Range a b)
  assume "item_ok x"
  then have r: "a < 2 ^ 31" "b < 2 ^ 31" by (simp_all add: Range)
  have f: "str_find ''-'' (show_nat a @ CHR ''-'' # show_nat b) 0 = Some (length (show_nat a))"
    using find_char_append [OF not_in_digits [of "CHR ''-''" a], of "[]" "show_nat b"] by simp
  have ub: "unat (word_of_nat b :: u32) = b" "unat (word_of_nat a :: u32) = a" using r by (simp_all add: unat_of_nat)
  have "unat (word_of_nat b :: u32) \<noteq> unat (- 1 :: u32)" using r ub by (simp add: unsigned_minus_1_eq_mask mask_eq_exp_minus_1)
  then have "(word_of_nat b :: u32) \<noteq> - 1" by metis
  from core_loop_range [OF this, of "word_of_nat a" "[]"]
  have "core_loop (word_of_nat a) (word_of_nat b) [] = Some (map of_nat [a..<Suc b])" by (simp add: ub)
  then show ?thesis using r by (simp add: Range parse_core_token_def f substr_def stoi_nat del: show_nat.simps)
qed

lemma split_piece: "d \<notin> set t \<Longrightarrow> split_aux d acc (t @ d # r) = (acc @ t) # split_aux d [] r"
  by (induction t arbitrary: acc) auto

lemma split_last: "d \<notin> set t \<Longrightarrow> split_aux d acc t = (if acc @ t = [] then [] else [acc @ t])"
  by (induction t arbitrary: acc) auto

fun item_list :: "core_item list \<Rightarrow> string" where
  "item_list [] = []"
| "item_list [x] = item_text x"
| "item_list (x # xs) = item_text x @ '','' @ item_list xs"

lemma item_text_no: "\<not> is_digit c \<Longrightarrow> c \<noteq> CHR ''-'' \<Longrightarrow> c \<notin> set (item_text x)"
  using item_text_chars by blast

lemma item_list_no: "\<not> is_digit c \<Longrightarrow> c \<noteq> CHR ''-'' \<Longrightarrow> c \<noteq> CHR '','' \<Longrightarrow> c \<notin> set (item_list xs)"
  by (induction xs rule: item_list.induct) (auto simp: item_text_no)

lemma separators [simp]: "\<not> is_digit (CHR '','')" "\<not> is_digit (CHR '' '')" "\<not> is_digit (CHR 0x0A)" "\<not> is_digit (CHR ''='')"
  by (simp_all add: is_digit_def)

lemma item_text_ne: "item_text x \<noteq> []"
  using show_nat_digits by (cases x) auto

lemma split_items: "split_on (CHR '','') (item_list xs) = map item_text xs"
proof (induction xs rule: item_list.induct)
  case (2 x)
  then show ?case using item_text_no [of "CHR '',''" x] by (simp add: split_on_def split_last item_text_ne)
next
  case (3 x y ys)
  then show ?case using item_text_no [of "CHR '',''" x] by (simp add: split_on_def split_piece)
qed (simp add: split_on_def)

lemma parse_items: "list_all item_ok xs \<Longrightarrow> parse_core_tokens (map item_text xs) acc = Inr (acc @ concat (map item_cores xs))"
  by (induction xs arbitrary: acc) (simp_all add: parse_item)

lemma find_key:
  assumes "\<not> sublist (k @ [c]) p" and "c \<notin> set k"
  shows "str_find (k @ [c]) (p @ k @ c # r) 0 = Some (length p)"
proof -
  have "\<not> prefix (k @ [c]) (drop j (p @ k @ c # r))" if j: "j < length p" for j
  proof
    assume "prefix (k @ [c]) (drop j (p @ k @ c # r))"
    then obtain t where t: "drop j p @ k @ c # r = k @ c # t" using j by (auto simp: prefix_def)
    show False
    proof (cases "length k < length (drop j p)")
      case True
      then have "take (Suc (length k)) (drop j p) = take (Suc (length k)) (drop j p @ k @ c # r)" by simp
      also have "\<dots> = k @ [c]" unfolding t by simp
      finally have "k @ [c] @ drop (Suc (length k)) (drop j p) = drop j p" by (metis append.assoc append_take_drop_id)
      then have "p = take j p @ (k @ [c]) @ drop (Suc (length k)) (drop j p)" by (metis append.assoc append_take_drop_id)
      with assms(1) show False unfolding sublist_def by metis
    next
      case False
      let ?i = "length k - length (drop j p)"
      have i: "?i < length k" using False j by simp
      have "c = (drop j p @ k @ c # r) ! length k" unfolding t by simp
      also have "\<dots> = (k @ c # r) ! ?i" using False by (subst nth_append) (simp del: length_drop)
      also have "\<dots> = k ! ?i" by (subst nth_append) (simp only: i if_True)
      finally have "c \<in> set k" using i by simp
      with assms(2) show False ..
    qed
  qed
  then show ?thesis by (simp add: str_find_Some)
qed

lemma first_line_append: "CHR 0x0A \<notin> set p \<Longrightarrow> first_line (p @ r) = p @ first_line r"
  by (induction p) (auto simp: first_line_def)

text \<open>
  C30. The list of cores and ranges in the parameter \<open>isolcpus=\<close> of the kernel's command line, whatever comes before and
  after it, is read as the cores it lists, in order.
\<close>

theorem isolcpus_parsed:
  assumes "fs ''/proc/cmdline'' = Some (before @ ''isolcpus='' @ item_list items @ rest)"
    and "CHR 0x0A \<notin> set before" and "\<not> sublist ''isolcpus='' before" and "list_all item_ok items"
    and "rest = [] \<or> hd rest = CHR '' '' \<or> hd rest = CHR 0x0A"
  shows "parse_isolcpus fs = Inr (concat (map item_cores items))"
proof -
  let ?key = "''isolcpus=''"
  have nl: "CHR 0x0A \<notin> set (before @ ?key @ item_list items)" using assms(2) by (simp add: item_list_no)
  from first_line_append [OF nl, of rest]
  have line: "first_line (before @ ?key @ item_list items @ rest) = before @ ?key @ item_list items @ first_line rest" by simp
  have k: "str_find ?key (before @ ?key @ item_list items @ first_line rest) 0 = Some (length before)"
    using find_key [of "''isolcpus''" "CHR ''=''" before] assms(3) by simp
  have sp: "CHR '' '' \<notin> set (item_list items)" by (simp add: item_list_no)
  let ?line = "before @ ?key @ item_list items @ first_line rest"
  have "upto ?line (length before + 9) (str_find '' '' ?line (length before + 9)) = item_list items"
  proof (cases "first_line rest")
    case Nil
    have "str_find '' '' ?line (length before + 9) = None" using sp by (auto simp: Nil str_find_None dest!: set_mono_prefix in_set_dropD)
    then show ?thesis by (simp add: upto_def substr_def Nil)
  next
    case (Cons c r)
    then have "c = CHR '' ''" using assms(5) by (cases rest) (auto simp: first_line_def split: if_splits)
    then show ?thesis using upto_char [OF sp, of "before @ ?key" r] by (simp add: Cons eval_nat_numeral)
  qed
  then show ?thesis by (simp add: parse_isolcpus_def assms(1) line [simplified] k [simplified] split_items parse_items [OF assms(4)])
qed

text \<open>Witness of C30.\<close>

theorem isolcpus_parsed_witness:
  "parse_isolcpus [''/proc/cmdline'' \<mapsto> ''ro quiet isolcpus=1,4-6 nohz=on''] = Inr [1, 4, 5, 6]"
proof -
  have "item_list [Core 1, Range 4 6] = ''1,4-6''" by code_simp
  then show ?thesis
    using isolcpus_parsed [of "[''/proc/cmdline'' \<mapsto> ''ro quiet isolcpus=1,4-6 nohz=on'']" "''ro quiet ''" "[Core 1, Range 4 6]" "'' nohz=on''"]
    by (simp add: upt_rec sublist_Cons_right del: item_list.simps)
qed

text \<open>
  Not every value the kernel accepts is understood. A flag in front of the list is an exception that nothing
  catches, and a range with a reversed sign never ends.
\<close>

theorem isolcpus_faults:
  "parse_isolcpus [''/proc/cmdline'' \<mapsto> ''isolcpus=managed_irq,2-5''] = Inl (Thrown Invalid_argument) \<and>
   parse_isolcpus [''/proc/cmdline'' \<mapsto> ''isolcpus=2--1''] = Inl Bad_alloc"
  by (simp add: parse_isolcpus_def first_line_def str_find_def upto_def substr_def split_on_def parse_core_token_def stoi_def
    parse_sign_def is_space_def is_digit_def digits_val_def digit_val_def core_loop_endless)

section \<open>The cores of the system\<close>

record CPUCoreInfo =
  ci_core_id :: u32
  ci_numa_node :: u32
  ci_is_isolated :: bool
  ci_is_online :: bool
  ci_frequency_mhz :: u64

text \<open>
  \<open>file >> x\<close> into an uninitialised integer: \<open>None\<close>, when there is nothing but white space, leaves it as it is; otherwise the
  value is the number, limited to the range of the type, and zero when there are no digits.
\<close>

definition stream_int :: "string \<Rightarrow> int option" where
  "stream_int s = (let (neg, r) = parse_sign (dropWhile is_space s); v = int (digits_val 10 (takeWhile is_digit r))
     in if dropWhile is_space s = [] then None
        else Some (max (- (2 ^ 31)) (min (2 ^ 31 - 1) (if neg then - v else v))))"

definition stream_u64 :: "string \<Rightarrow> u64 option" where
  "stream_u64 s = (let (neg, r) = parse_sign (dropWhile is_space s); v = digits_val 10 (takeWhile is_digit r)
     in if dropWhile is_space s = [] then None
        else Some (if 2 ^ 64 \<le> v then - 1 else if neg then - of_nat v else of_nat v))"

definition cpu_path :: "u32 \<Rightarrow> string \<Rightarrow> string" where
  "cpu_path i name = ''/sys/devices/system/cpu/cpu'' @ show_nat (unat i) @ name"

text \<open>\<open>node\<close>: the node of a core, when the NUMA library is available.\<close>

definition core_info :: "files \<Rightarrow> (u32 \<Rightarrow> int) option \<Rightarrow> u32 \<Rightarrow> core_fault + CPUCoreInfo" where
  "core_info fs node i =
     (let info = \<lparr>ci_core_id = i, ci_numa_node = (case node of None \<Rightarrow> 0 | Some f \<Rightarrow> of_int (f i)), ci_is_isolated = False,
        ci_is_online = True, ci_frequency_mhz = 0\<rparr>
      in case (case fs (cpu_path i ''/online'') of None \<Rightarrow> Some True | Some s \<Rightarrow> map_option (\<lambda>online. online = 1) (stream_int s)) of
           None \<Rightarrow> Inl (Undefined UB_uninitialised)
         | Some online \<Rightarrow>
             (case (case fs (cpu_path i ''/cpufreq/scaling_cur_freq'') of
                      None \<Rightarrow> Some 0 | Some s \<Rightarrow> map_option (\<lambda>freq_khz. freq_khz div 1000) (stream_u64 s)) of
                None \<Rightarrow> Inl (Undefined UB_uninitialised)
              | Some mhz \<Rightarrow> Inr (info\<lparr>ci_is_online := online, ci_frequency_mhz := mhz\<rparr>)))"

fun core_infos :: "files \<Rightarrow> (u32 \<Rightarrow> int) option \<Rightarrow> u32 list \<Rightarrow> core_fault + CPUCoreInfo list" where
  "core_infos fs node [] = Inr []"
| "core_infos fs node (i # is) = (case core_info fs node i of Inl e \<Rightarrow> Inl e | Inr c \<Rightarrow> map_sum id (Cons c) (core_infos fs node is))"

definition mark_isolated :: "u32 \<Rightarrow> CPUCoreInfo list \<Rightarrow> CPUCoreInfo list" where
  "mark_isolated core_id cs =
     (if unat core_id < length cs then cs[unat core_id := (cs ! unat core_id)\<lparr>ci_is_isolated := True\<rparr>] else cs)"

definition get_available_cores :: "files \<Rightarrow> (u32 \<Rightarrow> int) option \<Rightarrow> u32 \<Rightarrow> core_fault + CPUCoreInfo list" where
  "get_available_cores fs node core_count = (case core_infos fs node (map of_nat [0..<unat core_count]) of
       Inl e \<Rightarrow> Inl e
     | Inr cs \<Rightarrow> (case parse_isolcpus fs of Inl e \<Rightarrow> Inl e | Inr isolated \<Rightarrow> Inr (fold mark_isolated isolated cs)))"

definition get_isolated_cores :: "files \<Rightarrow> (u32 \<Rightarrow> int) option \<Rightarrow> u32 \<Rightarrow> core_fault + CPUCoreInfo list" where
  "get_isolated_cores fs node core_count = map_sum id (filter ci_is_isolated) (get_available_cores fs node core_count)"

text \<open>\<open>cpu\<close>: the result of \<open>sched_getcpu\<close>.\<close>

definition get_current_core :: "int \<Rightarrow> u32 option" where
  "get_current_core cpu = (if cpu < 0 then None else Some (of_int cpu))"

definition is_on_isolated_core :: "files \<Rightarrow> int \<Rightarrow> core_fault + bool" where
  "is_on_isolated_core fs cpu = (case get_current_core cpu of
       None \<Rightarrow> Inr False
     | Some core \<Rightarrow> map_sum id (\<lambda>isolated. core \<in> set isolated) (parse_isolcpus fs))"

definition get_cpu_governor :: "files \<Rightarrow> string" where
  "get_cpu_governor fs = (case fs ''/sys/devices/system/cpu/cpu0/cpufreq/scaling_governor'' of
       Some s \<Rightarrow> first_line s | None \<Rightarrow> ''unknown'')"

definition is_frequency_scaling_disabled :: "files \<Rightarrow> bool" where
  "is_frequency_scaling_disabled fs \<longleftrightarrow> get_cpu_governor fs = ''performance''"

text \<open>\<open>numa_nodes\<close>: the number of nodes, when the NUMA library is available.\<close>

definition validate_configuration :: "files \<Rightarrow> (u32 \<Rightarrow> int) option \<Rightarrow> int option \<Rightarrow> u32 \<Rightarrow> core_fault + string list" where
  "validate_configuration fs node numa_nodes core_count =
     (let few = (if core_count < 4 then [''System has only '' @ show_nat (unat core_count) @ '' cores - recommend at least 4 for trading''] else [])
      in case get_isolated_cores fs node core_count of
           Inl e \<Rightarrow> Inl e
         | Inr isolated \<Rightarrow> Inr (few @
             (if isolated = [] then [''No isolated cores found - add isolcpus= to kernel cmdline for best latency''] else []) @
             (let governor = get_cpu_governor fs in
              if governor \<noteq> ''performance''
              then [''CPU governor is '' @ [CHR 0x27] @ governor @ [CHR 0x27] @ '' - should be '' @ [CHR 0x27] @ ''performance'' @ [CHR 0x27] @ '' for trading'']
              else []) @
             (if \<not> is_frequency_scaling_disabled fs
              then [''CPU frequency scaling is enabled - disable for consistent latency''] else []) @
             (case numa_nodes of
                Some n \<Rightarrow> (if n > 1 then [''NUMA system - ensure memory allocated on same node as pinned CPU cores''] else [])
              | None \<Rightarrow> [])))"

lemma core_infos_nth:
  "core_infos fs node is = Inr cs \<Longrightarrow> length cs = length is \<and> (\<forall>k < length is. ci_core_id (cs ! k) = is ! k \<and> \<not> ci_is_isolated (cs ! k))"
proof (induction "is" arbitrary: cs)
  case (Cons i "is")
  then obtain c ds where "core_info fs node i = Inr c" "core_infos fs node is = Inr ds" "cs = c # ds"
    by (auto split: sum.splits simp: map_sum_def)
  moreover from this(1) have "ci_core_id c = i \<and> \<not> ci_is_isolated c" by (auto simp: core_info_def Let_def split: option.splits)
  ultimately show ?case using Cons.IH by (auto simp: nth_Cons split: nat.split)
qed simp

lemma mark_isolated_length: "length (fold mark_isolated ids cs) = length cs"
  by (induction ids arbitrary: cs) (simp_all add: mark_isolated_def)

lemma mark_isolated_fold:
  assumes "k < length cs"
  shows "length (fold mark_isolated ids cs) = length cs \<and> ci_core_id (fold mark_isolated ids cs ! k) = ci_core_id (cs ! k) \<and>
    (ci_is_isolated (fold mark_isolated ids cs ! k) \<longleftrightarrow> ci_is_isolated (cs ! k) \<or> k \<in> unat ` set ids)"
  using assms
proof (induction ids arbitrary: cs)
  case (Cons c ids)
  have "k < length (mark_isolated c cs)" using Cons.prems by (simp add: mark_isolated_def)
  from Cons.IH [OF this] Cons.prems show ?case by (auto simp: mark_isolated_def nth_list_update)
qed simp

text \<open>
  On a system whose information can be read, every core has its entry at its own index, and is marked as
  isolated when it is in the list on the kernel's command line; the isolated cores are those, in order.
\<close>

theorem isolated_cores_marked:
  assumes "get_available_cores fs node n = Inr cs" and "parse_isolcpus fs = Inr isolated"
  shows "map ci_core_id cs = map of_nat [0..<unat n] \<and> (\<forall>k < unat n. ci_is_isolated (cs ! k) \<longleftrightarrow> of_nat k \<in> set isolated) \<and>
    map_sum id (map ci_core_id) (get_isolated_cores fs node n) = Inr (filter (\<lambda>c. c \<in> set isolated) (map of_nat [0..<unat n]))"
proof -
  obtain ds where ds: "core_infos fs node (map of_nat [0..<unat n]) = Inr ds" and cs: "cs = fold mark_isolated isolated ds"
    using assms by (auto simp: get_available_cores_def split: sum.splits)
  note info = core_infos_nth [OF ds, simplified]
  have mem: "k \<in> unat ` set isolated \<longleftrightarrow> of_nat k \<in> set isolated" if "k < unat n" for k
  proof -
    have "unat n < 2 ^ 32" using unsigned_less [of n] by simp
    with that have "k < 2 ^ 32" by linarith
    then have "unat (of_nat k :: u32) = k" by (simp add: unat_of_nat)
    then show ?thesis by (auto intro: rev_image_eqI)
  qed
  have len: "length cs = unat n" using info by (simp add: cs mark_isolated_length)
  have k: "ci_core_id (cs ! k) = of_nat k \<and> (ci_is_isolated (cs ! k) \<longleftrightarrow> of_nat k \<in> set isolated)" if "k < unat n" for k
    using mark_isolated_fold [of k ds isolated] info mem [OF that] that by (simp add: cs)
  have ids: "map ci_core_id cs = map of_nat [0..<unat n]" using len k by (intro nth_equalityI) simp_all
  have "ci_is_isolated c \<longleftrightarrow> ci_core_id c \<in> set isolated" if "c \<in> set cs" for c
    using that k len by (metis in_set_conv_nth)
  then have "filter ci_is_isolated cs = filter (\<lambda>c. ci_core_id c \<in> set isolated) cs" by (rule filter_cong [OF refl])
  then have "map ci_core_id (filter ci_is_isolated cs) = filter (\<lambda>c. c \<in> set isolated) (map of_nat [0..<unat n])"
    unfolding ids [symmetric] by (simp add: filter_map comp_def)
  with k ids show ?thesis by (simp add: get_isolated_cores_def assms(1))
qed

text \<open>Instance: four cores, of which the last two are isolated.\<close>

theorem isolated_cores_marked_witness:
  "\<exists>cs. get_available_cores [''/proc/cmdline'' \<mapsto> ''isolcpus=2-3''] None 4 = Inr cs \<and> length cs = 4 \<and>
     \<not> ci_is_isolated (cs ! 1) \<and> ci_is_isolated (cs ! 2)"
proof -
  let ?fs = "[''/proc/cmdline'' \<mapsto> ''isolcpus=2-3'']"
  have "item_list [Range 2 3] = ''2-3''" by code_simp
  then have p: "parse_isolcpus ?fs = Inr [2, 3]"
    using isolcpus_parsed [of ?fs "[]" "[Range 2 3]" "[]"] by (simp add: upt_rec del: item_list.simps)
  have no: "cpu_path i s \<noteq> ''/proc/cmdline''" for i s by (simp add: cpu_path_def)
  have "\<exists>cs. core_infos ?fs None is = Inr cs" for "is"
    by (induction "is") (auto simp: core_info_def no)
  then obtain ds where "core_infos ?fs None (map of_nat [0..<unat (4 :: u32)]) = Inr ds" by blast
  then obtain cs where cs: "get_available_cores ?fs None 4 = Inr cs" using p by (simp add: get_available_cores_def)
  note m = isolated_cores_marked [OF cs p]
  have "length cs = 4" using arg_cong [OF conjunct1 [OF m], of length] by simp
  with cs m show ?thesis by (intro exI [of _ cs]) simp
qed

section \<open>Affinity and priority of threads\<close>

text \<open>\<open>pthread_setaffinity_np\<close> and \<open>pthread_getaffinity_np\<close> of a thread, with their return code.\<close>

record 'k affinity_os =
  oa_set :: "nat \<Rightarrow> nat set \<Rightarrow> 'k \<Rightarrow> int \<times> 'k"
  oa_get :: "nat \<Rightarrow> 'k \<Rightarrow> int \<times> nat set"

definition CPU_SETSIZE :: nat where
  "CPU_SETSIZE = 1024"

text \<open>Cores beyond the size of a \<open>cpu_set_t\<close> are left out with a warning.\<close>

definition cpuset_of :: "CPUAffinityMask \<Rightarrow> nat set" where
  "cpuset_of cmask = unat ` set (filter (\<lambda>c. unat c < CPU_SETSIZE) (get_cores cmask))"

definition set_affinity_of :: "'k affinity_os \<Rightarrow> nat \<Rightarrow> CPUAffinityMask \<Rightarrow> 'k \<Rightarrow> bool \<times> 'k" where
  "set_affinity_of os thread cmask k =
     (if mask_empty cmask then (False, k)
      else let (r, k1) = oa_set os thread (cpuset_of cmask) k in (r = 0, k1))"

definition set_thread_affinity :: "'k affinity_os \<Rightarrow> nat \<Rightarrow> CPUAffinityMask \<Rightarrow> 'k \<Rightarrow> bool \<times> 'k" where
  "set_thread_affinity os self cmask k =
     (if mask_empty cmask then (False, k)
      else let (r, k1) = oa_set os self (cpuset_of cmask) k in (r = 0, k1))"

definition set_thread_affinity_core :: "'k affinity_os \<Rightarrow> nat \<Rightarrow> u32 \<Rightarrow> 'k \<Rightarrow> bool \<times> 'k" where
  "set_thread_affinity_core os self core_id k = set_thread_affinity os self (CPUAffinityMask_new [core_id]) k"

definition set_affinity_of_core :: "'k affinity_os \<Rightarrow> nat \<Rightarrow> u32 \<Rightarrow> 'k \<Rightarrow> bool \<times> 'k" where
  "set_affinity_of_core os thread core_id k = set_affinity_of os thread (CPUAffinityMask_new [core_id]) k"

definition mask_of :: "nat set \<Rightarrow> CPUAffinityMask" where
  "mask_of cpuset = CPUAffinityMask_new (map of_nat (filter (\<lambda>i. i \<in> cpuset) [0..<CPU_SETSIZE]))"

definition get_affinity_of :: "'k affinity_os \<Rightarrow> nat \<Rightarrow> 'k \<Rightarrow> CPUAffinityMask option" where
  "get_affinity_of os thread k = (let (r, cpuset) = oa_get os thread k in if r \<noteq> 0 then None else Some (mask_of cpuset))"

definition get_thread_affinity :: "'k affinity_os \<Rightarrow> nat \<Rightarrow> 'k \<Rightarrow> CPUAffinityMask option" where
  "get_thread_affinity os self k = (let (r, cpuset) = oa_get os self k in if r \<noteq> 0 then None else Some (mask_of cpuset))"

datatype SchedulingPolicy = NORMAL | REALTIME_FIFO | REALTIME_RR | BATCH | IDLE

datatype linux_policy = SCHED_OTHER | SCHED_FIFO | SCHED_RR | SCHED_BATCH | SCHED_IDLE

fun linux_scheduling :: "SchedulingPolicy \<Rightarrow> int \<Rightarrow> linux_policy \<times> int" where
  "linux_scheduling REALTIME_FIFO priority = (SCHED_FIFO, priority)"
| "linux_scheduling REALTIME_RR priority = (SCHED_RR, priority)"
| "linux_scheduling BATCH priority = (SCHED_BATCH, 0)"
| "linux_scheduling IDLE priority = (SCHED_IDLE, 0)"
| "linux_scheduling NORMAL priority = (SCHED_OTHER, 0)"

type_synonym 'k setschedparam = "nat \<Rightarrow> linux_policy \<Rightarrow> int \<Rightarrow> 'k \<Rightarrow> int \<times> 'k"

definition set_priority_of :: "'k setschedparam \<Rightarrow> nat \<Rightarrow> SchedulingPolicy \<Rightarrow> int \<Rightarrow> 'k \<Rightarrow> bool \<times> 'k" where
  "set_priority_of setsched thread policy priority k =
     (let (lp, param) = linux_scheduling policy priority; (r, k1) = setsched thread lp param k in (r = 0, k1))"

definition set_thread_priority :: "'k setschedparam \<Rightarrow> nat \<Rightarrow> SchedulingPolicy \<Rightarrow> int \<Rightarrow> 'k \<Rightarrow> bool \<times> 'k" where
  "set_thread_priority setsched self policy priority k =
     (let (lp, param) = linux_scheduling policy priority; (r, k1) = setsched self lp param k in (r = 0, k1))"

text \<open>The overloads for a thread object and for the calling thread are written out twice in the code; they agree.\<close>

lemma affinity_overloads:
  "set_affinity_of os thread = set_thread_affinity os thread" "get_affinity_of os thread = get_thread_affinity os thread"
  "set_priority_of setsched thread = set_thread_priority setsched thread"
  by (simp_all add: fun_eq_iff set_affinity_of_def set_thread_affinity_def get_affinity_of_def get_thread_affinity_def set_priority_of_def
    set_thread_priority_def)

record ThreadAffinityGuard =
  gd_original_affinity :: "CPUAffinityMask option"
  gd_restore_on_destroy :: bool

definition ThreadAffinityGuard_new :: "'k affinity_os \<Rightarrow> nat \<Rightarrow> CPUAffinityMask \<Rightarrow> 'k \<Rightarrow> ThreadAffinityGuard \<times> 'k" where
  "ThreadAffinityGuard_new os self cmask k =
     (let original = get_thread_affinity os self k; (ok, k1) = set_thread_affinity os self cmask k
      in (\<lparr>gd_original_affinity = original, gd_restore_on_destroy = ok\<rparr>, k1))"

definition ThreadAffinityGuard_core :: "'k affinity_os \<Rightarrow> nat \<Rightarrow> u32 \<Rightarrow> 'k \<Rightarrow> ThreadAffinityGuard \<times> 'k" where
  "ThreadAffinityGuard_core os self core_id k =
     (let original = get_thread_affinity os self k; (ok, k1) = set_thread_affinity_core os self core_id k
      in (\<lparr>gd_original_affinity = original, gd_restore_on_destroy = ok\<rparr>, k1))"

definition ThreadAffinityGuard_end :: "'k affinity_os \<Rightarrow> nat \<Rightarrow> ThreadAffinityGuard \<Rightarrow> 'k \<Rightarrow> 'k" where
  "ThreadAffinityGuard_end os self g k = (case gd_original_affinity g of
       Some original \<Rightarrow> if gd_restore_on_destroy g then snd (set_thread_affinity os self original k) else k
     | None \<Rightarrow> k)"

text \<open>
  The documented behaviour of the two calls for a program that may use the cores \<open>permitted\<close>: a request is cut down to the permitted
  cores and refused when nothing is left, and concerns one thread.
\<close>

definition affinity_ok :: "'k affinity_os \<Rightarrow> nat set \<Rightarrow> bool" where
  "affinity_ok os permitted \<longleftrightarrow> permitted \<subseteq> {..<CPU_SETSIZE} \<and>
     (\<forall>k t. \<exists>s. oa_get os t k = (0, s) \<and> s \<noteq> {} \<and> s \<subseteq> permitted) \<and>
     (\<forall>k t S. if S \<inter> permitted = {} then \<exists>r. r \<noteq> 0 \<and> oa_set os t S k = (r, k)
        else \<exists>k1. oa_set os t S k = (0, k1) \<and> oa_get os t k1 = (0, S \<inter> permitted) \<and>
               (\<forall>t'. t' \<noteq> t \<longrightarrow> oa_get os t' k1 = oa_get os t' k))"

lemma cpuset_of_mask_of: "s \<subseteq> {..<CPU_SETSIZE} \<Longrightarrow> cpuset_of (mask_of s) = s"
proof -
  assume s: "s \<subseteq> {..<CPU_SETSIZE}"
  have u: "unat (of_nat i :: u32) = i" if "i < CPU_SETSIZE" for i
    using that by (simp add: CPU_SETSIZE_def unat_of_nat)
  have "cpuset_of (mask_of s) = unat ` {c \<in> (of_nat :: nat \<Rightarrow> u32) ` {i. i < CPU_SETSIZE \<and> i \<in> s}. unat c < CPU_SETSIZE}"
    by (auto simp: cpuset_of_def mask_of_def CPUAffinityMask_new_def get_cores_def)
  also have "\<dots> = s" using s u by (force simp: image_iff)
  finally show ?thesis .
qed

lemma set_affinity_result:
  assumes "affinity_ok os permitted"
  shows "if cpuset_of cmask \<inter> permitted = {} then set_thread_affinity os self cmask k = (False, k)
    else \<exists>k1. set_thread_affinity os self cmask k = (True, k1) \<and> oa_get os self k1 = (0, cpuset_of cmask \<inter> permitted) \<and>
      (\<forall>t. t \<noteq> self \<longrightarrow> oa_get os t k1 = oa_get os t k)"
proof -
  have law: "if cpuset_of cmask \<inter> permitted = {} then \<exists>r. r \<noteq> 0 \<and> oa_set os self (cpuset_of cmask) k = (r, k)
      else \<exists>k1. oa_set os self (cpuset_of cmask) k = (0, k1) \<and> oa_get os self k1 = (0, cpuset_of cmask \<inter> permitted) \<and>
        (\<forall>t'. t' \<noteq> self \<longrightarrow> oa_get os t' k1 = oa_get os t' k)"
    using assms unfolding affinity_ok_def by blast
  have e: "cpuset_of cmask = {}" if "mask_empty cmask" using that by (simp add: mask_empty_def cpuset_of_def get_cores_def)
  show ?thesis
  proof (cases "cpuset_of cmask \<inter> permitted = {}")
    case True
    then show ?thesis using law by (auto simp: set_thread_affinity_def)
  next
    case False
    then have "\<not> mask_empty cmask" using e by auto
    then show ?thesis using law False by (auto simp: set_thread_affinity_def)
  qed
qed

text \<open>
  While a guard lives its thread is on the permitted cores of the mask, or where it was when there are none;
  and the end of the guard, whatever happened in between, puts the thread back on the cores it had, unless nothing was changed. No
  other thread is concerned.
\<close>

theorem affinity_guard_restores:
  assumes "affinity_ok os permitted" and "ThreadAffinityGuard_new os self cmask k = (g, k1)"
  shows "oa_get os self k1 = (if cpuset_of cmask \<inter> permitted = {} then oa_get os self k else (0, cpuset_of cmask \<inter> permitted)) \<and>
    (\<forall>k2. oa_get os self (ThreadAffinityGuard_end os self g k2) =
       (if cpuset_of cmask \<inter> permitted = {} then oa_get os self k2 else oa_get os self k)) \<and>
    (\<forall>t k2. t \<noteq> self \<longrightarrow> oa_get os t k1 = oa_get os t k \<and> oa_get os t (ThreadAffinityGuard_end os self g k2) = oa_get os t k2)"
proof -
  obtain s where s: "oa_get os self k = (0, s)" "s \<noteq> {}" "s \<subseteq> permitted" "permitted \<subseteq> {..<CPU_SETSIZE}"
    using assms(1) unfolding affinity_ok_def by blast
  then have same: "cpuset_of (mask_of s) \<inter> permitted = s" using cpuset_of_mask_of [of s] by auto
  have original: "get_thread_affinity os self k = Some (mask_of s)" by (simp add: get_thread_affinity_def s(1))
  have restore: "\<exists>k3. set_thread_affinity os self (mask_of s) k2 = (True, k3) \<and> oa_get os self k3 = (0, s) \<and>
      (\<forall>t. t \<noteq> self \<longrightarrow> oa_get os t k3 = oa_get os t k2)" for k2
    using set_affinity_result [OF assms(1), of "mask_of s" self k2] same s(2) by simp
  show ?thesis
  proof (cases "cpuset_of cmask \<inter> permitted = {}")
    case True
    then have "set_thread_affinity os self cmask k = (False, k)" using set_affinity_result [OF assms(1), of cmask self k] by simp
    then have "g = \<lparr>gd_original_affinity = Some (mask_of s), gd_restore_on_destroy = False\<rparr>" "k1 = k"
      using assms(2) by (simp_all add: ThreadAffinityGuard_new_def original)
    then show ?thesis using True by (simp add: ThreadAffinityGuard_end_def)
  next
    case False
    then obtain k' where k': "set_thread_affinity os self cmask k = (True, k')" "oa_get os self k' = (0, cpuset_of cmask \<inter> permitted)"
      "\<forall>t. t \<noteq> self \<longrightarrow> oa_get os t k' = oa_get os t k"
      using set_affinity_result [OF assms(1), of cmask self k] by auto
    then have "g = \<lparr>gd_original_affinity = Some (mask_of s), gd_restore_on_destroy = True\<rparr>" "k1 = k'"
      using assms(2) by (simp_all add: ThreadAffinityGuard_new_def original)
    then show ?thesis using False k' s(1) restore by (auto simp: ThreadAffinityGuard_end_def) (metis snd_conv)+
  qed
qed

text \<open>Instance: a system of four cores, and a guard that pins thread 7 to core 2.\<close>

definition four_cores :: "(nat \<Rightarrow> nat set) affinity_os" where
  "four_cores = \<lparr>oa_set = (\<lambda>t S k. if S \<inter> {0, 1, 2, 3} = {} then (22, k) else (0, k(t := S \<inter> {0, 1, 2, 3}))),
     oa_get = (\<lambda>t k. (0, if k t \<inter> {0, 1, 2, 3} = {} then {0, 1, 2, 3} else k t \<inter> {0, 1, 2, 3}))\<rparr>"

theorem affinity_guard_restores_witness:
  "\<exists>g k1. ThreadAffinityGuard_new four_cores 7 (CPUAffinityMask_new [2]) (\<lambda>_. {0, 1}) = (g, k1) \<and> oa_get four_cores 7 k1 = (0, {2}) \<and>
     oa_get four_cores 7 (ThreadAffinityGuard_end four_cores 7 g k1) = (0, {0, 1})"
proof -
  obtain g k1 where g: "ThreadAffinityGuard_new four_cores 7 (CPUAffinityMask_new [2]) (\<lambda>_. {0, 1}) = (g, k1)" by fastforce
  have ok: "affinity_ok four_cores {0, 1, 2, 3}"
    unfolding affinity_ok_def four_cores_def CPU_SETSIZE_def by (auto simp: Int_absorb2)
  have m: "cpuset_of (CPUAffinityMask_new [2]) \<inter> {0, 1, 2, 3} = {2}"
    by (auto simp: cpuset_of_def CPUAffinityMask_new_def get_cores_def CPU_SETSIZE_def)
  have "oa_get four_cores 7 (\<lambda>_. {0, 1}) = (0, {0, 1})" by (auto simp: four_cores_def)
  with affinity_guard_restores [OF ok g] m g show ?thesis by (intro exI [of _ g] exI [of _ k1]) auto
qed

end
