(* ===== verification/Windows_Affinity.thy ===== *)
theory Windows_Affinity
  imports Cpu_Affinity
begin

text \<open>
  The branches of \<open>src/utils/cpu_affinity.cpp\<close> for Windows: the list of cores, the affinity and the priority of a thread, and what the guard
  does with them.

  \<^item> \<open>win_os\<close>: \<open>SetThreadAffinityMask\<close>, which returns the old mask of the thread or 0 when it fails, and \<open>SetThreadPriority\<close>,
    with the state of the system as a parameter.
\<close>

section \<open>Cores and masks\<close>

text \<open>\<open>core_count\<close>: \<open>std::thread::hardware_concurrency()\<close>.\<close>

definition win_core_info :: "u32 \<Rightarrow> CPUCoreInfo" where
  "win_core_info i = \<lparr>ci_core_id = i, ci_numa_node = 0, ci_is_isolated = False, ci_is_online = True, ci_frequency_mhz = 0\<rparr>"

definition win_get_available_cores :: "u32 \<Rightarrow> CPUCoreInfo list" where
  "win_get_available_cores core_count = map (\<lambda>i. win_core_info (of_nat i)) [0..<unat core_count]"

text \<open>The bits of the mask; cores from 64 on are left out with a warning.\<close>

fun affinity_bits :: "u32 list \<Rightarrow> u64 \<Rightarrow> u64" where
  "affinity_bits [] affinity_mask = affinity_mask"
| "affinity_bits (core_id # cs) affinity_mask =
     affinity_bits cs (if core_id \<ge> 64 then affinity_mask else or affinity_mask (push_bit (unat core_id) 1))"

datatype win_priority = THREAD_PRIORITY_TIME_CRITICAL | THREAD_PRIORITY_NORMAL | THREAD_PRIORITY_BELOW_NORMAL | THREAD_PRIORITY_IDLE

record 'k win_os =
  wo_set_mask :: "nat \<Rightarrow> u64 \<Rightarrow> 'k \<Rightarrow> u64 \<times> 'k"
  wo_set_priority :: "nat \<Rightarrow> win_priority \<Rightarrow> 'k \<Rightarrow> bool \<times> 'k"

section \<open>Threads\<close>

definition win_set_thread_affinity :: "'k win_os \<Rightarrow> nat \<Rightarrow> CPUAffinityMask \<Rightarrow> 'k \<Rightarrow> bool \<times> 'k" where
  "win_set_thread_affinity os self cmask k =
     (if mask_empty cmask then (False, k)
      else let affinity_mask = affinity_bits (get_cores cmask) 0
        in if affinity_mask = 0 then (False, k) else let (r, k1) = wo_set_mask os self affinity_mask k in (r \<noteq> 0, k1))"

definition win_set_affinity_of :: "'k win_os \<Rightarrow> nat \<Rightarrow> CPUAffinityMask \<Rightarrow> 'k \<Rightarrow> bool \<times> 'k" where
  "win_set_affinity_of os thread_handle cmask k =
     (if mask_empty cmask then (False, k)
      else let affinity_mask = affinity_bits (get_cores cmask) 0
        in if affinity_mask = 0 then (False, k) else let (r, k1) = wo_set_mask os thread_handle affinity_mask k in (r \<noteq> 0, k1))"

definition win_get_thread_affinity :: "CPUAffinityMask option" where
  "win_get_thread_affinity = None"

definition win_get_affinity_of :: "nat \<Rightarrow> CPUAffinityMask option" where
  "win_get_affinity_of thread = None"

fun windows_priority :: "SchedulingPolicy \<Rightarrow> win_priority" where
  "windows_priority REALTIME_FIFO = THREAD_PRIORITY_TIME_CRITICAL"
| "windows_priority REALTIME_RR = THREAD_PRIORITY_TIME_CRITICAL"
| "windows_priority NORMAL = THREAD_PRIORITY_NORMAL"
| "windows_priority BATCH = THREAD_PRIORITY_BELOW_NORMAL"
| "windows_priority IDLE = THREAD_PRIORITY_IDLE"

text \<open>The number \<open>priority\<close> is not looked at.\<close>

definition win_set_thread_priority :: "'k win_os \<Rightarrow> nat \<Rightarrow> SchedulingPolicy \<Rightarrow> int \<Rightarrow> 'k \<Rightarrow> bool \<times> 'k" where
  "win_set_thread_priority os self policy priority k = wo_set_priority os self (windows_priority policy) k"

definition win_set_priority_of :: "'k win_os \<Rightarrow> nat \<Rightarrow> SchedulingPolicy \<Rightarrow> int \<Rightarrow> 'k \<Rightarrow> bool \<times> 'k" where
  "win_set_priority_of os thread_handle policy priority k = wo_set_priority os thread_handle (windows_priority policy) k"

definition win_guard_new :: "'k win_os \<Rightarrow> nat \<Rightarrow> CPUAffinityMask \<Rightarrow> 'k \<Rightarrow> ThreadAffinityGuard \<times> 'k" where
  "win_guard_new os self cmask k = (let (ok, k1) = win_set_thread_affinity os self cmask k
     in (\<lparr>gd_original_affinity = win_get_thread_affinity, gd_restore_on_destroy = ok\<rparr>, k1))"

definition win_guard_end :: "'k win_os \<Rightarrow> nat \<Rightarrow> ThreadAffinityGuard \<Rightarrow> 'k \<Rightarrow> 'k" where
  "win_guard_end os self g k = (case gd_original_affinity g of
       Some original \<Rightarrow> if gd_restore_on_destroy g then snd (win_set_thread_affinity os self original k) else k
     | None \<Rightarrow> k)"

section \<open>What the mask says\<close>

lemma affinity_bits_bit:
  "bit (affinity_bits cs m) i \<longleftrightarrow> bit m i \<or> i < 64 \<and> (\<exists>c \<in> set cs. unat c = i)"
proof (induction cs arbitrary: m)
  case (Cons c cs)
  have "c \<ge> 64 \<longleftrightarrow> 64 \<le> unat c" by (simp add: word_le_nat_alt)
  then show ?case by (auto simp: Cons.IH bit_simps)
qed simp

text \<open>
  The thread gets exactly the cores of the mask below 64, and the system is not asked when there is none: then the call fails and nothing
  changes.
\<close>

lemma win_affinity_requested:
  "win_set_thread_affinity os self cmask k =
    (if \<exists>c \<in> set (get_cores cmask). unat c < 64
     then let (r, k1) = wo_set_mask os self (affinity_bits (get_cores cmask) 0) k in (r \<noteq> 0, k1)
     else (False, k))"
proof -
  let ?m = "affinity_bits (get_cores cmask) 0"
  have "?m = 0 \<longleftrightarrow> (\<forall>i. \<not> bit ?m i)" by (auto intro: bit_eqI)
  also have "\<dots> \<longleftrightarrow> \<not> (\<exists>c \<in> set (get_cores cmask). unat c < 64)" by (auto simp: affinity_bits_bit)
  finally show ?thesis by (auto simp: win_set_thread_affinity_def mask_empty_def get_cores_def Let_def)
qed

text \<open>The two overloads agree, and the guard gives nothing back: it has no way to learn the affinity the thread had.\<close>

lemma win_overloads:
  "win_set_affinity_of os = win_set_thread_affinity os" "win_set_priority_of os = win_set_thread_priority os"
  by (simp_all add: fun_eq_iff win_set_affinity_of_def win_set_thread_affinity_def win_set_priority_of_def win_set_thread_priority_def)

lemma win_guard_never_restores: "win_guard_new os self cmask k = (g, k1) \<Longrightarrow> win_guard_end os self g k2 = k2"
  by (auto simp: win_guard_new_def win_guard_end_def win_get_thread_affinity_def split: prod.splits)

end
