(* ===== verification/System_Tuning.thy ===== *)
theory System_Tuning
  imports Cpu_Affinity
begin

text \<open>
  What \<open>include/utils/system_tuning.hpp\<close> and \<open>src/utils/system_tuning.cpp\<close> read from the kernel, check and set, as compiled for Linux.

  \<^item> \<open>/proc\<close> and \<open>/sys\<close> are a map from paths to contents. A number that is read into an uninitialised variable from a line
    without one is undefined behaviour; a field that has been initialised keeps its value then.
  \<^item> \<open>memory_os\<close>: the system calls that change something, with the state of the kernel as a parameter.
  \<^item> The allocation functions and the list of nodes are in \<open>Numa_Memory\<close>.
\<close>

section \<open>Reading\<close>

text \<open>\<open>std::istringstream iss(line); iss >> key >> value;\<close>\<close>

definition line_u64 :: "string \<Rightarrow> u64 option" where
  "line_u64 line = stream_u64 (snd (token line))"

text \<open>A loop over the lines of a file.\<close>

fun scan_lines :: "(string \<Rightarrow> 's \<Rightarrow> core_fault + 's) \<Rightarrow> string list \<Rightarrow> 's \<Rightarrow> core_fault + 's" where
  "scan_lines f [] s = Inr s"
| "scan_lines f (l # ls) s = (case f l s of Inl e \<Rightarrow> Inl e | Inr s1 \<Rightarrow> scan_lines f ls s1)"

definition file_lines :: "string \<Rightarrow> string list" where
  "file_lines content = split_on (CHR 0x0A) content"

record HugePageInfo =
  hp_available_2mb :: u64
  hp_available_1gb :: u64
  hp_total_2mb :: u64
  hp_total_1gb :: u64
  hp_page_size_2mb :: u64
  hp_page_size_1gb :: u64
  hp_transparent_enabled :: bool

definition HugePageInfo_zero :: HugePageInfo where
  "HugePageInfo_zero = \<lparr>hp_available_2mb = 0, hp_available_1gb = 0, hp_total_2mb = 0, hp_total_1gb = 0, hp_page_size_2mb = 0,
     hp_page_size_1gb = 0, hp_transparent_enabled = False\<rparr>"

definition or_old :: "'a \<Rightarrow> 'a option \<Rightarrow> 'a" where
  "or_old old r = (case r of None \<Rightarrow> old | Some v \<Rightarrow> v)"

definition huge_page_line :: "string \<Rightarrow> HugePageInfo \<Rightarrow> core_fault + HugePageInfo" where
  "huge_page_line line info =
     (if str_starts ''HugePages_Total:'' line then Inr (info\<lparr>hp_total_2mb := or_old (hp_total_2mb info) (line_u64 line)\<rparr>)
      else if str_starts ''HugePages_Free:'' line then Inr (info\<lparr>hp_available_2mb := or_old (hp_available_2mb info) (line_u64 line)\<rparr>)
      else if str_starts ''Hugepagesize:'' line then
        (case line_u64 line of None \<Rightarrow> Inl (Undefined UB_uninitialised) | Some size_kb \<Rightarrow> Inr (info\<lparr>hp_page_size_2mb := size_kb * 1024\<rparr>))
      else Inr info)"

definition get_huge_page_info :: "files \<Rightarrow> core_fault + HugePageInfo" where
  "get_huge_page_info fs =
     (case (case fs ''/proc/meminfo'' of None \<Rightarrow> Inr HugePageInfo_zero | Some content \<Rightarrow> scan_lines huge_page_line (file_lines content) HugePageInfo_zero) of
        Inl e \<Rightarrow> Inl e
      | Inr info \<Rightarrow> Inr (info\<lparr>
          hp_total_1gb := or_old 0 (Option.bind (fs ''/sys/kernel/mm/hugepages/hugepages-1048576kB/nr_hugepages'') stream_u64),
          hp_available_1gb := or_old 0 (Option.bind (fs ''/sys/kernel/mm/hugepages/hugepages-1048576kB/free_hugepages'') stream_u64),
          hp_page_size_1gb := 1024 * 1024 * 1024,
          hp_transparent_enabled := (case fs ''/sys/kernel/mm/transparent_hugepage/enabled'' of
             None \<Rightarrow> False | Some content \<Rightarrow> str_contains ''[always]'' (first_line content))\<rparr>))"

text \<open>The first line with a key decides, in two functions of the class.\<close>

fun first_positive :: "string \<Rightarrow> string list \<Rightarrow> core_fault + bool" where
  "first_positive key [] = Inr False"
| "first_positive key (l # ls) =
     (if str_starts key l then (case line_u64 l of None \<Rightarrow> Inl (Undefined UB_uninitialised) | Some v \<Rightarrow> Inr (v > 0))
      else first_positive key ls)"

definition is_memory_locked :: "files \<Rightarrow> core_fault + bool" where
  "is_memory_locked fs = (case fs ''/proc/self/status'' of None \<Rightarrow> Inr False | Some content \<Rightarrow> first_positive ''VmLck:'' (file_lines content))"

definition is_swap_enabled :: "files \<Rightarrow> core_fault + bool" where
  "is_swap_enabled fs = (case fs ''/proc/meminfo'' of None \<Rightarrow> Inr False | Some content \<Rightarrow> first_positive ''SwapTotal:'' (file_lines content))"

definition get_network_buffers :: "files \<Rightarrow> u64 \<times> u64" where
  "get_network_buffers fs = (or_old 0 (Option.bind (fs ''/proc/sys/net/core/rmem_max'') stream_u64),
     or_old 0 (Option.bind (fs ''/proc/sys/net/core/wmem_max'') stream_u64))"

record MemoryStats =
  ms_allocated_bytes :: u64
  ms_huge_pages_allocated :: u64
  ms_numa_node :: u64
  ms_is_locked :: bool
  ms_uses_huge_pages :: bool

definition MemoryStats_zero :: MemoryStats where
  "MemoryStats_zero = \<lparr>ms_allocated_bytes = 0, ms_huge_pages_allocated = 0, ms_numa_node = 0, ms_is_locked = False,
     ms_uses_huge_pages = False\<rparr>"

definition status_line :: "string \<Rightarrow> MemoryStats \<Rightarrow> core_fault + MemoryStats" where
  "status_line line stats =
     (if str_starts ''VmRSS:'' line then
        (case line_u64 line of None \<Rightarrow> Inl (Undefined UB_uninitialised) | Some rss_kb \<Rightarrow> Inr (stats\<lparr>ms_allocated_bytes := rss_kb * 1024\<rparr>))
      else if str_starts ''VmLck:'' line then
        (case line_u64 line of None \<Rightarrow> Inl (Undefined UB_uninitialised) | Some locked_kb \<Rightarrow> Inr (stats\<lparr>ms_is_locked := locked_kb > 0\<rparr>))
      else Inr stats)"

definition smaps_line :: "string \<Rightarrow> MemoryStats \<Rightarrow> core_fault + MemoryStats" where
  "smaps_line line stats =
     (if str_contains ''AnonHugePages:'' line then
        (case line_u64 line of
           None \<Rightarrow> Inl (Undefined UB_uninitialised)
         | Some huge_kb \<Rightarrow> Inr (if huge_kb > 0 then stats\<lparr>ms_uses_huge_pages := True,
             ms_huge_pages_allocated := ms_huge_pages_allocated stats + huge_kb div 2048\<rparr> else stats))
      else Inr stats)"

text \<open>\<open>node\<close>: the node of the current core, when the NUMA library is available.\<close>

definition get_current_numa_node :: "int option \<Rightarrow> u32 option" where
  "get_current_numa_node node = (case node of Some n \<Rightarrow> if n \<ge> 0 then Some (of_int n) else None | None \<Rightarrow> None)"

definition get_memory_stats :: "files \<Rightarrow> int option \<Rightarrow> core_fault + MemoryStats" where
  "get_memory_stats fs node =
     (case (case fs ''/proc/self/status'' of None \<Rightarrow> Inr MemoryStats_zero | Some content \<Rightarrow> scan_lines status_line (file_lines content) MemoryStats_zero) of
        Inl e \<Rightarrow> Inl e
      | Inr stats \<Rightarrow>
          (case (case fs ''/proc/self/smaps'' of None \<Rightarrow> Inr stats | Some content \<Rightarrow> scan_lines smaps_line (file_lines content) stats) of
             Inl e \<Rightarrow> Inl e
           | Inr stats1 \<Rightarrow> Inr (case get_current_numa_node node of
               None \<Rightarrow> stats1 | Some n \<Rightarrow> stats1\<lparr>ms_numa_node := ucast n\<rparr>)))"

text \<open>\<open>max_node\<close>: the greatest node, when the NUMA library is available.\<close>

definition get_numa_node_count :: "int option \<Rightarrow> u32" where
  "get_numa_node_count max_node = (case max_node of Some n \<Rightarrow> of_int (n + 1) | None \<Rightarrow> 1)"

definition validate_production_config :: "files \<Rightarrow> core_fault + string list" where
  "validate_production_config fs = (case get_huge_page_info fs of
       Inl e \<Rightarrow> Inl e
     | Inr hp_info \<Rightarrow> (case is_memory_locked fs of
         Inl e \<Rightarrow> Inl e
       | Inr locked \<Rightarrow> (case is_swap_enabled fs of
           Inl e \<Rightarrow> Inl e
         | Inr swap \<Rightarrow>
             let (rmem, wmem) = get_network_buffers fs; recommended_size = 16 * 1024 * 1024
             in Inr ((if hp_total_2mb hp_info = 0 then [''No huge pages configured - set /proc/sys/vm/nr_hugepages''] else []) @
                  (if hp_transparent_enabled hp_info then [''Transparent huge pages enabled - causes latency spikes, disable with '' @
                     [CHR 0x27] @ ''echo never > /sys/kernel/mm/transparent_hugepage/enabled'' @ [CHR 0x27]] else []) @
                  (if \<not> locked then [''Memory not locked - enable with mlockall() or check RLIMIT_MEMLOCK''] else []) @
                  (if swap then [''Swap is enabled - disable with '' @ [CHR 0x27] @ ''swapoff -a'' @ [CHR 0x27] @ '' for trading''] else []) @
                  (if rmem < recommended_size \<or> wmem < recommended_size
                   then [''Network buffers too small - recommend 16MB+ (current: rmem='' @ show_nat (unat rmem) @ '', wmem='' @
                     show_nat (unat wmem) @ '')''] else [])))))"

section \<open>Setting\<close>

text \<open>The return codes of the two calls, and what a file that is written to answers: whether it opened and was written.\<close>

record 'k memory_os =
  mo_mlockall :: "'k \<Rightarrow> int \<times> 'k"
  mo_munlockall :: "'k \<Rightarrow> int \<times> 'k"
  mo_write :: "string \<Rightarrow> string \<Rightarrow> 'k \<Rightarrow> bool \<times> 'k"
  mo_files :: "'k \<Rightarrow> files"

definition lock_memory :: "'k memory_os \<Rightarrow> 'k \<Rightarrow> bool \<times> 'k" where
  "lock_memory os k = (let (r, k1) = mo_mlockall os k in (r = 0, k1))"

definition unlock_memory :: "'k memory_os \<Rightarrow> 'k \<Rightarrow> bool \<times> 'k" where
  "unlock_memory os k = (let (r, k1) = mo_munlockall os k in (r = 0, k1))"

definition write_sysctl :: "'k memory_os \<Rightarrow> string \<Rightarrow> string \<Rightarrow> 'k \<Rightarrow> bool \<times> 'k" where
  "write_sysctl os path v k = mo_write os path v k"

definition disable_transparent_huge_pages :: "'k memory_os \<Rightarrow> 'k \<Rightarrow> bool \<times> 'k" where
  "disable_transparent_huge_pages os k =
     (let (ok, k1) = write_sysctl os ''/sys/kernel/mm/transparent_hugepage/enabled'' ''never'' k
      in if \<not> ok then (False, k1)
         else (True, snd (write_sysctl os ''/sys/kernel/mm/transparent_hugepage/defrag'' ''never'' k1)))"

definition set_network_buffers :: "'k memory_os \<Rightarrow> u64 \<Rightarrow> u64 \<Rightarrow> 'k \<Rightarrow> bool \<times> 'k" where
  "set_network_buffers os rmem_max wmem_max k =
     (let (ok1, k1) = write_sysctl os ''/proc/sys/net/core/rmem_max'' (show_nat (unat rmem_max)) k;
          (ok2, k2) = write_sysctl os ''/proc/sys/net/core/wmem_max'' (show_nat (unat wmem_max)) k1
      in (ok1 \<and> ok2, k2))"

definition disable_aslr :: "'k memory_os \<Rightarrow> 'k \<Rightarrow> bool \<times> 'k" where
  "disable_aslr os k = write_sysctl os ''/proc/sys/kernel/randomize_va_space'' ''0'' k"

definition enable_huge_pages :: bool where
  "enable_huge_pages = True"

definition apply_production_settings :: "'k memory_os \<Rightarrow> 'k \<Rightarrow> string list \<times> 'k" where
  "apply_production_settings os k =
     (let (ok1, k1) = lock_memory os k; (ok2, k2) = disable_transparent_huge_pages os k1;
          (ok3, k3) = set_network_buffers os (16 * 1024 * 1024) (16 * 1024 * 1024) k2
      in ((if \<not> enable_huge_pages then [''Failed to enable huge pages''] else []) @
          (if \<not> ok1 then [''Failed to lock memory (requires root or CAP_IPC_LOCK)''] else []) @
          (if \<not> ok2 then [''Failed to disable THP (requires root)''] else []) @
          (if \<not> ok3 then [''Failed to set network buffers (requires root)''] else []), k3))"

record MemoryLockGuard =
  ml_locked :: bool
  ml_was_already_locked :: bool

definition MemoryLockGuard_new :: "'k memory_os \<Rightarrow> 'k \<Rightarrow> core_fault + (MemoryLockGuard \<times> 'k)" where
  "MemoryLockGuard_new os k = (case is_memory_locked (mo_files os k) of
       Inl e \<Rightarrow> Inl e
     | Inr was \<Rightarrow>
         if \<not> was then (let (ok, k1) = lock_memory os k in Inr (\<lparr>ml_locked = ok, ml_was_already_locked = was\<rparr>, k1))
         else Inr (\<lparr>ml_locked = True, ml_was_already_locked = was\<rparr>, k))"

definition MemoryLockGuard_end :: "'k memory_os \<Rightarrow> MemoryLockGuard \<Rightarrow> 'k \<Rightarrow> 'k" where
  "MemoryLockGuard_end os g k = (if ml_locked g \<and> \<not> ml_was_already_locked g then snd (unlock_memory os k) else k)"

section \<open>Touching pages\<close>

text \<open>The offsets that are read and written back, in order.\<close>

partial_function (option) prefault_loop :: "u64 \<Rightarrow> u64 \<Rightarrow> u64 list \<Rightarrow> u64 list option" where
  "prefault_loop i len acc = (if i < len then prefault_loop (i + 4096) len (acc @ [i]) else Some acc)"

definition prefault_memory :: "u64 \<Rightarrow> u64 \<Rightarrow> u64 list option" where
  "prefault_memory ptr len =
     (if ptr = 0 \<or> len = 0 then Some []
      else map_option (\<lambda>touched. touched @ (if len > 0 then [len - 1] else [])) (prefault_loop 0 len []))"

section \<open>What is read\<close>

text \<open>Files of the kernel with a key, a colon, white space, a number and perhaps a unit on each line.\<close>

record entry =
  en_key :: string
  en_number :: nat
  en_unit :: string

definition entry_line :: "entry \<Rightarrow> string" where
  "entry_line e = en_key e @ '':       '' @ show_nat (en_number e) @ en_unit e"

definition entry_ok :: "entry \<Rightarrow> bool" where
  "entry_ok e \<longleftrightarrow> list_all (\<lambda>c. \<not> is_space c \<and> c \<noteq> CHR '':'') (en_key e) \<and> en_number e < 2 ^ 64 \<and>
     (en_unit e = [] \<or> \<not> is_digit (hd (en_unit e))) \<and> CHR 0x0A \<notin> set (en_unit e)"

definition entry_file :: "entry list \<Rightarrow> string" where
  "entry_file es = concat (map (\<lambda>e. entry_line e @ [CHR 0x0A]) es)"

text \<open>The last entry with a key.\<close>

definition entry_value :: "entry list \<Rightarrow> string \<Rightarrow> u64 option" where
  "entry_value es key = map_of (rev (map (\<lambda>e. (en_key e, of_nat (en_number e)))  es)) key"

lemma space_facts [simp]: "is_space (CHR '' '')" "is_space (CHR 0x0A)" "\<not> is_space (CHR '':'')"
  by (simp_all add: is_space_def)

lemma takeWhile_number:
  assumes "u = [] \<or> \<not> is_digit (hd u)"
  shows "takeWhile is_digit (show_nat n @ u) = show_nat n"
  using show_nat_digits [of n] assms by (cases u) (auto simp: all_digits takeWhile_digits)

lemma stream_u64_number:
  assumes "n < 2 ^ 64" and "u = [] \<or> \<not> is_digit (hd u)"
  shows "stream_u64 (''       '' @ show_nat n @ u) = Some (of_nat n)"
proof -
  obtain d ds where d: "show_nat n = d # ds" "is_digit d" using show_nat_digits [of n] by (metis digit_head)
  have "dropWhile is_space (''       '' @ show_nat n @ u) = show_nat n @ u" using d by (simp add: digit_not_space)
  moreover have "parse_sign (show_nat n @ u) = (False, show_nat n @ u)" using d by (auto simp: parse_sign_def)
  ultimately show ?thesis
    using assms takeWhile_number [OF assms(2), of n] show_nat_digits [of n] by (simp add: stream_u64_def d(1))
qed

lemma entry_line_u64: "entry_ok e \<Longrightarrow> line_u64 (entry_line e) = Some (of_nat (en_number e))"
proof -
  assume e: "entry_ok e"
  have k: "list_all (\<lambda>c. \<not> is_space c) (en_key e @ '':'')" using e by (auto simp: entry_ok_def list_all_iff)
  let ?r = "''       '' @ show_nat (en_number e) @ en_unit e"
  have l: "entry_line e = (en_key e @ '':'') @ ?r" by (simp add: entry_line_def)
  have "dropWhile is_space ((en_key e @ '':'') @ ?r) = (en_key e @ '':'') @ ?r"
    using k by (cases "en_key e @ '':''") auto
  moreover have "dropWhile (\<lambda>c. \<not> is_space c) ((en_key e @ '':'') @ ?r) = ?r"
    using k by (subst dropWhile_append2) (auto simp: list_all_iff)
  ultimately have "snd (token (entry_line e)) = ?r" by (simp only: l token_def Let_def snd_conv)
  then show ?thesis using e by (simp only: line_u64_def stream_u64_number entry_ok_def)
qed

lemma entry_starts: "entry_ok e \<Longrightarrow> CHR '':'' \<notin> set key \<Longrightarrow> prefix (key @ '':'') (entry_line e) \<longleftrightarrow> key = en_key e"
proof -
  assume "entry_ok e" and key: "CHR '':'' \<notin> set key"
  then have k: "CHR '':'' \<notin> set (en_key e)" by (auto simp: entry_ok_def list_all_iff)
  show ?thesis
  proof
    assume "prefix (key @ '':'') (entry_line e)"
    then obtain r where "entry_line e = key @ CHR '':'' # r" by (auto simp: prefix_def)
    then have "takeWhile (\<lambda>c. c \<noteq> CHR '':'') (entry_line e) = key" using key by (auto simp: takeWhile_append)
    moreover have "takeWhile (\<lambda>c. c \<noteq> CHR '':'') (entry_line e) = en_key e" using k by (auto simp: entry_line_def takeWhile_append)
    ultimately show "key = en_key e" by simp
  qed (simp add: entry_line_def prefix_def)
qed

lemma file_lines_entries: "list_all entry_ok es \<Longrightarrow> file_lines (entry_file es) = map entry_line es"
proof (induction es)
  case (Cons e es)
  have e: "\<forall>c \<in> set (en_key e). \<not> is_space c \<and> c \<noteq> CHR '':''" "CHR 0x0A \<notin> set (en_unit e)"
    using Cons.prems by (simp_all add: entry_ok_def list_all_iff)
  from e(1) have "CHR 0x0A \<notin> set (en_key e)" using space_facts(2) by blast
  with e(2) not_in_digits [OF separators(3), of "en_number e"] have "CHR 0x0A \<notin> set (entry_line e)" by (simp add: entry_line_def)
  then show ?case using Cons split_piece [of "CHR 0x0A" "entry_line e" "[]"] by (simp add: file_lines_def split_on_def entry_file_def)
qed (simp add: file_lines_def split_on_def entry_file_def)

lemma entry_value_Cons: "entry_value (e # es) key =
    (case entry_value es key of Some v \<Rightarrow> Some v | None \<Rightarrow> if key = en_key e then Some (of_nat (en_number e)) else None)"
  by (auto simp: entry_value_def map_add_def split: option.splits)

lemma huge_page_entry:
  assumes "entry_ok e"
  shows "huge_page_line (entry_line e) info = Inr (
    if en_key e = ''HugePages_Total'' then info\<lparr>hp_total_2mb := of_nat (en_number e)\<rparr>
    else if en_key e = ''HugePages_Free'' then info\<lparr>hp_available_2mb := of_nat (en_number e)\<rparr>
    else if en_key e = ''Hugepagesize'' then info\<lparr>hp_page_size_2mb := of_nat (en_number e) * 1024\<rparr> else info)"
  using entry_starts [OF assms, of "''HugePages_Total''"] entry_starts [OF assms, of "''HugePages_Free''"]
    entry_starts [OF assms, of "''Hugepagesize''"] entry_line_u64 [OF assms]
  by (auto simp: huge_page_line_def or_old_def)

lemma scan_entries: "list_all entry_ok es \<Longrightarrow> scan_lines huge_page_line (map entry_line es) info = Inr (info\<lparr>
    hp_available_2mb := or_old (hp_available_2mb info) (entry_value es ''HugePages_Free''),
    hp_total_2mb := or_old (hp_total_2mb info) (entry_value es ''HugePages_Total''),
    hp_page_size_2mb := or_old (hp_page_size_2mb info) (map_option (\<lambda>v. v * 1024) (entry_value es ''Hugepagesize''))\<rparr>)"
proof (induction es arbitrary: info)
  case (Cons e es)
  then show ?case
    by (auto simp: huge_page_entry entry_value_Cons or_old_def split: option.split)
qed (simp add: entry_value_def or_old_def)

text \<open>
  From a \<open>/proc/meminfo\<close> of entries, the numbers of configured and of free huge pages are those of the entries
  with these keys, and zero without, and the page size is that of its entry in bytes.
\<close>

theorem huge_pages_read:
  assumes "fs ''/proc/meminfo'' = Some (entry_file es)" and "list_all entry_ok es"
  shows "\<exists>info. get_huge_page_info fs = Inr info \<and>
    hp_total_2mb info = or_old 0 (entry_value es ''HugePages_Total'') \<and>
    hp_available_2mb info = or_old 0 (entry_value es ''HugePages_Free'') \<and>
    hp_page_size_2mb info = or_old 0 (map_option (\<lambda>v. v * 1024) (entry_value es ''Hugepagesize''))"
  by (simp add: get_huge_page_info_def assms(1) file_lines_entries [OF assms(2)] scan_entries [OF assms(2)] HugePageInfo_zero_def)

text \<open>A concrete instance.\<close>

theorem huge_pages_read_witness:
  "\<exists>info. get_huge_page_info [''/proc/meminfo'' \<mapsto> entry_file [\<lparr>en_key = ''MemTotal'', en_number = 16384, en_unit = '' kB''\<rparr>,
       \<lparr>en_key = ''HugePages_Total'', en_number = 8, en_unit = []\<rparr>, \<lparr>en_key = ''Hugepagesize'', en_number = 2048, en_unit = '' kB''\<rparr>]] = Inr info \<and>
     hp_total_2mb info = 8 \<and> hp_available_2mb info = 0 \<and> hp_page_size_2mb info = 2097152"
proof -
  let ?es = "[\<lparr>en_key = ''MemTotal'', en_number = 16384, en_unit = '' kB''\<rparr>,
       \<lparr>en_key = ''HugePages_Total'', en_number = 8, en_unit = []\<rparr>, \<lparr>en_key = ''Hugepagesize'', en_number = 2048, en_unit = '' kB''\<rparr>]"
  have "list_all entry_ok ?es" by (simp add: entry_ok_def is_space_def)
  from huge_pages_read [OF _ this, of "[''/proc/meminfo'' \<mapsto> entry_file ?es]"] show ?thesis
    by (simp add: entry_value_def or_old_def)
qed

section \<open>Memory locks\<close>

text \<open>What the kernel's calls do to what \<open>/proc/self/status\<close> says.\<close>

definition memory_ok :: "'k memory_os \<Rightarrow> bool" where
  "memory_ok os \<longleftrightarrow> (\<forall>k. (\<exists>b. is_memory_locked (mo_files os k) = Inr b) \<and>
     (case mo_mlockall os k of (r, k1) \<Rightarrow> if r = 0 then is_memory_locked (mo_files os k1) = Inr True else k1 = k) \<and>
     (case mo_munlockall os k of (r, k1) \<Rightarrow> if r = 0 then is_memory_locked (mo_files os k1) = Inr False else k1 = k))"

lemma memory_okD:
  assumes "memory_ok os"
  shows "\<exists>b. is_memory_locked (mo_files os k) = Inr b"
    and "fst (mo_mlockall os k) = 0 \<Longrightarrow> is_memory_locked (mo_files os (snd (mo_mlockall os k))) = Inr True"
    and "fst (mo_munlockall os k) = 0 \<Longrightarrow> is_memory_locked (mo_files os (snd (mo_munlockall os k))) = Inr False"
  using assms [unfolded memory_ok_def, THEN spec [of _ k]] by (auto split: prod.splits)

text \<open>
  Of two guards, the second made while the first one lives: the second one always finds the memory as locked
  as the first one left it and, when that is locked, does not unlock it at its end; but the end of the first one, if it comes first,
  unlocks the memory under the second one, which still claims that it is locked.
\<close>

theorem memory_guards_nest:
  assumes "memory_ok os" and "MemoryLockGuard_new os k = Inr (g1, k1)" and "ml_locked g1" and "\<not> ml_was_already_locked g1"
    and "MemoryLockGuard_new os k1 = Inr (g2, k2)"
  shows "is_memory_locked (mo_files os k) = Inr False \<and> is_memory_locked (mo_files os k1) = Inr True \<and> k2 = k1 \<and> ml_locked g2 \<and>
    MemoryLockGuard_end os g2 k2 = k2 \<and>
    (fst (mo_munlockall os k2) = 0 \<longrightarrow> is_memory_locked (mo_files os (MemoryLockGuard_end os g1 k2)) = Inr False)"
proof -
  obtain b where b: "is_memory_locked (mo_files os k) = Inr b" using memory_okD(1) [OF assms(1)] by blast
  have nb: "\<not> b"
  proof
    assume b
    with assms(2) b have "ml_was_already_locked g1" by (auto simp: MemoryLockGuard_new_def)
    with assms(4) show False ..
  qed
  then have "fst (mo_mlockall os k) = 0 \<and> snd (mo_mlockall os k) = k1"
    using assms(2,3) b by (auto simp: MemoryLockGuard_new_def lock_memory_def case_prod_beta Let_def)
  then have k1: "is_memory_locked (mo_files os k1) = Inr True" using memory_okD(2) [OF assms(1), of k] by simp
  then have g2: "g2 = \<lparr>ml_locked = True, ml_was_already_locked = True\<rparr>" "k2 = k1"
    using assms(5) by (simp_all add: MemoryLockGuard_new_def)
  have "fst (mo_munlockall os k1) = 0 \<Longrightarrow> is_memory_locked (mo_files os (snd (mo_munlockall os k1))) = Inr False"
    by (rule memory_okD(3) [OF assms(1)])
  then show ?thesis using b nb k1 g2 assms(3,4)
    by (simp add: MemoryLockGuard_end_def unlock_memory_def case_prod_beta Let_def)
qed

definition lock_flag_os :: "bool memory_os" where
  "lock_flag_os = \<lparr>mo_mlockall = (\<lambda>k. (0, True)), mo_munlockall = (\<lambda>k. (0, False)), mo_write = (\<lambda>path v k. (False, k)),
     mo_files = (\<lambda>k. [''/proc/self/status'' \<mapsto> (if k then ''VmLck: 64 kB'' else ''VmLck: 0 kB'')])\<rparr>"

lemma lock_flag: "is_memory_locked (mo_files lock_flag_os k) = Inr k"
  by (cases k)
    (simp_all add: is_memory_locked_def lock_flag_os_def file_lines_def split_on_def line_u64_def token_def stream_u64_def parse_sign_def
      is_space_def is_digit_def digits_val_def digit_val_def)

text \<open>Instance: a process whose memory is not locked.\<close>

theorem memory_guards_nest_witness:
  "\<exists>g1 k1 g2 k2. MemoryLockGuard_new lock_flag_os False = Inr (g1, k1) \<and> MemoryLockGuard_new lock_flag_os k1 = Inr (g2, k2) \<and>
     ml_locked g2 \<and> is_memory_locked (mo_files lock_flag_os (MemoryLockGuard_end lock_flag_os g1 k2)) = Inr False"
proof -
  have ok: "memory_ok lock_flag_os" unfolding memory_ok_def lock_flag by (simp add: lock_flag_os_def)
  have r: "mo_mlockall lock_flag_os k = (0, True)" "mo_munlockall lock_flag_os k = (0, False)" for k by (simp_all add: lock_flag_os_def)
  let ?g1 = "\<lparr>ml_locked = True, ml_was_already_locked = False\<rparr>" and ?g2 = "\<lparr>ml_locked = True, ml_was_already_locked = True\<rparr>"
  have n1: "MemoryLockGuard_new lock_flag_os False = Inr (?g1, True)"
    and n2: "MemoryLockGuard_new lock_flag_os True = Inr (?g2, True)"
    by (simp_all add: MemoryLockGuard_new_def lock_flag lock_memory_def r)
  have "is_memory_locked (mo_files lock_flag_os (MemoryLockGuard_end lock_flag_os ?g1 True)) = Inr False"
    using memory_guards_nest [OF ok n1 _ _ n2] by (simp only: r fst_conv) simp
  moreover have "ml_locked ?g2" by simp
  ultimately show ?thesis using n1 n2 by blast
qed

section \<open>The pages of a block\<close>

lemma prefault_loop_ends:
  assumes "unat len \<le> 2 ^ 64 - 4096" and "unat i = 4096 * j"
  shows "\<exists>ts. prefault_loop i len acc = Some (acc @ ts) \<and> unat ` set ts = {4096 * n |n. j \<le> n \<and> 4096 * n < unat len}"
  using assms(2)
proof (induction "unat len - 4096 * j" arbitrary: i j acc rule: less_induct)
  case less
  show ?case
  proof (cases "i < len")
    case False
    then have "unat len \<le> 4096 * j" using less.prems by (simp add: word_less_nat_alt)
    then have none: "{4096 * n |n. j \<le> n \<and> 4096 * n < unat len} = {}" by auto
    have "prefault_loop i len acc = Some (acc @ [])" using False by (simp add: prefault_loop.simps [of i])
    then show ?thesis unfolding none by (intro exI [of _ "[]"]) simp
  next
    case True
    then have l: "4096 * j < unat len" using less.prems by (simp add: word_less_nat_alt)
    then have "unat i + 4096 < 2 ^ 64" using assms(1) less.prems by simp
    then have "unat (i + 4096) = 4096 * Suc j" using less.prems by (simp add: unat_word_ariths)
    moreover have "unat len - 4096 * Suc j < unat len - 4096 * j" using l by simp
    ultimately have "\<exists>ts. prefault_loop (i + 4096) len (acc @ [i]) = Some ((acc @ [i]) @ ts) \<and>
        unat ` set ts = {4096 * n |n. Suc j \<le> n \<and> 4096 * n < unat len}" by (intro less.hyps)
    then obtain ts where
      ts: "prefault_loop (i + 4096) len (acc @ [i]) = Some ((acc @ [i]) @ ts)"
        "unat ` set ts = {4096 * n |n. Suc j \<le> n \<and> 4096 * n < unat len}" by blast
    have "{4096 * n |n. j \<le> n \<and> 4096 * n < unat len} = insert (4096 * j) {4096 * n |n. Suc j \<le> n \<and> 4096 * n < unat len}"
      using l by (auto simp: Suc_le_eq)
    then have "unat ` set (i # ts) = {4096 * n |n. j \<le> n \<and> 4096 * n < unat len}" using ts(2) less.prems by simp
    moreover have "prefault_loop i len acc = Some (acc @ i # ts)" using True ts(1) by (simp add: prefault_loop.simps [of i])
    ultimately show ?thesis by blast
  qed
qed

lemma next_page: "(n::nat) \<le> a \<Longrightarrow> a \<le> n + 4096 \<Longrightarrow> a div 4096 = n div 4096 \<or> a div 4096 = Suc (n div 4096)"
  using div_le_mono [of n a 4096] div_le_mono [of a "n + 4096" 4096] by auto

lemma page_reached:
  fixes p l a :: nat
  assumes "p \<le> a" and "a < p + l"
  shows "(\<exists>n. 4096 * n < l \<and> (p + 4096 * n) div 4096 = a div 4096) \<or> (p + (l - 1)) div 4096 = a div 4096"
proof -
  define m where "m = (a - p) div 4096"
  have m: "p + 4096 * m \<le> a" "a < p + 4096 * m + 4096" using assms(1) by (simp_all add: m_def)
  show ?thesis
  proof (cases "(p + 4096 * m) div 4096 = a div 4096")
    case True
    then show ?thesis using m assms(2) by (intro disjI1 exI [of _ m]) simp
  next
    case False
    then have after: "a div 4096 = Suc ((p + 4096 * m) div 4096)" using next_page [of "p + 4096 * m" a] m by auto
    show ?thesis
    proof (cases "4096 * Suc m < l")
      case True
      then show ?thesis using after by (intro disjI1 exI [of _ "Suc m"]) simp
    next
      case False
      have "a div 4096 \<le> (p + (l - 1)) div 4096" using assms(2) by (intro div_le_mono) simp
      moreover have "(p + (l - 1)) div 4096 \<le> Suc ((p + 4096 * m) div 4096)"
        using next_page [of "p + 4096 * m" "p + (l - 1)"] False assms(2) m by auto
      ultimately show ?thesis unfolding after by (intro disjI2) (rule order.antisym)
    qed
  qed
qed

lemma prefault_offsets:
  assumes "ptr \<noteq> 0" and "unat len \<le> 2 ^ 64 - 4096" and "len \<noteq> 0"
  shows "\<exists>touched. prefault_memory ptr len = Some touched \<and>
    unat ` set touched = insert (unat len - 1) {4096 * n |n. 4096 * n < unat len}"
proof -
  have "unat (0 :: u64) = 4096 * 0" by simp
  then obtain ts where ts: "prefault_loop 0 len [] = Some ts" "unat ` set ts = {4096 * n |n. 4096 * n < unat len}"
    using prefault_loop_ends [OF assms(2), of 0 0 "[]"] by auto
  have "unat (len - 1) = unat len - 1" using assms(3) by (simp add: unat_minus_one)
  then show ?thesis using assms(1,3) ts by (simp add: prefault_memory_def word_gt_0)
qed

lemma pages_touched:
  assumes "4096 \<le> unat ptr" and "unat ptr + unat len \<le> 2 ^ 64" and "len \<noteq> 0"
  shows "\<exists>touched. prefault_memory ptr len = Some touched \<and> (\<forall>t \<in> set touched. t < len) \<and>
    (\<forall>a. unat ptr \<le> a \<and> a < unat ptr + unat len \<longrightarrow> (\<exists>t \<in> set touched. (unat ptr + unat t) div 4096 = a div 4096))"
proof -
  have "ptr \<noteq> 0" and "unat len \<le> 2 ^ 64 - 4096" using assms(1,2) by auto
  from prefault_offsets [OF this assms(3)] obtain touched where res: "prefault_memory ptr len = Some touched"
    and offsets: "unat ` set touched = insert (unat len - 1) {4096 * n |n. 4096 * n < unat len}" by blast
  have "0 < unat len" using assms(3) by (simp add: unat_gt_0)
  then have "\<forall>x \<in> unat ` set touched. x < unat len" unfolding offsets by auto
  moreover have "\<exists>x \<in> unat ` set touched. (unat ptr + x) div 4096 = a div 4096" if "unat ptr \<le> a" "a < unat ptr + unat len" for a
    using page_reached [OF that] unfolding offsets by blast
  ultimately show ?thesis using res by (simp add: word_less_nat_alt)
qed

text \<open>
  For every block of memory that a program can have, aligned or not, \<open>prefault_memory\<close> returns, stays within
  the block, and touches every page the block has a byte of.
\<close>

theorem prefault_touches_pages:
  assumes "4096 \<le> unat ptr" and "unat ptr + unat len \<le> 2 ^ 64" and "len \<noteq> 0"
  shows "\<exists>touched. prefault_memory ptr len = Some touched \<and> (\<forall>t \<in> set touched. t < len) \<and>
    (\<forall>a. unat ptr \<le> a \<and> a < unat ptr + unat len \<longrightarrow> (\<exists>t \<in> set touched. (unat ptr + unat t) div 4096 = a div 4096))"
  by (rule pages_touched [OF assms])

text \<open>Instance: two bytes on two pages.\<close>

theorem prefault_touches_pages_witness:
  "\<exists>touched. prefault_memory 8191 2 = Some touched \<and> (\<exists>t \<in> set touched. (unat (8191 :: u64) + unat t) div 4096 = 8192 div 4096)"
proof -
  have "\<exists>touched. prefault_memory 8191 2 = Some touched \<and> (\<forall>t \<in> set touched. t < 2) \<and>
      (\<forall>a. unat (8191 :: u64) \<le> a \<and> a < unat (8191 :: u64) + unat (2 :: u64) \<longrightarrow>
        (\<exists>t \<in> set touched. (unat (8191 :: u64) + unat t) div 4096 = a div 4096))"
    by (rule prefault_touches_pages) simp_all
  then obtain touched where t: "prefault_memory 8191 2 = Some touched"
    "\<forall>a. unat (8191 :: u64) \<le> a \<and> a < unat (8191 :: u64) + unat (2 :: u64) \<longrightarrow>
        (\<exists>t \<in> set touched. (unat (8191 :: u64) + unat t) div 4096 = a div 4096)" by blast
  have "unat (8191 :: u64) \<le> 8192 \<and> 8192 < unat (8191 :: u64) + unat (2 :: u64)" by simp
  with t show ?thesis by blast
qed

end
