(* ===== verification/Numa_Memory.thy ===== *)
theory Numa_Memory
  imports System_Tuning
begin

text \<open>
  The allocation functions of \<open>include/utils/system_tuning.hpp\<close> and \<open>src/utils/system_tuning.cpp\<close> as compiled for Linux: the class template
  \<open>NUMAAllocator\<close>, memory on a node, memory in huge pages, and the list of nodes.

  \<^item> \<open>numa_os\<close>: the calls of the kernel, the NUMA library and the runtime, with the state of the memory as a parameter. Pointers are
    addresses, 0 is the null pointer, \<open>None\<close> of \<open>nu_mmap\<close> is \<open>MAP_FAILED\<close>, and \<open>None\<close> of \<open>nu_new\<close> the exception \<open>std::bad_alloc\<close>.
  \<^item> The functions that touch the pages also return the addresses they touch; no value is a loop that does not end.
\<close>

section \<open>The calls\<close>

record 'k numa_os =
  nu_available :: bool
  nu_alloc_onnode :: "u64 \<Rightarrow> u32 \<Rightarrow> 'k \<Rightarrow> u64 \<times> 'k"
  nu_free :: "u64 \<Rightarrow> u64 \<Rightarrow> 'k \<Rightarrow> 'k"
  nu_malloc :: "u64 \<Rightarrow> 'k \<Rightarrow> u64 \<times> 'k"
  nu_mfree :: "u64 \<Rightarrow> 'k \<Rightarrow> 'k"
  nu_new :: "u64 \<Rightarrow> 'k \<Rightarrow> u64 option \<times> 'k"
  nu_delete :: "u64 \<Rightarrow> 'k \<Rightarrow> 'k"
  nu_mmap :: "u64 \<Rightarrow> bool \<Rightarrow> 'k \<Rightarrow> u64 option \<times> 'k"
  nu_munmap :: "u64 \<Rightarrow> u64 \<Rightarrow> 'k \<Rightarrow> 'k"
  nu_mbind :: "u64 \<Rightarrow> u64 \<Rightarrow> u64 \<Rightarrow> 'k \<Rightarrow> int \<times> 'k"

section \<open>NUMAAllocator\<close>

record NUMAAllocator =
  na_numa_node :: u32

definition NUMAAllocator_new :: "u32 \<Rightarrow> NUMAAllocator" where
  "NUMAAllocator_new numa_node = \<lparr>na_numa_node = numa_node\<rparr>"

definition get_numa_node :: "NUMAAllocator \<Rightarrow> u32" where
  "get_numa_node a = na_numa_node a"

definition allocator_eq :: "NUMAAllocator \<Rightarrow> NUMAAllocator \<Rightarrow> bool" where
  "allocator_eq a b \<longleftrightarrow> get_numa_node a = get_numa_node b"

definition allocator_neq :: "NUMAAllocator \<Rightarrow> NUMAAllocator \<Rightarrow> bool" where
  "allocator_neq a b \<longleftrightarrow> \<not> allocator_eq a b"

text \<open>\<open>elem\<close> is \<open>sizeof(T)\<close>. No pointer: \<open>std::bad_alloc\<close>.\<close>

definition numa_allocate :: "'k numa_os \<Rightarrow> u64 \<Rightarrow> u64 \<Rightarrow> NUMAAllocator \<Rightarrow> 'k \<Rightarrow> u64 option \<times> 'k" where
  "numa_allocate os elem n a k =
     (if nu_available os
      then let (ptr, k1) = nu_alloc_onnode os (n * elem) (na_numa_node a) k in (if ptr = 0 then None else Some ptr, k1)
      else nu_new os (n * elem) k)"

definition numa_deallocate :: "'k numa_os \<Rightarrow> u64 \<Rightarrow> u64 \<Rightarrow> u64 \<Rightarrow> 'k \<Rightarrow> 'k" where
  "numa_deallocate os elem p n k = (if nu_available os then nu_free os p (n * elem) k else nu_delete os p k)"

section \<open>Memory on a node and in huge pages\<close>

definition touched :: "u64 \<Rightarrow> u64 \<Rightarrow> 'k \<Rightarrow> (u64 \<times> u64 list \<times> 'k) option" where
  "touched ptr len k = (if ptr = 0 then Some (ptr, [], k) else map_option (\<lambda>offsets. (ptr, map ((+) ptr) offsets, k)) (prefault_memory ptr len))"

definition allocate_numa :: "'k numa_os \<Rightarrow> u64 \<Rightarrow> u32 \<Rightarrow> 'k \<Rightarrow> (u64 \<times> u64 list \<times> 'k) option" where
  "allocate_numa os len numa_node k =
     (let (ptr, k1) = (if nu_available os then nu_alloc_onnode os len numa_node k else nu_malloc os len k) in touched ptr len k1)"

definition free_numa :: "'k numa_os \<Rightarrow> u64 \<Rightarrow> u64 \<Rightarrow> 'k \<Rightarrow> 'k" where
  "free_numa os ptr len k = (if nu_available os then nu_free os ptr len k else nu_mfree os ptr k)"





section \<open>The nodes\<close>

record NUMANodeInfo =
  ni_node_id :: u32
  ni_total_memory_mb :: u64
  ni_free_memory_mb :: u64
  ni_cpu_cores :: "u32 list"
  ni_is_local :: bool

definition NUMANodeInfo_zero :: NUMANodeInfo where
  "NUMANodeInfo_zero = \<lparr>ni_node_id = 0, ni_total_memory_mb = 0, ni_free_memory_mb = 0, ni_cpu_cores = [], ni_is_local = False\<rparr>"

text \<open>
  What the library says: the greatest node; the node of the current core; total and free bytes of a node, the first negative at an error; the
  mask of the cores of a node, none at an error.
\<close>

record numa_library =
  nl_max_node :: nat
  nl_current :: int
  nl_node_size :: "nat \<Rightarrow> int \<times> int"
  nl_cpus :: "nat \<Rightarrow> bool list option"

definition megabytes :: "int \<Rightarrow> u64" where
  "megabytes bytes = of_int (if bytes < 0 then - (- bytes div (1024 * 1024)) else bytes div (1024 * 1024))"

definition mask_cores :: "bool list \<Rightarrow> u32 list" where
  "mask_cores cpus = map of_nat (filter (\<lambda>i. cpus ! i) [0..<length cpus])"

definition node_info :: "numa_library \<Rightarrow> u32 option \<Rightarrow> nat \<Rightarrow> NUMANodeInfo" where
  "node_info nl current_node node_id = (let
     info = NUMANodeInfo_zero\<lparr>ni_node_id := of_nat node_id, ni_is_local := (current_node = Some (of_nat node_id))\<rparr>;
     (total_mem, free_mem) = nl_node_size nl node_id;
     info1 = (if total_mem \<ge> 0 then info\<lparr>ni_total_memory_mb := megabytes total_mem, ni_free_memory_mb := megabytes free_mem\<rparr> else info)
   in case nl_cpus nl node_id of None \<Rightarrow> info1 | Some cpus \<Rightarrow> info1\<lparr>ni_cpu_cores := mask_cores cpus\<rparr>)"

definition get_numa_nodes :: "numa_library option \<Rightarrow> NUMANodeInfo list" where
  "get_numa_nodes library = (case library of
     None \<Rightarrow> [NUMANodeInfo_zero\<lparr>ni_node_id := 0, ni_is_local := True\<rparr>]
   | Some nl \<Rightarrow> map (node_info nl (get_current_numa_node (Some (nl_current nl)))) [0..<Suc (nl_max_node nl)])"








text \<open>The size in bytes wraps around: room for \<open>2 ^ 61\<close> numbers of 64 bits is a request for no bytes.\<close>

lemma numa_allocate_wraps: "numa_allocate os 8 (2 ^ 61) a k =
    (if nu_available os then let (ptr, k1) = nu_alloc_onnode os 0 (na_numa_node a) k in (if ptr = 0 then None else Some ptr, k1) else nu_new os 0 k)"
proof -
  have "(2 ^ 61 :: u64) * 8 = 2 ^ 64" by simp
  also have "\<dots> = 0" using word_exp_length_eq_0 [where 'a = 64] by simp
  finally have "(2 ^ 61 :: u64) * 8 = 0" .
  then show ?thesis by (simp only: numa_allocate_def)
qed

lemma allocator_roundtrip:
  assumes "\<not> nu_available os" and "nu_new os (n * elem) k = (Some ptr, k1)" and "nu_delete os ptr k1 = k"
  shows "numa_allocate os elem n a k = (Some ptr, k1) \<and> numa_deallocate os elem ptr n k1 = k"
  using assms by (simp add: numa_allocate_def numa_deallocate_def)

text \<open>
  The list of nodes has as many entries as \<open>get_numa_node_count\<close> says, their ids are 0, 1, 2, and so on, each has the
  cores whose bits are set in its mask, and the local nodes are the current one, if the library knows it, or the only one without the library.
\<close>

theorem numa_nodes_listed:
  assumes "nl_max_node nl < 2 ^ 31" and "nl_current nl < 2 ^ 31"
  shows "unat (get_numa_node_count (Some (int (nl_max_node nl)))) = length (get_numa_nodes (Some nl)) \<and>
    map ni_node_id (get_numa_nodes (Some nl)) = map of_nat [0..<length (get_numa_nodes (Some nl))] \<and>
    (\<forall>i < length (get_numa_nodes (Some nl)). (ni_is_local (get_numa_nodes (Some nl) ! i) \<longleftrightarrow> nl_current nl = int i) \<and>
      ni_cpu_cores (get_numa_nodes (Some nl) ! i) =
        (case nl_cpus nl i of None \<Rightarrow> [] | Some cpus \<Rightarrow> map of_nat (filter (\<lambda>j. cpus ! j) [0..<length cpus]))) \<and>
    map ni_is_local (get_numa_nodes None) = [True] \<and> get_numa_node_count None = 1"
proof -
  let ?n = "Suc (nl_max_node nl)"
  have e: "get_numa_nodes (Some nl) = map (node_info nl (get_current_numa_node (Some (nl_current nl)))) [0..<?n]"
    by (simp add: get_numa_nodes_def)
  have f: "ni_node_id (node_info nl c i) = of_nat i" "ni_is_local (node_info nl c i) \<longleftrightarrow> c = Some (of_nat i)"
    "ni_cpu_cores (node_info nl c i) = (case nl_cpus nl i of None \<Rightarrow> [] | Some cpus \<Rightarrow> map of_nat (filter (\<lambda>j. cpus ! j) [0..<length cpus]))" for c i
    by (auto simp: node_info_def Let_def NUMANodeInfo_zero_def mask_cores_def split: prod.split option.split)
  have "unat (get_numa_node_count (Some (int (nl_max_node nl)))) = ?n"
  proof -
    have "get_numa_node_count (Some (int (nl_max_node nl))) = of_nat ?n" by (simp add: get_numa_node_count_def add.commute)
    moreover have "unat (of_nat ?n :: u32) = ?n" using assms(1) by (simp add: unat_of_nat take_bit_nat_eq_self del: of_nat_Suc)
    ultimately show ?thesis by (simp only:)
  qed
  moreover have "get_current_numa_node (Some (nl_current nl)) = Some (of_nat i) \<longleftrightarrow> nl_current nl = int i" if "i < ?n" for i
  proof -
    have u: "uint (of_nat i :: u32) = int i" using that assms(1) by (simp add: uint_nat unat_of_nat take_bit_nat_eq_self)
    have "uint (of_int (nl_current nl) :: u32) = nl_current nl" if "0 \<le> nl_current nl" using that assms(2) by (simp add: uint_word_of_int)
    then show ?thesis using u by (auto simp: get_current_numa_node_def word_uint_eq_iff)
  qed
  ultimately show ?thesis unfolding e by (simp add: f comp_def del: upt_Suc) (simp add: get_numa_nodes_def get_numa_node_count_def)
qed

text \<open>Instance: two nodes, the second one local.\<close>

theorem numa_nodes_listed_witness:
  "let nl = \<lparr>nl_max_node = 1, nl_current = 1, nl_node_size = (\<lambda>_. (0, 0)), nl_cpus = (\<lambda>_. Some [True, False, True])\<rparr>
   in length (get_numa_nodes (Some nl)) = 2 \<and> ni_is_local (get_numa_nodes (Some nl) ! 1) \<and> ni_cpu_cores (get_numa_nodes (Some nl) ! 1) = [0, 2]"
proof -
  let ?nl = "\<lparr>nl_max_node = 1, nl_current = 1, nl_node_size = (\<lambda>_. (0, 0)), nl_cpus = (\<lambda>_. Some [True, False, True])\<rparr>"
  have l: "length (get_numa_nodes (Some ?nl)) = 2" by (simp add: get_numa_nodes_def)
  with numa_nodes_listed [of ?nl] show ?thesis by simp
qed

end
