(* ===== verification/Order_Book_Snapshots.thy ===== *)
theory Order_Book_Snapshots
  imports Order_Book_Queries
begin

text \<open>
  Snapshots in terms of the abstract book: where the order book refines a pair of finite maps, a snapshot is the best entries of the two
  maps in the order of their prices. With this the books of concrete programs can be computed from the maps.
\<close>

definition best_first :: "Side \<Rightarrow> u64 set \<Rightarrow> u64 list" where
  "best_first side P = (case side of BID \<Rightarrow> rev (sorted_list_of_set P) | ASK \<Rightarrow> sorted_list_of_set P)"

text \<open>The levels that a map gives for the best \<open>depth\<close> of its prices.\<close>

definition map_levels :: "Side \<Rightarrow> nat \<Rightarrow> (u64 \<rightharpoonup> PriceLevel) \<Rightarrow> PriceLevelSnapshot list" where
  "map_levels side depth m = map (\<lambda>p. level_snapshot (the (m p))) (take depth (best_first side (dom m)))"

lemma collected:
  assumes "side_inv ls t"
  shows "set (map fst (collect_prices ls)) = dom (side_abs ls)" and "distinct (map fst (collect_prices ls))"
    and "(p, i) \<in> set (collect_prices ls) \<Longrightarrow> side_abs ls p = Some (ls ! i)"
proof -
  have in_set: "(p, i) \<in> set (collect_prices ls) \<longleftrightarrow> i < length ls \<and> pl_price (ls ! i) = p \<and> p \<noteq> 0" for p i
    by (auto simp: collect_prices_def word_gt_0)
  have find: "i < length ls \<and> pl_price (ls ! i) = p \<longleftrightarrow> pim_find t p = Some i" if "p \<noteq> 0" for p i
    using side_inv_find [OF assms that] by blast
  have a: "side_abs ls p = Some (ls ! i)" if "(p, i) \<in> set (collect_prices ls)" for p i
  proof -
    have "p \<noteq> 0" "pim_find t p = Some i" using that in_set find by blast+
    then show ?thesis using side_abs_find [OF assms] by simp
  qed
  then show "(p, i) \<in> set (collect_prices ls) \<Longrightarrow> side_abs ls p = Some (ls ! i)" .
  have "p \<in> dom (side_abs ls) \<Longrightarrow> p \<in> fst ` set (collect_prices ls)" for p
  proof -
    assume "p \<in> dom (side_abs ls)"
    then have p: "p \<noteq> 0" "side_abs ls p \<noteq> None" by (auto simp: domIff)
    then have "pim_find t p \<noteq> None" using side_abs_find [OF assms p(1)] by simp
    then obtain i where "(p, i) \<in> set (collect_prices ls)" using in_set find p(1) by blast
    then show ?thesis by force
  qed
  then show "set (map fst (collect_prices ls)) = dom (side_abs ls)" using a by force
  have "distinct (collect_prices ls)" unfolding collect_prices_def by (intro distinct_filter) (auto simp: distinct_map inj_on_def)
  moreover have "i = j" if "(p, i) \<in> set (collect_prices ls)" "(p, j) \<in> set (collect_prices ls)" for p i j
    using that in_set [of p] find [of p i] find [of p j] by force
  then have "inj_on fst (set (collect_prices ls))" by (auto simp: inj_on_def)
  ultimately show "distinct (map fst (collect_prices ls))" by (simp add: distinct_map)
qed

lemma sorted_prices:
  assumes "side_inv ls t" and "mset xs = mset (collect_prices ls)" and "sorted_wrt (\<le>) (map fst xs)"
  shows "map fst xs = sorted_list_of_set (dom (side_abs ls))"
proof -
  have m: "mset (map fst xs) = mset (map fst (collect_prices ls))" using assms(2) by simp
  then have "distinct (map fst xs)" using collected(2) [OF assms(1)] mset_eq_imp_distinct_iff by blast
  moreover have "set (map fst xs) = dom (side_abs ls)" using collected(1) [OF assms(1)] m by (metis set_mset_mset)
  ultimately show ?thesis using assms(3) by (metis sorted_list_of_set_unique finite_set length_map distinct_card sorted_list_of_set.idem_if_sorted_distinct)
qed

lemma levels_by_price:
  assumes "side_inv ls t" and "set xs \<subseteq> set (collect_prices ls)"
  shows "map (\<lambda>(_, i). level_snapshot (ls ! i)) xs = map (\<lambda>p. level_snapshot (the (side_abs ls p))) (map fst xs)"
proof -
  have "level_snapshot (ls ! snd x) = level_snapshot (the (side_abs ls (fst x)))" if "x \<in> set xs" for x
    using collected(3) [OF assms(1), of "fst x" "snd x"] that assms(2) by auto
  then show ?thesis by (simp add: case_prod_unfold)
qed

lemma snapshot_asks_map: "side_inv ls t \<Longrightarrow> snapshot_asks depth ls = map_levels ASK depth (side_abs ls)"
proof -
  assume inv: "side_inv ls t"
  let ?xs = "sort_by (\<lambda>a b. fst a < fst b) (collect_prices ls)"
  have "sorted_wrt (\<le>) (map fst ?xs)" unfolding sorted_wrt_map
    using asc.sorted_sort_by [of fst "collect_prices ls"] by (rule sorted_wrt_mono_rel [rotated]) auto
  then have "map fst ?xs = sorted_list_of_set (dom (side_abs ls))" by (intro sorted_prices [OF inv]) simp_all
  moreover have "set (take depth ?xs) \<subseteq> set (collect_prices ls)" using set_take_subset [of depth ?xs] by simp
  ultimately show ?thesis using levels_by_price [OF inv, of "take depth ?xs"]
    by (simp add: snapshot_asks_def map_levels_def best_first_def take_map [symmetric] case_prod_unfold)
qed

lemma snapshot_bids_map: "side_inv ls t \<Longrightarrow> snapshot_bids depth ls = map_levels BID depth (side_abs ls)"
proof -
  assume inv: "side_inv ls t"
  let ?xs = "sort_by (\<lambda>a b. fst b < fst a) (collect_prices ls)"
  have "sorted_wrt (\<ge>) (map fst ?xs)" unfolding sorted_wrt_map
    using desc.sorted_sort_by [of fst "collect_prices ls"] by (rule sorted_wrt_mono_rel [rotated]) auto
  then have "sorted_wrt (\<le>) (map fst (rev ?xs))" by (simp add: rev_map [symmetric] sorted_wrt_rev)
  then have "map fst (rev ?xs) = sorted_list_of_set (dom (side_abs ls))" by (intro sorted_prices [OF inv]) simp_all
  then have "map fst ?xs = rev (sorted_list_of_set (dom (side_abs ls)))" by (simp add: rev_map [symmetric] rev_swap)
  moreover have "set (take depth ?xs) \<subseteq> set (collect_prices ls)" using set_take_subset [of depth ?xs] by simp
  ultimately show ?thesis using levels_by_price [OF inv, of "take depth ?xs"]
    by (simp add: snapshot_bids_def map_levels_def best_first_def take_map [symmetric] case_prod_unfold)
qed

lemma snapshot_of_home:
  assumes "book_home P b"
  shows "\<exists>s. get_snapshot depth now b = Some s \<and> sn_bids s = map_levels BID depth (book_abs b BID) \<and>
    sn_asks s = map_levels ASK depth (book_abs b ASK) \<and> sn_sequence_number s = ob_sequence_number b \<and> sn_timestamp s = now"
proof -
  have inv: "book_inv b" using assms by (simp add: book_home_def)
  then have "ob_seq_lock b AND 1 = 0" by (simp add: book_inv_def and_1_u64)
  moreover have "side_inv (levels_of side b) (price_map_of side b)" for side
    using assms inv book_inv_length [OF inv] by (auto simp: book_home_def side_inv_def book_inv_def)
  from this [of BID] this [of ASK] have "side_inv (ob_bids b) (ob_bid_price_map b)" "side_inv (ob_asks b) (ob_ask_price_map b)"
    by simp_all
  ultimately show ?thesis
    by (simp add: get_snapshot_def rg_begin_def read_begin_def rg_retry_def read_retry_def book_abs_def
        snapshot_bids_map snapshot_asks_map)
qed

text \<open>
  C5. What a reader gets is the abstract book: after any sequence of updates whose prices have different home slots, a
  snapshot of depth \<open>d\<close> is exactly the \<open>d\<close> highest entries of the map of bids, from the highest down, and the \<open>d\<close> lowest of the
  map of asks, from the lowest up, where the maps are the ones the specification computes from the updates.
\<close>

theorem snapshot_refines_maps:
  assumes "n < TABLE_SIZE" and "list_all op_ok ops" and "inj_on price_hash (op_prices ops)"
  shows "\<exists>rs b s. book_run ops (OrderBook_new n) = Inr (rs, b) \<and> get_snapshot depth now b = Some s \<and>
    sn_bids s = map_levels BID depth (snd (spec_run n ops (\<lambda>_. Map.empty)) BID) \<and>
    sn_asks s = map_levels ASK depth (snd (spec_run n ops (\<lambda>_. Map.empty)) ASK)"
proof -
  have n: "length (ob_bids (OrderBook_new n)) = n" by (simp add: OrderBook_new_def)
  obtain rs b where b: "book_run ops (OrderBook_new n) = Inr (rs, b)" "book_home (op_prices ops) b"
    "spec_run n ops (\<lambda>_. Map.empty) = (rs, book_abs b)"
    using book_run_refines [OF book_home_new [OF assms(1)] assms(3,2) order_refl] unfolding n book_abs_new by blast
  with snapshot_of_home [OF b(2), of depth now] show ?thesis by auto
qed

text \<open>Witness of C5: a bid at 100.\<close>

theorem snapshot_refines_maps_witness:
  "\<exists>rs b s. book_run [Update BID (Fin 100) (Fin 1) 1 7] (OrderBook_new 3) = Inr (rs, b) \<and> get_snapshot 5 9 b = Some s \<and>
     sn_bids s = [level_snapshot \<lparr>pl_price = 10000000000, pl_quantity = 100000000, pl_order_count = 1, pl_timestamp = 7\<rparr>]"
proof -
  let ?ops = "[Update BID (Fin 100) (Fin 1) 1 7]"
  have "3 < TABLE_SIZE" by (simp add: TABLE_SIZE_def)
  moreover have "list_all op_ok ?ops" by (simp add: op_ok_def double_to_fixed_whole)
  moreover have "op_prices ?ops = {10000000000}" by (auto simp: op_prices_def map_filter_simps double_to_fixed_whole)
  then have "inj_on price_hash (op_prices ?ops)" by (simp only: inj_on_def) simp
  ultimately obtain rs b s where "book_run ?ops (OrderBook_new 3) = Inr (rs, b)" "get_snapshot 5 9 b = Some s"
    "sn_bids s = map_levels BID 5 (snd (spec_run 3 ?ops (\<lambda>_. Map.empty)) BID)"
    using snapshot_refines_maps [of 3 ?ops 5 9] by blast
  then show ?thesis by (auto simp: spec_update_def double_to_fixed_whole map_levels_def best_first_def)
qed

section \<open>Prices of an abstract book\<close>

lemma occupied_dom: "pl_price ` set (occupied (levels_of side b)) = dom (book_abs b side)"
  by (simp add: book_abs_def occupied_prices)

text \<open>Spread and mid price of a book are those of the best entries of its two maps.\<close>

lemma home_best:
  assumes "book_home P b" and "dom (book_abs b BID) \<noteq> {}" and "dom (book_abs b ASK) \<noteq> {}"
  shows "get_mid_price b = ddiv (dadd (fixed_to_double (Max (dom (book_abs b BID)))) (fixed_to_double (Min (dom (book_abs b ASK))))) (Fin 2)"
    and "get_spread b = dsub (fixed_to_double (Min (dom (book_abs b ASK)))) (fixed_to_double (Max (dom (book_abs b BID))))"
proof -
  have inv: "book_inv b" using assms(1) by (simp add: book_home_def)
  have "occupied (ob_bids b) \<noteq> []" "occupied (ob_asks b) \<noteq> []"
    using assms(2,3) occupied_dom [of BID b] occupied_dom [of ASK b] by (metis image_empty levels_of.simps list.set(1))+
  note best = best_bid_Max [OF inv this(1)] best_ask_Min [OF inv this(2)]
  show "get_mid_price b = ddiv (dadd (fixed_to_double (Max (dom (book_abs b BID)))) (fixed_to_double (Min (dom (book_abs b ASK))))) (Fin 2)"
    "get_spread b = dsub (fixed_to_double (Min (dom (book_abs b ASK)))) (fixed_to_double (Max (dom (book_abs b BID))))"
    using best occupied_dom [of BID b] occupied_dom [of ASK b] by (simp_all add: get_mid_price_def get_spread_def)
qed

text \<open>Number and volume of the occupied levels are those of the entries of the map.\<close>

lemma occupied_map:
  assumes "side_inv ls t"
  shows "length (occupied ls) = card (dom (side_abs ls))"
    and "side_volume ls = (\<Sum>p\<in>dom (side_abs ls). unat (pl_quantity (the (side_abs ls p))))"
proof -
  let ?xs = "collect_prices ls"
  have d: "distinct (map fst ?xs)" "set (map fst ?xs) = dom (side_abs ls)" using collected [OF assms] by blast+
  have o: "occupied ls = map (\<lambda>x. the (side_abs ls (fst x))) ?xs"
    unfolding collect_prices_occupied [symmetric] using collected(3) [OF assms] by (auto simp: case_prod_unfold)
  have "length (occupied ls) = card (set (map fst ?xs))" unfolding o using distinct_card [OF d(1)] by simp
  then show "length (occupied ls) = card (dom (side_abs ls))" by (simp only: d(2))
  have "side_volume ls = sum_list (map (\<lambda>p. unat (pl_quantity (the (side_abs ls p)))) (map fst ?xs))"
    by (simp add: side_volume_def o comp_def)
  also have "\<dots> = (\<Sum>p\<in>set (map fst ?xs). unat (pl_quantity (the (side_abs ls p))))" by (rule sum_list_distinct_conv_sum_set [OF d(1)])
  finally show "side_volume ls = (\<Sum>p\<in>dom (side_abs ls). unat (pl_quantity (the (side_abs ls p))))" by (simp only: d(2))
qed

lemma home_side: "book_home P b \<Longrightarrow> side_inv (levels_of side b) (price_map_of side b)"
  using book_inv_length by (auto simp: book_home_def side_inv_def book_inv_def)

text \<open>Every accepted update raises the sequence number by one.\<close>

lemma update_level_seq: "update_level side price quantity c t b = Inr (r, b') \<Longrightarrow>
    ob_sequence_number b' = ob_sequence_number b + (if r then 1 else 0)"
  by (cases side) (auto simp: update_level_def apply_level_def Let_def bindE_eq_Inr split: option.splits)

lemma book_run_seq: "list_all (\<lambda>op. op \<noteq> Clear) ops \<Longrightarrow> book_run ops b = Inr (rs, b') \<Longrightarrow>
    ob_sequence_number b' = ob_sequence_number b + of_nat (length (filter id rs))"
proof (induction ops arbitrary: b rs)
  case (Cons op ops)
  then obtain r b1 rs1 where r: "book_exec op b = Inr (r, b1)" "book_run ops b1 = Inr (rs1, b')" "rs = r # rs1" "op \<noteq> Clear"
    by (auto simp: bindE_eq_Inr)
  have "ob_sequence_number b1 = ob_sequence_number b + (if r then 1 else 0)"
    using r(1,4) by (cases op) (auto dest: update_level_seq)
  then show ?case using Cons.IH [OF _ r(2)] Cons.prems(1) r(3) by simp
qed simp

end
