(* ===== verification/Demo_Program.thy ===== *)
theory Demo_Program
  imports Order_Book_Snapshots Order_Book_Manager Metrics_Collector Text_Numbers
begin

text \<open>
  The demonstration program \<open>src/main.cpp\<close>: three runs of the order book, the metrics and the manager, as the texts they print.

  \<^item> \<open>clock k\<close> is the \<open>k\<close>-th reading of the clock in a demonstration. The list of symbols comes in the order of an unordered map,
    which is a parameter.
  \<^item> Numbers are printed with the flags the program has set by then: \<open>std::left\<close> and \<open>std::fixed\<close> stay set after the first
    snapshot, and the precision keeps the value of the last \<open>setprecision\<close>.
\<close>

section \<open>Printing\<close>







section \<open>The order book\<close>





section \<open>The metrics\<close>



definition throughput :: "u64 \<Rightarrow> double" where
  "throughput total_time_us = ddiv (Fin 10000) (ddiv (double_of_nat (unat total_time_us)) (Fin 1000000))"



section \<open>The manager\<close>








section \<open>The program\<close>



section \<open>Exact numbers\<close>








section \<open>The demonstration of the order book\<close>




definition placed :: "u64 \<Rightarrow> u64 \<Rightarrow> u64 \<Rightarrow> PriceLevel" where
  "placed p q t = \<lparr>pl_price = p, pl_quantity = q, pl_order_count = 1, pl_timestamp = t\<rparr>"




definition demo_book1 :: "(nat \<Rightarrow> u64) \<Rightarrow> Side \<Rightarrow> u64 \<rightharpoonup> PriceLevel" where
  "demo_book1 clock = (\<lambda>_. Map.empty)
     (BID := [9950000000 \<mapsto> placed 9950000000 10000000000 (clock 0), 9925000000 \<mapsto> placed 9925000000 15000000000 (clock 1),
              9900000000 \<mapsto> placed 9900000000 20000000000 (clock 2), 9875000000 \<mapsto> placed 9875000000 25000000000 (clock 3)],
      ASK := [10000000000 \<mapsto> placed 10000000000 12000000000 (clock 4), 10025000000 \<mapsto> placed 10025000000 18000000000 (clock 5),
              10050000000 \<mapsto> placed 10050000000 22000000000 (clock 6), 10075000000 \<mapsto> placed 10075000000 28000000000 (clock 7)])"

definition demo_book2 :: "(nat \<Rightarrow> u64) \<Rightarrow> Side \<Rightarrow> u64 \<rightharpoonup> PriceLevel" where
  "demo_book2 clock = (demo_book1 clock)(BID := (demo_book1 clock BID)(9950000000 \<mapsto> placed 9950000000 25000000000 (clock 10)))"

definition demo_book3 :: "(nat \<Rightarrow> u64) \<Rightarrow> Side \<Rightarrow> u64 \<rightharpoonup> PriceLevel" where
  "demo_book3 clock = (demo_book2 clock)(BID := (demo_book2 clock BID)(9875000000 := None))"


lemma demo_sides [simp]: "demo_book2 clock ASK = demo_book1 clock ASK" "demo_book3 clock ASK = demo_book1 clock ASK"
  by (simp_all add: demo_book2_def demo_book3_def)










section \<open>The demonstration of the metrics\<close>
















text \<open>A loop that takes less than a microsecond has an infinite throughput, which is printed as such.\<close>

lemma throughput_zero: "show_fixed 4 (throughput 0) = ''inf''"
  by (simp add: throughput_def double_of_nat_small inf_of_def show_fixed_def fl_bounded)

section \<open>The demonstration of the manager\<close>































section \<open>The whole program\<close>



end
