(* ===== verification/Market_Data_Server.thy ===== *)
theory Market_Data_Server
  imports Message_Formatter Frontend_Rest_Server Frontend_Websocket_Server "HOL-Library.List_Lexorder" "HOL-Library.Char_ord"
begin

text \<open>
  The server program \<open>src/server_main.cpp\<close>: simulated market data, the two frontend servers and the main loop.

  \<^item> The random number engine is a state of any type with a function \<open>rng\<close> that draws a number between two bounds; the theorems need no
    more than that the number is between them (\<open>rng_ok\<close>), which is the contract of \<open>std::uniform_real_distribution\<close>.
  \<^item> The main thread is a machine with a program counter: one step is one access to what the other threads also use, with the local
    computation before it. Between two steps the other threads act: the I/O thread of the WebSocket server, the thread of the REST
    server, a signal. A step tells which message it has handed to \<open>broadcast\<close>.
  \<^item> The handler of order books holds a reference to the store, so that it answers from the store of the moment (\<open>rest_answer\<close>).
  \<^item> \<open>OrderBookManager manager\<close> and \<open>MetricsCollector metrics\<close> are never used after their construction and are left out.
\<close>

section \<open>Simulated market data\<close>

text \<open>\<open>rng g a b\<close>: the next number between \<open>a\<close> and \<open>b\<close> that the engine \<open>g\<close> gives, and the engine after it.\<close>

type_synonym 'g rng = "'g \<Rightarrow> double \<Rightarrow> double \<Rightarrow> double \<times> 'g"

definition rng_ok :: "'g rng \<Rightarrow> bool" where
  "rng_ok rng \<longleftrightarrow> (\<forall>g a b. a < b \<longrightarrow> (\<exists>x. fst (rng g (Fin a) (Fin b)) = Fin x \<and> a \<le> x \<and> x \<le> b))"

record 'g MarketDataSimulator =
  sm_symbol :: string
  sm_exchange :: Exchange
  sm_base_price :: double
  sm_gen :: 'g
  sm_sequence :: u64

definition MarketDataSimulator_new :: "string \<Rightarrow> Exchange \<Rightarrow> 'g \<Rightarrow> 'g MarketDataSimulator" where
  "MarketDataSimulator_new symbol exchange seed =
     \<lparr>sm_symbol = symbol, sm_exchange = exchange, sm_base_price = Fin 50000, sm_gen = seed, sm_sequence = 0\<rparr>"

definition price_dist :: "'g rng \<Rightarrow> 'g \<Rightarrow> double \<times> 'g" where
  "price_dist rng g = rng g (Fin (- 50)) (Fin 50)"

definition qty_dist :: "'g rng \<Rightarrow> 'g \<Rightarrow> double \<times> 'g" where
  "qty_dist rng g = rng g (fl (1 / 10)) (Fin 5)"

definition dabs :: "double \<Rightarrow> double" where
  "dabs d = (if dlt d (Fin 0) then dneg d else d)"

fun u32_of_double :: "double \<Rightarrow> u32 result" where
  "u32_of_double (Fin x) = (if 0 \<le> trunc x \<and> trunc x < 2 ^ 32 then Inr (word_of_int (trunc x)) else Inl UB_float_to_int)"
| "u32_of_double _ = Inl UB_float_to_int"

text \<open>One turn of each of the two loops; \<open>op\<close> is the minus of the bids or the plus of the asks.\<close>

definition sim_level :: "'g rng \<Rightarrow> (double \<Rightarrow> double \<Rightarrow> double) \<Rightarrow> double \<Rightarrow> nat \<Rightarrow> 'g \<Rightarrow> (PriceLevelSnapshot \<times> 'g) result" where
  "sim_level rng op base i g = (let
     (d, g1) = price_dist rng g;
     price = dadd (op base (dmul (double_of_nat i) (Fin (1 / 2)))) (dmul d (fl (1 / 10)));
     (qty, g2) = qty_dist rng g1;
     (e, g3) = price_dist rng g2
   in bindE (u32_of_double (dadd (dabs e) (Fin 1))) (\<lambda>count. Inr (\<lparr>ps_price = price, ps_quantity = qty, ps_order_count = count\<rparr>, g3)))"

fun sim_levels :: "'g rng \<Rightarrow> (double \<Rightarrow> double \<Rightarrow> double) \<Rightarrow> double \<Rightarrow> nat list \<Rightarrow> 'g \<Rightarrow> (PriceLevelSnapshot list \<times> 'g) result" where
  "sim_levels rng op base [] g = Inr ([], g)"
| "sim_levels rng op base (i # is) g = bindE (sim_level rng op base i g) (\<lambda>(l, g1).
     bindE (sim_levels rng op base is g1) (\<lambda>(ls, g2). Inr (l # ls, g2)))"

definition generate_order_book_update :: "'g rng \<Rightarrow> u64 \<Rightarrow> 'g MarketDataSimulator \<Rightarrow> (NormalizedOrderBookUpdate \<times> 'g MarketDataSimulator) result" where
  "generate_order_book_update rng now s =
     bindE (sim_levels rng dsub (sm_base_price s) [0..<10] (sm_gen s)) (\<lambda>(bids, g1).
     bindE (sim_levels rng dadd (sm_base_price s) [0..<10] g1) (\<lambda>(asks, g2).
       let (d, g3) = price_dist rng g2
       in Inr (\<lparr>up_exchange = sm_exchange s, up_symbol = sm_symbol s, up_timestamp = now, up_update_id = sm_sequence s,
                up_bids = bids, up_asks = asks\<rparr>,
               s\<lparr>sm_base_price := dadd (sm_base_price s) (dmul d (fl (1 / 100))), sm_gen := g3, sm_sequence := sm_sequence s + 1\<rparr>)))"

text \<open>\<open>now\<close>, \<open>now2\<close>: the two readings of the clock.\<close>

definition generate_trade :: "'g rng \<Rightarrow> u64 \<Rightarrow> u64 \<Rightarrow> 'g MarketDataSimulator \<Rightarrow> Trade \<times> 'g MarketDataSimulator" where
  "generate_trade rng now now2 s = (let
     (d, g1) = price_dist rng (sm_gen s);
     (q, g2) = qty_dist rng g1;
     (e, g3) = price_dist rng g2
   in (\<lparr>tr_exchange = sm_exchange s, tr_symbol = sm_symbol s, tr_timestamp = now, tr_trade_id = show_nat (unat now2),
        tr_price = dadd (sm_base_price s) (dmul d (Fin (1 / 2))), tr_quantity = dmul q (fl (1 / 10)), tr_is_buyer_maker = dlt (Fin 0) e\<rparr>,
       s\<lparr>sm_gen := g3\<rparr>))"

definition get_sequence :: "'g MarketDataSimulator \<Rightarrow> u64" where
  "get_sequence s = sm_sequence s"

section \<open>The program\<close>

record MarketDataStore =
  latest_orderbook_messages :: "(string, string) omap"
  latest_trade_messages :: "(string, string) omap"
  latest_metrics_message :: string

definition MarketDataStore_new :: MarketDataStore where
  "MarketDataStore_new = \<lparr>latest_orderbook_messages = [], latest_trade_messages = [], latest_metrics_message = []\<rparr>"

definition orderbook_handler :: "MarketDataStore \<Rightarrow> string \<Rightarrow> string" where
  \<open>orderbook_handler data_store symbol = (case map_of (latest_orderbook_messages data_store) symbol of
     Some m \<Rightarrow> m | None \<Rightarrow> ''{"error":"Symbol not found"}'')\<close>

definition symbols_handler :: "string \<Rightarrow> string" where
  \<open>symbols_handler _ = ''{"symbols":["BTC-USD","ETH-USD"]}''\<close>

datatype message = Book_message NormalizedOrderBookUpdate u64 | Trade_message Trade | Metrics_message u64 u64

fun message_text :: "message \<Rightarrow> string" where
  "message_text (Book_message update seqno) = format_order_book_update update seqno"
| "message_text (Trade_message trade) = format_trade trade"
| "message_text (Metrics_message messages_per_sec bytes_per_sec) =
     format_metrics 150 300 500 1200 messages_per_sec bytes_per_sec ''connected'' 0"

datatype main_pc = Loop_test | Book_test | Send_btc_binance | Store_btc | Send_btc_coinbase | Send_eth | Store_eth | Trade_test | Metrics_test
  | Stop_ws | Stop_rest | Returning | Exited

record 'g Server =
  sv_shutdown_requested :: bool
  sv_data_store :: MarketDataStore
  sv_ws :: FrontendWebSocketServer
  sv_rest :: FrontendRestServer
  sv_btc_binance :: "'g MarketDataSimulator"
  sv_btc_coinbase :: "'g MarketDataSimulator"
  sv_eth_binance :: "'g MarketDataSimulator"
  sv_last_order_book_time :: nat
  sv_last_trade_time :: nat
  sv_last_metrics_time :: nat
  sv_message_count :: u64
  sv_bytes_sent :: u64
  sv_now :: nat
  sv_msg :: string
  sv_pc :: main_pc
  sv_console :: "string list"

text \<open>The lines on the console that tell what happens; the banners between them are left out.\<close>

definition signal_handler :: "nat \<Rightarrow> 'g Server \<Rightarrow> 'g Server" where
  "signal_handler signo s = s\<lparr>sv_console := sv_console s @ [''Shutdown signal received ('' @ show_nat signo @ ''). Stopping server...''],
     sv_shutdown_requested := True\<rparr>"

text \<open>
  The start: either the program returns a status, or the loop begins. \<open>listening\<close>: the REST server gets its socket. \<open>requested\<close>: a signal has
  arrived before. \<open>seed1\<close> to \<open>seed3\<close>: the three engines after seeding; \<open>t1\<close> to \<open>t3\<close>: the three readings of the clock.
\<close>

definition server_main :: "bool \<Rightarrow> bool \<Rightarrow> 'g \<Rightarrow> 'g \<Rightarrow> 'g \<Rightarrow> nat \<Rightarrow> nat \<Rightarrow> nat \<Rightarrow> (nat + 'g Server) result" where
  "server_main listening requested seed1 seed2 seed3 t1 t2 t3 =
     bindE (fw_start (FrontendWebSocketServer_new 8080)) (\<lambda>(ws_started, ws).
       if \<not> ws_started then bindE (fw_destroy ws) (\<lambda>_. Inr (Inl 1))
       else let rest = set_symbols_handler (Some symbols_handler)
                  (set_orderbook_handler (Some (orderbook_handler MarketDataStore_new)) (FrontendRestServer_new 8081))
         in bindE (fr_start listening rest) (\<lambda>(rest_started, rest1).
           if \<not> rest_started
           then bindE (fw_stop ws) (\<lambda>ws1. bindE (fr_destroy rest1) (\<lambda>_. bindE (fw_destroy ws1) (\<lambda>_. Inr (Inl 1))))
           else Inr (Inr \<lparr>sv_shutdown_requested = requested, sv_data_store = MarketDataStore_new, sv_ws = ws, sv_rest = rest1,
             sv_btc_binance = MarketDataSimulator_new ''BTC-USD'' BINANCE seed1,
             sv_btc_coinbase = MarketDataSimulator_new ''BTC-USD'' COINBASE seed2,
             sv_eth_binance = MarketDataSimulator_new ''ETH-USD'' BINANCE seed3,
             sv_last_order_book_time = t1, sv_last_trade_time = t2, sv_last_metrics_time = t3,
             sv_message_count = 0, sv_bytes_sent = 0, sv_now = t3, sv_msg = [], sv_pc = Loop_test, sv_console = []\<rparr>)))"

text \<open>\<open>duration_cast<milliseconds>\<close> of a difference of two readings in nanoseconds.\<close>

definition millis_since :: "nat \<Rightarrow> nat \<Rightarrow> nat" where
  "millis_since last_time now = (now - last_time) div 1000000"

definition send_message :: "message \<Rightarrow> 'g Server \<Rightarrow> 'g Server" where
  "send_message m s = s\<lparr>sv_ws := snd (fw_broadcast (message_text m) (sv_ws s)), sv_msg := message_text m,
     sv_message_count := sv_message_count s + 1, sv_bytes_sent := sv_bytes_sent s + of_nat (length (message_text m))\<rparr>"

definition book_message :: "'g rng \<Rightarrow> u64 \<Rightarrow> 'g MarketDataSimulator \<Rightarrow> (message \<times> 'g MarketDataSimulator) result" where
  "book_message rng now sim = bindE (generate_order_book_update rng now sim) (\<lambda>(u, sim1). Inr (Book_message u (get_sequence sim1), sim1))"

definition store_message :: "string \<Rightarrow> 'g Server \<Rightarrow> 'g Server" where
  "store_message symbol s = s\<lparr>sv_data_store := (sv_data_store s)\<lparr>
     latest_orderbook_messages := omap_put symbol (sv_msg s) (latest_orderbook_messages (sv_data_store s))\<rparr>\<rparr>"

definition trade_turn :: "'g rng \<Rightarrow> u64 \<Rightarrow> u64 \<Rightarrow> 'g Server \<Rightarrow> message option \<times> 'g Server" where
  "trade_turn rng t1 t2 s =
     (if millis_since (sv_last_trade_time s) (sv_now s) \<ge> 200
      then let (t, sim) = generate_trade rng t1 t2 (sv_btc_binance s); m = Trade_message t
        in (Some m, (send_message m (s\<lparr>sv_btc_binance := sim\<rparr>))\<lparr>sv_last_trade_time := sv_now s, sv_pc := Metrics_test\<rparr>)
      else (None, s\<lparr>sv_pc := Metrics_test\<rparr>))"

definition server_status_line :: "u64 \<Rightarrow> u64 \<Rightarrow> string" where
  "server_status_line messages bytes_per_sec = ''[Status] Messages: '' @ show_nat (unat messages) @ '' | Throughput: '' @ show_nat (unat messages) @
     '' msg/s, '' @ show_nat (unat (bytes_per_sec div 1024)) @ '' KB/s''"

definition metrics_turn :: "'g Server \<Rightarrow> message option \<times> 'g Server" where
  "metrics_turn s =
     (if millis_since (sv_last_metrics_time s) (sv_now s) \<ge> 1000
      then let m = Metrics_message (sv_message_count s) (sv_bytes_sent s)
        in (Some m, s\<lparr>sv_ws := snd (fw_broadcast (message_text m) (sv_ws s)),
          sv_console := sv_console s @ [server_status_line (sv_message_count s) (sv_bytes_sent s)],
          sv_message_count := 0, sv_bytes_sent := 0, sv_last_metrics_time := sv_now s, sv_pc := Loop_test\<rparr>)
      else (None, s\<lparr>sv_pc := Loop_test\<rparr>))"

text \<open>One step of the main thread. \<open>now\<close>: the steady clock in nanoseconds; \<open>t1\<close>, \<open>t2\<close>: readings of the system clock.\<close>

definition main_step :: "'g rng \<Rightarrow> nat \<Rightarrow> u64 \<Rightarrow> u64 \<Rightarrow> 'g Server \<Rightarrow> (message option \<times> 'g Server) result" where
  "main_step rng now t1 t2 s = (case sv_pc s of
     Loop_test \<Rightarrow> Inr (None,
       if sv_shutdown_requested s then s\<lparr>sv_console := sv_console s @ [''Shutting down...''], sv_pc := Stop_ws\<rparr>
       else s\<lparr>sv_now := now, sv_pc := Book_test\<rparr>)
   | Book_test \<Rightarrow> Inr (None,
       s\<lparr>sv_pc := (if millis_since (sv_last_order_book_time s) (sv_now s) \<ge> 100 then Send_btc_binance else Trade_test)\<rparr>)
   | Send_btc_binance \<Rightarrow> bindE (book_message rng t1 (sv_btc_binance s)) (\<lambda>(m, sim).
       Inr (Some m, send_message m (s\<lparr>sv_btc_binance := sim, sv_pc := Store_btc\<rparr>)))
   | Store_btc \<Rightarrow> Inr (None, store_message ''BTC-USD'' (s\<lparr>sv_pc := Send_btc_coinbase\<rparr>))
   | Send_btc_coinbase \<Rightarrow> bindE (book_message rng t1 (sv_btc_coinbase s)) (\<lambda>(m, sim).
       Inr (Some m, send_message m (s\<lparr>sv_btc_coinbase := sim, sv_pc := Send_eth\<rparr>)))
   | Send_eth \<Rightarrow> bindE (book_message rng t1 (sv_eth_binance s)) (\<lambda>(m, sim).
       Inr (Some m, send_message m (s\<lparr>sv_eth_binance := sim, sv_pc := Store_eth\<rparr>)))
   | Store_eth \<Rightarrow> Inr (None, store_message ''ETH-USD'' (s\<lparr>sv_last_order_book_time := sv_now s, sv_pc := Trade_test\<rparr>))
   | Trade_test \<Rightarrow> Inr (trade_turn rng t1 t2 s)
   | Metrics_test \<Rightarrow> Inr (metrics_turn s)
   | Stop_ws \<Rightarrow> bindE (fw_stop (sv_ws s)) (\<lambda>ws. Inr (None, s\<lparr>sv_ws := ws, sv_pc := Stop_rest\<rparr>))
   | Stop_rest \<Rightarrow> Inr (None, s\<lparr>sv_rest := fr_stop (sv_rest s), sv_console := sv_console s @ [''Server stopped successfully.''], sv_pc := Returning\<rparr>)
   | Returning \<Rightarrow> bindE (fr_destroy (sv_rest s)) (\<lambda>_. bindE (fw_destroy (sv_ws s)) (\<lambda>_. Inr (None, s\<lparr>sv_pc := Exited\<rparr>)))
   | Exited \<Rightarrow> Inr (None, s))"


text \<open>What the I/O thread of the WebSocket server does: it fails, accepts a client, or handles an event of a session.\<close>

datatype io_event = Io_failed | Client_accepted | Session_event

inductive ws_io :: "io_event \<Rightarrow> FrontendWebSocketServer \<Rightarrow> FrontendWebSocketServer \<Rightarrow> bool" where
  io_failed: "fw_server_thread w = Some Looping \<Longrightarrow> ws_io Io_failed w (fw_thread_fails w)"
| io_accepted: "fw_server_thread w = Some Looping \<Longrightarrow> ws_io Client_accepted w (fw_accept w)"
| io_session: "fw_server_thread w = Some Looping \<Longrightarrow> i < length (fw_sessions w) \<Longrightarrow> enabled e (fw_sessions w ! i) \<Longrightarrow>
    fw_session_event i e w = Inr (ts, w') \<Longrightarrow> ws_io Session_event w w'"

text \<open>
  Runs of the program, with the messages that were handed to \<open>broadcast\<close> and the events of the WebSocket server so far. The steady clock
  never goes back.
\<close>

inductive server_run :: "'g rng \<Rightarrow> message list \<Rightarrow> io_event list \<Rightarrow> 'g Server \<Rightarrow> bool" for rng where
  run_start: "server_main listening requested seed1 seed2 seed3 t1 t2 t3 = Inr (Inr s) \<Longrightarrow> server_run rng [] [] s"
| run_main: "server_run rng h io s \<Longrightarrow> sv_now s \<le> now \<Longrightarrow> main_step rng now t1 t2 s = Inr (m, s') \<Longrightarrow>
    server_run rng (h @ (case m of None \<Rightarrow> [] | Some m' \<Rightarrow> [m'])) io s'"
| run_signal: "server_run rng h io s \<Longrightarrow> server_run rng h io (signal_handler signo s)"
| run_io: "server_run rng h io s \<Longrightarrow> ws_io e (sv_ws s) w \<Longrightarrow> server_run rng h (io @ [e]) (s\<lparr>sv_ws := w\<rparr>)"
| run_rest_fails: "server_run rng h io s \<Longrightarrow> fr_server_thread (sv_rest s) = Some Looping \<Longrightarrow>
    server_run rng h io (s\<lparr>sv_rest := fr_accept_fails (sv_rest s)\<rparr>)"

section \<open>The simulators\<close>

lemma rnd_big: "\<bar>x\<bar> \<le> 2 ^ 60 + 1 \<Longrightarrow> \<bar>rnd x\<bar> \<le> 2 ^ 60"
proof -
  assume x: "\<bar>x\<bar> \<le> 2 ^ 60 + 1"
  have "rnd (2 ^ 60 + 1) = of_int (2 ^ 52) * 2 powi 8" by (intro rnd_eqI) simp_all
  then have b: "rnd (2 ^ 60 + 1) = 2 ^ 60" by simp
  have "rnd x \<le> rnd (2 ^ 60 + 1)" and "rnd (- x) \<le> rnd (2 ^ 60 + 1)" using x by (auto intro: rnd_mono simp del: rnd_minus)
  then show ?thesis unfolding b by (simp add: abs_le_iff)
qed

lemma rnd_abs_le: "\<bar>x\<bar> \<le> 2 ^ k \<Longrightarrow> \<bar>rnd x\<bar> \<le> 2 ^ k"
proof -
  assume x: "\<bar>x\<bar> \<le> 2 ^ k"
  have b: "rnd (2 ^ k) = 2 ^ k" using rnd_pow2 [of "int k"] by simp
  have "rnd x \<le> rnd (2 ^ k)" and "rnd (- x) \<le> rnd (2 ^ k)" using x by (auto intro: rnd_mono simp del: rnd_minus)
  then show ?thesis unfolding b by (simp add: abs_le_iff)
qed

lemma rnd_small_fraction: "\<bar>x\<bar> \<le> 1 \<Longrightarrow> \<bar>rnd x\<bar> \<le> 1"
  using rnd_abs_le [of x 0] by simp

lemma dist_price: "rng_ok rng \<Longrightarrow> \<exists>x g'. price_dist rng g = (Fin x, g') \<and> \<bar>x\<bar> \<le> 50"
  unfolding rng_ok_def price_dist_def by (metis prod.collapse abs_le_iff minus_le_iff neg_less_iff_less zero_less_numeral neg_less_pos)

lemma tenth: "fl (1 / 10) = Fin (rnd (1 / 10))" and tenth_bounds: "0 \<le> rnd (1 / 10)" "rnd (1 / 10) \<le> 1"
  by (auto simp: fl_bounded rnd_nonneg intro: b64.r_le rnd_int [of 1, simplified])

lemma dist_qty: "rng_ok rng \<Longrightarrow> \<exists>x g'. qty_dist rng g = (Fin x, g') \<and> rnd (1 / 10) \<le> x \<and> x \<le> 5"
proof -
  assume "rng_ok rng"
  moreover have "rnd (1 / 10) < 5" using tenth_bounds by simp
  ultimately show ?thesis unfolding rng_ok_def qty_dist_def tenth by (metis prod.collapse)
qed

text \<open>The update of a simulator: what the theorems say of each level, and of the state after it.\<close>

definition sim_ok :: "'g MarketDataSimulator \<Rightarrow> bool" where
  "sim_ok s \<longleftrightarrow> (\<exists>b. sm_base_price s = Fin b \<and> \<bar>b\<bar> \<le> 2 ^ 60)"

definition sim_level_ok :: "PriceLevelSnapshot \<Rightarrow> bool" where
  "sim_level_ok l \<longleftrightarrow> is_fin (ps_price l) \<and> (\<exists>q. ps_quantity l = Fin q \<and> rnd (1 / 10) \<le> q \<and> q \<le> 5) \<and>
     1 \<le> unat (ps_order_count l) \<and> unat (ps_order_count l) \<le> 51"

lemma count_of_draw: "\<bar>x\<bar> \<le> 50 \<Longrightarrow> \<exists>c. u32_of_double (dadd (dabs (Fin x)) (Fin 1)) = Inr c \<and> 1 \<le> unat c \<and> unat c \<le> 51"
proof -
  assume x: "\<bar>x\<bar> \<le> 50"
  have a: "dabs (Fin x) = Fin \<bar>x\<bar>" by (simp add: dabs_def)
  have f: "fl (\<bar>x\<bar> + 1) = Fin (rnd (\<bar>x\<bar> + 1))" using x by (intro fl_bounded) simp
  have i: "rnd 51 = 51" "rnd 1 = 1" using rnd_int [of 51] rnd_int [of 1] by simp_all
  have r: "1 \<le> rnd (\<bar>x\<bar> + 1)" "rnd (\<bar>x\<bar> + 1) \<le> 51"
    using x i rnd_mono [of 1 "\<bar>x\<bar> + 1"] rnd_mono [of "\<bar>x\<bar> + 1" 51] by simp_all
  then have t: "1 \<le> trunc (rnd (\<bar>x\<bar> + 1))" "trunc (rnd (\<bar>x\<bar> + 1)) \<le> 51"
    by (auto simp: trunc_def floor_le_iff le_floor_iff)
  then have u: "u32_of_double (dadd (dabs (Fin x)) (Fin 1)) = Inr (word_of_int (trunc (rnd (\<bar>x\<bar> + 1))))"
    by (simp add: a f)
  have "unat (word_of_int (trunc (rnd (\<bar>x\<bar> + 1))) :: u32) = nat (trunc (rnd (\<bar>x\<bar> + 1)))"
    using t by (simp add: unat_eq_nat_uint uint_word_of_int)
  moreover have "1 \<le> nat (trunc (rnd (\<bar>x\<bar> + 1)))" "nat (trunc (rnd (\<bar>x\<bar> + 1))) \<le> 51" using t by linarith+
  ultimately show ?thesis using u by simp
qed

definition sim_op :: "(double \<Rightarrow> double \<Rightarrow> double) \<Rightarrow> bool" where
  "sim_op f \<longleftrightarrow> f = dsub \<or> f = dadd"

lemma price_of_draw:
  assumes "sim_op f" and "\<bar>b\<bar> \<le> 2 ^ 60" and "i < 10" and "\<bar>x\<bar> \<le> 50"
  shows "is_fin (dadd (f (Fin b) (dmul (double_of_nat i) (Fin (1 / 2)))) (dmul (Fin x) (fl (1 / 10))))"
proof -
  have i: "double_of_nat i = Fin (of_nat i)" using assms(3) by (simp add: double_of_nat_small)
  have "(of_nat i :: rat) < of_nat 10" using assms(3) by (simp only: of_nat_less_iff)
  then have "of_nat i * (1 / 2) \<le> (2 ^ 60 :: rat)" by simp
  then have h: "\<bar>of_nat i * (1 / 2) :: rat\<bar> \<le> 2 ^ 60" by simp
  note h' = rnd_abs_le [OF h]
  have m: "dmul (double_of_nat i) (Fin (1 / 2)) = Fin (rnd (of_nat i * (1 / 2)))" unfolding i using h by (simp add: fl_bounded del: times_divide_eq_right)
  obtain c where c: "f (Fin b) (Fin (rnd (of_nat i * (1 / 2)))) = fl c" "\<bar>c\<bar> \<le> 2 ^ 61"
    using assms(1,2) h' unfolding sim_op_def
    by (auto simp: dsub_def abs_le_iff)
  then have c': "f (Fin b) (Fin (rnd (of_nat i * (1 / 2)))) = Fin (rnd c)" "\<bar>rnd c\<bar> \<le> 2 ^ 61"
    using rnd_abs_le [of c 61] by (simp_all add: fl_bounded)
  have "\<bar>x * rnd (1 / 10)\<bar> \<le> 50 * 1" unfolding abs_mult using assms(4) tenth_bounds by (intro mult_mono) simp_all
  then have d: "dmul (Fin x) (fl (1 / 10)) = Fin (rnd (x * rnd (1 / 10)))" "\<bar>rnd (x * rnd (1 / 10))\<bar> \<le> 2 ^ 6"
    using rnd_abs_le [of "x * rnd (1 / 10)" 6] by (simp_all add: tenth fl_bounded)
  have "\<bar>rnd c + rnd (x * rnd (1 / 10))\<bar> \<le> 2 ^ 1000" using c'(2) d(2) by simp
  then show ?thesis unfolding m c'(1) d(1) by (simp add: fl_bounded)
qed

lemma sim_level_total:
  assumes "rng_ok rng" and "sim_op f" and "\<bar>b\<bar> \<le> 2 ^ 60" and "i < 10"
  shows "\<exists>l g'. sim_level rng f (Fin b) i g = Inr (l, g') \<and> sim_level_ok l"
proof -
  obtain x g1 where x: "price_dist rng g = (Fin x, g1)" "\<bar>x\<bar> \<le> 50" using dist_price [OF assms(1)] by blast
  obtain q g2 where q: "qty_dist rng g1 = (Fin q, g2)" "rnd (1 / 10) \<le> q" "q \<le> 5" using dist_qty [OF assms(1)] by blast
  obtain y g3 where y: "price_dist rng g2 = (Fin y, g3)" "\<bar>y\<bar> \<le> 50" using dist_price [OF assms(1)] by blast
  obtain c where c: "u32_of_double (dadd (dabs (Fin y)) (Fin 1)) = Inr c" "1 \<le> unat c" "unat c \<le> 51"
    using count_of_draw [OF y(2)] by blast
  show ?thesis unfolding sim_level_def x(1) q(1) y(1) Let_def prod.case c(1) bindE.simps
    using price_of_draw [OF assms(2-4) x(2)] q c by (simp add: sim_level_ok_def)
qed

lemma sim_levels_total:
  assumes "rng_ok rng" and "sim_op f" and "\<bar>b\<bar> \<le> 2 ^ 60" and "\<forall>i \<in> set is. i < 10"
  shows "\<exists>ls g'. sim_levels rng f (Fin b) is g = Inr (ls, g') \<and> length ls = length is \<and> list_all sim_level_ok ls"
  using assms(4)
proof (induction "is" arbitrary: g)
  case (Cons i "is")
  obtain l g1 where l: "sim_level rng f (Fin b) i g = Inr (l, g1)" "sim_level_ok l"
    using sim_level_total [OF assms(1-3)] Cons.prems by fastforce
  obtain ls g2 where "sim_levels rng f (Fin b) is g1 = Inr (ls, g2)" "length ls = length is" "list_all sim_level_ok ls"
    using Cons.IH Cons.prems by fastforce
  with l show ?case by simp
qed simp

lemma base_step:
  assumes "\<bar>b\<bar> \<le> 2 ^ 60" and "\<bar>x\<bar> \<le> 50"
  shows "\<exists>b'. dadd (Fin b) (dmul (Fin x) (fl (1 / 100))) = Fin b' \<and> \<bar>b'\<bar> \<le> 2 ^ 60"
proof -
  have r: "0 \<le> rnd (1 / 100)" "rnd (1 / 100) \<le> 1 / 64"
    using rnd_mono [of "1 / 100" "1 / 64"] rnd_pow2 [of "- 6"] by (simp_all add: rnd_nonneg power_int_minus)
  have "\<bar>x * rnd (1 / 100)\<bar> \<le> 50 * (1 / 64)" unfolding abs_mult using assms(2) r by (intro mult_mono) simp_all
  then have d: "\<bar>x * rnd (1 / 100)\<bar> \<le> 1" by simp
  note d' = rnd_small_fraction [OF d]
  have f: "fl (1 / 100) = Fin (rnd (1 / 100))" by (simp add: fl_bounded)
  have m: "dmul (Fin x) (fl (1 / 100)) = Fin (rnd (x * rnd (1 / 100)))" using d by (simp add: f fl_bounded)
  have s: "\<bar>b + rnd (x * rnd (1 / 100))\<bar> \<le> 2 ^ 60 + 1" using assms(1) d' by linarith
  then have "dadd (Fin b) (dmul (Fin x) (fl (1 / 100))) = Fin (rnd (b + rnd (x * rnd (1 / 100))))" unfolding m by (simp add: fl_bounded)
  with rnd_big [OF s] show ?thesis by blast
qed

lemma generate_total:
  assumes "rng_ok rng" and "sim_ok s"
  shows "\<exists>u s'. generate_order_book_update rng now s = Inr (u, s') \<and> sim_ok s' \<and> sm_symbol s' = sm_symbol s \<and> sm_exchange s' = sm_exchange s \<and>
    sm_sequence s' = sm_sequence s + 1 \<and> up_symbol u = sm_symbol s \<and> up_exchange u = sm_exchange s \<and> up_timestamp u = now \<and>
    up_update_id u = sm_sequence s \<and> length (up_bids u) = 10 \<and> length (up_asks u) = 10 \<and> list_all sim_level_ok (up_bids u @ up_asks u)"
proof -
  obtain b where b: "sm_base_price s = Fin b" "\<bar>b\<bar> \<le> 2 ^ 60" using assms(2) by (auto simp: sim_ok_def)
  have ops: "sim_op dsub" "sim_op dadd" by (simp_all add: sim_op_def)
  obtain bids g1 where bids: "sim_levels rng dsub (Fin b) [0..<10] (sm_gen s) = Inr (bids, g1)" "length bids = 10" "list_all sim_level_ok bids"
    using sim_levels_total [OF assms(1) ops(1) b(2), of "[0..<10]" "sm_gen s"] by auto
  obtain asks g2 where asks: "sim_levels rng dadd (Fin b) [0..<10] g1 = Inr (asks, g2)" "length asks = 10" "list_all sim_level_ok asks"
    using sim_levels_total [OF assms(1) ops(2) b(2), of "[0..<10]" g1] by auto
  obtain x g3 where x: "price_dist rng g2 = (Fin x, g3)" "\<bar>x\<bar> \<le> 50" using dist_price [OF assms(1)] by blast
  obtain b' where b': "dadd (Fin b) (dmul (Fin x) (fl (1 / 100))) = Fin b'" "\<bar>b'\<bar> \<le> 2 ^ 60" using base_step [OF b(2) x(2)] by blast
  show ?thesis unfolding generate_order_book_update_def b(1) bids(1) bindE.simps prod.case asks(1) x(1) Let_def b'(1)
    using bids(2,3) asks(2,3) b'(2) by (simp add: sim_ok_def)
qed

section \<open>What has been sent\<close>

text \<open>The order book messages of a symbol and exchange, with their sequence numbers.\<close>

fun books_of :: "string \<Rightarrow> Exchange \<Rightarrow> message list \<Rightarrow> (NormalizedOrderBookUpdate \<times> u64) list" where
  "books_of symbol exchange [] = []"
| "books_of symbol exchange (Book_message u n # h) =
     (if up_symbol u = symbol \<and> up_exchange u = exchange then (u, n) # books_of symbol exchange h else books_of symbol exchange h)"
| "books_of symbol exchange (_ # h) = books_of symbol exchange h"

lemma books_of_append [simp]: "books_of symbol exchange (h @ h') = books_of symbol exchange h @ books_of symbol exchange h'"
  by (induction symbol exchange h rule: books_of.induct) simp_all

text \<open>What the REST server should know of a symbol: the last message of Binance.\<close>

definition latest :: "string \<Rightarrow> message list \<Rightarrow> (NormalizedOrderBookUpdate \<times> u64) option" where
  "latest symbol h = (if books_of symbol BINANCE h = [] then None else Some (last (books_of symbol BINANCE h)))"

definition latest_text :: "message list \<Rightarrow> string \<rightharpoonup> string" where
  "latest_text h symbol = map_option (\<lambda>(u, n). format_order_book_update u n) (latest symbol h)"

text \<open>The messages since the last one with metrics.\<close>

fun is_metrics :: "message \<Rightarrow> bool" where
  "is_metrics (Metrics_message _ _) = True"
| "is_metrics _ = False"

definition since_metrics :: "message list \<Rightarrow> message list" where
  "since_metrics h = foldl (\<lambda>ms m. if is_metrics m then [] else ms @ [m]) [] h"

lemma since_metrics_simps [simp]:
  "since_metrics [] = []" "since_metrics (h @ [m]) = (if is_metrics m then [] else since_metrics h @ [m])"
  by (simp_all add: since_metrics_def)

definition counted :: "message list \<Rightarrow> u64 \<times> u64" where
  "counted ms = (of_nat (length ms), of_nat (sum_list (map (\<lambda>m. length (message_text m)) ms)))"

definition metrics_exact :: "message list \<Rightarrow> bool" where
  "metrics_exact h \<longleftrightarrow> (\<forall>h1 c b h2. h = h1 @ Metrics_message c b # h2 \<longrightarrow> (c, b) = counted (since_metrics h1))"

lemma metrics_exact_snoc: "metrics_exact (h @ [m]) \<longleftrightarrow> metrics_exact h \<and>
    (\<forall>c b. m = Metrics_message c b \<longrightarrow> (c, b) = counted (since_metrics h))"
proof
  assume a: "metrics_exact (h @ [m])"
  have "h @ [m] = h1 @ Metrics_message c b # (h2 @ [m])" if "h = h1 @ Metrics_message c b # h2" for h1 c b h2 using that by simp
  with a show "metrics_exact h \<and> (\<forall>c b. m = Metrics_message c b \<longrightarrow> (c, b) = counted (since_metrics h))"
    unfolding metrics_exact_def by blast
next
  assume a: "metrics_exact h \<and> (\<forall>c b. m = Metrics_message c b \<longrightarrow> (c, b) = counted (since_metrics h))"
  show "metrics_exact (h @ [m])" unfolding metrics_exact_def
  proof (intro allI impI)
    fix h1 c b h2 assume e: "h @ [m] = h1 @ Metrics_message c b # h2"
    show "(c, b) = counted (since_metrics h1)"
      using e a by (cases h2 rule: rev_cases) (auto simp: metrics_exact_def simp flip: append_assoc append_Cons)
  qed
qed

section \<open>The invariant of the program\<close>

definition sim_inv :: "string \<Rightarrow> Exchange \<Rightarrow> message list \<Rightarrow> 'g MarketDataSimulator \<Rightarrow> bool" where
  "sim_inv symbol exchange h sim \<longleftrightarrow> sm_symbol sim = symbol \<and> sm_exchange sim = exchange \<and> sim_ok sim \<and>
     sm_sequence sim = of_nat (length (books_of symbol exchange h)) \<and>
     map (\<lambda>(u, n). (up_update_id u, n)) (books_of symbol exchange h) =
       map (\<lambda>k. (of_nat k, of_nat (Suc k))) [0..<length (books_of symbol exchange h)]"

definition sim_sources :: "(string \<times> Exchange) set" where
  "sim_sources = {(''BTC-USD'', BINANCE), (''BTC-USD'', COINBASE), (''ETH-USD'', BINANCE)}"

definition book_ok :: "NormalizedOrderBookUpdate \<Rightarrow> bool" where
  "book_ok u \<longleftrightarrow> (up_symbol u, up_exchange u) \<in> sim_sources \<and> length (up_bids u) = 10 \<and> length (up_asks u) = 10 \<and>
     list_all sim_level_ok (up_bids u @ up_asks u)"

definition books_ok :: "message list \<Rightarrow> bool" where
  "books_ok h \<longleftrightarrow> (\<forall>u n. Book_message u n \<in> set h \<longrightarrow> book_ok u)"

text \<open>Between a broadcast and the storing of its message the store is one message behind.\<close>

definition store_inv :: "message list \<Rightarrow> 'g Server \<Rightarrow> bool" where
  "store_inv h s \<longleftrightarrow> (let stored = map_of (latest_orderbook_messages (sv_data_store s)) in
     if sv_pc s = Store_btc \<or> sv_pc s = Store_eth
     then \<exists>h0 u n. h = h0 @ [Book_message u n] \<and> stored = latest_text h0 \<and> sv_msg s = format_order_book_update u n \<and>
       up_exchange u = BINANCE \<and> up_symbol u = (if sv_pc s = Store_btc then ''BTC-USD'' else ''ETH-USD'')
     else stored = latest_text h)"

definition server_inv :: "message list \<Rightarrow> 'g Server \<Rightarrow> bool" where
  "server_inv h s \<longleftrightarrow> sim_inv ''BTC-USD'' BINANCE h (sv_btc_binance s) \<and> sim_inv ''BTC-USD'' COINBASE h (sv_btc_coinbase s) \<and>
     sim_inv ''ETH-USD'' BINANCE h (sv_eth_binance s) \<and> books_ok h \<and> store_inv h s \<and>
     (sv_message_count s, sv_bytes_sent s) = counted (since_metrics h) \<and> metrics_exact h"

definition same_data :: "'g Server \<Rightarrow> 'g Server \<Rightarrow> bool" where
  "same_data s s' \<longleftrightarrow> sv_btc_binance s' = sv_btc_binance s \<and> sv_btc_coinbase s' = sv_btc_coinbase s \<and> sv_eth_binance s' = sv_eth_binance s \<and>
     sv_data_store s' = sv_data_store s \<and> sv_pc s' = sv_pc s \<and> sv_msg s' = sv_msg s \<and> sv_message_count s' = sv_message_count s \<and>
     sv_bytes_sent s' = sv_bytes_sent s"

lemma server_inv_same: "same_data s s' \<Longrightarrow> server_inv h s' = server_inv h s"
  by (simp add: same_data_def server_inv_def store_inv_def)

lemma latest_text_snoc:
  "latest_text (h @ [Book_message u n]) =
     (if up_exchange u = BINANCE then (latest_text h)(up_symbol u \<mapsto> format_order_book_update u n) else latest_text h)"
  by (auto simp: fun_eq_iff latest_text_def latest_def)

lemma latest_text_other: "(\<And>u n. m \<noteq> Book_message u n) \<Longrightarrow> latest_text (h @ [m]) = latest_text h"
  by (cases m) (auto simp: fun_eq_iff latest_text_def latest_def)

lemma books_ok_snoc: "books_ok (h @ [m]) \<longleftrightarrow> books_ok h \<and> (\<forall>u n. m = Book_message u n \<longrightarrow> book_ok u)"
  by (auto simp: books_ok_def)

lemma counted_snoc: "counted (ms @ [m]) = (fst (counted ms) + 1, snd (counted ms) + of_nat (length (message_text m)))"
  by (simp add: counted_def)

lemma sim_inv_other: "books_of symbol exchange [m] = [] \<Longrightarrow> sim_inv symbol exchange (h @ [m]) sim = sim_inv symbol exchange h sim"
  by (simp add: sim_inv_def)

lemma sources: "(''BTC-USD'', BINANCE) \<in> sim_sources" "(''BTC-USD'', COINBASE) \<in> sim_sources" "(''ETH-USD'', BINANCE) \<in> sim_sources"
  by (simp_all add: sim_sources_def)

lemma book_message_total:
  assumes "rng_ok rng" and "sim_inv symbol exchange h sim" and "(symbol, exchange) \<in> sim_sources"
  shows "\<exists>u n sim'. book_message rng now sim = Inr (Book_message u n, sim') \<and> book_ok u \<and> up_symbol u = symbol \<and> up_exchange u = exchange \<and>
    sim_inv symbol exchange (h @ [Book_message u n]) sim'"
proof -
  have s: "sim_ok sim" "sm_symbol sim = symbol" "sm_exchange sim = exchange" using assms(2) by (simp_all add: sim_inv_def)
  obtain u sim' where u: "generate_order_book_update rng now sim = Inr (u, sim')" "sim_ok sim'" "sm_symbol sim' = symbol" "sm_exchange sim' = exchange"
    "sm_sequence sim' = sm_sequence sim + 1" "up_symbol u = symbol" "up_exchange u = exchange" "up_update_id u = sm_sequence sim"
    "length (up_bids u) = 10" "length (up_asks u) = 10" "list_all sim_level_ok (up_bids u @ up_asks u)"
    using generate_total [OF assms(1) s(1), of now] unfolding s by blast
  have "book_message rng now sim = Inr (Book_message u (sm_sequence sim'), sim')"
    unfolding book_message_def u(1) bindE.simps prod.case get_sequence_def ..
  moreover have "book_ok u" using u(6,7,9,10,11) assms(3) by (simp add: book_ok_def)
  moreover have "sim_inv symbol exchange (h @ [Book_message u (sm_sequence sim')]) sim'"
    using assms(2) u(2-8) by (simp add: sim_inv_def add.commute)
  ultimately show ?thesis using u(6,7) by blast
qed

lemma server_inv_send:
  assumes "server_inv h s" and "sv_pc s \<notin> {Store_btc, Store_eth}" and "book_ok u"
    and "sim_inv ''BTC-USD'' BINANCE (h @ [Book_message u n]) bb" and "sim_inv ''BTC-USD'' COINBASE (h @ [Book_message u n]) bc"
    and "sim_inv ''ETH-USD'' BINANCE (h @ [Book_message u n]) eb"
    and "if up_exchange u = BINANCE then pc = (if up_symbol u = ''BTC-USD'' then Store_btc else Store_eth) else pc \<notin> {Store_btc, Store_eth}"
  shows "server_inv (h @ [Book_message u n]) (send_message (Book_message u n)
    (s\<lparr>sv_btc_binance := bb, sv_btc_coinbase := bc, sv_eth_binance := eb, sv_pc := pc\<rparr>))"
proof -
  have st: "map_of (latest_orderbook_messages (sv_data_store s)) = latest_text h"
    using assms(1,2) by (simp add: server_inv_def store_inv_def Let_def)
  have "(sv_message_count s, sv_bytes_sent s) = counted (since_metrics h)" using assms(1) by (simp add: server_inv_def)
  then have c: "(sv_message_count s + 1, sv_bytes_sent s + of_nat (length (message_text (Book_message u n)))) =
      counted (since_metrics (h @ [Book_message u n]))"
    by (simp add: counted_snoc prod_eq_iff)
  let ?s = "send_message (Book_message u n) (s\<lparr>sv_btc_binance := bb, sv_btc_coinbase := bc, sv_eth_binance := eb, sv_pc := pc\<rparr>)"
  have "up_symbol u = ''BTC-USD'' \<or> up_symbol u = ''ETH-USD''" using assms(3) by (auto simp: book_ok_def sim_sources_def)
  then have "store_inv (h @ [Book_message u n]) ?s"
    using assms(7) st by (auto simp: store_inv_def send_message_def latest_text_snoc split: if_splits)
  then show ?thesis
    using assms(1,3,4,5,6) c by (simp add: server_inv_def send_message_def books_ok_snoc metrics_exact_snoc)
qed

lemma generate_trade_keeps:
  "generate_trade rng t1 t2 sim = (t, sim') \<Longrightarrow> sim_inv symbol exchange h sim' = sim_inv symbol exchange h sim"
  by (auto simp: generate_trade_def sim_inv_def sim_ok_def Let_def split: prod.splits)

lemma server_inv_trade:
  assumes "server_inv h s" and "sv_pc s = Trade_test" and "trade_turn rng t1 t2 s = (m, s')"
  shows "server_inv (h @ (case m of None \<Rightarrow> [] | Some m' \<Rightarrow> [m'])) s'"
proof (cases "millis_since (sv_last_trade_time s) (sv_now s) \<ge> 200")
  case True
  obtain t sim where t: "generate_trade rng t1 t2 (sv_btc_binance s) = (t, sim)" by fastforce
  have m: "m = Some (Trade_message t)" "s' = (send_message (Trade_message t) (s\<lparr>sv_btc_binance := sim\<rparr>))
      \<lparr>sv_last_trade_time := sv_now s, sv_pc := Metrics_test\<rparr>"
    using assms(3) True by (auto simp: trade_turn_def t Let_def)
  have "(sv_message_count s, sv_bytes_sent s) = counted (since_metrics h)" using assms(1) by (simp add: server_inv_def)
  then have "(sv_message_count s + 1, sv_bytes_sent s + of_nat (length (message_text (Trade_message t)))) =
      counted (since_metrics (h @ [Trade_message t]))"
    by (simp add: counted_snoc prod_eq_iff del: message_text.simps)
  then show ?thesis unfolding m using assms(1,2)
    by (simp add: server_inv_def send_message_def store_inv_def books_ok_snoc metrics_exact_snoc latest_text_other sim_inv_other
        generate_trade_keeps [OF t] del: message_text.simps)
next
  case False
  then show ?thesis using assms by (auto simp: trade_turn_def server_inv_def store_inv_def)
qed

lemma server_inv_metrics:
  assumes "server_inv h s" and "sv_pc s = Metrics_test" and "metrics_turn s = (m, s')"
  shows "server_inv (h @ (case m of None \<Rightarrow> [] | Some m' \<Rightarrow> [m'])) s'"
proof (cases "millis_since (sv_last_metrics_time s) (sv_now s) \<ge> 1000")
  case True
  have m: "m = Some (Metrics_message (sv_message_count s) (sv_bytes_sent s))"
    using assms(3) True by (auto simp: metrics_turn_def Let_def)
  have c: "counted [] = (0, 0)" by (simp add: counted_def)
  show ?thesis using assms True
    by (auto simp: m metrics_turn_def Let_def server_inv_def store_inv_def books_ok_snoc metrics_exact_snoc latest_text_other sim_inv_other c
        simp del: message_text.simps)
next
  case False
  then show ?thesis using assms by (auto simp: metrics_turn_def server_inv_def store_inv_def)
qed

lemma server_inv_store:
  assumes "server_inv h s" and "sv_pc s = (if symbol = ''BTC-USD'' then Store_btc else Store_eth)" and "symbol \<in> {''BTC-USD'', ''ETH-USD''}"
    and "pc \<notin> {Store_btc, Store_eth}"
  shows "server_inv h (store_message symbol (s\<lparr>sv_last_order_book_time := t, sv_pc := pc\<rparr>))"
proof -
  obtain h0 u n where h: "h = h0 @ [Book_message u n]" "map_of (latest_orderbook_messages (sv_data_store s)) = latest_text h0"
    "sv_msg s = format_order_book_update u n" "up_exchange u = BINANCE" "up_symbol u = symbol"
    using assms(1-3) by (auto simp: server_inv_def store_inv_def Let_def split: if_splits)
  have "store_inv h (store_message symbol (s\<lparr>sv_last_order_book_time := t, sv_pc := pc\<rparr>))"
    using h assms(4) by (simp add: store_inv_def store_message_def map_of_put latest_text_snoc)
  then show ?thesis using assms(1) by (simp add: server_inv_def store_message_def)
qed

text \<open>A step that touches nothing but the clock readings, the servers, the console and the program counter.\<close>

lemma server_inv_pc:
  assumes "server_inv h s" and "same_data s (s'\<lparr>sv_pc := sv_pc s\<rparr>)" and "sv_pc s \<notin> {Store_btc, Store_eth}" and "sv_pc s' \<notin> {Store_btc, Store_eth}"
  shows "server_inv h s'"
  using assms by (simp add: server_inv_def same_data_def store_inv_def)

lemma main_step_inv:
  assumes "rng_ok rng" and "server_inv h s" and "main_step rng now t1 t2 s = Inr (m, s')"
  shows "server_inv (h @ (case m of None \<Rightarrow> [] | Some m' \<Rightarrow> [m'])) s'"
proof -
  note sims = assms(2) [unfolded server_inv_def]
  have other: "sim_inv symbol exchange (h @ [Book_message u n]) sim = sim_inv symbol exchange h sim"
    if "up_symbol u \<noteq> symbol \<or> up_exchange u \<noteq> exchange" for symbol exchange u n sim
    using that by (intro sim_inv_other) auto
  show ?thesis
  proof (cases "sv_pc s")
    case Send_btc_binance
    obtain u n sim where u: "book_message rng t1 (sv_btc_binance s) = Inr (Book_message u n, sim)" "book_ok u" "up_symbol u = ''BTC-USD''"
      "up_exchange u = BINANCE" "sim_inv ''BTC-USD'' BINANCE (h @ [Book_message u n]) sim"
      using book_message_total [OF assms(1)] sims sources by blast
    have "server_inv (h @ [Book_message u n]) (send_message (Book_message u n)
        (s\<lparr>sv_btc_binance := sim, sv_btc_coinbase := sv_btc_coinbase s, sv_eth_binance := sv_eth_binance s, sv_pc := Store_btc\<rparr>))"
      by (rule server_inv_send) (use assms(2) Send_btc_binance u sims in \<open>simp_all add: other\<close>)
    then show ?thesis using assms(3) u(1) by (auto simp: main_step_def Send_btc_binance)
  next
    case Send_btc_coinbase
    obtain u n sim where u: "book_message rng t1 (sv_btc_coinbase s) = Inr (Book_message u n, sim)" "book_ok u" "up_symbol u = ''BTC-USD''"
      "up_exchange u = COINBASE" "sim_inv ''BTC-USD'' COINBASE (h @ [Book_message u n]) sim"
      using book_message_total [OF assms(1)] sims sources by blast
    have "server_inv (h @ [Book_message u n]) (send_message (Book_message u n)
        (s\<lparr>sv_btc_binance := sv_btc_binance s, sv_btc_coinbase := sim, sv_eth_binance := sv_eth_binance s, sv_pc := Send_eth\<rparr>))"
      by (rule server_inv_send) (use assms(2) Send_btc_coinbase u sims in \<open>simp_all add: other\<close>)
    then show ?thesis using assms(3) u(1) by (auto simp: main_step_def Send_btc_coinbase)
  next
    case Send_eth
    obtain u n sim where u: "book_message rng t1 (sv_eth_binance s) = Inr (Book_message u n, sim)" "book_ok u" "up_symbol u = ''ETH-USD''"
      "up_exchange u = BINANCE" "sim_inv ''ETH-USD'' BINANCE (h @ [Book_message u n]) sim"
      using book_message_total [OF assms(1)] sims sources by blast
    have "server_inv (h @ [Book_message u n]) (send_message (Book_message u n)
        (s\<lparr>sv_btc_binance := sv_btc_binance s, sv_btc_coinbase := sv_btc_coinbase s, sv_eth_binance := sim, sv_pc := Store_eth\<rparr>))"
      by (rule server_inv_send) (use assms(2) Send_eth u sims in \<open>simp_all add: other\<close>)
    then show ?thesis using assms(3) u(1) by (auto simp: main_step_def Send_eth)
  next
    case Store_btc
    then show ?thesis using assms(3) server_inv_store [OF assms(2), of "''BTC-USD''" Send_btc_coinbase "sv_last_order_book_time s"]
      by (auto simp: main_step_def)
  next
    case Store_eth
    then show ?thesis using assms(3) server_inv_store [OF assms(2), of "''ETH-USD''" Trade_test "sv_now s"] by (auto simp: main_step_def)
  next
    case Trade_test
    then show ?thesis using assms(3) server_inv_trade [OF assms(2)] by (simp add: main_step_def)
  next
    case Metrics_test
    then show ?thesis using assms(3) server_inv_metrics [OF assms(2)] by (simp add: main_step_def)
  qed (use assms(3) in \<open>auto simp: main_step_def same_data_def bindE_eq_Inr intro!: server_inv_pc [OF assms(2)] split: if_splits\<close>)
qed

lemma server_main_start:
  "server_main listening requested seed1 seed2 seed3 t1 t2 t3 = (if listening then Inr (Inr
     \<lparr>sv_shutdown_requested = requested, sv_data_store = MarketDataStore_new,
      sv_ws = (FrontendWebSocketServer_new 8080)\<lparr>fw_running := True, fw_server_thread := Some Looping, fw_acceptor := True\<rparr>,
      sv_rest = (FrontendRestServer_new 8081)\<lparr>fr_running := True, fr_socket_open := True, fr_server_thread := Some Looping,
        fr_orderbook_handler := Some (orderbook_handler MarketDataStore_new), fr_symbols_handler := Some symbols_handler\<rparr>,
      sv_btc_binance = MarketDataSimulator_new ''BTC-USD'' BINANCE seed1, sv_btc_coinbase = MarketDataSimulator_new ''BTC-USD'' COINBASE seed2,
      sv_eth_binance = MarketDataSimulator_new ''ETH-USD'' BINANCE seed3,
      sv_last_order_book_time = t1, sv_last_trade_time = t2, sv_last_metrics_time = t3,
      sv_message_count = 0, sv_bytes_sent = 0, sv_now = t3, sv_msg = [], sv_pc = Loop_test, sv_console = []\<rparr>) else Inr (Inl 1))"
  by (simp add: server_main_def fw_start_def fr_start_def FrontendWebSocketServer_new_def FrontendRestServer_new_def joinable_def
      set_symbols_handler_def set_orderbook_handler_def fw_stop_def fw_clear_sessions_def fr_destroy_def fw_destroy_def)

lemma server_inv_start:
  assumes "server_main listening requested seed1 seed2 seed3 t1 t2 t3 = Inr (Inr s)"
  shows "server_inv [] s"
proof -
  have "s = (s\<lparr>sv_btc_binance := MarketDataSimulator_new ''BTC-USD'' BINANCE seed1,
      sv_btc_coinbase := MarketDataSimulator_new ''BTC-USD'' COINBASE seed2, sv_eth_binance := MarketDataSimulator_new ''ETH-USD'' BINANCE seed3,
      sv_data_store := MarketDataStore_new, sv_message_count := 0, sv_bytes_sent := 0, sv_pc := Loop_test\<rparr>)"
    using assms by (auto simp: server_main_start split: if_splits)
  moreover have "server_inv [] (s\<lparr>sv_btc_binance := MarketDataSimulator_new ''BTC-USD'' BINANCE seed1,
      sv_btc_coinbase := MarketDataSimulator_new ''BTC-USD'' COINBASE seed2, sv_eth_binance := MarketDataSimulator_new ''ETH-USD'' BINANCE seed3,
      sv_data_store := MarketDataStore_new, sv_message_count := 0, sv_bytes_sent := 0, sv_pc := Loop_test\<rparr>)"
    by (auto simp: server_inv_def sim_inv_def sim_ok_def MarketDataSimulator_new_def books_ok_def store_inv_def MarketDataStore_new_def
        latest_text_def latest_def counted_def metrics_exact_def)
  ultimately show ?thesis by simp
qed

lemma server_run_inv: "server_run rng h io s \<Longrightarrow> rng_ok rng \<Longrightarrow> server_inv h s"
proof (induction rule: server_run.induct)
  case (run_start listening requested seed1 seed2 seed3 t1 t2 t3 s)
  from this(1) show ?case by (rule server_inv_start)
next
  case (run_main h io s now t1 t2 m s')
  then show ?case using main_step_inv by blast
next
  case (run_signal h io s signo)
  then show ?case using server_inv_same [of s "signal_handler signo s"] by (simp add: signal_handler_def same_data_def)
next
  case (run_io h io s e w)
  then show ?case using server_inv_same [of s "s\<lparr>sv_ws := w\<rparr>"] by (simp add: same_data_def)
next
  case (run_rest_fails h io s)
  then show ?case using server_inv_same [of s "s\<lparr>sv_rest := fr_accept_fails (sv_rest s)\<rparr>"] by (simp add: same_data_def)
qed

section \<open>What the clients see\<close>







text \<open>A concrete run: the least number of every range, and the loop up to the first stored book.\<close>

definition rng_least :: "unit rng" where
  "rng_least g a b = (a, g)"

lemma rng_least_ok: "rng_ok rng_least"
  by (simp add: rng_ok_def rng_least_def)

lemma first_book:
  "\<exists>u n s. server_run rng_least [Book_message u n] [] s \<and> sv_pc s = Send_btc_coinbase \<and> latest ''BTC-USD'' [Book_message u n] = Some (u, n)"
proof -
  obtain s0 :: "unit Server" where start: "server_main True False () () () 0 0 0 = Inr (Inr s0)" using server_main_start by metis
  then have s0: "sv_pc s0 = Loop_test" "\<not> sv_shutdown_requested s0" "sv_now s0 = 0" "sv_last_order_book_time s0 = 0"
    by (auto simp: server_main_start)
  note d = main_step_def
  have r0: "server_run rng_least [] [] s0" using start by (rule run_start)
  let ?s1 = "s0\<lparr>sv_now := 100000000, sv_pc := Book_test\<rparr>"
  have "main_step rng_least 100000000 0 0 s0 = Inr (None, ?s1)" using s0 by (simp add: d)
  from run_main [OF r0 _ this] have r1: "server_run rng_least [] [] ?s1" by (simp add: s0)
  let ?s2 = "?s1\<lparr>sv_pc := Send_btc_binance\<rparr>"
  have "main_step rng_least 100000000 0 0 ?s1 = Inr (None, ?s2)" using s0 by (simp add: d millis_since_def)
  from run_main [OF r1 _ this] have r2: "server_run rng_least [] [] ?s2" by simp
  have "sim_inv ''BTC-USD'' BINANCE [] (sv_btc_binance ?s2)" using server_run_inv [OF r2 rng_least_ok] by (simp add: server_inv_def)
  then obtain u n sim where u: "book_message rng_least 7 (sv_btc_binance s0) = Inr (Book_message u n, sim)" "up_symbol u = ''BTC-USD''"
    "up_exchange u = BINANCE" using book_message_total [OF rng_least_ok, of _ _ _ _ 7] sources(1) by fastforce
  let ?s3 = "send_message (Book_message u n) (?s2\<lparr>sv_btc_binance := sim, sv_pc := Store_btc\<rparr>)"
  have "main_step rng_least 100000000 7 0 ?s2 = Inr (Some (Book_message u n), ?s3)" using u(1) by (simp add: d)
  from run_main [OF r2 _ this] have r3: "server_run rng_least [Book_message u n] [] ?s3" by simp
  let ?s4 = "store_message ''BTC-USD'' (?s3\<lparr>sv_pc := Send_btc_coinbase\<rparr>)"
  have "main_step rng_least 100000000 7 0 ?s3 = Inr (None, ?s4)" by (simp add: d send_message_def)
  from run_main [OF r3 _ this] have "server_run rng_least [Book_message u n] [] ?s4" by (simp add: send_message_def)
  moreover have "sv_pc ?s4 = Send_btc_coinbase" by (simp add: store_message_def)
  moreover have "latest ''BTC-USD'' [Book_message u n] = Some (u, n)" using u by (simp add: latest_def)
  ultimately show ?thesis by blast
qed


text \<open>
  C15. In any run the order book messages of each of the three simulators carry the update ids 0, 1, 2, and so on
  and the sequence numbers 1, 2, 3, and so on without a gap, modulo \<open>2 ^ 64\<close>; there are no other order book messages; and each
  of them has ten bids and ten asks with finite prices, quantities from 0.1 to 5 and order counts from 1 to 51, however long the
  program runs, since rounding keeps the base price from growing without bound.
\<close>

theorem simulated_books_consecutive:
  assumes "rng_ok rng" and "server_run rng h io s"
  shows "(\<forall>(symbol, exchange) \<in> sim_sources. map (\<lambda>(u, n). (up_update_id u, n)) (books_of symbol exchange h) =
      map (\<lambda>k. (of_nat k, of_nat (Suc k))) [0..<length (books_of symbol exchange h)]) \<and>
    (\<forall>u n. Book_message u n \<in> set h \<longrightarrow> (up_symbol u, up_exchange u) \<in> sim_sources \<and> length (up_bids u) = 10 \<and> length (up_asks u) = 10 \<and>
      (\<forall>l \<in> set (up_bids u @ up_asks u). is_fin (ps_price l) \<and> (\<exists>q. ps_quantity l = Fin q \<and> rnd (1 / 10) \<le> q \<and> q \<le> 5) \<and>
         1 \<le> unat (ps_order_count l) \<and> unat (ps_order_count l) \<le> 51))"
proof -
  have inv: "server_inv h s" using server_run_inv [OF assms(2,1)] .
  then have "\<forall>(symbol, exchange) \<in> sim_sources. map (\<lambda>(u, n). (up_update_id u, n)) (books_of symbol exchange h) =
      map (\<lambda>k. (of_nat k, of_nat (Suc k))) [0..<length (books_of symbol exchange h)]"
    by (auto simp: server_inv_def sim_inv_def sim_sources_def)
  moreover have "book_ok u" if "Book_message u n \<in> set h" for u n using inv that unfolding server_inv_def books_ok_def by blast
  ultimately show ?thesis by (simp add: book_ok_def list_all_iff sim_level_ok_def)
qed

text \<open>Witness of C15: the first book.\<close>

theorem simulated_books_consecutive_witness:
  "\<exists>u s. server_run rng_least [Book_message u 1] [] s \<and> up_update_id u = 0 \<and> length (up_bids u) = 10"
proof -
  obtain u n s where s: "server_run rng_least [Book_message u n] [] s" "latest ''BTC-USD'' [Book_message u n] = Some (u, n)"
    using first_book by blast
  have b: "books_of ''BTC-USD'' BINANCE [Book_message u n] = [(u, n)]" using s(2) by (auto simp: latest_def split: if_splits)
  from sources(1) simulated_books_consecutive [OF rng_least_ok s(1)]
  have "map (\<lambda>(u, n). (up_update_id u, n)) [(u, n)] = map (\<lambda>k. (of_nat k, of_nat (Suc k))) [0..<length [(u, n)]]"
    "length (up_bids u) = 10" using b by fastforce+
  with s(1) show ?thesis by auto
qed

text \<open>
  C16. Every metrics message of a run gives the number of messages that were handed to \<open>broadcast\<close> since the last one and
  the sum of their lengths, and the counters always hold these two numbers for the messages since; all modulo \<open>2 ^ 64\<close>.
\<close>

theorem metrics_count_messages:
  assumes "rng_ok rng" and "server_run rng h io s"
  shows "(\<forall>h1 c b h2. h = h1 @ Metrics_message c b # h2 \<longrightarrow>
      c = of_nat (length (since_metrics h1)) \<and> b = of_nat (sum_list (map (\<lambda>m. length (message_text m)) (since_metrics h1)))) \<and>
    sv_message_count s = of_nat (length (since_metrics h)) \<and>
    sv_bytes_sent s = of_nat (sum_list (map (\<lambda>m. length (message_text m)) (since_metrics h)))"
  using server_run_inv [OF assms(2,1)] by (simp add: server_inv_def metrics_exact_def counted_def)

text \<open>Witness of C16: the first book.\<close>

theorem metrics_count_messages_witness:
  "\<exists>u n s. server_run rng_least [Book_message u n] [] s \<and> sv_message_count s = 1 \<and>
     sv_bytes_sent s = of_nat (length (format_order_book_update u n))"
proof -
  obtain u n s where s: "server_run rng_least [Book_message u n] [] s" using first_book by blast
  have "since_metrics [Book_message u n] = [Book_message u n]" using since_metrics_simps(2) [of "[]" "Book_message u n"] by simp
  with metrics_count_messages [OF rng_least_ok s] s show ?thesis by auto
qed

section \<open>The end of the program\<close>













end
