(* ===== verification/Spec2Isabelle.thy ===== *)
theory Spec2Isabelle
  imports Order_Book_Manager Level_Aggregator Arbitrage_Monitor Rate_Limiter Market_Analytics Ring_Buffer Lock_Free_Queue Memory_Pool Market_Data_Recorder Metrics_Collector Connection_Manager Time_Utils Message_Formatter Rest_Api_Server Frontend_Rest_Server Websocket_Server Frontend_Websocket_Server Configuration_Manager Windows_Affinity Numa_Memory Demo_Program Market_Data_Server
begin

text \<open>
  A verification of the order book engine: the C++ code under \<open>include\<close> and \<open>src\<close>.

  \<^bold>\<open>The program.\<close> Exchange connectors turn the messages of Binance, Coinbase and Kraken into normalised updates.
  A connection manager owns the connectors and their I/O threads and hands every update to a callback. What is
  behind the callback is one of the consumers: the order book manager, with a fixed-size order book per symbol; the
  cross-exchange book, which searches for crossed quotes and reports them to the arbitrage monitor; the market analytics; the
  recorder, which writes updates to a file through a writer thread, and from which the replayer delivers them again. Four servers give
  the data to clients: a REST and a WebSocket server over the cross-exchange books, the analytics and the monitor, and a pair
  of the same kinds for the frontend, which gets texts of the message formatter.
  Ring buffer, lock-free queue, memory pool, sequence lock, rate limiter and metrics serve the other parts. Two programs stand on top:
  the market data server, which streams simulated books and trades to the frontend, and a demonstration of books, metrics and manager.

  \<^bold>\<open>Theories.\<close> Each definition has the name of the class member it models, with a prefix where several classes share it.

  \<^item> \<open>Prelude\<close>: words, undefined behaviour and other failures as the left side of a sum (\<open>cpp_error\<close>), \<open>std::sort\<close> by a
    comparator, \<open>std::map\<close> as an ordered association list. \<open>Binary64\<close>: the type \<open>double\<close>. \<open>Text_Numbers\<close>: \<open>std::stod\<close>,
    \<open>std::to_string\<close> and stream output of numbers. \<open>Byte_Codec\<close>: integers and doubles as bytes.
  \<^item> \<open>Types\<close>: \<open>core/types.hpp\<close>. \<open>Price_Index_Map\<close>, \<open>Order_Book\<close> with its updates (\<open>Order_Book_Updates\<close>) and queries
    (\<open>Order_Book_Queries\<close>, \<open>Order_Book_Snapshots\<close>): \<open>core/order_book.hpp\<close>. \<open>Order_Book_Manager\<close>, \<open>Level_Aggregator\<close>: \<open>core/order_book_manager.hpp\<close>.
  \<^item> \<open>Aggregated_Order_Book\<close>: \<open>core/aggregated_order_book\<close>. \<open>Arbitrage_Monitor\<close>: \<open>trading/arbitrage_monitor\<close>.
    \<open>Market_Analytics\<close>: \<open>analytics/market_analytics\<close>. \<open>Metrics_Collector\<close>: \<open>metrics/metrics_collector.hpp\<close>.
  \<^item> \<open>Seq_Lock\<close>, \<open>Ring_Buffer\<close>, \<open>Lock_Free_Queue\<close>, \<open>Rate_Limiter\<close>: the files of these names in \<open>utils\<close>.
    \<open>Memory_Pool\<close>: \<open>core/memory_pool.hpp\<close>.
  \<^item> \<open>Market_Data_Recorder\<close>: recorder, replayer and file format of \<open>persistence/market_data_recorder\<close>.
  \<^item> \<open>Websocket_Connector\<close>, \<open>Exchange_Connectors\<close>, \<open>Connection_Manager\<close>: \<open>exchange\<close>.
  \<^item> \<open>Message_Formatter\<close>, \<open>Rest_Api_Server\<close>, \<open>Websocket_Server\<close>, \<open>Frontend_Rest_Server\<close>, \<open>Frontend_Websocket_Server\<close>: \<open>network\<close>;
    \<open>Time_Utils\<close>: \<open>utils/time_utils\<close>. Below them \<open>String_Ops\<close>: the members of \<open>std::string\<close> they use; \<open>Json_Text\<close> and \<open>Http_Text\<close>:
    readers of JSON documents and HTTP responses, against which the texts are specified.
  \<^item> \<open>Configuration_Manager\<close>: \<open>config\<close>. \<open>Cpu_Affinity\<close>, \<open>System_Tuning\<close>: the files of these names in \<open>utils\<close>, as compiled for Linux;
    \<open>Numa_Memory\<close>: the allocation functions of the second one. \<open>Windows_Affinity\<close>: the branches of the first one for Windows.
  \<^item> \<open>Market_Data_Server\<close>: \<open>server_main.cpp\<close> with the threads of the two frontend servers. \<open>Demo_Program\<close>: \<open>main.cpp\<close>.
  \<^item> This theory: the recorder or a connector in front of the order book manager.

  \<^bold>\<open>State and steps.\<close> A class is a record of its fields, a member function a function on that record which returns the
  new state beside its result. Mutexes are held for a whole function, which is then one step; where the code works
  with atomics instead (sequence lock, lock-free queue, memory pool), the step relation interleaves the single atomic
  actions, taken as sequentially consistent. Calls of a user's callback are part of a function's result.

  \<^bold>\<open>What is shown.\<close>
  \<^item> The order book is a pair of finite maps (refinement) as long as its price index keeps every probe chain whole, runs without
    undefined behaviour, caches the right best levels, and its snapshots are the best levels in order, those of the maps. The manager keeps this for
    each symbol.
  \<^item> The merged views, crossed-quote search and routing of the cross-exchange book agree with the maps it stands for; the monitor
    and the sliding windows of the analytics keep their invariants, and the sums equal those over the window.
  \<^item> Ring buffer and lock-free queue are FIFO lists, the memory pool is a map of living objects, a validated read under the
    sequence lock is consistent, the limiter's count is bounded, percentiles are order statistics.
  \<^item> A recording is complete and comes back from a replay, and the replay loops end on every file. Connectors report
    every level of a well-formed message and restore their subscriptions; the manager stops its threads.
  \<^item> What the servers send is well-formed: every answer of the REST servers reads as an HTTP response, and the JSON of books,
    updates and trades reads back as their values. Broadcasts reach exactly the subscribers, and a session writes what it is given in
    order. A time stamp comes back from its ISO 8601 text up to the offset of the zone.
  \<^item> A saved configuration loads again, up to the settings that are not saved; variables are replaced in one pass. The
    lists of isolated cores are read as written, the affinity guard puts its thread back, and a block in huge pages is new, has every page
    touched and is given back whole.
  \<^item> In every run of the market data server, under any order of its threads' steps, the REST server knows the last book that was sent, the
    books of a symbol are numbered without a gap, the metrics count the messages, and after a signal the loop ends within ten steps. The
    demonstration prints the text that the theorem spells out.
  \<^item> Where the code does not do what it means to, a theorem exhibits it: the book that keeps a removed level, the self-deadlock of
    the cross-exchange book, the queue that reads a deleted node, the reconnection that never happens, the thread that is
    destroyed while joinable, the destructor that throws, the request that is never granted.

  \<^bold>\<open>Parameters.\<close> Code outside the repository is an argument: clocks, the functions of the JSON parser (\<open>sj\<close>), the answers of the
  WebSocket client, the results of socket calls, the offset of the local time zone, the YAML library, the environment, the calls and the files of the kernel and of the NUMA library, the random number engine, the order of an unordered map, whether a file opens, \<open>std::log2\<close> and \<open>std::pow\<close>. So are an enumerator \<open>Side::BUY\<close> that the code uses and
  does not declare, and the value of a field the code leaves uninitialised.

  \<^bold>\<open>Bounds and loops.\<close> Loops are structural or have a measure, with these exceptions. The search loop of the price index and
  the read loop of \<open>get_snapshot\<close> have the bound or the exit the code gives them. The loops of the replayer
  have as fuel the number of bytes of the file plus one, which is enough because each turn that goes on has read at least one byte
  (\<open>replay_terminates\<close>). The JSON reader has the length of the text as the bound of its depth, which no
  document exceeds. \<open>acquire\<close>, \<open>try_acquire_for\<close> and the loop that deletes a chain of queue nodes, and those over a range of cores and over the pages of a block, are partial functions: \<open>None\<close> is a call that
  does not return, and \<open>lfq_destroy_returns\<close> shows that the destructor does return, \<open>core_loop_range\<close> and \<open>prefault_touches_pages\<close> when the other two do.

  \<^bold>\<open>Not modelled.\<close> The other branches for Windows, which open and close sockets in another way, the branches that only report that a platform is not supported, the reading of the time stamp counter, the log, the contexts of the TLS connections, and in the
  market data server the banners on the console and the catch block of \<open>main\<close>, which nothing that is modelled reaches. The weak memory orders of the
  atomics and the timing of threads are left out.
\<close>

section \<open>Recording, replaying and the books\<close>


lemma process_update_id [simp]: "process_update (u\<lparr>up_update_id := n\<rparr>) clock g = process_update u clock g"
  by (simp add: process_update_def cong: option.case_cong if_cong)




section \<open>From a message to a book\<close>

text \<open>
  C13. What a Binance depth message does to the book of its symbol when the connector's callback
  hands the update to a manager: if all its numbers can be read and its prices are at least one unit, the callback
  gets one update, the manager accepts it, the book becomes the result of applying the bids and then the asks of the message one
  after the other, it keeps the book invariant with the right best levels, and no other book changes.
\<close>

theorem depth_message_updates_book:
  assumes "sj_parse sj msg = Inr json" and "sj_at_key sj json ''e'' = Inr je" and "sj_get_string sj je = Inr ''depthUpdate''"
    and "sj_at_key sj json ''s'' = Inr js" and "sj_get_string sj js = Inr symbol"
    and "sj_at_key sj json ''b'' = Inr jb" and "sj_get_array sj jb = Inr bids"
    and "sj_at_key sj json ''a'' = Inr ja" and "sj_get_array sj ja = Inr asks"
    and "\<forall>x \<in> set (bids @ asks). shaped sj x \<and> readable sj x" and "ws_orderbook_callback c"
    and "mgr_reachable g" and "map_of (mg_order_books g) symbol = Some b"
    and "ops = side_ops BID (map (level_at sj) bids) clock 0 @ side_ops ASK (map (level_at sj) asks) clock (length bids)"
    and "list_all op_ok ops"
  shows "\<exists>u rs b' calls g'. binance_on_message sj now msg c = Inr ([Orderbook_callback u], c) \<and>
    process_update u clock g = Inr (True, calls, g') \<and> book_run ops b = Inr (rs, b') \<and>
    map_of (mg_order_books g') = (map_of (mg_order_books g))(symbol \<mapsto> b') \<and> book_inv b' \<and>
    (occupied (ob_bids b') \<noteq> [] \<longrightarrow>
       pl_price (ob_bids b' ! ob_best_bid_idx b') = Max (pl_price ` set (occupied (ob_bids b')))) \<and>
    (occupied (ob_asks b') \<noteq> [] \<longrightarrow>
       pl_price (ob_asks b' ! ob_best_ask_idx b') = Min (pl_price ` set (occupied (ob_asks b'))))"
proof -
  let ?u = "\<lparr>up_exchange = BINANCE, up_symbol = symbol, up_timestamp = now, up_update_id = 0,
    up_bids = map (level_at sj) bids, up_asks = map (level_at sj) asks\<rparr>"
  have "binance_on_message sj now msg c = Inr ([Orderbook_callback ?u], c)"
    using binance_depth_message [OF assms(1-9) _ assms(11), of now] assms(10) by simp
  moreover have o: "update_ops ?u clock = ops" by (simp add: update_ops_def assms(14))
  moreover obtain rs b' calls g' where p: "book_run ops b = Inr (rs, b')" "book_reachable DEFAULT_MAX_LEVELS b'"
      "process_update ?u clock g = Inr (True, calls, g')"
      "map_of (mg_order_books g') = (map_of (mg_order_books g))(symbol \<mapsto> b')"
    using process_update_known [OF assms(12), of ?u clock b] assms(13,15) o by auto
  ultimately show ?thesis
    using best_levels [OF DEFAULT_less p(2)] reachable_sides(1) [OF p(2) DEFAULT_less] by (auto split: if_splits)
qed

text \<open>Witness of C13: a bid at 25 and an ask at 26 for a new book.\<close>

theorem depth_message_updates_book_witness:
  "\<exists>u calls g'. binance_on_message (tree_json (\<lambda>_. Inr depth_json)) 7 ''...'' (ws_set_orderbook_callback True (BinanceConnector_new False)) =
      Inr ([Orderbook_callback u], ws_set_orderbook_callback True (BinanceConnector_new False)) \<and>
    process_update u (\<lambda>_. 9) (snd (create_order_book ''BTCUSDT'' 5 OrderBookManager_new)) = Inr (True, calls, g')"
proof -
  let ?sj = "tree_json (\<lambda>_. Inr depth_json)" and ?c = "ws_set_orderbook_callback True (BinanceConnector_new False)"
  let ?b = "JArray [JString ''25'', JString ''1'']" and ?a = "JArray [JString ''26'', JString ''3'']"
  let ?g = "snd (create_order_book ''BTCUSDT'' 5 OrderBookManager_new)"
  let ?ops = "side_ops BID (map (level_at ?sj) [?b]) (\<lambda>_. 9) 0 @ side_ops ASK (map (level_at ?sj) [?a]) (\<lambda>_. 9) (length [?b])"
  have p: "number_at ?sj ?b 0 = Some (Fin 25)" "number_at ?sj ?b 1 = Some (Fin 1)"
      "number_at ?sj ?a 0 = Some (Fin 26)" "number_at ?sj ?a 1 = Some (Fin 3)"
    by (simp_all add: number_at_def text_at_def stod_small)
  have d: "double_to_fixed (Fin 25) = Inr 2500000000" "double_to_fixed (Fin 26) = Inr 2600000000" "double_to_fixed (Fin 3) = Inr 300000000"
    using double_to_fixed_nat [of 25] double_to_fixed_nat [of 26] double_to_fixed_nat [of 3] by simp_all
  have "\<forall>x \<in> set ([?b] @ [?a]). shaped ?sj x \<and> readable ?sj x" using p by (simp add: shaped_def readable_def)
  moreover have "ws_orderbook_callback ?c" by (simp add: ws_set_orderbook_callback_def)
  moreover have "mgr_reachable ?g" by (rule mg_create [OF mg_new])
  moreover obtain b where "map_of (mg_order_books ?g) ''BTCUSDT'' = Some b"
    by (simp add: create_order_book_def OrderBookManager_new_def)
  moreover have "list_all op_ok ?ops" using p by (simp add: level_at_def op_ok_def double_to_fixed_whole d)
  ultimately show ?thesis
    using depth_message_updates_book [of ?sj "''...''" depth_json "JString ''depthUpdate''" "JString ''BTCUSDT''" "''BTCUSDT''"
        "JArray [?b]" "[?b]" "JArray [?a]" "[?a]" ?c ?g b ?ops "\<lambda>_. 9" 7]
    by (simp add: depth_json_def del: side_ops.simps) blast
qed

end
